(* ===== verification/Enki_Prelude.thy ===== *)
theory Enki_Prelude
  imports "HOL-Library.Word" "HOL-Library.Monad_Syntax"
begin

unbundle bit_operations_syntax

text \<open>
  Shared vocabulary of the development: machine integer types, the byte memory with its
  32-bit loads and stores, C's truncating division, the configuration constants of
  \<^verbatim>\<open>kernel/include/kernel/config.h\<close> and the status codes of \<^verbatim>\<open>kernel/include/kernel/status.h\<close>, and the
  generic lemmas on words and memory the component theories share.

  Conventions. Pointers, \<^verbatim>\<open>uint32_t\<close> and \<^verbatim>\<open>size_t\<close> are \<open>32 word\<close> (the target is i686), so their
  arithmetic wraps. A C \<^verbatim>\<open>int\<close> is an \<open>int\<close>; a conversion from an unsigned value is \<open>sint\<close>,
  and a sum or product that can leave the range of 32 bits is wrapped by \<open>i32\<close>. A loop counter
  bounded by its own guard is a \<open>nat\<close>. A function that may not return (an unbounded loop,
  a panic) or that reads outside an object has a result of type \<open>'a option\<close>, where \<open>None\<close>
  says that there is no defined return.
\<close>

section \<open>Types\<close>

type_synonym u8 = "8 word"
type_synonym u16 = "16 word"
type_synonym u32 = "32 word"

type_synonym memory = "u32 \<Rightarrow> u8"

named_theorems mem_simps \<open>reading back what a memory operation wrote\<close>
named_theorems config_simps \<open>numeric values of the configuration constants\<close>

section \<open>Configuration constants and status codes\<close>

definition ENKI_HEAP_BLOCK_SIZE :: int where [config_simps]: "ENKI_HEAP_BLOCK_SIZE = 4096"
definition ENKI_HEAP_ADDRESS :: u32 where [config_simps]: "ENKI_HEAP_ADDRESS = 0x01000000"
definition ENKI_HEAP_SIZE_BYTES :: int where [config_simps]: "ENKI_HEAP_SIZE_BYTES = 1024 * 1024 * 100"
definition ENKI_HEAP_TABLE_ADDRESS :: u32 where [config_simps]: "ENKI_HEAP_TABLE_ADDRESS = 0x00007E00"

definition EIO :: int where [config_simps]: "EIO = 1"
definition EINVARG :: int where [config_simps]: "EINVARG = 2"
definition ENOMEM :: int where [config_simps]: "ENOMEM = 3"
definition EBADPATH :: int where [config_simps]: "EBADPATH = 4"
definition EFSNOTUS :: int where [config_simps]: "EFSNOTUS = 5"
definition ERDONLY :: int where [config_simps]: "ERDONLY = 6"
definition EUNIMP :: int where [config_simps]: "EUNIMP = 7"
definition EISTKN :: int where [config_simps]: "EISTKN = 8"
definition EINVFMT :: int where [config_simps]: "EINVFMT = 9"

section \<open>C integers\<close>

definition i32 :: "int \<Rightarrow> int" where
  "i32 x = signed_take_bit 31 x"

definition c_div :: "int \<Rightarrow> int \<Rightarrow> int" where
  "c_div a b = sgn a * sgn b * (\<bar>a\<bar> div \<bar>b\<bar>)"

definition c_mod :: "int \<Rightarrow> int \<Rightarrow> int" where
  "c_mod a b = a - b * c_div a b"

section \<open>Byte memory\<close>

text \<open>Little-endian 16-bit and 32-bit accesses, as the i686 target makes them.\<close>

definition load32 :: "memory \<Rightarrow> u32 \<Rightarrow> u32" where
  "load32 m a = ucast (m a) OR push_bit 8 (ucast (m (a + 1))) OR
     push_bit 16 (ucast (m (a + 2))) OR push_bit 24 (ucast (m (a + 3)))"

definition store32 :: "memory \<Rightarrow> u32 \<Rightarrow> u32 \<Rightarrow> memory" where
  "store32 m a v = m(a := ucast v, a + 1 := ucast (drop_bit 8 v),
     a + 2 := ucast (drop_bit 16 v), a + 3 := ucast (drop_bit 24 v))"

definition load16 :: "memory \<Rightarrow> u32 \<Rightarrow> u16" where
  "load16 m a = ucast (m a) OR push_bit 8 (ucast (m (a + 1)))"

definition store16 :: "memory \<Rightarrow> u32 \<Rightarrow> u16 \<Rightarrow> memory" where
  "store16 m a v = m(a := ucast v, a + 1 := ucast (drop_bit 8 v))"

section \<open>Lemmas\<close>

lemma i32_id [simp]: "- (2 ^ 31) \<le> x \<Longrightarrow> x < 2 ^ 31 \<Longrightarrow> i32 x = x"
  unfolding i32_def by (rule signed_take_bit_int_eq_self) simp_all

lemma c_div_nonneg [simp]: "0 \<le> a \<Longrightarrow> 0 < b \<Longrightarrow> c_div a b = a div b"
  by (cases "a = 0") (simp_all add: c_div_def)

lemma c_mod_nonneg [simp]: "0 \<le> a \<Longrightarrow> 0 < b \<Longrightarrow> c_mod a b = a mod b"
  by (simp add: c_mod_def minus_mult_div_eq_mod)

lemma bytes_of_word32:
  "ucast (ucast v :: u8) OR push_bit 8 (ucast (ucast (drop_bit 8 v) :: u8)) OR
   push_bit 16 (ucast (ucast (drop_bit 16 v) :: u8)) OR
   push_bit 24 (ucast (ucast (drop_bit 24 v) :: u8)) = (v :: u32)" (is "?l = _")
proof (rule bit_word_eqI)
  fix n assume n: "n < LENGTH(32)"
  show "bit ?l n = bit v n"
  proof (cases "24 \<le> n")
    case True
    with n show ?thesis
      by (auto simp: bit_or_iff bit_push_bit_iff bit_unsigned_iff bit_drop_bit_eq)
  next
    case False
    with n show ?thesis
      by (cases "16 \<le> n") (auto simp: bit_or_iff bit_push_bit_iff bit_unsigned_iff bit_drop_bit_eq)
  qed
qed

lemma load32_store32_same [mem_simps]: "load32 (store32 m a v) a = v"
  by (simp add: load32_def store32_def bytes_of_word32)

lemma unat_u32_bound: "unat (a :: u32) < 2 ^ 32"
  using unsigned_less [of a, where ?'a = nat] by simp

lemma unat_add_aligned:
  fixes p :: u32
  assumes "d dvd unat p" "k < d" "d dvd 2 ^ 32"
  shows "unat (p + of_nat k) = unat p + k"
proof -
  from assms obtain q r where q: "unat p = d * q" and r: "2 ^ 32 = d * r"
    by (auto elim!: dvdE)
  have "d * q < d * r" using q r unat_u32_bound [of p] by simp
  then have "q + 1 \<le> r" by simp
  then have "d * (q + 1) \<le> d * r" by (rule mult_le_mono2)
  with assms q r have "unat p + k < 2 ^ 32" by simp
  then show ?thesis by (simp add: unat_word_ariths unat_of_nat)
qed

lemma aligned4_disjoint:
  fixes a b :: u32
  assumes "4 dvd unat a" "4 dvd unat b" "a \<noteq> b" "i < 4" "j < 4"
  shows "a + of_nat i \<noteq> b + of_nat j"
proof
  assume "a + of_nat i = b + of_nat j"
  then have "unat a + i = unat b + j"
    using unat_add_aligned [OF assms(1,4)] unat_add_aligned [OF assms(2,5)] by simp
  then have "unat a = unat b" using assms by presburger
  with assms(3) show False by (simp add: word_unat_eq_iff)
qed

lemma aligned4_neqs:
  fixes a b :: u32
  assumes "4 dvd unat a" "4 dvd unat b" "a \<noteq> b"
  shows "\<And>i j. i \<in> {0,1,2,3} \<Longrightarrow> j \<in> {0,1,2,3} \<Longrightarrow> a + i \<noteq> b + j"
proof -
  fix i j :: u32 assume "i \<in> {0,1,2,3}" "j \<in> {0,1,2,3}"
  then have "i = of_nat (unat i)" "j = of_nat (unat j)" "unat i < 4" "unat j < 4" by auto
  then show "a + i \<noteq> b + j" using aligned4_disjoint [OF assms, of "unat i" "unat j"] by metis
qed

lemma store32_frame: "x \<notin> {a, a + 1, a + 2, a + 3} \<Longrightarrow> store32 m a v x = m x"
  by (simp add: store32_def)

lemma load32_cong:
  "(\<And>i. i \<in> {0, 1, 2, 3} \<Longrightarrow> m (b + i) = m' (b + i)) \<Longrightarrow> load32 m b = load32 m' b"
  unfolding load32_def by (metis add.right_neutral insertI1 insertI2)

lemma load32_store32_other [mem_simps]:
  assumes "4 dvd unat a" "4 dvd unat b" "a \<noteq> b"
  shows "load32 (store32 m a v) b = load32 m b"
proof (rule load32_cong, rule store32_frame)
  fix i :: u32 assume "i \<in> {0, 1, 2, 3}"
  then show "b + i \<notin> {a, a + 1, a + 2, a + 3}"
    using aligned4_neqs [OF assms] by (metis add.right_neutral insertE insertI1 insertI2 singletonD)
qed

lemma unat_of_nat_u32 [simp]: "k < 2 ^ 32 \<Longrightarrow> unat (of_nat k :: u32) = k"
  by (simp add: unat_of_nat)

lemma uint_of_nat_u32 [simp]: "k < 2 ^ 32 \<Longrightarrow> uint (of_nat k :: u32) = int k"
  by (metis uint_nat unat_of_nat_u32)

lemma less_of_nat_u32: "a < 2 ^ 32 \<Longrightarrow> b < 2 ^ 32 \<Longrightarrow> (of_nat a :: u32) < of_nat b \<longleftrightarrow> a < b"
  by (simp only: word_less_nat_alt unat_of_nat_u32)

lemma u32_offset_iff: "k < 2 ^ 32 \<Longrightarrow> a = p + of_nat k \<longleftrightarrow> unat (a - p) = k" for a p :: u32
  by (metis add_diff_cancel_left' diff_add_cancel add.commute unat_of_nat_u32 of_nat_unat ucast_id)

lemma sint_eq_0_iff [simp]: "sint (x :: 'a::len word) = 0 \<longleftrightarrow> x = 0"
  by (metis sint_0 signed_word_eqI)

lemma sint_eq_iff: "sint x = sint y \<longleftrightarrow> x = (y :: 'a::len word)"
  by (metis signed_word_eqI)

lemma sint_u32_small: "uint w < 2 ^ 31 \<Longrightarrow> sint (w :: u32) = uint w"
  using signed_take_bit_int_eq_self [of 31 "uint w"] by (simp add: sint_uint order_trans [OF _ uint_nonnegative])

lemma sint_of_nat_u32 [simp]: "k < 2 ^ 31 \<Longrightarrow> sint (of_nat k :: u32) = int k"
  by (subst sint_u32_small) simp_all

lemma sint_u32_big: "2 ^ 31 \<le> uint w \<Longrightarrow> sint (w :: u32) < 0"
proof -
  assume w: "2 ^ 31 \<le> uint w"
  have "(uint w + 2 ^ 31) mod 2 ^ 32 = uint w - 2 ^ 31"
    using w uint_bounded [of w] by (simp add: mod_pos_geq mod_pos_pos_trivial)
  then show ?thesis using uint_bounded [of w] by (simp add: sint_uint signed_take_bit_eq_take_bit_shift take_bit_eq_mod)
qed

lemma uint_word_of_int_u32: "0 \<le> x \<Longrightarrow> x < 2 ^ 32 \<Longrightarrow> uint (word_of_int x :: u32) = x"
  by (simp add: uint_word_of_int)

end
