(* ===== verification/Alloc_Interface.thy ===== *)
theory Alloc_Interface
  imports Enki_Prelude
begin

text \<open>
  The contract between the block allocator and its clients. An allocator state is seen through
  the set of its live allocations, each an address with a number of blocks of 4096 bytes, the
  number of blocks that are free, and whether a run of \<open>n\<close> free blocks exists. The laws say what
  \<open>malloc\<close> and \<open>free\<close> do to that view; the lemmas of the locale are what clients use.
\<close>

definition blocks_for :: "u32 \<Rightarrow> nat" where
  "blocks_for sz = (unat sz + 4095) div 4096"

definition extent :: "u32 \<Rightarrow> nat \<Rightarrow> u32 set" where
  "extent p k = {a. unat (a - p) < k * 4096}"

lemma blocks_for_page: "0 < unat sz \<Longrightarrow> unat sz \<le> 4096 \<Longrightarrow> blocks_for sz = 1"
  unfolding blocks_for_def by (intro div_nat_eqI) auto

lemma extent_interval:
  assumes "unat p + k * 4096 \<le> 2 ^ 32"
  shows "a \<in> extent p k \<longleftrightarrow> unat p \<le> unat a \<and> unat a < unat p + k * 4096"
  using assms unat_u32_bound [of a] unat_u32_bound [of p]
  by (auto simp: extent_def unat_sub_if' split: if_splits)

lemma mem_extent_self: "0 < k \<Longrightarrow> p \<in> extent p k"
  by (simp add: extent_def)

locale block_allocator =
  fixes inv :: "'h \<Rightarrow> bool"
    and allocs :: "'h \<Rightarrow> (u32 \<times> nat) set"
    and fits :: "'h \<Rightarrow> nat \<Rightarrow> bool"
    and avail :: "'h \<Rightarrow> nat"
    and malloc :: "'h \<Rightarrow> u32 \<Rightarrow> u32 \<times> 'h"
    and free :: "'h \<Rightarrow> u32 \<Rightarrow> 'h"
  assumes malloc_inv:
      "inv h \<Longrightarrow> 0 < unat sz \<Longrightarrow> unat sz \<le> 2 ^ 32 - 4096 \<Longrightarrow> fits h (blocks_for sz) \<Longrightarrow>
       malloc h sz = (p, h') \<Longrightarrow> inv h'"
    and malloc_allocs:
      "inv h \<Longrightarrow> 0 < unat sz \<Longrightarrow> unat sz \<le> 2 ^ 32 - 4096 \<Longrightarrow> fits h (blocks_for sz) \<Longrightarrow>
       malloc h sz = (p, h') \<Longrightarrow> allocs h' = insert (p, blocks_for sz) (allocs h)"
    and malloc_fresh:
      "inv h \<Longrightarrow> 0 < unat sz \<Longrightarrow> unat sz \<le> 2 ^ 32 - 4096 \<Longrightarrow> fits h (blocks_for sz) \<Longrightarrow>
       malloc h sz = (p, h') \<Longrightarrow> (q, k) \<in> allocs h \<Longrightarrow> extent p (blocks_for sz) \<inter> extent q k = {}"
    and malloc_avail:
      "inv h \<Longrightarrow> 0 < unat sz \<Longrightarrow> unat sz \<le> 2 ^ 32 - 4096 \<Longrightarrow> fits h (blocks_for sz) \<Longrightarrow>
       malloc h sz = (p, h') \<Longrightarrow> avail h' + blocks_for sz = avail h"
    and allocs_addr:
      "inv h \<Longrightarrow> (p, k) \<in> allocs h \<Longrightarrow> p \<noteq> 0 \<and> 4096 dvd unat p \<and> 0 < k \<and> unat p + k * 4096 \<le> 2 ^ 32"
    and avail_fits: "inv h \<Longrightarrow> 0 < avail h \<Longrightarrow> fits h 1"
    and free_inv: "inv h \<Longrightarrow> (p, k) \<in> allocs h \<Longrightarrow> inv (free h p)"
    and free_allocs: "inv h \<Longrightarrow> (p, k) \<in> allocs h \<Longrightarrow> allocs (free h p) = allocs h - {(p, k)}"
    and free_avail: "inv h \<Longrightarrow> (p, k) \<in> allocs h \<Longrightarrow> avail (free h p) = avail h + k"
    and allocs_disjoint:
      "inv h \<Longrightarrow> (p, k) \<in> allocs h \<Longrightarrow> (q, l) \<in> allocs h \<Longrightarrow> p \<noteq> q \<Longrightarrow> extent p k \<inter> extent q l = {}"
    and fits_mono: "fits h n \<Longrightarrow> m \<le> n \<Longrightarrow> fits h m"
    and malloc_fits:
      "inv h \<Longrightarrow> 0 < unat sz \<Longrightarrow> unat sz \<le> 2 ^ 32 - 4096 \<Longrightarrow> fits h (blocks_for sz + n) \<Longrightarrow>
       malloc h sz = (p, h') \<Longrightarrow> fits h' n"
    and free_fits: "inv h \<Longrightarrow> (p, k) \<in> allocs h \<Longrightarrow> fits h n \<Longrightarrow> fits (free h p) n"
    and free_malloc_fits:
      "inv h \<Longrightarrow> 0 < unat sz \<Longrightarrow> unat sz \<le> 2 ^ 32 - 4096 \<Longrightarrow> fits h (blocks_for sz) \<Longrightarrow>
       malloc h sz = (p, h') \<Longrightarrow> fits h n \<Longrightarrow> fits (free h' p) n"
begin

lemma malloc_new:
  assumes "inv h" "0 < unat sz" "unat sz \<le> 2 ^ 32 - 4096" "fits h (blocks_for sz)" "malloc h sz = (p, h')"
  shows "(p, k) \<notin> allocs h"
proof
  assume k: "(p, k) \<in> allocs h"
  have "0 < k" using allocs_addr [OF assms(1) k] by simp
  moreover have "0 < blocks_for sz" using assms(2) by (simp add: blocks_for_def div_greater_zero_iff)
  ultimately show False using malloc_fresh [OF assms k] mem_extent_self by blast
qed

text \<open>Releasing what was just allocated gives back the same live allocations and free blocks.\<close>

lemma free_malloc:
  assumes "inv h" "0 < unat sz" "unat sz \<le> 2 ^ 32 - 4096" "fits h (blocks_for sz)" "malloc h sz = (p, h')"
  shows "inv (free h' p) \<and> allocs (free h' p) = allocs h \<and> avail (free h' p) = avail h"
proof -
  have live: "(p, blocks_for sz) \<in> allocs h'" using malloc_allocs [OF assms] by simp
  have "allocs (free h' p) = insert (p, blocks_for sz) (allocs h) - {(p, blocks_for sz)}"
    using free_allocs [OF malloc_inv [OF assms] live] malloc_allocs [OF assms] by simp
  also have "\<dots> = allocs h" using malloc_new [OF assms] by blast
  finally show ?thesis
    using free_inv [OF malloc_inv [OF assms] live] free_avail [OF malloc_inv [OF assms] live] malloc_avail [OF assms]
    by simp
qed

text \<open>A request of at most one block succeeds whenever a block is free.\<close>

lemma malloc_page:
  assumes "inv h" "0 < unat sz" "unat sz \<le> 4096" "0 < avail h" "malloc h sz = (p, h')"
  shows "inv h' \<and> allocs h' = insert (p, 1) (allocs h) \<and> (\<forall>k. (p, k) \<notin> allocs h) \<and>
    p \<noteq> 0 \<and> 4096 dvd unat p \<and> avail h' + 1 = avail h"
proof -
  have blocks: "blocks_for sz = 1" using assms(2,3) by (rule blocks_for_page)
  have pre: "inv h" "0 < unat sz" "unat sz \<le> 2 ^ 32 - 4096" "fits h (blocks_for sz)"
    using assms avail_fits blocks by auto
  have inv': "inv h'" using malloc_inv [OF pre assms(5)] .
  moreover have "allocs h' = insert (p, 1) (allocs h)" using malloc_allocs [OF pre assms(5)] blocks by simp
  moreover from this have "p \<noteq> 0 \<and> 4096 dvd unat p" using allocs_addr [OF inv', of p 1] by simp
  ultimately show ?thesis
    using malloc_new [OF pre assms(5)] malloc_avail [OF pre assms(5)] blocks by simp
qed

text \<open>
  A state that carries an allocator as the part \<open>f\<close> is an allocator too, when its operations act
  on that part as the allocator does.
\<close>

lemma transport:
  assumes m: "\<And>s sz p s'. malloc' s sz = (p, s') \<Longrightarrow> malloc (f s) sz = (p, f s')"
    and fr: "\<And>s p. f (free' s p) = free (f s) p"
  shows "block_allocator (\<lambda>s. inv (f s)) (\<lambda>s. allocs (f s)) (\<lambda>s. fits (f s)) (\<lambda>s. avail (f s)) malloc' free'"
proof (rule block_allocator.intro)
  show "inv (f s')" if "inv (f s)" "0 < unat sz" "unat sz \<le> 2 ^ 32 - 4096" "fits (f s) (blocks_for sz)" "malloc' s sz = (p, s')"
    for s sz p s' by (rule malloc_inv [OF that(1-4) m [OF that(5)]])
  show "allocs (f s') = insert (p, blocks_for sz) (allocs (f s))"
    if "inv (f s)" "0 < unat sz" "unat sz \<le> 2 ^ 32 - 4096" "fits (f s) (blocks_for sz)" "malloc' s sz = (p, s')"
    for s sz p s' by (rule malloc_allocs [OF that(1-4) m [OF that(5)]])
  show "extent p (blocks_for sz) \<inter> extent q k = {}"
    if "inv (f s)" "0 < unat sz" "unat sz \<le> 2 ^ 32 - 4096" "fits (f s) (blocks_for sz)" "malloc' s sz = (p, s')"
      "(q, k) \<in> allocs (f s)"
    for s sz p s' q k by (rule malloc_fresh [OF that(1-4) m [OF that(5)] that(6)])
  show "avail (f s') + blocks_for sz = avail (f s)"
    if "inv (f s)" "0 < unat sz" "unat sz \<le> 2 ^ 32 - 4096" "fits (f s) (blocks_for sz)" "malloc' s sz = (p, s')"
    for s sz p s' by (rule malloc_avail [OF that(1-4) m [OF that(5)]])
  show "fits (f s) k" if "fits (f s) n" "k \<le> n" for s n k by (rule fits_mono [OF that])
  show "fits (f s') n"
    if "inv (f s)" "0 < unat sz" "unat sz \<le> 2 ^ 32 - 4096" "fits (f s) (blocks_for sz + n)" "malloc' s sz = (p, s')"
    for s sz p s' n by (rule malloc_fits [OF that(1-4) m [OF that(5)]])
  show "fits (f (free' s' p)) n"
    if "inv (f s)" "0 < unat sz" "unat sz \<le> 2 ^ 32 - 4096" "fits (f s) (blocks_for sz)" "malloc' s sz = (p, s')" "fits (f s) n"
    for s sz p s' n unfolding fr by (rule free_malloc_fits [OF that(1-4) m [OF that(5)] that(6)])
qed (use allocs_addr avail_fits free_inv free_allocs free_avail allocs_disjoint free_fits in \<open>simp_all add: fr\<close>)

end

text \<open>
  An allocator whose allocations stay inside a fixed region of memory. What lies outside the region
  or in a live allocation is protected: a new allocation never covers it.
\<close>

locale region_allocator = block_allocator +
  fixes region :: "'a \<Rightarrow> u32 set"
  assumes allocs_region: "inv h \<Longrightarrow> (p, k) \<in> allocs h \<Longrightarrow> extent p k \<subseteq> region h"
    and malloc_region: "malloc h sz = (p, h') \<Longrightarrow> region h' = region h"
    and free_region: "region (free h p) = region h"
begin

lemma protected_malloc:
  assumes "inv h" "0 < unat sz" "unat sz \<le> 2 ^ 32 - 4096" "fits h (blocks_for sz)" "malloc h sz = (p, h')"
    and "a \<notin> region h \<or> (\<exists>q k. (q, k) \<in> allocs h \<and> a \<in> extent q k)"
  shows "a \<notin> extent p (blocks_for sz)" "a \<notin> region h' \<or> (\<exists>q k. (q, k) \<in> allocs h' \<and> a \<in> extent q k)"
proof -
  have "(p, blocks_for sz) \<in> allocs h'" using malloc_allocs [OF assms(1-5)] by simp
  then have "extent p (blocks_for sz) \<subseteq> region h"
    using allocs_region [OF malloc_inv [OF assms(1-5)]] malloc_region [OF assms(5)] by simp
  then show "a \<notin> extent p (blocks_for sz)" using assms(6) malloc_fresh [OF assms(1-5)] by blast
  show "a \<notin> region h' \<or> (\<exists>q k. (q, k) \<in> allocs h' \<and> a \<in> extent q k)"
    using assms(6) malloc_region [OF assms(5)] malloc_allocs [OF assms(1-5)] by auto
qed

lemma transport_region:
  assumes "\<And>s sz p s'. malloc' s sz = (p, s') \<Longrightarrow> malloc (f s) sz = (p, f s')"
    and "\<And>s p. f (free' s p) = free (f s) p"
  shows "region_allocator (\<lambda>s. inv (f s)) (\<lambda>s. allocs (f s)) (\<lambda>s. fits (f s)) (\<lambda>s. avail (f s)) malloc' free' (\<lambda>s. region (f s))"
  using transport [of malloc' f free', OF assms] allocs_region malloc_region [OF assms(1)] free_region assms(2)
  by (auto simp: region_allocator_def region_allocator_axioms_def)

end

end
