(* ===== verification/Heap_Proofs.thy ===== *)
theory Heap_Proofs
  imports Heap_Model
begin

unbundle bit_operations_syntax

text \<open>
  Correctness of the block allocator of \<open>Heap_Model\<close>: marking a free run and freeing an allocation
  change the set of allocations by exactly one, both keep the table well formed, and
  \<^verbatim>\<open>heap_malloc\<close> and \<^verbatim>\<open>heap_free\<close> interpret the allocator contract \<open>block_allocator\<close>. The properties of
  the component follow, with those that describe what happens outside the contract (no run long
  enough, a size that wraps).
\<close>

lemma alloc_at_entry:
  "alloc_at h i k \<Longrightarrow> i \<le> x \<Longrightarrow> x < i + k \<Longrightarrow> entries (table h) x = alloc_entry k (x - i)"
  by (auto simp: alloc_at_def dest: spec [of _ "x - i"])

lemma alloc_at_cong:
  assumes "tlength (table h') = tlength (table h)"
    and "\<And>x. i \<le> x \<Longrightarrow> x < i + k \<Longrightarrow> entries (table h') x = entries (table h) x"
  shows "alloc_at h' i k \<longleftrightarrow> alloc_at h i k"
  using assms by (auto simp: alloc_at_def)

lemma alloc_at_not_free:
  "alloc_at h i k \<Longrightarrow> i \<le> x \<Longrightarrow> x < i + k \<Longrightarrow> \<not> block_free (table h) x"
  using alloc_at_entry by (simp add: config_simps)

text \<open>Marking a free run taken adds exactly one allocation.\<close>

lemma alloc_at_mark_taken:
  assumes run: "free_run (table h) r n" and n: "1 \<le> n"
  defines "h' \<equiv> heap_mark_blocks_taken h r n"
  shows "alloc_at h' i k \<longleftrightarrow> i = r \<and> k = n \<or> alloc_at h i k"
proof -
  have new: "alloc_at h' r n"
    using run n by (auto simp: alloc_at_def free_run_def h'_def heap_mark_blocks_taken_entries)
  have old: "alloc_at h' i k \<longleftrightarrow> alloc_at h i k" if "\<forall>x. i \<le> x \<and> x < i + k \<longrightarrow> \<not> (r \<le> x \<and> x < r + n)"
    using that n by (intro alloc_at_cong) (auto simp: h'_def heap_mark_blocks_taken_entries)
  show ?thesis
  proof (cases "\<exists>x. i \<le> x \<and> x < i + k \<and> r \<le> x \<and> x < r + n")
    case True
    then obtain x where x: "i \<le> x" "x < i + k" "r \<le> x" "x < r + n" by blast
    then have "\<not> alloc_at h i k" using alloc_at_not_free [of h i k x] run by (auto simp: free_run_def)
    moreover have "alloc_at h' i k \<Longrightarrow> i = r \<and> k = n" using alloc_at_unique [OF _ new, of i k x] x by blast
    ultimately show ?thesis using new by blast
  next
    case False
    moreover from this have "\<not> (i = r \<and> k = n)" using n by fastforce
    ultimately show ?thesis using old by blast
  qed
qed

text \<open>Freeing an allocation removes exactly that allocation.\<close>

lemma alloc_at_mark_free:
  assumes a: "alloc_at h i k" and len: "heap_len h < 2 ^ 31"
  defines "h' \<equiv> heap_mark_blocks_free h i"
  shows "alloc_at h' j l \<longleftrightarrow> alloc_at h j l \<and> j \<noteq> i"
proof -
  have es: "entries (table h') x = (if i \<le> x \<and> x < i + k then HEAP_BLOCK_TABLE_ENTRY_FREE else entries (table h) x)" for x
    unfolding h'_def using a len by (rule heap_mark_blocks_free_entries)
  have len': "tlength (table h') = tlength (table h)" by (simp add: h'_def)
  have same: "alloc_at h' j l \<longleftrightarrow> alloc_at h j l" if "\<forall>x. j \<le> x \<and> x < j + l \<longrightarrow> \<not> (i \<le> x \<and> x < i + k)"
    using that len' by (intro alloc_at_cong) (auto simp: es)
  have i: "i \<le> i" "i < i + k" using a by (auto simp: alloc_at_def)
  show ?thesis
  proof (cases "\<exists>x. j \<le> x \<and> x < j + l \<and> i \<le> x \<and> x < i + k")
    case True
    then obtain x where x: "j \<le> x" "x < j + l" "i \<le> x" "x < i + k" by blast
    then have "\<not> alloc_at h' j l" using alloc_at_entry [of h' j l x] es [of x] by (auto simp: config_simps)
    moreover have "alloc_at h j l \<Longrightarrow> j = i" using alloc_at_unique [OF _ a] x by blast
    ultimately show ?thesis by blast
  next
    case False
    have "j \<noteq> i" if "alloc_at h j l"
      using False i that by (auto simp: alloc_at_def)
    with same False show ?thesis by blast
  qed
qed

lemma heap_len_bound: "heap_wf h \<Longrightarrow> heap_len h < 524288"
  by (auto simp: heap_wf_def config_simps)

text \<open>What \<open>heap_malloc\<close> does when a run of free blocks that is long enough exists.\<close>

lemma heap_malloc_run:
  assumes wf: "heap_wf h" and sz: "0 < unat sz" "unat sz \<le> 2 ^ 32 - 4096" and fit: "heap_fits h (blocks_for sz)"
  obtains r where "free_run (table h) r (int (blocks_for sz))" "1 \<le> int (blocks_for sz)"
    "heap_malloc h sz = (heap_block_to_address h r, heap_mark_blocks_taken h r (int (blocks_for sz)))"
    "\<And>s. free_run (table h) s (int (blocks_for sz)) \<Longrightarrow> r \<le> s"
proof -
  define n where "n = heap_align_val sz div 4096"
  define r where "r = heap_scan (table h) n 0 0 (-1)"
  have un: "uint n = int (blocks_for sz)"
    unfolding n_def using heap_malloc_total_blocks [OF sz(2)] by (simp add: uint_nat)
  have pos: "0 < blocks_for sz" using sz(1) by (simp add: blocks_for_def div_greater_zero_iff)
  have "scan_post (table h) (uint n) r"
    unfolding r_def using pos un by (intro heap_scan_post) (simp add: word_less_def)
  with fit have r: "free_run (table h) r (int (blocks_for sz))"
      "\<And>s. free_run (table h) s (int (blocks_for sz)) \<Longrightarrow> r \<le> s"
    by (auto simp: scan_post_def heap_fits_def un)
  then have "0 \<le> r" "r + uint n \<le> heap_len h" by (auto simp: free_run_def un)
  then have "uint n < 2 ^ 31" using heap_len_bound [OF wf] by simp
  then have "sint n = int (blocks_for sz)" using un sint_u32_small [of n] by simp
  with \<open>0 \<le> r\<close> have "heap_malloc h sz = (heap_block_to_address h r, heap_mark_blocks_taken h r (int (blocks_for sz)))"
    by (simp add: heap_malloc_def heap_malloc_blocks_def heap_get_start_block_def Let_def config_simps
        flip: n_def r_def)
  with r pos that show thesis by (metis int_one_le_iff_zero_less of_nat_0_less_iff)
qed

lemma heap_wf_mark_taken:
  assumes wf: "heap_wf h" and run: "free_run (table h) r n" and n: "1 \<le> n"
  shows "heap_wf (heap_mark_blocks_taken h r n)"
  unfolding heap_wf_def
proof (intro conjI allI impI)
  fix b assume b: "0 \<le> b \<and> b < heap_len (heap_mark_blocks_taken h r n)"
  show "entries (table (heap_mark_blocks_taken h r n)) b = HEAP_BLOCK_TABLE_ENTRY_FREE \<or>
    (\<exists>i k. alloc_at (heap_mark_blocks_taken h r n) i k \<and> i \<le> b \<and> b < i + k)"
  proof (cases "r \<le> b \<and> b < r + n")
    case True
    then show ?thesis using alloc_at_mark_taken [OF run n, of r n] by blast
  next
    case False
    then show ?thesis using wf b n
      by (auto simp: heap_wf_def heap_mark_blocks_taken_entries alloc_at_mark_taken [OF run n])
  qed
qed (use wf in \<open>auto simp: heap_wf_def\<close>)

lemma heap_wf_mark_free:
  assumes wf: "heap_wf h" and a: "alloc_at h i k"
  shows "heap_wf (heap_mark_blocks_free h i)"
  unfolding heap_wf_def
proof (intro conjI allI impI)
  have len: "heap_len h < 2 ^ 31" using heap_len_bound [OF wf] by simp
  fix b assume b: "0 \<le> b \<and> b < heap_len (heap_mark_blocks_free h i)"
  show "entries (table (heap_mark_blocks_free h i)) b = HEAP_BLOCK_TABLE_ENTRY_FREE \<or>
    (\<exists>j l. alloc_at (heap_mark_blocks_free h i) j l \<and> j \<le> b \<and> b < j + l)"
  proof (cases "i \<le> b \<and> b < i + k")
    case True
    then show ?thesis by (simp add: heap_mark_blocks_free_entries [OF a len])
  next
    case False
    have "entries (table h) b = HEAP_BLOCK_TABLE_ENTRY_FREE \<or> (\<exists>j l. alloc_at h j l \<and> j \<le> b \<and> b < j + l)"
      using wf b by (simp add: heap_wf_def)
    moreover have "alloc_at (heap_mark_blocks_free h i) j l" if "alloc_at h j l" "j \<le> b" "b < j + l" for j l
      using that False a alloc_at_same_start [of h i k l] by (auto simp: alloc_at_mark_free [OF a len])
    ultimately show ?thesis using False by (auto simp: heap_mark_blocks_free_entries [OF a len])
  qed
qed (use wf in \<open>auto simp: heap_wf_def\<close>)

lemma alloc_at_bounds: "alloc_at h i k \<Longrightarrow> 0 \<le> i \<and> i < heap_len h \<and> 1 \<le> k \<and> i + k \<le> heap_len h"
  by (auto simp: alloc_at_def)

lemma heap_block_to_address_cong [simp]:
  "heap_block_to_address (heap_mark_blocks_taken h r n) b = heap_block_to_address h b"
  "heap_block_to_address (heap_mark_blocks_free h i) b = heap_block_to_address h b"
  by (simp_all add: heap_block_to_address_def)

lemma heap_allocs_addr:
  assumes wf: "heap_wf h" and p: "(p, k) \<in> heap_allocs h"
  shows "p \<noteq> 0 \<and> 4096 dvd unat p \<and> 0 < k \<and> unat p + k * 4096 \<le> 2 ^ 32"
proof -
  from p obtain i where i: "p = heap_block_to_address h i" "alloc_at h i (int k)" by (auto simp: heap_allocs_def)
  note b = alloc_at_bounds [OF i(2)]
  have "uint p + int k * 4096 = uint (start_addr h) + (i + int k) * 4096"
    using uint_block_address [OF wf] b i(1) by (simp add: algebra_simps)
  also have "\<dots> \<le> uint (start_addr h) + heap_len h * 4096" using b by simp
  also have "\<dots> \<le> 2 ^ 32" using wf by (simp add: heap_wf_def config_simps)
  finally have "int (unat p + k * 4096) \<le> int (2 ^ 32)" by simp
  then have "unat p + k * 4096 \<le> 2 ^ 32" by (simp only: zle_int)
  with heap_block_address_nonzero [OF wf, of i] heap_block_address_aligned [OF wf, of i] b i(1)
  show ?thesis by simp
qed

lemma heap_extent_blocks:
  assumes wf: "heap_wf h" and b: "0 \<le> i" "1 \<le> k" "i + k \<le> heap_len h"
  shows "a \<in> extent (heap_block_to_address h i) (nat k) \<longleftrightarrow>
    uint (start_addr h) + i * 4096 \<le> uint a \<and> uint a < uint (start_addr h) + (i + k) * 4096"
proof -
  let ?p = "heap_block_to_address h i"
  have p: "uint ?p = uint (start_addr h) + i * 4096" using uint_block_address [OF wf] b by simp
  have "uint (start_addr h) + (i + k) * 4096 \<le> uint (start_addr h) + heap_len h * 4096" using b by simp
  also have "\<dots> \<le> 2 ^ 32" using wf by (simp add: heap_wf_def config_simps)
  finally have "uint ?p + k * 4096 \<le> 2 ^ 32" using p by (simp add: algebra_simps)
  then have "int (unat ?p + nat k * 4096) \<le> int (2 ^ 32)" using b by simp
  then have fits: "unat ?p + nat k * 4096 \<le> 2 ^ 32" by (simp only: zle_int)
  have "(unat ?p \<le> unat a) = (uint ?p \<le> uint a)" by (simp add: word_le_nat_alt flip: word_le_def)
  moreover have "(int (unat a) < int (unat ?p + nat k * 4096)) = (uint a < uint ?p + k * 4096)"
    using b by simp
  ultimately show ?thesis using extent_interval [OF fits, of a] p by (simp only: of_nat_less_iff) (simp add: algebra_simps)
qed

lemma heap_extents_disjoint:
  assumes wf: "heap_wf h" and a: "0 \<le> i" "1 \<le> k" "i + k \<le> heap_len h" and b: "0 \<le> j" "1 \<le> l" "j + l \<le> heap_len h"
    and disj: "i + k \<le> j \<or> j + l \<le> i"
  shows "extent (heap_block_to_address h i) (nat k) \<inter> extent (heap_block_to_address h j) (nat l) = {}"
  using disj by (auto simp: heap_extent_blocks [OF wf a] heap_extent_blocks [OF wf b])

lemma heap_allocs_mark_taken:
  assumes "heap_wf h" "free_run (table h) r (int n)" "1 \<le> int n"
  shows "heap_allocs (heap_mark_blocks_taken h r (int n)) =
    insert (heap_block_to_address h r, n) (heap_allocs h)"
  using alloc_at_mark_taken [OF assms(2,3)] by (auto simp: heap_allocs_def)

lemma heap_allocs_mark_free:
  assumes wf: "heap_wf h" and a: "alloc_at h i (int k)"
  shows "heap_allocs (heap_mark_blocks_free h i) = heap_allocs h - {(heap_block_to_address h i, k)}"
proof -
  have len: "heap_len h < 2 ^ 31" using heap_len_bound [OF wf] by simp
  have inj: "j = i" if "alloc_at h j l" "heap_block_to_address h j = heap_block_to_address h i" for j l
    using heap_block_address_inj [OF wf] that alloc_at_bounds [OF a] alloc_at_bounds [OF that(1)] by blast
  have key: "alloc_at (heap_mark_blocks_free h i) j (int l) \<longleftrightarrow>
      alloc_at h j (int l) \<and> (heap_block_to_address h j, l) \<noteq> (heap_block_to_address h i, k)" for j l
    using alloc_at_mark_free [OF a len] inj [of j "int l"] alloc_at_same_start [OF a, of "int l"] by auto
  show ?thesis unfolding heap_allocs_def key heap_block_to_address_cong by auto
qed

lemma finite_free_blocks: "finite (free_blocks h)"
  by (rule finite_subset [of _ "{0..<heap_len h}"]) auto

lemma heap_avail_mark_taken:
  assumes run: "free_run (table h) r n" and n: "1 \<le> n"
  shows "heap_avail (heap_mark_blocks_taken h r n) + nat n = heap_avail h"
proof -
  have "free_blocks (heap_mark_blocks_taken h r n) = free_blocks h - {r..<r + n}"
    using n by (auto simp: heap_mark_blocks_taken_entries config_simps)
  moreover have sub: "{r..<r + n} \<subseteq> free_blocks h" using run by (auto simp: free_run_def)
  ultimately have "card (free_blocks (heap_mark_blocks_taken h r n)) = card (free_blocks h) - nat n"
    by (simp add: card_Diff_subset)
  moreover have "nat n \<le> card (free_blocks h)" using card_mono [OF finite_free_blocks sub] by simp
  ultimately show ?thesis by (simp add: heap_avail_def)
qed

lemma heap_avail_mark_free:
  assumes wf: "heap_wf h" and a: "alloc_at h i k"
  shows "heap_avail (heap_mark_blocks_free h i) = heap_avail h + nat k"
proof -
  have len: "heap_len h < 2 ^ 31" using heap_len_bound [OF wf] by simp
  have "free_blocks (heap_mark_blocks_free h i) = free_blocks h \<union> {i..<i + k}"
    using alloc_at_bounds [OF a]
    by (auto simp: heap_mark_blocks_free_entries [OF a len] config_simps heap_get_entry_type_def)
  moreover have "free_blocks h \<inter> {i..<i + k} = {}" using alloc_at_not_free [OF a] by auto
  ultimately show ?thesis
    using card_Un_disjoint [OF finite_free_blocks, of "{i..<i + k}" h] by (simp add: heap_avail_def)
qed

lemma heap_free_alloc:
  assumes "heap_wf h" "alloc_at h i k" "p = heap_block_to_address h i"
  shows "heap_free h p = heap_mark_blocks_free h i"
  using heap_address_to_block_inverse [OF assms(1)] alloc_at_bounds [OF assms(2)] assms(3) by (simp add: heap_free_def)

lemma heap_allocsE:
  assumes "(p, k) \<in> heap_allocs h"
  obtains i where "p = heap_block_to_address h i" "alloc_at h i (int k)"
  using assms by (auto simp: heap_allocs_def)

lemma heap_eqI:
  "entries (table h) = entries (table h') \<Longrightarrow> tlength (table h) = tlength (table h') \<Longrightarrow>
   start_addr h = start_addr h' \<Longrightarrow> h = (h' :: heap)"
  by (cases h; cases h') (simp add: heap_table.equality)

lemma free_block_entry:
  assumes "heap_wf h" "0 \<le> b" "b < heap_len h" "block_free (table h) b"
  shows "entries (table h) b = HEAP_BLOCK_TABLE_ENTRY_FREE"
  using assms alloc_at_not_free unfolding heap_wf_def by blast

text \<open>Freeing what was just allocated restores the table.\<close>

lemma heap_free_malloc_same:
  assumes "heap_wf h" "0 < unat sz" "unat sz \<le> 2 ^ 32 - 4096" "heap_fits h (blocks_for sz)"
    and "heap_malloc h sz = (p, h')"
  shows "heap_free h' p = h"
proof -
  from assms(1-4) obtain r where run: "free_run (table h) r (int (blocks_for sz))" and n: "1 \<le> int (blocks_for sz)"
    and eq: "heap_malloc h sz = (heap_block_to_address h r, heap_mark_blocks_taken h r (int (blocks_for sz)))"
    by (rule heap_malloc_run)
  have h': "h' = heap_mark_blocks_taken h r (int (blocks_for sz))" and p: "p = heap_block_to_address h' r"
    using eq assms(5) by auto
  have a: "alloc_at h' r (int (blocks_for sz))" unfolding h' using alloc_at_mark_taken [OF run n] by blast
  have wf: "heap_wf h'" unfolding h' by (rule heap_wf_mark_taken [OF assms(1) run n])
  then have len: "heap_len h' < 2 ^ 31" using heap_len_bound by fastforce
  have "entries (table (heap_mark_blocks_free h' r)) x = entries (table h) x" for x
    using free_block_entry [OF assms(1), of x] run heap_mark_blocks_free_entries [OF a len, of x]
      heap_mark_blocks_taken_entries [OF n, of h r x, folded h']
    by (auto simp: free_run_def split: if_splits)
  then have "entries (table (heap_mark_blocks_free h' r)) = entries (table h)" ..
  then show ?thesis
    unfolding heap_free_alloc [OF wf a p] by (intro heap_eqI) (simp_all add: h')
qed

interpretation heap_c: block_allocator heap_wf heap_allocs heap_fits heap_avail heap_malloc heap_free
proof (unfold_locales, goal_cases)
  case (1 h sz p h')
  from 1(2-4) show ?case
    by (rule heap_malloc_run [OF 1(1)]) (use 1 in \<open>auto intro: heap_wf_mark_taken\<close>)
next
  case (2 h sz p h')
  from 2(2-4) show ?case
    by (rule heap_malloc_run [OF 2(1)]) (use 2 in \<open>auto simp: heap_allocs_mark_taken\<close>)
next
  case (3 h sz p h' q k)
  from 3(6) obtain j where j: "q = heap_block_to_address h j" "alloc_at h j (int k)" by (auto simp: heap_allocs_def)
  note jb = alloc_at_bounds [OF j(2)]
  from 3(1-4) show ?case
  proof (rule heap_malloc_run)
    fix r
    assume run: "free_run (table h) r (int (blocks_for sz))" and pos: "1 \<le> int (blocks_for sz)"
      and eq: "heap_malloc h sz = (heap_block_to_address h r, heap_mark_blocks_taken h r (int (blocks_for sz)))"
    have "\<not> (\<exists>x. r \<le> x \<and> x < r + int (blocks_for sz) \<and> j \<le> x \<and> x < j + int k)"
      using alloc_at_not_free [OF j(2)] run by (auto simp: free_run_def)
    then have "r + int (blocks_for sz) \<le> j \<or> j + int k \<le> r" using pos jb
      by (metis (no_types) add_increasing2 dual_order.strict_trans2 int_nat_eq le_cases less_add_same_cancel1 linorder_not_less order_less_le_trans zero_less_one)
    then show "extent p (blocks_for sz) \<inter> extent q k = {}"
      using heap_extents_disjoint [OF 3(1), of r "int (blocks_for sz)" j "int k"] run pos jb eq j 3(5)
      by (simp add: free_run_def)
  qed
next
  case (4 h sz p h')
  from 4(2-4) show ?case
    by (rule heap_malloc_run [OF 4(1)]) (use 4 heap_avail_mark_taken in fastforce)
next
  case (5 h p k)
  then show ?case by (rule heap_allocs_addr)
next
  case (6 h)
  then obtain b where "b \<in> free_blocks h" by (auto simp: heap_avail_def card_gt_0_iff)
  then have "free_run (table h) b (int 1)" by (auto simp: free_run_def order_le_less)
  then show ?case by (auto simp: heap_fits_def)
next
  case (7 h p k)
  from 7(2) show ?case
    by (rule heap_allocsE) (use 7(1) in \<open>auto simp: heap_free_alloc heap_wf_mark_free\<close>)
next
  case (8 h p k)
  from 8(2) show ?case
    by (rule heap_allocsE) (use 8(1) in \<open>auto simp: heap_free_alloc heap_allocs_mark_free\<close>)
next
  case (9 h p k)
  from 9(2) show ?case
    by (rule heap_allocsE) (use 9(1) in \<open>auto simp: heap_free_alloc heap_avail_mark_free\<close>)
next
  case (10 h p k q l)
  from 10(2) obtain i where i: "p = heap_block_to_address h i" "alloc_at h i (int k)" by (rule heap_allocsE)
  from 10(3) obtain j where j: "q = heap_block_to_address h j" "alloc_at h j (int l)" by (rule heap_allocsE)
  have "i + int k \<le> j \<or> j + int l \<le> i"
  proof (rule ccontr)
    assume "\<not> (i + int k \<le> j \<or> j + int l \<le> i)"
    then have "i \<le> max i j \<and> max i j < i + int k \<and> j \<le> max i j \<and> max i j < j + int l"
      using alloc_at_bounds [OF i(2)] alloc_at_bounds [OF j(2)] by auto
    then have "i = j" using alloc_at_overlap_start [OF i(2) j(2)] by blast
    then show False using i(1) j(1) 10(4) by simp
  qed
  then show ?case
    using heap_extents_disjoint [OF 10(1), of i "int k" j "int l"] alloc_at_bounds [OF i(2)] alloc_at_bounds [OF j(2)] i(1) j(1) by simp
next
  case (11 h n m)
  then show ?case by (force simp: heap_fits_def free_run_def)
next
  case (12 h sz n p h')
  have "heap_fits h (blocks_for sz)" using 12(4) by (force simp: heap_fits_def free_run_def)
  from 12(1-3) this show ?case
  proof (rule heap_malloc_run)
    fix r
    assume "heap_malloc h sz = (heap_block_to_address h r, heap_mark_blocks_taken h r (int (blocks_for sz)))"
      and pos: "1 \<le> int (blocks_for sz)" and first: "\<And>s. free_run (table h) s (int (blocks_for sz)) \<Longrightarrow> r \<le> s"
    then have h': "h' = heap_mark_blocks_taken h r (int (blocks_for sz))" using 12(5) by simp
    obtain s where s: "free_run (table h) s (int (blocks_for sz + n))" using 12(4) by (auto simp: heap_fits_def)
    then have "r \<le> s" by (intro first) (auto simp: free_run_def)
    then have "free_run (table h') (s + int (blocks_for sz)) (int n)"
      using s by (auto simp: free_run_def h' heap_mark_blocks_taken_entries [OF pos])
    then show "heap_fits h' n" by (auto simp: heap_fits_def)
  qed
next
  case (13 h p k n)
  from 13(2) obtain i where i: "p = heap_block_to_address h i" "alloc_at h i (int k)" by (rule heap_allocsE)
  have len: "heap_len h < 2 ^ 31" using heap_len_bound 13(1) by fastforce
  obtain r where r: "free_run (table h) r (int n)" using 13(3) by (auto simp: heap_fits_def)
  have "entries (table (heap_free h p)) x = entries (table h) x" if "block_free (table h) x" for x
    using heap_mark_blocks_free_entries [OF i(2) len, of x] alloc_at_not_free [OF i(2), of x] that
    by (auto simp: heap_free_alloc [OF 13(1) i(2,1)] split: if_splits)
  moreover have "tlength (table (heap_free h p)) = tlength (table h)" by (simp add: heap_free_def)
  ultimately have "free_run (table (heap_free h p)) r (int n)" using r by (auto simp: free_run_def)
  then show ?case by (auto simp: heap_fits_def)
next
  case (14 h sz p h' n)
  then show ?case using heap_free_malloc_same [OF 14(1-5)] by simp
qed

text \<open>The memory the heap hands out: the blocks of its table.\<close>

definition heap_region :: "heap \<Rightarrow> u32 set" where
  "heap_region h = {a. uint (start_addr h) \<le> uint a \<and> uint a < uint (start_addr h) + heap_len h * 4096}"

lemma heap_malloc_same [simp]:
  "tlength (table (snd (heap_malloc h sz))) = tlength (table h)" "start_addr (snd (heap_malloc h sz)) = start_addr h"
  by (simp_all add: heap_malloc_def heap_malloc_blocks_def Let_def)

lemma heap_allocs_region:
  assumes "heap_wf h" "(p, k) \<in> heap_allocs h"
  shows "extent p k \<subseteq> heap_region h"
proof
  fix a assume a: "a \<in> extent p k"
  from assms(2) obtain i where i: "p = heap_block_to_address h i" "alloc_at h i (int k)" by (rule heap_allocsE)
  note b = alloc_at_bounds [OF i(2)]
  have u: "uint p = uint (start_addr h) + i * 4096" using uint_block_address [OF assms(1)] b i(1) by simp
  have "unat p + k * 4096 \<le> 2 ^ 32" using heap_c.allocs_addr [OF assms] by simp
  then have "unat p \<le> unat a" "unat a < unat p + k * 4096" using extent_interval a by auto
  then have "uint p \<le> uint a" "uint a < uint p + int k * 4096" unfolding uint_nat by linarith+
  moreover have "i * 4096 + int k * 4096 \<le> heap_len h * 4096" using b by simp
  moreover have "0 \<le> i * 4096" using b by simp
  ultimately show "a \<in> heap_region h" using u by (simp add: heap_region_def)
qed

interpretation heap_r: region_allocator heap_wf heap_allocs heap_fits heap_avail heap_malloc heap_free heap_region
proof
  show "\<And>h p k. heap_wf h \<Longrightarrow> (p, k) \<in> heap_allocs h \<Longrightarrow> extent p k \<subseteq> heap_region h" by (rule heap_allocs_region)
  show "heap_region h' = heap_region h" if "heap_malloc h sz = (p, h')" for h sz p h'
    using heap_malloc_same [of h sz] that by (simp add: heap_region_def)
  show "heap_region (heap_free h p) = heap_region h" for h p
    by (simp add: heap_region_def heap_free_def)
qed

lemma heap_create_ok:
  assumes "heap_validate_align start" "heap_validate_align end_addr" "start \<noteq> 0" "start \<le> end_addr"
    "uint end_addr - uint start < 2 ^ 31" "tlength tbl = (end_addr - start) div 4096"
  shows "fst (heap_create h start end_addr tbl) = 0 \<and> heap_wf (snd (heap_create h start end_addr tbl)) \<and>
    heap_allocs (snd (heap_create h start end_addr tbl)) = {}"
proof -
  let ?h = "snd (heap_create h start end_addr tbl)"
  have fst0: "fst (heap_create h start end_addr tbl) = 0"
    and start: "start_addr ?h = start" and len: "tlength (table ?h) = tlength tbl"
    and es: "\<And>b. 0 \<le> b \<Longrightarrow> b < uint (tlength tbl) \<Longrightarrow> entries (table ?h) b = 0"
    using assms by (auto simp: heap_create_def heap_validate_table_def Let_def config_simps)
  have "uint (tlength tbl) = (uint end_addr - uint start) div 4096"
    using assms(4,6) by (simp add: uint_div uint_minus_simple_alt)
  then have "uint (tlength tbl) * 4096 \<le> uint end_addr - uint start"
    by (simp add: minus_mod_eq_div_mult [symmetric])
  then have "heap_wf ?h" using assms(1,3,5) es start len uint_lt2p [of end_addr]
    by (auto simp: heap_wf_def config_simps)
  moreover have "\<not> alloc_at ?h i k" for i k
    using es [of i] alloc_at_entry [of ?h i k i] alloc_at_bounds [of ?h i k] len by force
  ultimately show ?thesis using fst0 by (auto simp: heap_allocs_def)
qed

text \<open>A small empty heap, for concrete instances.\<close>

lemma demo_heap_wf: "uint n \<le> 25600 \<Longrightarrow> heap_wf (demo_heap n)"
  by (simp add: heap_wf_def demo_heap_def heap_validate_align_def config_simps)

lemma demo_heap_fits: "int k \<le> uint n \<Longrightarrow> heap_fits (demo_heap n) k"
  by (auto simp: heap_fits_def free_run_def demo_heap_def heap_get_entry_type_def config_simps intro!: exI [of _ 0])

lemma demo_heap_allocs: "heap_allocs (demo_heap n) = {}"
proof -
  have "\<not> alloc_at (demo_heap n) i k" for i k
  proof
    assume a: "alloc_at (demo_heap n) i k"
    then show False using alloc_at_entry [OF a, of i] alloc_at_bounds [OF a] alloc_entry_neq_0 [of k 0]
      by (simp add: demo_heap_def config_simps)
  qed
  then show ?thesis by (simp add: heap_allocs_def)
qed

text \<open>
  C11: on a well-formed heap that has a run of free blocks long enough for the request,
  \<^verbatim>\<open>heap_malloc\<close> returns a non-null block-aligned address, the table stays well formed, exactly one
  allocation is added to the live ones, the new region overlaps no live region, and the number of
  free blocks drops by the size of the request in blocks.
\<close>

theorem heap_malloc_allocates:
  assumes "heap_wf h" "0 < unat sz" "unat sz \<le> 2 ^ 32 - 4096" "heap_fits h (blocks_for sz)"
    and "heap_malloc h sz = (p, h')"
  shows "heap_wf h' \<and> p \<noteq> 0 \<and> 4096 dvd unat p \<and>
    heap_allocs h' = insert (p, blocks_for sz) (heap_allocs h) \<and>
    (\<forall>(q, k) \<in> heap_allocs h. extent p (blocks_for sz) \<inter> extent q k = {}) \<and>
    heap_avail h' + blocks_for sz = heap_avail h"
proof -
  have "heap_wf h'" by (rule heap_c.malloc_inv [OF assms])
  moreover have "heap_allocs h' = insert (p, blocks_for sz) (heap_allocs h)" by (rule heap_c.malloc_allocs [OF assms])
  moreover from calculation have "p \<noteq> 0 \<and> 4096 dvd unat p" using heap_c.allocs_addr by blast
  ultimately show ?thesis using heap_c.malloc_fresh [OF assms] heap_c.malloc_avail [OF assms] by auto
qed

theorem heap_malloc_allocates_witness:
  "heap_allocs (snd (heap_malloc (demo_heap 4) 5000)) = insert (fst (heap_malloc (demo_heap 4) 5000), 2) {} \<and>
   heap_avail (snd (heap_malloc (demo_heap 4) 5000)) + 2 = heap_avail (demo_heap 4)"
  using heap_malloc_allocates [OF demo_heap_wf, of 4 5000] demo_heap_fits [of 2 4] demo_heap_allocs [of 4]
  by (simp add: blocks_for_def prod_eq_iff)

text \<open>
  freeing a live allocation keeps the table well formed, removes exactly that allocation
  and gives back all of its blocks.
\<close>

theorem heap_free_releases:
  assumes "heap_wf h" "(p, k) \<in> heap_allocs h"
  shows "heap_wf (heap_free h p) \<and> heap_allocs (heap_free h p) = heap_allocs h - {(p, k)} \<and>
    heap_avail (heap_free h p) = heap_avail h + k"
  using heap_c.free_inv [OF assms] heap_c.free_allocs [OF assms] heap_c.free_avail [OF assms] by simp

theorem heap_free_releases_witness:
  "heap_allocs (heap_free (snd (heap_malloc (demo_heap 4) 5000)) (fst (heap_malloc (demo_heap 4) 5000))) = {}"
proof -
  have "heap_wf (snd (heap_malloc (demo_heap 4) 5000)) \<and>
    heap_allocs (snd (heap_malloc (demo_heap 4) 5000)) = {(fst (heap_malloc (demo_heap 4) 5000), 2)}"
    using heap_c.malloc_inv [OF demo_heap_wf, of 4 5000] heap_c.malloc_allocs [OF demo_heap_wf, of 4 5000]
      demo_heap_fits [of 2 4] demo_heap_allocs [of 4] by (simp add: blocks_for_def prod_eq_iff)
  then show ?thesis
    using heap_free_releases [of "snd (heap_malloc (demo_heap 4) 5000)" "fst (heap_malloc (demo_heap 4) 5000)" 2] by simp
qed

text \<open>
  C21: freeing the address that \<^verbatim>\<open>heap_malloc\<close> just returned restores the heap exactly, every
  byte of the table included.
\<close>

theorem heap_free_undoes_malloc:
  assumes "heap_wf h" "0 < unat sz" "unat sz \<le> 2 ^ 32 - 4096" "heap_fits h (blocks_for sz)"
    and "heap_malloc h sz = (p, h')"
  shows "heap_free h' p = h"
  by (rule heap_free_malloc_same [OF assms])

theorem heap_free_undoes_malloc_witness:
  "heap_free (snd (heap_malloc (demo_heap 4) 5000)) (fst (heap_malloc (demo_heap 4) 5000)) = demo_heap 4"
  using heap_free_undoes_malloc [OF demo_heap_wf, of 4 5000] demo_heap_fits [of 2 4]
  by (simp add: blocks_for_def prod_eq_iff)

text \<open>
  \<^verbatim>\<open>heap_get_start_block\<close> is first fit: when some run of \<^verbatim>\<open>n\<close> free blocks exists it returns
  the start of the lowest such run.
\<close>

theorem heap_get_start_block_first_fit:
  assumes "0 < n" "free_run (table h) s (uint n)"
  shows "free_run (table h) (heap_get_start_block h n) (uint n) \<and> heap_get_start_block h n \<le> s"
proof -
  have "scan_post (table h) (uint n) (heap_scan (table h) n 0 0 (-1))" using assms(1) by (rule heap_scan_post)
  moreover from this assms(2) have "0 \<le> heap_scan (table h) n 0 0 (-1)" by (auto simp: scan_post_def free_run_def)
  ultimately show ?thesis using assms(2)
    by (auto simp: heap_get_start_block_def scan_post_def Let_def)
qed

theorem heap_get_start_block_first_fit_witness:
  "free_run (table (demo_heap 4)) (heap_get_start_block (demo_heap 4) 2) 2 \<and>
   heap_get_start_block (demo_heap 4) 2 \<le> 1"
  using heap_get_start_block_first_fit [of 2 "demo_heap 4" 1]
  by (simp add: free_run_def demo_heap_def heap_get_entry_type_def config_simps)

text \<open>The result of the scan when no run is long enough.\<close>

lemma heap_get_start_block_no_run:
  assumes "0 < n" "\<And>s. \<not> free_run (table h) s (uint n)"
  shows "if 0 < heap_len h \<and> block_free (table h) (heap_len h - 1)
    then 0 \<le> heap_get_start_block h n \<and> heap_get_start_block h n < heap_len h \<and>
         heap_len h < heap_get_start_block h n + uint n
    else heap_get_start_block h n = - ENOMEM"
  using heap_scan_post [OF assms(1), of "table h"] assms(2)
  by (auto simp: heap_get_start_block_def scan_post_def Let_def)

lemma heap_malloc_total_blocks_uint:
  "unat sz \<le> 2 ^ 32 - 4096 \<Longrightarrow> uint (heap_align_val sz div 4096) = int (blocks_for sz)"
  using heap_malloc_total_blocks by (metis uint_nat)

text \<open>
  when no run of free blocks is long enough and the last block of the heap is taken,
  \<^verbatim>\<open>heap_malloc\<close> returns null and leaves the heap as it was.
\<close>

theorem heap_malloc_exhausted:
  assumes "0 < unat sz" "unat sz \<le> 2 ^ 32 - 4096" "\<not> heap_fits h (blocks_for sz)"
    and "heap_len h = 0 \<or> \<not> block_free (table h) (heap_len h - 1)"
  shows "heap_malloc h sz = (0, h)"
proof -
  have un: "uint (heap_align_val sz div 4096) = int (blocks_for sz)"
    using assms(2) by (rule heap_malloc_total_blocks_uint)
  moreover have "0 < blocks_for sz" using assms(1) by (simp add: blocks_for_def div_greater_zero_iff)
  ultimately have "heap_get_start_block h (heap_align_val sz div 4096) = - ENOMEM"
    using heap_get_start_block_no_run [of "heap_align_val sz div 4096" h] assms(3,4)
    by (auto simp: heap_fits_def word_less_def)
  then show ?thesis by (simp add: heap_malloc_def heap_malloc_blocks_def Let_def config_simps)
qed

theorem heap_malloc_exhausted_witness:
  "heap_malloc (snd (heap_malloc (demo_heap 1) 1)) 1 = (0, snd (heap_malloc (demo_heap 1) 1))"
proof -
  have "\<not> block_free (table (snd (heap_malloc (demo_heap 1) 1))) 0"
    using heap_malloc_run [OF demo_heap_wf, of 1 1] demo_heap_fits [of 1 1]
    by (force simp: blocks_for_def free_run_def heap_mark_blocks_taken_entries demo_heap_def config_simps)
  moreover have "tlength (table (snd (heap_malloc (demo_heap 1) 1))) = 1"
    using heap_malloc_run [OF demo_heap_wf, of 1 1] demo_heap_fits [of 1 1]
    by (force simp: blocks_for_def demo_heap_def)
  ultimately show ?thesis
    using heap_malloc_exhausted [of 1 "snd (heap_malloc (demo_heap 1) 1)"]
    by (force simp: blocks_for_def heap_fits_def free_run_def)
qed

text \<open>
  C34: when no run of free blocks is long enough but the last block of the heap is free, the
  scan still reports the start of that last, too short run: \<^verbatim>\<open>heap_malloc\<close> returns a non-null address
  and marks the byte behind the end of the table as a taken block.
\<close>

theorem heap_malloc_overruns_table:
  assumes "heap_wf h" "0 < unat sz" "unat sz \<le> 2 ^ 31" "\<not> heap_fits h (blocks_for sz)"
    and "0 < heap_len h" "block_free (table h) (heap_len h - 1)"
    and "heap_malloc h sz = (p, h')"
  shows "p \<noteq> 0 \<and> entries (table h') (heap_len h) AND HEAP_BLOCK_TABLE_ENTRY_TAKEN = HEAP_BLOCK_TABLE_ENTRY_TAKEN"
proof -
  let ?n = "heap_align_val sz div 4096"
  let ?r = "heap_get_start_block h ?n"
  have un: "uint ?n = int (blocks_for sz)"
    using assms(3) by (intro heap_malloc_total_blocks_uint) simp
  moreover have pos: "0 < blocks_for sz" using assms(2) by (simp add: blocks_for_def div_greater_zero_iff)
  ultimately have r: "0 \<le> ?r" "?r < heap_len h" "heap_len h < ?r + uint ?n"
    using heap_get_start_block_no_run [of ?n h] assms(4-6) by (auto simp: heap_fits_def word_less_def)
  have "sint ?n = uint ?n" using assms(3) un
    by (intro sint_u32_small) (simp add: blocks_for_def)
  with r assms(7) have "p = heap_block_to_address h ?r" "h' = heap_mark_blocks_taken h ?r (uint ?n)"
    by (auto simp: heap_malloc_def heap_malloc_blocks_def Let_def config_simps)
  with r pos un show ?thesis
    using heap_block_address_nonzero [OF assms(1), of ?r]
      heap_mark_blocks_taken_entries [of "uint ?n" h ?r "heap_len h"]
    by (simp add: alloc_entry_def config_simps bit.conj_disj_distrib2)
qed

theorem heap_malloc_overruns_table_witness:
  "fst (heap_malloc (demo_heap 2) 12288) \<noteq> 0 \<and>
   entries (table (snd (heap_malloc (demo_heap 2) 12288))) 2 AND HEAP_BLOCK_TABLE_ENTRY_TAKEN =
     HEAP_BLOCK_TABLE_ENTRY_TAKEN"
  using heap_malloc_overruns_table [OF demo_heap_wf, of 2 12288]
  by (simp add: blocks_for_def heap_fits_def free_run_def demo_heap_def heap_get_entry_type_def config_simps prod_eq_iff)

text \<open>
  A request of more than \<^verbatim>\<open>0xFFFFF000\<close> bytes is rounded up to 0 by the 32-bit arithmetic
  of \<^verbatim>\<open>heap_align_val\<close>, so \<^verbatim>\<open>heap_malloc\<close> reserves no block at all.
\<close>

theorem heap_malloc_size_wraps:
  assumes "2 ^ 32 - 4096 < unat sz"
  shows "heap_align_val sz = 0 \<and> table (snd (heap_malloc h sz)) = table h"
proof -
  define q r where "q = unat sz div 4096" and "r = unat sz mod 4096"
  then have sz: "unat sz = 4096 * q + r" and r: "r < 4096" by simp_all
  have q: "q = 1048575" using sz r assms unat_u32_bound [of sz] by simp
  then have "0 < r" using sz assms by simp
  then have "sz mod 4096 \<noteq> 0" by (simp add: word_unat_eq_iff unat_mod flip: r_def)
  moreover have "unat (sz - sz mod 4096) = 4096 * q"
    using sz by (subst unat_sub) (auto simp: unat_mod word_le_nat_alt r_def)
  ultimately have al: "heap_align_val sz = 0"
    using q by (simp add: heap_align_val_def config_simps word_unat_eq_iff unat_word_ariths)
  then show ?thesis
    by (auto simp: heap_malloc_def heap_malloc_blocks_def heap_mark_blocks_taken_def mark_taken_loop.simps Let_def config_simps)
qed

theorem heap_malloc_size_wraps_witness:
  "heap_align_val 0xFFFFFFFF = 0 \<and> table (snd (heap_malloc (demo_heap 2) 0xFFFFFFFF)) = table (demo_heap 2)"
  using heap_malloc_size_wraps [of "0xFFFFFFFF" "demo_heap 2"] by simp

end
