(* ===== verification/Libc_String.thy ===== *)
theory Libc_String
  imports Enki_Prelude
begin

unbundle bit_operations_syntax

text \<open>
  \<^verbatim>\<open>libc/string/string.c\<close>, the string library that is linked both into the kernel and into user
  programs. A string argument is an address in a byte memory; \<^verbatim>\<open>char\<close> is signed on the target,
  so a character is read with \<open>sint\<close>. Loops bounded by a length are total functions over the
  index; loops that run until a NUL byte is met are \<open>partial_function (option)\<close>, whose value
  \<open>None\<close> says that the loop never ends.

  The lemmas relate these functions to \<open>cstring\<close>, the NUL-terminated string at an address.
\<close>

section \<open>Definitions\<close>

definition isdigit :: "u8 \<Rightarrow> bool" where
  "isdigit c \<longleftrightarrow> sint c \<ge> 48 \<and> sint c \<le> 57"

definition todigit :: "u8 \<Rightarrow> int" where
  "todigit c = sint c - 48"

definition tolower :: "u8 \<Rightarrow> u8" where
  "tolower c = (if sint c > 65 - 1 \<and> sint c < 90 + 1 then c + (97 - 65) else c)"

definition toupper :: "u8 \<Rightarrow> u8" where
  "toupper c = (if sint c > 97 - 1 \<and> sint c < 122 + 1 then c - 97 + 65 else c)"

text \<open>The two bounded comparisons count \<^verbatim>\<open>n\<close> down to zero; \<^verbatim>\<open>n--\<close> on a negative \<^verbatim>\<open>int\<close> wraps.\<close>

primrec istrncmp_loop :: "memory \<Rightarrow> nat \<Rightarrow> u32 \<Rightarrow> u32 \<Rightarrow> int \<Rightarrow> int \<Rightarrow> int" where
  "istrncmp_loop m 0 s1 s2 a b = a - b"
| "istrncmp_loop m (Suc n) s1 s2 a b =
     (if a = b then istrncmp_loop m n (s1 + 1) (s2 + 1) (sint (tolower (m s1))) (sint (tolower (m s2)))
      else a - b)"

definition istrncmp :: "memory \<Rightarrow> u32 \<Rightarrow> u32 \<Rightarrow> int \<Rightarrow> int" where
  "istrncmp m s1 s2 n = istrncmp_loop m (unat (word_of_int n :: u32)) s1 s2 0 0"

primrec strncmp_loop :: "memory \<Rightarrow> nat \<Rightarrow> u32 \<Rightarrow> u32 \<Rightarrow> int \<Rightarrow> int \<Rightarrow> int" where
  "strncmp_loop m 0 s1 s2 a b = a - b"
| "strncmp_loop m (Suc n) s1 s2 a b =
     (if a = b then strncmp_loop m n (s1 + 1) (s2 + 1) (sint (m s1)) (sint (m s2)) else a - b)"

definition strncmp :: "memory \<Rightarrow> u32 \<Rightarrow> u32 \<Rightarrow> int \<Rightarrow> int" where
  "strncmp m s1 s2 n = strncmp_loop m (unat (word_of_int n :: u32)) s1 s2 0 0"

function memcmp_loop :: "memory \<Rightarrow> u32 \<Rightarrow> u32 \<Rightarrow> nat \<Rightarrow> nat \<Rightarrow> int" where
  "memcmp_loop m a b sz i =
     (if i < sz then
        (if m (a + of_nat i) < m (b + of_nat i) then -1
         else if m (b + of_nat i) < m (a + of_nat i) then 1
         else memcmp_loop m a b sz (i + 1))
      else 0)"
  by pat_completeness auto
termination
  by (relation "measure (\<lambda>(m, a, b, sz, i). sz - i)") auto

definition memcmp :: "memory \<Rightarrow> u32 \<Rightarrow> u32 \<Rightarrow> u32 \<Rightarrow> int" where
  "memcmp m a b sz = memcmp_loop m a b (unat sz) 0"

text \<open>An ascending byte copy (\<^verbatim>\<open>memcpy\<close>, and \<^verbatim>\<open>memmove\<close> to a lower address) and a descending one.\<close>

function memcpy_loop :: "u32 \<Rightarrow> u32 \<Rightarrow> nat \<Rightarrow> nat \<Rightarrow> memory \<Rightarrow> memory" where
  "memcpy_loop dst src sz i m =
     (if i < sz then memcpy_loop dst src sz (i + 1) (m(dst + of_nat i := m (src + of_nat i)))
      else m)"
  by pat_completeness auto
termination
  by (relation "measure (\<lambda>(dst, src, sz, i, m). sz - i)") auto

definition memcpy :: "u32 \<Rightarrow> u32 \<Rightarrow> u32 \<Rightarrow> memory \<Rightarrow> memory" where
  "memcpy dst src sz m = memcpy_loop dst src (unat sz) 0 m"

primrec memmove_down :: "u32 \<Rightarrow> u32 \<Rightarrow> nat \<Rightarrow> memory \<Rightarrow> memory" where
  "memmove_down dst src 0 m = m"
| "memmove_down dst src (Suc i) m = memmove_down dst src i (m(dst + of_nat i := m (src + of_nat i)))"

definition memmove :: "u32 \<Rightarrow> u32 \<Rightarrow> u32 \<Rightarrow> memory \<Rightarrow> memory" where
  "memmove dst src sz m =
     (if dst < src then memcpy_loop dst src (unat sz) 0 m
      else memmove_down dst src (unat sz) m)"

function memset_loop :: "u32 \<Rightarrow> u8 \<Rightarrow> nat \<Rightarrow> nat \<Rightarrow> memory \<Rightarrow> memory" where
  "memset_loop buf v sz i m =
     (if i < sz then memset_loop buf v sz (i + 1) (m(buf + of_nat i := v)) else m)"
  by pat_completeness auto
termination
  by (relation "measure (\<lambda>(buf, v, sz, i, m). sz - i)") auto

definition memset :: "u32 \<Rightarrow> int \<Rightarrow> u32 \<Rightarrow> memory \<Rightarrow> memory" where
  "memset buf val sz m = memset_loop buf (word_of_int val) (unat sz) 0 m"

declare memcmp_loop.simps [simp del] memcpy_loop.simps [simp del] memset_loop.simps [simp del]

partial_function (option) strcmp :: "memory \<Rightarrow> u32 \<Rightarrow> u32 \<Rightarrow> int option" where
  "strcmp m s1 s2 =
     (let a = sint (m s1); b = sint (m s2) in
      if a \<noteq> 0 \<and> b \<noteq> 0 \<and> a = b then strcmp m (s1 + 1) (s2 + 1) else Some (a - b))"

partial_function (option) strcpy :: "u32 \<Rightarrow> u32 \<Rightarrow> memory \<Rightarrow> memory option" where
  "strcpy dst src m =
     (if m src \<noteq> 0 then strcpy (dst + 1) (src + 1) (m(dst := m src)) else Some (m(dst := 0)))"

partial_function (option) strlen_loop :: "memory \<Rightarrow> u32 \<Rightarrow> u32 \<Rightarrow> u32 option" where
  "strlen_loop m s i = (if m (s + i) \<noteq> 0 then strlen_loop m s (i + 1) else Some i)"

definition strlen :: "memory \<Rightarrow> u32 \<Rightarrow> u32 option" where
  "strlen m s = strlen_loop m s 0"

text \<open>The inner \<^verbatim>\<open>for\<close> loop of \<^verbatim>\<open>strcspn\<close> and \<^verbatim>\<open>strspn\<close>: where \<^verbatim>\<open>c\<close> points when it ends.\<close>

partial_function (option) set_scan :: "memory \<Rightarrow> u8 \<Rightarrow> u32 \<Rightarrow> u32 option" where
  "set_scan m ch c =
     (if m c \<noteq> 0 then (if ch = m c then Some c else set_scan m ch (c + 1)) else Some c)"

text \<open>
  In both functions the increment of \<^verbatim>\<open>s1\<close> stands behind the \<^verbatim>\<open>break\<close>, so it is never reached and
  the outer loop goes on with the same \<^verbatim>\<open>s1\<close>.
\<close>

partial_function (option) strcspn_loop :: "memory \<Rightarrow> u32 \<Rightarrow> u32 \<Rightarrow> u32 \<Rightarrow> u32 option" where
  "strcspn_loop m s s1 s2 =
     (if m s1 \<noteq> 0 then
        Option.bind (set_scan m (m s1) s2)
          (\<lambda>c. if m c \<noteq> 0 then Some (s1 - s) else strcspn_loop m s s1 s2)
      else Some (s1 - s))"

definition strcspn :: "memory \<Rightarrow> u32 \<Rightarrow> u32 \<Rightarrow> u32 option" where
  "strcspn m s1 s2 = strcspn_loop m s1 s1 s2"

partial_function (option) strspn_loop :: "memory \<Rightarrow> u32 \<Rightarrow> u32 \<Rightarrow> u32 \<Rightarrow> u32 option" where
  "strspn_loop m s s1 s2 =
     (if m s1 \<noteq> 0 then
        Option.bind (set_scan m (m s1) s2)
          (\<lambda>c. if m c = 0 then Some (s1 - s) else strspn_loop m s s1 s2)
      else Some (s1 - s))"

definition strspn :: "memory \<Rightarrow> u32 \<Rightarrow> u32 \<Rightarrow> u32 option" where
  "strspn m s1 s2 = strspn_loop m s1 s1 s2"

function strncpy_loop :: "u32 \<Rightarrow> u32 \<Rightarrow> int \<Rightarrow> nat \<Rightarrow> memory \<Rightarrow> memory" where
  "strncpy_loop dst src n i m =
     (if int i < n - 1 \<and> m (src + of_nat i) \<noteq> 0
      then strncpy_loop dst src n (i + 1) (m(dst + of_nat i := m (src + of_nat i)))
      else m(dst + of_nat i := 0))"
  by pat_completeness auto
termination
  by (relation "measure (\<lambda>(dst, src, n, i, m). nat (n - int i))") auto

definition strncpy :: "u32 \<Rightarrow> u32 \<Rightarrow> int \<Rightarrow> memory \<Rightarrow> memory" where
  "strncpy dst src n m = strncpy_loop dst src n 0 m"

function strnlen_loop :: "memory \<Rightarrow> u32 \<Rightarrow> nat \<Rightarrow> nat \<Rightarrow> nat" where
  "strnlen_loop m s n i = (if i < n \<and> m (s + of_nat i) \<noteq> 0 then strnlen_loop m s n (i + 1) else i)"
  by pat_completeness auto
termination
  by (relation "measure (\<lambda>(m, s, n, i). n - i)") auto

definition strnlen :: "memory \<Rightarrow> u32 \<Rightarrow> int \<Rightarrow> u32" where
  "strnlen m s n = of_nat (strnlen_loop m s (unat (word_of_int n :: u32)) 0)"

declare strncpy_loop.simps [simp del] strnlen_loop.simps [simp del]

text \<open>
  \<^verbatim>\<open>strtok\<close> keeps the pointer \<^verbatim>\<open>last\<close> between calls; it is passed in and out. \<open>delim_index\<close> is the
  inner loop over the delimiters: the index of the first one equal to \<^verbatim>\<open>ch\<close>, or \<^verbatim>\<open>len\<close>.
\<close>

function delim_index :: "memory \<Rightarrow> u8 \<Rightarrow> u32 \<Rightarrow> nat \<Rightarrow> nat \<Rightarrow> nat" where
  "delim_index m ch delimiters len i =
     (if i < len \<and> ch \<noteq> m (delimiters + of_nat i) then delim_index m ch delimiters len (i + 1) else i)"
  by pat_completeness auto
termination
  by (relation "measure (\<lambda>(m, ch, d, len, i). len - i)") auto

declare delim_index.simps [simp del]

partial_function (option) strtok_skip :: "memory \<Rightarrow> u32 \<Rightarrow> nat \<Rightarrow> u32 \<Rightarrow> u32 option" where
  "strtok_skip m delimiters len start =
     (if delim_index m (m start) delimiters len 0 < len
      then strtok_skip m delimiters len (start + 1) else Some start)"

partial_function (option) strtok_end :: "u32 \<Rightarrow> nat \<Rightarrow> u32 \<Rightarrow> memory \<Rightarrow> (memory \<times> u32) option" where
  "strtok_end delimiters len lst m =
     (if m lst \<noteq> 0 then
        (if delim_index m (m lst) delimiters len 0 < len then Some (m(lst := 0), lst + 1)
         else strtok_end delimiters len (lst + 1) m)
      else Some (m, lst))"

definition strtok :: "u32 \<Rightarrow> u32 \<Rightarrow> u32 \<Rightarrow> memory \<Rightarrow> (u32 \<times> u32 \<times> memory) option" where
  "strtok lst str delimiters m =
     do {
       len \<leftarrow> strlen m delimiters;
       if str = 0 \<and> lst = 0 then Some (0, lst, m)
       else do {
         let lst1 = (if str \<noteq> 0 \<and> lst = 0 then str else lst);
         start \<leftarrow> strtok_skip m delimiters (unat len) lst1;
         if m start = 0 then Some (0, 0, m)
         else do {
           (m', lst') \<leftarrow> strtok_end delimiters (unat len) start m;
           Some (start, lst', m')
         }
       }
     }"

text \<open>The NUL-terminated string at an address, the abstraction the lemmas speak of.\<close>

primrec cstring :: "memory \<Rightarrow> u32 \<Rightarrow> u8 list \<Rightarrow> bool" where
  "cstring m p [] \<longleftrightarrow> m p = 0"
| "cstring m p (x # xs) \<longleftrightarrow> x \<noteq> 0 \<and> m p = x \<and> cstring m (p + 1) xs"

section \<open>Block operations\<close>

lemma memset_loop_apply:
  "sz \<le> 2 ^ 32 \<Longrightarrow> memset_loop buf v sz i m a = (if i \<le> unat (a - buf) \<and> unat (a - buf) < sz then v else m a)"
proof (induction buf v sz i m rule: memset_loop.induct)
  case (1 buf v sz i m)
  show ?case
  proof (cases "i < sz")
    case True
    let ?m = "m(buf + of_nat i := v)"
    have "a = buf + of_nat i \<longleftrightarrow> unat (a - buf) = i"
      using "1.prems" True by (intro u32_offset_iff) simp
    moreover have "memset_loop buf v sz (i + 1) ?m a = (if i + 1 \<le> unat (a - buf) \<and> unat (a - buf) < sz then v else ?m a)"
      using True "1.prems" by (rule "1.IH")
    ultimately show ?thesis using True
      by (simp add: memset_loop.simps [of buf v sz i m])
  next
    case False
    then show ?thesis by (auto simp: memset_loop.simps [of buf v sz i m])
  qed
qed

lemma memset_apply [mem_simps]:
  "memset buf val sz m a = (if a - buf < sz then word_of_int val else m a)"
  using unat_u32_bound [of sz] by (simp add: memset_def memset_loop_apply word_less_nat_alt)

lemma memcpy_loop_apply:
  assumes "sz \<le> 2 ^ 32"
    and "\<forall>k. i \<le> k \<and> k < sz \<longrightarrow> \<not> (i \<le> unat (src + of_nat k - dst) \<and> unat (src + of_nat k - dst) < k)"
  shows "memcpy_loop dst src sz i m a =
    (if i \<le> unat (a - dst) \<and> unat (a - dst) < sz then m (src + (a - dst)) else m a)"
  using assms
proof (induction dst src sz i m rule: memcpy_loop.induct)
  case (1 dst src sz i m)
  show ?case
  proof (cases "i < sz")
    case True
    let ?m = "m(dst + of_nat i := m (src + of_nat i))"
    have eq: "x = dst + of_nat i \<longleftrightarrow> unat (x - dst) = i" for x
      using "1.prems"(1) True by (intro u32_offset_iff) simp
    have "\<forall>k. i + 1 \<le> k \<and> k < sz \<longrightarrow>
        \<not> (i + 1 \<le> unat (src + of_nat k - dst) \<and> unat (src + of_nat k - dst) < k)"
      using "1.prems"(2) by (meson Suc_eq_plus1 Suc_leD add_leD1)
    then have "memcpy_loop dst src sz (i + 1) ?m a =
        (if i + 1 \<le> unat (a - dst) \<and> unat (a - dst) < sz then ?m (src + (a - dst)) else ?m a)"
      using "1.prems"(1) True by (intro "1.IH")
    moreover have "?m (src + (a - dst)) = m (src + (a - dst))" if "i + 1 \<le> unat (a - dst)" "unat (a - dst) < sz"
      using "1.prems"(2) [rule_format, of "unat (a - dst)"] that eq [of "src + (a - dst)"] by auto
    ultimately show ?thesis using True eq [of a]
      by (auto simp: memcpy_loop.simps [of dst src sz i m])
  next
    case False
    then show ?thesis by (auto simp: memcpy_loop.simps [of dst src sz i m])
  qed
qed

lemma memmove_down_apply:
  assumes "sz \<le> 2 ^ 32"
    and "\<forall>k < sz. \<not> (k < unat (src + of_nat k - dst) \<and> unat (src + of_nat k - dst) < sz)"
  shows "memmove_down dst src sz m a = (if unat (a - dst) < sz then m (src + (a - dst)) else m a)"
  using assms
proof (induction sz arbitrary: m)
  case 0
  then show ?case by simp
next
  case (Suc i)
  let ?m = "m(dst + of_nat i := m (src + of_nat i))"
  have eq: "x = dst + of_nat i \<longleftrightarrow> unat (x - dst) = i" for x
    using Suc.prems(1) by (intro u32_offset_iff) simp
  have "memmove_down dst src i ?m a = (if unat (a - dst) < i then ?m (src + (a - dst)) else ?m a)"
    using Suc.prems by (intro Suc.IH) (auto simp: less_Suc_eq)
  moreover have "?m (src + (a - dst)) = m (src + (a - dst))" if "unat (a - dst) < i"
    using Suc.prems(2) [rule_format, of "unat (a - dst)"] that eq [of "src + (a - dst)"] by auto
  ultimately show ?case using eq [of a] by (auto simp: less_Suc_eq)
qed

text \<open>
  C35: \<^verbatim>\<open>memmove\<close> moves a block correctly even when source and destination overlap: for blocks that
  do not wrap around the address space, every byte of the destination block holds what the source
  block held before the call, and no other byte changes.
\<close>

theorem memmove_correct:
  assumes "unat dst + unat sz \<le> 2 ^ 32" "unat src + unat sz \<le> 2 ^ 32"
  shows "memmove dst src sz m a = (if a - dst < sz then m (src + (a - dst)) else m a)"
proof (cases "dst < src")
  case True
  have "\<not> unat (src + of_nat k - dst) < k" if "k < unat sz" for k
    using True that assms by (simp add: unat_sub_if' unat_plus_if' word_less_nat_alt unat_of_nat) 
  then show ?thesis using True unat_u32_bound [of sz]
    by (simp add: memmove_def memcpy_loop_apply word_less_nat_alt)
next
  case False
  have "\<not> (k < unat (src + of_nat k - dst) \<and> unat (src + of_nat k - dst) < unat sz)" if "k < unat sz" for k
    using False that assms by (auto simp add: unat_sub_if' unat_plus_if' word_less_nat_alt unat_of_nat) 
  then show ?thesis using False unat_u32_bound [of sz]
    by (simp add: memmove_def memmove_down_apply word_less_nat_alt)
qed
theorem memmove_correct_witness:
  "memmove 101 100 3 ((\<lambda>_. 0)(100 := 7, 101 := 8, 102 := 9)) 103 = 9"
  using memmove_correct [of 101 3 100 "(\<lambda>_. 0)(100 := 7, 101 := 8, 102 := 9)" 103] by simp

section \<open>Strings\<close>

lemma cstring_unique: "cstring m p xs \<Longrightarrow> cstring m p ys \<Longrightarrow> xs = ys"
proof (induction xs arbitrary: p ys)
  case Nil
  then show ?case by (cases ys) auto
next
  case (Cons x xs)
  then show ?case by (cases ys) auto
qed

lemma cstring_cong:
  "(\<And>i. i \<le> length xs \<Longrightarrow> m (p + of_nat i) = m' (p + of_nat i)) \<Longrightarrow> cstring m p xs = cstring m' p xs"
proof (induction xs arbitrary: p)
  case Nil
  from Nil [of 0] show ?case by simp
next
  case (Cons x xs)
  have "m p = m' p" using Cons.prems [of 0] by simp
  moreover have "cstring m (p + 1) xs = cstring m' (p + 1) xs"
    using Cons.prems [of "Suc _"] by (intro Cons.IH) (simp add: algebra_simps)
  ultimately show ?case by simp
qed

lemma strlen_loop_cstring: "cstring m (s + i) xs \<Longrightarrow> strlen_loop m s i = Some (i + of_nat (length xs))"
  by (induction xs arbitrary: i) (subst strlen_loop.simps, simp add: algebra_simps)+

lemma strlen_cstring: "cstring m s xs \<Longrightarrow> strlen m s = Some (of_nat (length xs))"
  using strlen_loop_cstring [of m s 0 xs] by (simp add: strlen_def)

lemma strcmp_cstring:
  "cstring m p xs \<Longrightarrow> cstring m q ys \<Longrightarrow> \<exists>r. strcmp m p q = Some r \<and> (r = 0 \<longleftrightarrow> xs = ys)"
proof (induction xs arbitrary: p q ys)
  case Nil
  then show ?case by (subst strcmp.simps) (cases ys; simp)
next
  case (Cons x xs)
  show ?case
  proof (cases ys)
    case Nil
    with Cons.prems show ?thesis by (subst strcmp.simps) simp
  next
    case (Cons y zs)
    with Cons.prems have "\<exists>r. strcmp m (p + 1) (q + 1) = Some r \<and> (r = 0 \<longleftrightarrow> xs = zs)"
      by (intro Cons.IH) simp_all
    with Cons Cons.prems show ?thesis by (subst strcmp.simps) (auto simp: Let_def sint_eq_iff)
  qed
qed

lemma strncpy_loop_outside:
  "n < 2 ^ 31 \<Longrightarrow> int i < n \<Longrightarrow> unat (a - dst) < i \<or> n \<le> int (unat (a - dst)) \<Longrightarrow>
   strncpy_loop dst src n i m a = m a"
proof (induction dst src n i m rule: strncpy_loop.induct)
  case (1 dst src n i m)
  have "a \<noteq> dst + of_nat i" using u32_offset_iff [of i a dst] "1.prems" by auto
  moreover have "strncpy_loop dst src n (i + 1) (m(dst + of_nat i := m (src + of_nat i))) a
       = (m(dst + of_nat i := m (src + of_nat i))) a" if "int i < n - 1 \<and> m (src + of_nat i) \<noteq> 0"
    using that "1.prems" by (intro "1.IH") auto
  ultimately show ?case by (simp add: strncpy_loop.simps [of dst src n i m])
qed

lemma strncpy_loop_cstring:
  "n < 2 ^ 31 \<Longrightarrow> int i < n \<Longrightarrow> cstring m (src + of_nat i) xs \<Longrightarrow>
   \<forall>k j. i \<le> k \<and> int k < n \<and> j \<le> i + length xs \<longrightarrow> dst + of_nat k \<noteq> src + of_nat j \<Longrightarrow>
   cstring (strncpy_loop dst src n i m) (dst + of_nat i) (take (nat n - 1 - i) xs)"
proof (induction dst src n i m arbitrary: xs rule: strncpy_loop.induct)
  case (1 dst src n i m)
  show ?case
  proof (cases "int i < n - 1 \<and> m (src + of_nat i) \<noteq> 0")
    case True
    let ?m = "m(dst + of_nat i := m (src + of_nat i))"
    from True "1.prems"(3) obtain x ys where xs: "xs = x # ys" and x: "x \<noteq> 0" "m (src + of_nat i) = x"
      and ys: "cstring m (src + of_nat (i + 1)) ys" by (cases xs) (auto simp: algebra_simps)
    have "?m (src + of_nat (i + 1) + of_nat j) = m (src + of_nat (i + 1) + of_nat j)" if "j \<le> length ys" for j
      using "1.prems"(4) [rule_format, of i "i + 1 + j"] "1.prems"(2) that xs by (auto simp: algebra_simps)
    then have m: "cstring ?m (src + of_nat (i + 1)) ys" using ys cstring_cong by metis
    have "cstring (strncpy_loop dst src n (i + 1) ?m) (dst + of_nat (i + 1)) (take (nat n - 1 - (i + 1)) ys)"
    proof (rule "1.IH" [OF True])
      show "cstring ?m (src + of_nat (i + 1)) ys" by (rule m)
    qed (use True "1.prems"(1,4) xs in auto)
    moreover have "strncpy_loop dst src n (i + 1) ?m (dst + of_nat i) = x"
      using True "1.prems" x by (subst strncpy_loop_outside) auto
    moreover have "nat n - 1 - i = Suc (nat n - 1 - (i + 1))" using True by linarith
    ultimately show ?thesis using True x xs
      by (simp add: strncpy_loop.simps [of dst src n i m] algebra_simps)
  next
    case False
    then have none: "take (nat n - 1 - i) xs = []" using "1.prems"(2,3) by (cases xs) auto
    show ?thesis unfolding none strncpy_loop.simps [of dst src n i m] if_not_P [OF False] by simp
  qed
qed


lemma strnlen_loop_cstring:
  "cstring m (s + of_nat i) xs \<Longrightarrow> i \<le> n \<Longrightarrow> strnlen_loop m s n i = min n (i + length xs)"
proof (induction xs arbitrary: i)
  case Nil
  then show ?case by (simp add: strnlen_loop.simps)
next
  case (Cons x xs)
  show ?case
  proof (cases "i < n")
    case True
    with Cons.prems have "strnlen_loop m s n (i + 1) = min n (i + 1 + length xs)"
      by (intro Cons.IH) (simp_all add: algebra_simps)
    with True Cons.prems show ?thesis by (simp add: strnlen_loop.simps [of m s n i])
  next
    case False
    with Cons.prems show ?thesis by (simp add: strnlen_loop.simps [of m s n n])
  qed
qed

lemma strnlen_cstring:
  assumes "cstring m s xs" "0 \<le> n" "n < 2 ^ 31"
  shows "strnlen m s n = of_nat (min (nat n) (length xs))"
proof -
  have "unat (word_of_int n :: u32) = nat n"
    using assms by (simp add: unsigned_of_int take_bit_int_eq_self)
  then show ?thesis using assms strnlen_loop_cstring [of m s 0 xs "nat n"] by (simp add: strnlen_def)
qed

lemma set_scan_cstring:
  "cstring m c ys \<Longrightarrow> \<exists>c'. set_scan m ch c = Some c' \<and> (m c' \<noteq> 0 \<longleftrightarrow> ch \<in> set ys)"
proof (induction ys arbitrary: c)
  case Nil
  then show ?case by (subst set_scan.simps) simp
next
  case (Cons y ys)
  then have "\<exists>c'. set_scan m ch (c + 1) = Some c' \<and> (m c' \<noteq> 0 \<longleftrightarrow> ch \<in> set ys)" by simp
  with Cons.prems show ?case by (subst set_scan.simps) auto
qed

lemma strcspn_loop_diverges:
  assumes "m s1 \<noteq> 0" "set_scan m (m s1) s2 = Some c" "m c = 0"
  shows "strcspn_loop m s s1 s2 = None"
proof (rule ccontr)
  assume "strcspn_loop m s s1 s2 \<noteq> None"
  then obtain r where ret: "strcspn_loop m s s1 s2 = Some r" by auto
  have "\<not> (m s1 \<noteq> 0 \<and> set_scan m (m s1) s2 = Some c \<and> m c = 0)"
    by (rule strcspn_loop.raw_induct [where P = "\<lambda>m s s1 s2 r. \<not> (m s1 \<noteq> 0 \<and> set_scan m (m s1) s2 = Some c \<and> m c = 0)", OF _ ret])
      (auto split: if_splits, blast)
  with assms show False by simp
qed

lemma strspn_loop_diverges:
  assumes "m s1 \<noteq> 0" "set_scan m (m s1) s2 = Some c" "m c \<noteq> 0"
  shows "strspn_loop m s s1 s2 = None"
proof (rule ccontr)
  assume "strspn_loop m s s1 s2 \<noteq> None"
  then obtain r where ret: "strspn_loop m s s1 s2 = Some r" by auto
  have "\<not> (m s1 \<noteq> 0 \<and> set_scan m (m s1) s2 = Some c \<and> m c \<noteq> 0)"
    by (rule strspn_loop.raw_induct [where P = "\<lambda>m s s1 s2 r. \<not> (m s1 \<noteq> 0 \<and> set_scan m (m s1) s2 = Some c \<and> m c \<noteq> 0)", OF _ ret])
      (auto split: if_splits, blast)
  with assms show False by simp
qed

text \<open>
  C36: \<^verbatim>\<open>strncpy\<close> with a positive bound \<^verbatim>\<open>n\<close> leaves in \<^verbatim>\<open>dst\<close> a NUL-terminated string, the first
  \<^verbatim>\<open>n - 1\<close> characters of the source string, and writes nothing outside \<^verbatim>\<open>dst[0..n-1]\<close>, provided the
  destination buffer does not overlap the source string.
\<close>

theorem strncpy_bounded_copy:
  assumes "cstring m src xs" "1 \<le> n" "n < 2 ^ 31"
    and "\<forall>k j. int k < n \<and> j \<le> length xs \<longrightarrow> dst + of_nat k \<noteq> src + of_nat j"
  shows "cstring (strncpy dst src n m) dst (take (nat n - 1) xs) \<and>
    (\<forall>a. n \<le> int (unat (a - dst)) \<longrightarrow> strncpy dst src n m a = m a)"
  using strncpy_loop_cstring [of n 0 m src xs dst] strncpy_loop_outside [of n 0 _ dst src m] assms
  by (simp add: strncpy_def)

theorem strncpy_bounded_copy_witness:
  "cstring (strncpy 200 100 3 ((\<lambda>_. 0)(100 := 65, 101 := 66, 102 := 67))) 200 [65, 66]"
proof -
  have "(200 :: u32) + of_nat k \<noteq> 100 + of_nat j" if "k < 3" "j \<le> 3" for k j
  proof -
    from that have "k \<in> {0, 1, 2}" "j \<in> {0, 1, 2, 3}" by auto
    then show ?thesis by auto
  qed
  then show ?thesis
    using strncpy_bounded_copy [of "(\<lambda>_. 0)(100 := 65, 101 := 66, 102 := 67)" 100 "[65, 66, 67]" 3 200]
    by simp
qed

text \<open>
  C37: \<^verbatim>\<open>strcspn\<close> and \<^verbatim>\<open>strspn\<close> never return a positive span. Because the increment of the scan
  pointer is unreachable, each returns 0 when the first character already ends the span and does
  not return at all otherwise.
\<close>

theorem span_functions_never_advance:
  assumes "cstring m s1 xs" "cstring m s2 ys"
  shows "strcspn m s1 s2 = (if xs = [] \<or> hd xs \<in> set ys then Some 0 else None) \<and>
    strspn m s1 s2 = (if xs = [] \<or> hd xs \<notin> set ys then Some 0 else None)"
proof -
  obtain c where c: "set_scan m (m s1) s2 = Some c" "m c \<noteq> 0 \<longleftrightarrow> m s1 \<in> set ys"
    using set_scan_cstring [OF assms(2)] by metis
  have hd: "m s1 = (if xs = [] then 0 else hd xs)" "m s1 = 0 \<longleftrightarrow> xs = []"
    using assms(1) by (cases xs; simp)+
  have "strcspn m s1 s2 = (if xs = [] \<or> hd xs \<in> set ys then Some 0 else None)"
  proof (cases "xs = [] \<or> hd xs \<in> set ys")
    case True
    with c hd show ?thesis unfolding strcspn_def by (subst strcspn_loop.simps) auto
  next
    case False
    with c hd strcspn_loop_diverges [of m s1 s2 c s1] show ?thesis by (simp add: strcspn_def)
  qed
  moreover have "strspn m s1 s2 = (if xs = [] \<or> hd xs \<notin> set ys then Some 0 else None)"
  proof (cases "xs = [] \<or> hd xs \<notin> set ys")
    case True
    with c hd show ?thesis unfolding strspn_def by (subst strspn_loop.simps) auto
  next
    case False
    with c hd strspn_loop_diverges [of m s1 s2 c s1] show ?thesis by (simp add: strspn_def)
  qed
  ultimately show ?thesis ..
qed

theorem span_functions_never_advance_witness:
  "strcspn ((\<lambda>_. 0)(100 := 97, 101 := 44, 200 := 44)) 100 200 = None"
  using span_functions_never_advance [of "(\<lambda>_. 0)(100 := 97, 101 := 44, 200 := 44)" 100 "[97, 44]" 200 "[44]"]
  by simp

end
