(* ===== verification/Machine.thy ===== *)
theory Machine
  imports Libc_String
begin

unbundle bit_operations_syntax

text \<open>
  The machine below the C code: the byte memory, the I/O ports (\<^verbatim>\<open>kernel/include/kernel/io.h\<close>) and the data segment registers.
  The devices behind the ports are not part of the program. They are a parameter, the function
  \<open>bus\<close>, which gives the value that a read of a port returns after a history of port accesses; what
  a component relies on of a device is a hypothesis about \<open>bus\<close>.

  The state of the kernel is an extensible record. Each component adds the variables it owns to the
  record of the components it calls, and its operations work on every extension of that record, so
  that a caller further up applies them to its own state as it is. The chain starts here.
\<close>

section \<open>Definitions\<close>

datatype io_event = Out8 u16 u8 | Out16 u16 u16 | In8 u16 | In16 u16

record machine =
  mem :: memory
  io_trace :: "io_event list"
  bus :: "io_event list \<Rightarrow> u16 \<Rightarrow> u16"
  data_seg :: u16

definition inpb :: "'a machine_scheme \<Rightarrow> u16 \<Rightarrow> u8 \<times> 'a machine_scheme" where
  "inpb s port = (ucast (bus s (io_trace s) port), s\<lparr>io_trace := In8 port # io_trace s\<rparr>)"

definition inpw :: "'a machine_scheme \<Rightarrow> u16 \<Rightarrow> u16 \<times> 'a machine_scheme" where
  "inpw s port = (bus s (io_trace s) port, s\<lparr>io_trace := In16 port # io_trace s\<rparr>)"

definition outb :: "'a machine_scheme \<Rightarrow> u16 \<Rightarrow> u8 \<Rightarrow> 'a machine_scheme" where
  "outb s port val = s\<lparr>io_trace := Out8 port val # io_trace s\<rparr>"

definition outw :: "'a machine_scheme \<Rightarrow> u16 \<Rightarrow> u16 \<Rightarrow> 'a machine_scheme" where
  "outw s port val = s\<lparr>io_trace := Out16 port val # io_trace s\<rparr>"

section \<open>Lemmas\<close>

lemma io_keeps [simp]:
  "mem (outb s p v) = mem s" "mem (snd (inpb s p)) = mem s" "mem (snd (inpw s p)) = mem s"
  "bus (outb s p v) = bus s" "bus (snd (inpb s p)) = bus s" "bus (snd (inpw s p)) = bus s"
  by (simp_all add: outb_def inpb_def inpw_def)

end
