(* ===== verification/Kheap_Model.thy ===== *)
theory Kheap_Model
  imports Heap_Proofs Tty_Model
begin

text \<open>
  \<^verbatim>\<open>kernel/memory/kheap.c\<close>: the kernel's own heap, 100 MB at \<^verbatim>\<open>0x01000000\<close> with its table at \<^verbatim>\<open>0x7E00\<close>.
\<close>

section \<open>Definitions\<close>

record kheap_state = tty_state +
  kernel_heap :: heap

text \<open>
  The table entries start as whatever the memory at \<^verbatim>\<open>ENKI_HEAP_TABLE_ADDRESS\<close> holds, and \<^verbatim>\<open>heap_create\<close> clears these bytes. From
  then on the table is a value of its own, \<open>kernel_heap\<close>: the bytes under it, \<open>heap_table_bytes\<close>, stand for it no more, so a
  statement about later writes to memory has to keep out of them. The call of \<^verbatim>\<open>panic\<close> does not return.
\<close>

definition heap_table_bytes :: "u32 set" where
  "heap_table_bytes = {a. a - ENKI_HEAP_TABLE_ADDRESS < 25600}"

definition kheap_init :: "'a kheap_state_scheme \<Rightarrow> 'a kheap_state_scheme option" where
  "kheap_init s =
     (let total_entries = c_div ENKI_HEAP_SIZE_BYTES ENKI_HEAP_BLOCK_SIZE;
          kernel_heap_table =
            \<lparr>entries = (\<lambda>i. mem s (ENKI_HEAP_TABLE_ADDRESS + word_of_int i)), tlength = word_of_int total_entries\<rparr>;
          end_addr = ENKI_HEAP_ADDRESS + word_of_int ENKI_HEAP_SIZE_BYTES;
          (result, h) = heap_create (kernel_heap s) ENKI_HEAP_ADDRESS end_addr kernel_heap_table
      in if result < 0 then None else Some (s\<lparr>mem := memset ENKI_HEAP_TABLE_ADDRESS 0 (tlength kernel_heap_table) (mem s), kernel_heap := h\<rparr>))"

definition kmalloc :: "'a kheap_state_scheme \<Rightarrow> u32 \<Rightarrow> u32 \<times> 'a kheap_state_scheme" where
  "kmalloc s sz = (let (p, h) = heap_malloc (kernel_heap s) sz in (p, s\<lparr>kernel_heap := h\<rparr>))"

definition kzalloc :: "'a kheap_state_scheme \<Rightarrow> u32 \<Rightarrow> u32 \<times> 'a kheap_state_scheme" where
  "kzalloc s sz =
     (let (ptr, s1) = kmalloc s sz
      in if ptr = 0 then (0, s1) else (ptr, s1\<lparr>mem := memset ptr 0x00 sz (mem s1)\<rparr>))"

definition kfree :: "'a kheap_state_scheme \<Rightarrow> u32 \<Rightarrow> 'a kheap_state_scheme" where
  "kfree s ptr = s\<lparr>kernel_heap := heap_free (kernel_heap s) ptr\<rparr>"

section \<open>The kernel heap as a block allocator\<close>

definition kheap_wf :: "'a kheap_state_scheme \<Rightarrow> bool" where
  "kheap_wf s \<longleftrightarrow> heap_wf (kernel_heap s)"

definition kallocs :: "'a kheap_state_scheme \<Rightarrow> (u32 \<times> nat) set" where
  "kallocs s = heap_allocs (kernel_heap s)"

definition kfits :: "'a kheap_state_scheme \<Rightarrow> nat \<Rightarrow> bool" where
  "kfits s n \<longleftrightarrow> heap_fits (kernel_heap s) n"

definition kavail :: "'a kheap_state_scheme \<Rightarrow> nat" where
  "kavail s = heap_avail (kernel_heap s)"

definition kregion :: "'a kheap_state_scheme \<Rightarrow> u32 set" where
  "kregion s = heap_region (kernel_heap s)"

lemmas kheap_view_defs = kheap_wf_def kallocs_def kfits_def kavail_def kregion_def

lemma kheap_view_mem [simp]:
  "kheap_wf (s\<lparr>mem := m\<rparr>) = kheap_wf s" "kallocs (s\<lparr>mem := m\<rparr>) = kallocs s"
  "kfits (s\<lparr>mem := m\<rparr>) n = kfits s n" "kavail (s\<lparr>mem := m\<rparr>) = kavail s"
  "kregion (s\<lparr>mem := m\<rparr>) = kregion s"
  by (simp_all add: kheap_view_defs)

lemma kheap_view_eqs:
  "kheap_wf = (\<lambda>s. heap_wf (kernel_heap s))" "kallocs = (\<lambda>s. heap_allocs (kernel_heap s))"
  "kfits = (\<lambda>s. heap_fits (kernel_heap s))" "kavail = (\<lambda>s. heap_avail (kernel_heap s))"
  "kregion = (\<lambda>s. heap_region (kernel_heap s))"
  by (simp_all add: fun_eq_iff kheap_view_defs)

interpretation km: region_allocator kheap_wf kallocs kfits kavail kmalloc kfree kregion
  unfolding kheap_view_eqs
  by (rule heap_r.transport_region) (auto simp: kmalloc_def kfree_def split: prod.splits)

text \<open>\<^verbatim>\<open>kzalloc\<close> changes the heap exactly as \<^verbatim>\<open>kmalloc\<close> does.\<close>

lemma kzalloc_kmalloc:
  "kzalloc s sz = (p, s') \<longleftrightarrow>
   (\<exists>s1. kmalloc s sz = (p, s1) \<and> s' = (if p = 0 then s1 else s1\<lparr>mem := memset p 0 sz (mem s1)\<rparr>))"
  by (auto simp: kzalloc_def Let_def split: prod.splits)

lemma kmalloc_mem: "kmalloc s sz = (p, s') \<Longrightarrow> mem s' = mem s"
  by (auto simp: kmalloc_def split: prod.splits)

interpretation kz: region_allocator kheap_wf kallocs kfits kavail kzalloc kfree kregion
  unfolding kheap_view_eqs
  by (rule heap_r.transport_region) (auto simp: kzalloc_kmalloc kmalloc_def kfree_def split: prod.splits if_splits)

lemma kzalloc_mem:
  "kzalloc s sz = (p, s') \<Longrightarrow> mem s' a = (if p \<noteq> 0 \<and> a - p < sz then 0 else mem s a)"
  by (auto simp: kzalloc_kmalloc mem_simps dest: kmalloc_mem split: if_splits)

lemma kfree_mem [simp]: "mem (kfree s p) = mem s"
  by (simp add: kfree_def)

lemma in_extent_blocks_for: "a - p < sz \<Longrightarrow> a \<in> extent p (blocks_for sz)"
proof -
  assume "a - p < sz"
  then have "unat (a - p) < unat sz" by (simp add: word_less_nat_alt)
  also have "unat sz \<le> (unat sz + 4095) div 4096 * 4096"
    using div_mult_mod_eq [of "unat sz + 4095" 4096] mod_less_divisor [of 4096 "unat sz + 4095"] by linarith
  finally show ?thesis by (simp add: extent_def blocks_for_def)
qed

text \<open>The memory of every live allocation survives an allocation.\<close>

lemma kzalloc_keeps_live:
  assumes "kheap_wf s" "0 < unat sz" "unat sz \<le> 2 ^ 32 - 4096" "kfits s (blocks_for sz)" "kzalloc s sz = (p, s')"
    and "(q, k) \<in> kallocs s" "a \<in> extent q k"
  shows "mem s' a = mem s a"
  using kz.malloc_fresh [OF assms(1-6)] assms(7) in_extent_blocks_for [of a p sz] kzalloc_mem [OF assms(5), of a] by auto

text \<open>
  Protected memory: outside the heap, or inside a live allocation. No later allocation touches it.
\<close>

definition kprot :: "'a kheap_state_scheme \<Rightarrow> u32 \<Rightarrow> bool" where
  "kprot s a \<longleftrightarrow> a \<notin> kregion s \<or> (\<exists>q k. (q, k) \<in> kallocs s \<and> a \<in> extent q k)"

lemma kprot_mem [simp]: "kprot (s\<lparr>mem := m\<rparr>) a = kprot s a"
  by (simp add: kprot_def)

lemma kzalloc_page:
  assumes "kheap_wf s" "0 < kavail s" "0 < unat sz" "unat sz \<le> 4096" "kzalloc s sz = (p, s')"
  shows "kheap_wf s'" "kallocs s' = insert (p, 1) (kallocs s)" "p \<noteq> 0" "4096 dvd unat p" "kavail s' + 1 = kavail s"
    "\<And>q k. (q, k) \<in> kallocs s \<Longrightarrow> extent p 1 \<inter> extent q k = {}" "\<And>q k. (q, k) \<in> kallocs s \<Longrightarrow> p \<noteq> q"
    "\<And>a. a \<notin> extent p 1 \<Longrightarrow> mem s' a = mem s a" "\<And>a. a - p < sz \<Longrightarrow> mem s' a = 0"
    "\<And>a. kprot s a \<Longrightarrow> a \<notin> extent p 1 \<and> kprot s' a"
proof -
  note page = kz.malloc_page [OF assms(1,3,4,2,5)]
  have one: "blocks_for sz = 1" using assms(3,4) by (rule blocks_for_page)
  show "kheap_wf s'" "kallocs s' = insert (p, 1) (kallocs s)" "p \<noteq> 0" "4096 dvd unat p" "kavail s' + 1 = kavail s"
    using page by simp_all
  have fits: "kfits s (blocks_for sz)" using kz.avail_fits [OF assms(1,2)] one by simp
  then show "extent p 1 \<inter> extent q k = {}" if "(q, k) \<in> kallocs s" for q k
    using kz.malloc_fresh [OF assms(1,3) _ _ assms(5) that] assms(4) one by simp
  show "p \<noteq> q" if "(q, k) \<in> kallocs s" for q k using page that by blast
  show "mem s' a = mem s a" if "a \<notin> extent p 1" for a
    using kzalloc_mem [OF assms(5), of a] in_extent_blocks_for [of a p sz] that one by auto
  show "mem s' a = 0" if "a - p < sz" for a using kzalloc_mem [OF assms(5), of a] that page by simp
  show "a \<notin> extent p 1 \<and> kprot s' a" if "kprot s a" for a
    using kz.protected_malloc [OF assms(1,3) _ fits assms(5), of a] that assms(4) one by (simp add: kprot_def)
qed

text \<open>
  A step that allocates costs, of the longest free run, at most the blocks that it takes: \<open>kspent s s'\<close>.
\<close>

definition kspent :: "'a kheap_state_scheme \<Rightarrow> 'a kheap_state_scheme \<Rightarrow> bool" where
  "kspent s s' \<longleftrightarrow> (\<exists>c. kavail s = kavail s' + c \<and> (\<forall>n. kfits s (n + c) \<longrightarrow> kfits s' n))"

lemma kspentI: "kavail s = kavail s' + c \<Longrightarrow> (\<And>n. kfits s (n + c) \<Longrightarrow> kfits s' n) \<Longrightarrow> kspent s s'"
  by (auto simp: kspent_def)

lemma kspent_same: "kernel_heap s' = kernel_heap s \<Longrightarrow> kspent s s'"
  by (rule kspentI [where c = 0]) (simp_all add: kheap_view_defs)

lemma kspent_eq:
  assumes "kernel_heap s1' = kernel_heap s1" "kernel_heap s2' = kernel_heap s2"
  shows "kspent s1' s2' = kspent s1 s2"
  using assms by (simp add: kspent_def kheap_view_defs)

lemma kspent_trans:
  assumes "kspent s s1" "kspent s1 s2"
  shows "kspent s s2"
proof -
  obtain c d where c: "kavail s = kavail s1 + c" "\<And>n. kfits s (n + c) \<Longrightarrow> kfits s1 n"
    and d: "kavail s1 = kavail s2 + d" "\<And>n. kfits s1 (n + d) \<Longrightarrow> kfits s2 n" using assms unfolding kspent_def by blast
  show ?thesis
  proof (rule kspentI)
    show "kavail s = kavail s2 + (d + c)" using c(1) d(1) by simp
    show "kfits s2 n" if "kfits s (n + (d + c))" for n using that c(2) [of "n + d"] d(2) by (simp add: add.assoc)
  qed
qed

lemma kspent_fits: "kspent s s' \<Longrightarrow> kavail s' + c = kavail s \<Longrightarrow> kfits s (n + c) \<Longrightarrow> kfits s' n"
  by (auto simp: kspent_def)

lemma kspent_kzalloc:
  assumes "kheap_wf s" "0 < unat sz" "unat sz \<le> 2 ^ 32 - 4096" "kfits s (blocks_for sz)" "kzalloc s sz = (p, s')"
  shows "kspent s s'"
proof (rule kspentI)
  show "kavail s = kavail s' + blocks_for sz" using kz.malloc_avail [OF assms] by simp
  show "kfits s' n" if "kfits s (n + blocks_for sz)" for n
    using that kz.malloc_fits [OF assms(1-3) _ assms(5), of n] by (simp add: add.commute)
qed

lemma kspent_kzalloc_kfree:
  assumes "kheap_wf s" "0 < unat sz" "unat sz \<le> 2 ^ 32 - 4096" "kfits s (blocks_for sz)" "kzalloc s sz = (p, s1)"
  shows "kspent s (kfree s1 p)"
  by (rule kspentI [where c = 0]) (use kz.free_malloc [OF assms] kz.free_malloc_fits [OF assms] in simp_all)

text \<open>What \<^verbatim>\<open>kheap_init\<close> leaves: an empty heap of 25600 blocks, whatever the memory of the table held, and cleared bytes under the table.\<close>

lemma kheap_init_run:
  "\<exists>m h. kheap_init s = Some (s\<lparr>mem := m, kernel_heap := h\<rparr>) \<and> (\<forall>a. m a = (if a \<in> heap_table_bytes then 0 else mem s a)) \<and> heap_wf h \<and> heap_allocs h = {} \<and> heap_avail h = 25600 \<and>
    (\<forall>n. heap_fits h n \<longleftrightarrow> n \<le> 25600) \<and> heap_region h = {a. 0x01000000 \<le> uint a \<and> uint a < 0x07400000}"
proof -
  define tbl where "tbl = \<lparr>entries = (\<lambda>i. mem s (ENKI_HEAP_TABLE_ADDRESS + word_of_int i)), tlength = 25600\<rparr>"
  define h where "h = snd (heap_create (kernel_heap s) 0x01000000 0x07400000 tbl)"
  have ok: "fst (heap_create (kernel_heap s) 0x01000000 0x07400000 tbl) = 0" "heap_wf h" "heap_allocs h = {}"
    using heap_create_ok [of "0x01000000" "0x07400000" tbl "kernel_heap s"]
    by (simp_all add: tbl_def h_def heap_validate_align_def config_simps)
  have h: "h = \<lparr>table = \<lparr>entries = (\<lambda>i. if 0 \<le> i \<and> i < 25600 then 0 else entries tbl i), tlength = 25600\<rparr>,
    start_addr = 0x01000000\<rparr>"
    by (simp add: h_def heap_create_def heap_validate_align_def heap_validate_table_def tbl_def config_simps cong: if_cong)
  have "free_blocks h = {0 ..< 25600}" by (auto simp: h heap_get_entry_type_def config_simps)
  then have "heap_avail h = 25600" by (simp add: heap_avail_def)
  moreover have "heap_fits h n \<longleftrightarrow> n \<le> 25600" for n
    by (auto simp: heap_fits_def free_run_def h heap_get_entry_type_def config_simps intro!: exI [of _ 0])
  moreover have "kheap_init s = Some (s\<lparr>mem := memset ENKI_HEAP_TABLE_ADDRESS 0 25600 (mem s), kernel_heap := h\<rparr>)"
    using ok(1) by (simp add: kheap_init_def h_def tbl_def config_simps split_beta Let_def)
  moreover have "heap_region h = {a. 0x01000000 \<le> uint a \<and> uint a < 0x07400000}" by (simp add: h heap_region_def)
  moreover have "memset ENKI_HEAP_TABLE_ADDRESS 0 25600 (mem s) a = (if a \<in> heap_table_bytes then 0 else mem s a)" for a
    by (simp add: memset_apply heap_table_bytes_def)
  ultimately show ?thesis using ok by blast
qed

section \<open>Properties\<close>

text \<open>
  \<^verbatim>\<open>kheap_init\<close> never panics: whatever the memory of the table held, it leaves a well-formed
  heap of 25600 free blocks with no live allocation.
\<close>

theorem kheap_init_succeeds:
  "\<exists>s'. kheap_init s = Some s' \<and> kheap_wf s' \<and> kallocs s' = {} \<and> kavail s' = 25600 \<and>
    (\<forall>n. kfits s' n \<longleftrightarrow> n \<le> 25600) \<and> (\<forall>a. a \<notin> heap_table_bytes \<longrightarrow> mem s' a = mem s a)"
  using kheap_init_run [of s] by (auto simp: kheap_view_defs)

text \<open>
  C22: on a well-formed heap with a long enough free run, \<^verbatim>\<open>kzalloc\<close> returns an address whose
  \<^verbatim>\<open>size\<close> bytes are zero, records exactly one new allocation, keeps the heap well formed, and leaves
  every byte of every live allocation as it was.
\<close>

theorem kzalloc_zeroed_and_fresh:
  assumes "kheap_wf s" "0 < unat sz" "unat sz \<le> 2 ^ 32 - 4096" "kfits s (blocks_for sz)" "kzalloc s sz = (p, s')"
  shows "kheap_wf s' \<and> p \<noteq> 0 \<and> kallocs s' = insert (p, blocks_for sz) (kallocs s) \<and>
    (\<forall>a. a - p < sz \<longrightarrow> mem s' a = 0) \<and>
    (\<forall>q k a. (q, k) \<in> kallocs s \<and> a \<in> extent q k \<longrightarrow> mem s' a = mem s a \<and> a \<notin> extent p (blocks_for sz))"
proof -
  have wf: "kheap_wf s'" by (rule kz.malloc_inv [OF assms])
  moreover have al: "kallocs s' = insert (p, blocks_for sz) (kallocs s)" by (rule kz.malloc_allocs [OF assms])
  moreover have "p \<noteq> 0" using kz.allocs_addr [OF wf, of p "blocks_for sz"] al by simp
  moreover have "\<forall>a. a - p < sz \<longrightarrow> mem s' a = 0" using \<open>p \<noteq> 0\<close> kzalloc_mem [OF assms(5)] by simp
  moreover have "\<forall>q k a. (q, k) \<in> kallocs s \<and> a \<in> extent q k \<longrightarrow> mem s' a = mem s a \<and> a \<notin> extent p (blocks_for sz)"
    using kzalloc_keeps_live [OF assms] kz.malloc_fresh [OF assms] by blast
  ultimately show ?thesis by simp
qed

definition demo_kheap :: "u32 \<Rightarrow> kheap_state" where
  "demo_kheap n = \<lparr>mem = (\<lambda>_. 0xAA), io_trace = [], bus = (\<lambda>_ _. 0), data_seg = 0x10, tty_row = 0, tty_col = 0,
     kernel_heap = demo_heap n\<rparr>"

lemma demo_kheap_wf: "uint n \<le> 25600 \<Longrightarrow> kheap_wf (demo_kheap n)"
  by (simp add: kheap_wf_def demo_kheap_def demo_heap_wf)

theorem kzalloc_zeroed_and_fresh_witness:
  "mem (snd (kzalloc (demo_kheap 4) 8)) (fst (kzalloc (demo_kheap 4) 8) + 7) = 0"
  using kzalloc_zeroed_and_fresh [OF demo_kheap_wf, of 4 8] demo_heap_fits [of 1 4]
  by (simp add: blocks_for_def kfits_def demo_kheap_def prod_eq_iff)

end
