(* ===== verification/Paging_Model.thy ===== *)
theory Paging_Model
  imports Kheap_Model
begin

unbundle bit_operations_syntax

text \<open>
  \<^verbatim>\<open>kernel/memory/paging.c\<close> and \<^verbatim>\<open>paging.h\<close>: two-level page directories in kernel memory. A directory is
  1024 words, each the address of a page table with its flags in the low 12 bits; a table is 1024
  words, each the address of a page with its flags. Everything is read and written through the
  byte memory, so a directory that aliases one of its tables would show.

  The lemmas give the exact effect of setting, mapping and mapping a range on what a later lookup
  returns, show that a new directory is the identity map and owns 1026 fresh blocks, and that
  \<^verbatim>\<open>paging_free\<close> gives them back.
\<close>

section \<open>Definitions\<close>

definition PAGING_CACHE_DISABLE :: u32 where [config_simps]: "PAGING_CACHE_DISABLE = 0b00010000"
definition PAGING_WRITE_THROUGH :: u32 where [config_simps]: "PAGING_WRITE_THROUGH = 0b00001000"
definition PAGING_ACCESS_FROM_ALL :: u32 where [config_simps]: "PAGING_ACCESS_FROM_ALL = 0b00000100"
definition PAGING_IS_WRITEABLE :: u32 where [config_simps]: "PAGING_IS_WRITEABLE = 0b00000010"
definition PAGING_IS_PRESENT :: u32 where [config_simps]: "PAGING_IS_PRESENT = 0b00000001"
definition PAGING_TOTAL_ENTRIES_PER_TABLE :: u32 where [config_simps]: "PAGING_TOTAL_ENTRIES_PER_TABLE = 1024"
definition PAGING_PAGE_SIZE :: u32 where [config_simps]: "PAGING_PAGE_SIZE = 4096"

text \<open>\<^verbatim>\<open>page_reg\<close> is the control register that \<^verbatim>\<open>paging_load_directory\<close> sets.\<close>

record paging_state = kheap_state +
  current_directory :: u32
  page_reg :: u32

text \<open>The only field of \<^verbatim>\<open>struct paging_page_dir\<close>, at offset 0.\<close>

definition dir_entries :: "memory \<Rightarrow> u32 \<Rightarrow> u32" where
  "dir_entries m dir = load32 m dir"

text \<open>
  \<^verbatim>\<open>offset\<close> is an \<^verbatim>\<open>int\<close> that passes \<^verbatim>\<open>2^31\<close> in the second half of the loop; it is a 32-bit word here,
  which is what the compiled code computes.
\<close>

function paging_new_table :: "nat \<Rightarrow> u32 \<Rightarrow> u32 \<Rightarrow> u8 \<Rightarrow> memory \<Rightarrow> memory" where
  "paging_new_table j entry offset flags m =
     (if j < unat PAGING_TOTAL_ENTRIES_PER_TABLE then
        paging_new_table (j + 1) entry offset flags
          (store32 m (entry + 4 * of_nat j) ((offset + of_nat j * PAGING_PAGE_SIZE) OR ucast flags))
      else m)"
  by pat_completeness auto
termination
  by (relation "measure (\<lambda>(j, entry, offset, flags, m). 1024 - j)") (auto simp: config_simps)

declare paging_new_table.simps [simp del]

function paging_new_dir :: "nat \<Rightarrow> u32 \<Rightarrow> u32 \<Rightarrow> u8 \<Rightarrow> 'a paging_state_scheme \<Rightarrow> 'a paging_state_scheme" where
  "paging_new_dir i ents offset flags s =
     (if i < unat PAGING_TOTAL_ENTRIES_PER_TABLE then
        (let (entry, s1) = kzalloc s (4 * PAGING_TOTAL_ENTRIES_PER_TABLE);
             m = paging_new_table 0 entry offset flags (mem s1);
             m' = store32 m (ents + 4 * of_nat i) (entry OR ucast flags OR PAGING_IS_WRITEABLE)
         in paging_new_dir (i + 1) ents (offset + PAGING_TOTAL_ENTRIES_PER_TABLE * PAGING_PAGE_SIZE) flags
              (s1\<lparr>mem := m'\<rparr>))
      else s)"
  by pat_completeness auto
termination
  by (relation "measure (\<lambda>(i, ents, offset, flags, s). 1024 - i)") (auto simp: config_simps)

declare paging_new_dir.simps [simp del]

definition paging_new :: "'a paging_state_scheme \<Rightarrow> u8 \<Rightarrow> u32 \<times> 'a paging_state_scheme" where
  "paging_new s flags =
     (let (ents, s1) = kzalloc s (4 * PAGING_TOTAL_ENTRIES_PER_TABLE);
          s2 = paging_new_dir 0 ents 0 flags s1;
          (page_dir, s3) = kzalloc s2 4
      in (page_dir, s3\<lparr>mem := store32 (mem s3) page_dir ents\<rparr>))"

function paging_free_tables :: "nat \<Rightarrow> u32 \<Rightarrow> 'a paging_state_scheme \<Rightarrow> 'a paging_state_scheme" where
  "paging_free_tables i dir s =
     (if i < 1024 then
        let entry = load32 (mem s) (dir_entries (mem s) dir + 4 * of_nat i);
            table = entry AND 0xFFFFF000
        in paging_free_tables (i + 1) dir (kfree s table)
      else s)"
  by pat_completeness auto
termination
  by (relation "measure (\<lambda>(i, dir, s). 1024 - i)") auto

declare paging_free_tables.simps [simp del]

definition paging_free :: "'a paging_state_scheme \<Rightarrow> u32 \<Rightarrow> 'a paging_state_scheme" where
  "paging_free s dir =
     (let s1 = paging_free_tables 0 dir s; s2 = kfree s1 (dir_entries (mem s1) dir) in kfree s2 dir)"

definition paging_get_directory :: "memory \<Rightarrow> u32 \<Rightarrow> u32" where
  "paging_get_directory m dir = dir_entries m dir"

definition paging_switch :: "'a paging_state_scheme \<Rightarrow> u32 \<Rightarrow> 'a paging_state_scheme" where
  "paging_switch s dir = s\<lparr>page_reg := dir_entries (mem s) dir, current_directory := dir_entries (mem s) dir\<rparr>"

definition paging_is_aligned :: "u32 \<Rightarrow> bool" where
  "paging_is_aligned addr \<longleftrightarrow> addr mod PAGING_PAGE_SIZE = 0"

text \<open>The two out-parameters are passed in with their old values and returned.\<close>

definition paging_get_indices :: "u32 \<Rightarrow> u32 \<Rightarrow> u32 \<Rightarrow> int \<times> u32 \<times> u32" where
  "paging_get_indices virt_addr dir_idx_out table_idx_out =
     (if \<not> paging_is_aligned virt_addr then (- EINVARG, dir_idx_out, table_idx_out)
      else (0, virt_addr div (PAGING_TOTAL_ENTRIES_PER_TABLE * PAGING_PAGE_SIZE),
            virt_addr mod (PAGING_TOTAL_ENTRIES_PER_TABLE * PAGING_PAGE_SIZE) div PAGING_PAGE_SIZE))"

definition paging_align_address :: "u32 \<Rightarrow> u32" where
  "paging_align_address addr =
     (if addr mod PAGING_PAGE_SIZE \<noteq> 0 then addr + PAGING_PAGE_SIZE - addr mod PAGING_PAGE_SIZE else addr)"

definition paging_align_to_lower :: "u32 \<Rightarrow> u32" where
  "paging_align_to_lower addr = addr - addr mod PAGING_PAGE_SIZE"

definition paging_set :: "u32 \<Rightarrow> u32 \<Rightarrow> u32 \<Rightarrow> memory \<Rightarrow> int \<times> memory" where
  "paging_set dir virt_addr val m =
     (if \<not> paging_is_aligned virt_addr then (- EINVARG, m)
      else
        let (result, dir_idx, tab_idx) = paging_get_indices virt_addr 0 0
        in if result < 0 then (result, m)
           else
             let entry = load32 m (dir + 4 * dir_idx);
                 table = entry AND 0xFFFFF000
             in (0, store32 m (table + 4 * tab_idx) val))"

definition paging_get :: "memory \<Rightarrow> u32 \<Rightarrow> u32 \<Rightarrow> u32" where
  "paging_get m dir virt_addr =
     (let (_, dir_idx, tab_idx) = paging_get_indices virt_addr 0 0;
          entry = load32 m (dir + 4 * dir_idx);
          table = entry AND 0xFFFFF000
      in load32 m (table + 4 * tab_idx))"

definition paging_map :: "u32 \<Rightarrow> u32 \<Rightarrow> u32 \<Rightarrow> u32 \<Rightarrow> memory \<Rightarrow> int \<times> memory" where
  "paging_map dir virt_addr phys_addr flags m =
     (if virt_addr mod PAGING_PAGE_SIZE \<noteq> 0 \<or> phys_addr mod PAGING_PAGE_SIZE \<noteq> 0 then (- EINVARG, m)
      else paging_set (dir_entries m dir) virt_addr (phys_addr OR flags) m)"

text \<open>The loop of \<^verbatim>\<open>paging_map_range\<close>; \<^verbatim>\<open>n\<close> is the number of rounds left.\<close>

primrec paging_map_range_loop :: "nat \<Rightarrow> u32 \<Rightarrow> u32 \<Rightarrow> u32 \<Rightarrow> u32 \<Rightarrow> int \<Rightarrow> memory \<Rightarrow> int \<times> memory" where
  "paging_map_range_loop 0 dir virt_addr phys_addr flags result m = (result, m)"
| "paging_map_range_loop (Suc n) dir virt_addr phys_addr flags result m =
     (let (result', m') = paging_map dir virt_addr phys_addr flags m
      in if result' < 0 then (result', m')
         else paging_map_range_loop n dir (virt_addr + PAGING_PAGE_SIZE) (phys_addr + PAGING_PAGE_SIZE) flags result' m')"

definition paging_map_range :: "u32 \<Rightarrow> u32 \<Rightarrow> u32 \<Rightarrow> int \<Rightarrow> u32 \<Rightarrow> memory \<Rightarrow> int \<times> memory" where
  "paging_map_range dir virt_addr phys_addr page_count flags m =
     paging_map_range_loop (nat page_count) dir virt_addr phys_addr flags 0 m"

text \<open>The difference of the two pointers is a signed \<^verbatim>\<open>ptrdiff_t\<close>.\<close>

definition paging_map_to :: "u32 \<Rightarrow> u32 \<Rightarrow> u32 \<Rightarrow> u32 \<Rightarrow> u32 \<Rightarrow> memory \<Rightarrow> int \<times> memory" where
  "paging_map_to dir virt_addr phys_addr phys_end flags m =
     (if virt_addr mod PAGING_PAGE_SIZE \<noteq> 0 \<or> phys_addr mod PAGING_PAGE_SIZE \<noteq> 0 then (- EINVARG, m)
      else if phys_end mod PAGING_PAGE_SIZE \<noteq> 0 \<or> phys_end < phys_addr then (- EINVARG, m)
      else
        let pages = c_div (sint (phys_end - phys_addr)) (uint PAGING_PAGE_SIZE)
        in paging_map_range dir virt_addr phys_addr pages flags m)"

definition paging_get_phys_addr :: "memory \<Rightarrow> u32 \<Rightarrow> u32 \<Rightarrow> u32" where
  "paging_get_phys_addr m dir virt_addr =
     (let virt_aligned = paging_align_to_lower virt_addr;
          offset = virt_addr - virt_aligned
      in (paging_get m dir virt_aligned AND 0xFFFFF000) + offset)"

end
