(* ===== verification/Paging_Proofs.thy ===== *)
theory Paging_Proofs
  imports Paging_Model
begin

unbundle bit_operations_syntax

text \<open>
  Proofs about the page directories of \<open>Paging_Model\<close>: page arithmetic, the directory and table index
  of an address, what a lookup returns after an update, and the life of a directory from
  \<^verbatim>\<open>paging_new\<close> to \<^verbatim>\<open>paging_free\<close>.
\<close>

section \<open>Page arithmetic\<close>

lemma page_mask_eq: "(0xFFFFF000 :: u32) = NOT (mask 12)"
  by (simp add: mask_numeral)

lemma take_bit_page: "take_bit 12 (p :: u32) = 0 \<longleftrightarrow> 4096 dvd unat p"
  by (simp add: word_unat_eq_iff unsigned_take_bit_eq take_bit_eq_mod dvd_eq_mod_eq_0 unat_mod)

lemma take_bit_12_iff: "take_bit 12 f = f \<longleftrightarrow> f < 4096" for f :: u32
proof -
  have "take_bit 12 f = f \<longleftrightarrow> take_bit 12 (unat f) = unat f"
    by (simp only: word_unat_eq_iff unsigned_take_bit_eq)
  then show ?thesis by (simp add: take_bit_nat_eq_self_iff word_less_nat_alt)
qed

lemma aligned_iff: "paging_is_aligned p \<longleftrightarrow> 4096 dvd unat p"
  by (simp add: paging_is_aligned_def config_simps word_unat_eq_iff unat_mod dvd_eq_mod_eq_0)

lemma mod_page_iff: "p mod 4096 = 0 \<longleftrightarrow> 4096 dvd unat p" for p :: u32
  by (simp add: word_unat_eq_iff unat_mod dvd_eq_mod_eq_0)

lemma page_mask_aligned: "4096 dvd unat (x AND 0xFFFFF000 :: u32)"
proof -
  have "take_bit 12 (x AND NOT (mask 12)) = 0"
    by (rule bit_eqI) (auto simp: bit_simps)
  then show ?thesis by (simp only: take_bit_page page_mask_eq)
qed

lemma page_mask_id: "4096 dvd unat p \<Longrightarrow> p AND 0xFFFFF000 = p" for p :: u32
proof -
  assume "4096 dvd unat p"
  then have "bit p n \<Longrightarrow> \<not> n < 12" for n
    by (metis take_bit_page bit_take_bit_iff bit_0_eq bot_apply bot_bool_def)
  then have "p AND NOT (mask 12) = p" by (intro bit_eqI) (auto simp: bit_simps)
  then show ?thesis by (simp only: page_mask_eq)
qed

lemma page_mask_flags: "f < 4096 \<Longrightarrow> f AND 0xFFFFF000 = 0" for f :: u32
proof -
  assume "f < 4096"
  then have "take_bit 12 f = f" by (simp add: take_bit_12_iff)
  then have "bit f n \<Longrightarrow> n < 12" for n by (metis bit_take_bit_iff)
  then have "f AND NOT (mask 12) = 0" by (intro bit_eqI) (auto simp: bit_simps)
  then show ?thesis by (simp only: page_mask_eq)
qed

lemma page_mask_or:
  fixes p f :: u32
  assumes "4096 dvd unat p" "f < 4096"
  shows "(p OR f) AND 0xFFFFF000 = p"
  using assms by (simp add: bit.conj_disj_distrib2 page_mask_id page_mask_flags)

lemma ucast_flags_small: "ucast (f :: u8) < (4096 :: u32)"
  using unsigned_less [of f, where ?'a = nat] by (simp add: word_less_nat_alt unsigned_ucast_eq take_bit_nat_eq_self)

lemma or_flags_small: "a < 4096 \<Longrightarrow> b < 4096 \<Longrightarrow> a OR b < (4096 :: u32)"
proof -
  assume "a < 4096" "b < 4096"
  then have "take_bit 12 a = a" "take_bit 12 b = b"
    by (simp_all add: take_bit_12_iff)
  then have "take_bit 12 (a OR b) = a OR b" by (simp add: take_bit_or)
  then show ?thesis by (simp only: take_bit_12_iff)
qed

lemma page_word_unat: "4096 dvd unat p \<Longrightarrow> i < 1024 \<Longrightarrow> unat (p + 4 * of_nat i :: u32) = unat p + 4 * i"
  using unat_add_aligned [of 4096 p "4 * i"] by simp

lemma page_word_aligned4: "4096 dvd unat p \<Longrightarrow> i < 1024 \<Longrightarrow> 4 dvd unat (p + 4 * of_nat i :: u32)"
  by (auto simp: page_word_unat elim!: dvdE)

lemma page_word_eq:
  fixes p q :: u32
  assumes "4096 dvd unat p" "4096 dvd unat q" "i < 1024" "j < 1024" "p + 4 * of_nat i = q + 4 * of_nat j"
  shows "p = q \<and> i = j"
proof -
  have "unat p + 4 * i = unat q + 4 * j" using assms page_word_unat by metis
  moreover from assms(1,2) obtain a b where ab: "unat p = 4096 * a" "unat q = 4096 * b" by (auto elim!: dvdE)
  ultimately have "1024 * a + i = 1024 * b + j" by simp
  with assms(3,4) have "a = b" by linarith
  with ab \<open>1024 * a + i = 1024 * b + j\<close> show ?thesis by (simp add: word_unat_eq_iff)
qed

lemma page_word_extent: "i < 1024 \<Longrightarrow> b < 4 \<Longrightarrow> p + 4 * of_nat i + of_nat b \<in> extent p 1"
proof -
  assume "i < 1024" "b < 4"
  moreover have "p + 4 * of_nat i + of_nat b - p = (of_nat (4 * i + b) :: u32)" by simp
  moreover have "4 * i + b < 2 ^ 32" using \<open>i < 1024\<close> \<open>b < 4\<close> by simp
  ultimately show ?thesis unfolding extent_def by (simp only: mem_Collect_eq unat_of_nat_u32)
qed

lemma extents_disjoint:
  assumes "4096 dvd unat p" "4096 dvd unat q" "p \<noteq> q" "a \<in> extent p 1"
  shows "a \<notin> extent q 1"
proof
  assume "a \<in> extent q 1"
  have *: "unat (a - x) < 4096 \<Longrightarrow> 4096 dvd unat x \<Longrightarrow> unat a div 4096 = unat x div 4096" for x :: u32
  proof -
    assume 1: "unat (a - x) < 4096" "4096 dvd unat x"
    have "unat (x + of_nat (unat (a - x))) = unat x + unat (a - x)"
      by (rule unat_add_aligned [OF 1(2,1)]) simp
    then have "unat a = unat x + unat (a - x)" by simp
    then show "unat a div 4096 = unat x div 4096" using 1 by (auto elim!: dvdE)
  qed
  have "unat p div 4096 = unat q div 4096" using * [of p] * [of q] assms \<open>a \<in> extent q 1\<close> by (simp add: extent_def)
  with assms(1,2) have "unat p = unat q" by (auto elim!: dvdE)
  with assms(3) show False by (simp add: word_unat_eq_iff)
qed

section \<open>Directory and table index\<close>

definition pde :: "u32 \<Rightarrow> nat" where "pde v = unat v div 4194304"
definition pte :: "u32 \<Rightarrow> nat" where "pte v = unat v mod 4194304 div 4096"

definition page_of :: "nat \<Rightarrow> nat \<Rightarrow> u32" where
  "page_of i j = of_nat (4194304 * i + 4096 * j)"

lemma pde_bound: "pde v < 1024"
  using unat_u32_bound [of v] by (simp add: pde_def less_mult_imp_div_less)

lemma pte_bound: "pte v < 1024"
  unfolding pte_def by (rule less_mult_imp_div_less) simp

lemma page_of_indices: "4096 dvd unat v \<Longrightarrow> page_of (pde v) (pte v) = v"
proof -
  assume v: "4096 dvd unat v"
  then have "4096 dvd unat v mod 4194304" by (simp add: dvd_mod)
  then have "4096 * (unat v mod 4194304 div 4096) = unat v mod 4194304" by simp
  then have "4194304 * pde v + 4096 * pte v = unat v"
    using mult_div_mod_eq [of 4194304 "unat v"] by (simp add: pde_def pte_def)
  then show ?thesis by (simp only: page_of_def) simp
qed

lemma unat_page_of: "i < 1024 \<Longrightarrow> j < 1024 \<Longrightarrow> unat (page_of i j) = 4194304 * i + 4096 * j"
  unfolding page_of_def by (rule unat_of_nat_u32) simp

lemma indices_page_of: "i < 1024 \<Longrightarrow> j < 1024 \<Longrightarrow> pde (page_of i j) = i \<and> pte (page_of i j) = j"
proof -
  assume ij: "i < 1024" "j < 1024"
  have "(4194304 * i + 4096 * j) div 4194304 = i" using ij by (intro div_nat_eqI) auto
  moreover have "(4194304 * i + 4096 * j) mod 4194304 = 4096 * j" using ij by simp
  ultimately show ?thesis using unat_page_of [OF ij] by (simp add: pde_def pte_def)
qed

lemma indices_inj: "4096 dvd unat v \<Longrightarrow> 4096 dvd unat w \<Longrightarrow> pde v = pde w \<Longrightarrow> pte v = pte w \<Longrightarrow> v = w"
  by (metis page_of_indices)

lemma paging_get_indices_eq:
  "4096 dvd unat v \<Longrightarrow> paging_get_indices v a b = (0, of_nat (pde v), of_nat (pte v))"
  by (simp add: paging_get_indices_def aligned_iff config_simps word_unat_eq_iff unat_div unat_mod pde_def pte_def)
    (use pde_bound [of v] pte_bound [of v] in \<open>simp add: pde_def pte_def\<close>)

section \<open>Lookup and update\<close>

text \<open>
  The table that entry \<open>i\<close> of a directory points to. A directory is well formed when it and its
  1024 tables are different pages.
\<close>

definition pd_table :: "memory \<Rightarrow> u32 \<Rightarrow> nat \<Rightarrow> u32" where
  "pd_table m d i = load32 m (d + 4 * of_nat i) AND 0xFFFFF000"

definition pd_wf :: "memory \<Rightarrow> u32 \<Rightarrow> bool" where
  "pd_wf m d \<longleftrightarrow> 4096 dvd unat d \<and> (\<forall>i<1024. pd_table m d i \<noteq> d) \<and> inj_on (pd_table m d) {..<1024}"

definition page_dir_wf :: "memory \<Rightarrow> u32 \<Rightarrow> bool" where
  "page_dir_wf m dir \<longleftrightarrow> 4096 dvd unat dir \<and> pd_wf m (dir_entries m dir) \<and>
     (\<forall>i<1024. pd_table m (dir_entries m dir) i \<noteq> dir)"

abbreviation pd_slot :: "memory \<Rightarrow> u32 \<Rightarrow> u32 \<Rightarrow> u32" where
  "pd_slot m d v \<equiv> pd_table m d (pde v) + 4 * of_nat (pte v)"

lemma pd_table_aligned [simp]: "4096 dvd unat (pd_table m d i)"
  unfolding pd_table_def by (rule page_mask_aligned)

lemma paging_get_slot: "4096 dvd unat v \<Longrightarrow> paging_get m d v = load32 m (pd_slot m d v)"
  by (simp add: paging_get_def paging_get_indices_eq pd_table_def)

lemma paging_set_slot: "4096 dvd unat v \<Longrightarrow> paging_set d v x m = (0, store32 m (pd_slot m d v) x)"
  by (simp add: paging_set_def paging_get_indices_eq pd_table_def aligned_iff)

lemma load32_page_store:
  fixes p q :: u32
  assumes "4096 dvd unat p" "4096 dvd unat q" "i < 1024" "j < 1024"
  shows "load32 (store32 m (p + 4 * of_nat i) x) (q + 4 * of_nat j) =
    (if p = q \<and> i = j then x else load32 m (q + 4 * of_nat j))"
proof (cases "p = q \<and> i = j")
  case False
  then have "p + 4 * of_nat i \<noteq> q + 4 * of_nat j" using page_word_eq [OF assms] by blast
  then show ?thesis using False load32_store32_other page_word_aligned4 assms by metis
qed (simp add: mem_simps)

lemma pd_table_set:
  assumes "pd_wf m d" "i < 1024" "j < 1024" "k < 1024"
  shows "pd_table (store32 m (pd_table m d i + 4 * of_nat k) x) d j = pd_table m d j"
  using assms unfolding pd_wf_def by (simp add: pd_table_def [of _ d j] load32_page_store)

lemma pd_wf_cong: "(\<And>i. i < 1024 \<Longrightarrow> pd_table m' d i = pd_table m d i) \<Longrightarrow> pd_wf m' d = pd_wf m d"
  unfolding pd_wf_def inj_on_def by simp

lemma store32_page_frame:
  assumes "i < 1024" "a \<notin> extent p 1"
  shows "store32 m (p + 4 * of_nat i) x a = m a"
proof (rule store32_frame)
  show "a \<notin> {p + 4 * of_nat i, p + 4 * of_nat i + 1, p + 4 * of_nat i + 2, p + 4 * of_nat i + 3}"
    using page_word_extent [OF assms(1), of 0 p] page_word_extent [OF assms(1), of 1 p]
      page_word_extent [OF assms(1), of 2 p] page_word_extent [OF assms(1), of 3 p] assms(2) by auto
qed

lemma paging_set_effect:
  assumes "pd_wf m d" "4096 dvd unat v" "paging_set d v x m = (r, m')"
  shows "r = 0" "\<And>i. i < 1024 \<Longrightarrow> pd_table m' d i = pd_table m d i" "pd_wf m' d"
    "\<And>w. 4096 dvd unat w \<Longrightarrow> paging_get m' d w = (if w = v then x else paging_get m d w)"
    "\<And>a. a \<notin> extent (pd_table m d (pde v)) 1 \<Longrightarrow> m' a = m a"
proof -
  from assms(2,3) have m': "m' = store32 m (pd_slot m d v) x" and r: "r = 0" by (simp_all add: paging_set_slot)
  show "r = 0" by (rule r)
  show tab: "pd_table m' d i = pd_table m d i" if "i < 1024" for i
    unfolding m' using assms(1) pde_bound that pte_bound by (rule pd_table_set)
  then show "pd_wf m' d" using assms(1) pd_wf_cong by blast
  show "m' a = m a" if "a \<notin> extent (pd_table m d (pde v)) 1" for a
    unfolding m' using pte_bound that by (rule store32_page_frame)
  fix w :: u32 assume w: "4096 dvd unat w"
  have "pd_table m d (pde v) = pd_table m d (pde w) \<longleftrightarrow> pde v = pde w"
    using assms(1) pde_bound by (auto simp: pd_wf_def inj_on_eq_iff)
  then have same: "pd_table m d (pde v) = pd_table m d (pde w) \<and> pte v = pte w \<longleftrightarrow> w = v"
    using indices_inj [OF assms(2) w] by auto
  have "paging_get m' d w = load32 m' (pd_slot m d w)" by (simp only: paging_get_slot w tab pde_bound)
  also have "\<dots> = (if pd_table m d (pde v) = pd_table m d (pde w) \<and> pte v = pte w then x else load32 m (pd_slot m d w))"
    unfolding m' by (rule load32_page_store) (simp_all add: pte_bound)
  also have "\<dots> = (if w = v then x else paging_get m d w)" by (simp only: same paging_get_slot w)
  finally show "paging_get m' d w = (if w = v then x else paging_get m d w)" .
qed

lemma dir_entries_frame:
  assumes "4096 dvd unat dir" "4096 dvd unat q" "q \<noteq> dir" "\<And>a. a \<notin> extent q 1 \<Longrightarrow> m' a = m a"
  shows "dir_entries m' dir = dir_entries m dir"
  unfolding dir_entries_def
proof (rule load32_cong)
  fix i :: u32 assume "i \<in> {0, 1, 2, 3}"
  then have "i = of_nat (unat i)" "unat i < 4" by auto
  then have "dir + i \<in> extent dir 1" using page_word_extent [of 0 "unat i" dir] by simp
  then show "m' (dir + i) = m (dir + i)" using extents_disjoint [of dir q "dir + i"] assms by blast
qed

lemma paging_map_effect:
  assumes "page_dir_wf m dir" "4096 dvd unat v" "4096 dvd unat p" "paging_map dir v p flags m = (r, m')"
  shows "r = 0" "page_dir_wf m' dir" "dir_entries m' dir = dir_entries m dir"
    "\<And>i. i < 1024 \<Longrightarrow> pd_table m' (dir_entries m dir) i = pd_table m (dir_entries m dir) i"
    "\<And>w. 4096 dvd unat w \<Longrightarrow> paging_get m' (dir_entries m dir) w =
       (if w = v then p OR flags else paging_get m (dir_entries m dir) w)"
    "\<And>a. (\<And>i. i < 1024 \<Longrightarrow> a \<notin> extent (pd_table m (dir_entries m dir) i) 1) \<Longrightarrow> m' a = m a"
proof -
  let ?d = "dir_entries m dir"
  have wf: "pd_wf m ?d" using assms(1) by (simp add: page_dir_wf_def)
  have set: "paging_set ?d v (p OR flags) m = (r, m')"
    using assms(2-4) by (simp add: paging_map_def mod_page_iff config_simps)
  note eff = paging_set_effect [OF wf assms(2) set]
  show "r = 0" "\<And>i. i < 1024 \<Longrightarrow> pd_table m' ?d i = pd_table m ?d i" by (fact eff)+
  show "\<And>w. 4096 dvd unat w \<Longrightarrow> paging_get m' ?d w = (if w = v then p OR flags else paging_get m ?d w)" by (fact eff)
  show "\<And>a. (\<And>i. i < 1024 \<Longrightarrow> a \<notin> extent (pd_table m ?d i) 1) \<Longrightarrow> m' a = m a" using eff(5) pde_bound by blast
  show ent: "dir_entries m' dir = ?d"
    using assms(1) pde_bound by (intro dir_entries_frame [OF _ _ _ eff(5)]) (auto simp: page_dir_wf_def)
  show "page_dir_wf m' dir" using assms(1) eff(2,3) ent by (simp add: page_dir_wf_def)
qed

lemma page_offset_step:
  fixes v w :: u32
  assumes "4096 dvd unat v" "4096 dvd unat w" "v \<noteq> w"
  shows "unat (w - (v + 4096)) + 4096 = unat (w - v)"
proof -
  have "4096 dvd unat (w - v)"
    using assms(1,2) unat_u32_bound [of w] unat_u32_bound [of v] by (auto simp: unat_sub_if' intro: dvd_diff_nat)
  moreover have "unat (w - v) \<noteq> 0" using assms(3) by (simp add: unat_eq_0)
  ultimately have "4096 \<le> unat (w - v)" by (simp add: dvd_imp_le)
  moreover have "w - (v + 4096) = (w - v) - 4096" by simp
  ultimately show ?thesis by (simp only: unat_sub word_le_nat_alt) (simp add: unat_sub word_le_nat_alt)
qed

lemma aligned_next_page: "4096 dvd unat v \<Longrightarrow> 4096 dvd unat (v + 4096)" for v :: u32
proof -
  assume "4096 dvd unat v"
  then have "(4096 :: nat) dvd (unat v + 4096) mod 2 ^ 32" by (intro dvd_mod) simp_all
  then show ?thesis by (simp add: unat_word_ariths)
qed

lemma paging_map_range_loop_effect:
  assumes "page_dir_wf m dir" "4096 dvd unat v" "4096 dvd unat p" "n \<le> 2 ^ 20"
    and "paging_map_range_loop n dir v p flags 0 m = (r, m')"
  shows "r = 0 \<and> page_dir_wf m' dir \<and> dir_entries m' dir = dir_entries m dir \<and>
    (\<forall>i<1024. pd_table m' (dir_entries m dir) i = pd_table m (dir_entries m dir) i) \<and>
    (\<forall>w. 4096 dvd unat w \<longrightarrow> paging_get m' (dir_entries m dir) w =
       (if unat (w - v) < 4096 * n then (p + (w - v)) OR flags else paging_get m (dir_entries m dir) w)) \<and>
    (\<forall>a. (\<forall>i<1024. a \<notin> extent (pd_table m (dir_entries m dir) i) 1) \<longrightarrow> m' a = m a)"
  using assms
proof (induction n arbitrary: v p m)
  case 0
  then show ?case by simp
next
  case (Suc n)
  obtain r1 m1 where map: "paging_map dir v p flags m = (r1, m1)" by fastforce
  note eff = paging_map_effect [OF Suc.prems(1-3) map]
  have loop: "paging_map_range_loop n dir (v + 4096) (p + 4096) flags 0 m1 = (r, m')"
    using Suc.prems(5) map eff(1) by (simp add: config_simps)
  note IH = Suc.IH [OF eff(2) aligned_next_page [OF Suc.prems(2)] aligned_next_page [OF Suc.prems(3)] _ loop]
  have "paging_get m' (dir_entries m dir) w =
      (if unat (w - v) < 4096 * Suc n then (p + (w - v)) OR flags else paging_get m (dir_entries m dir) w)"
    if w: "4096 dvd unat w" for w :: u32
  proof (cases "w = v")
    case True
    have "unat (v - (v + 4096)) = 2 ^ 32 - 4096" by simp
    then show ?thesis using IH Suc.prems(4) w True eff(3,5) by simp
  next
    case False
    have "p + 4096 + (w - (v + 4096)) = p + (w - v)" by simp
    then show ?thesis
      using IH Suc.prems(4) w False eff(3,5) page_offset_step [OF Suc.prems(2) w] by (auto simp: algebra_simps)
  qed
  then show ?case using IH Suc.prems(4) eff(2-4,6) by auto
qed

section \<open>Properties\<close>

text \<open>
  For a page-aligned address \<^verbatim>\<open>paging_get_indices\<close> returns 0 with a directory and a table index,
  both below 1024, that determine the address; for any other address it returns \<^verbatim>\<open>-EINVARG\<close> and leaves
  both out-parameters as they were.
\<close>

theorem paging_get_indices_correct:
  "case paging_get_indices v a b of (r, i, j) \<Rightarrow>
     if v mod 4096 = 0 then r = 0 \<and> i < 1024 \<and> j < 1024 \<and> v = i * 4194304 + j * 4096
     else r = - EINVARG \<and> i = a \<and> j = b"
proof (cases "v mod 4096 = 0")
  case True
  then have v: "4096 dvd unat v" by (simp add: mod_page_iff)
  have "v = of_nat (pde v) * 4194304 + of_nat (pte v) * 4096"
    using page_of_indices [OF v] by (simp add: page_of_def mult.commute)
  moreover have "of_nat (pde v) < (1024 :: u32)" "of_nat (pte v) < (1024 :: u32)"
    using pde_bound [of v] pte_bound [of v] by (simp_all add: word_less_nat_alt)
  ultimately show ?thesis using True by (simp add: paging_get_indices_eq v)
next
  case False
  then show ?thesis by (simp add: paging_get_indices_def paging_is_aligned_def config_simps)
qed

text \<open>
  in a well-formed directory \<^verbatim>\<open>paging_set\<close> of a page-aligned address succeeds, a lookup of that
  address then returns the new value and a lookup of every other page returns what it did before;
  the directory stays well formed and no byte outside the page table of the address changes.
\<close>

theorem paging_get_after_set:
  assumes "pd_wf m d" "paging_is_aligned v" "paging_set d v x m = (r, m')"
  shows "r = 0 \<and> pd_wf m' d \<and>
    (\<forall>w. paging_is_aligned w \<longrightarrow> paging_get m' d w = (if w = v then x else paging_get m d w)) \<and>
    (\<forall>a. a \<notin> extent (pd_table m d (pde v)) 1 \<longrightarrow> m' a = m a)"
proof -
  have v: "4096 dvd unat v" using assms(2) by (simp add: aligned_iff)
  note eff = paging_set_effect [OF assms(1) v assms(3)]
  show ?thesis using eff(1,3,5) eff(4) unfolding aligned_iff by blast
qed

text \<open>A directory at \<^verbatim>\<open>0x400000\<close> whose tables are the 1024 pages behind it, for the witnesses.\<close>

definition demo_tables :: memory where
  "demo_tables a = (if unat (a - 0x400000) < 4096
     then ucast (drop_bit (8 * (unat (a - 0x400000) mod 4)) (of_nat (0x401000 + 4096 * (unat (a - 0x400000) div 4)) :: u32))
     else 0)"

definition demo_pd :: memory where
  "demo_pd = store32 demo_tables 0x300000 0x400000"

lemma demo_tables_byte:
  assumes "i < 1024" "b < 4"
  shows "demo_tables (0x400000 + 4 * of_nat i + of_nat b) =
    ucast (drop_bit (8 * b) (of_nat (0x401000 + 4096 * i) :: u32))"
proof -
  have "0x400000 + 4 * of_nat i + of_nat b - 0x400000 = (of_nat (4 * i + b) :: u32)" by simp
  moreover have "unat (of_nat (4 * i + b) :: u32) = 4 * i + b" using assms by (intro unat_of_nat_u32) simp
  ultimately have "unat (0x400000 + 4 * of_nat i + of_nat b - 0x400000 :: u32) = 4 * i + b" by simp
  then show ?thesis using assms by (simp add: demo_tables_def del: of_nat_add of_nat_mult)
qed

lemma demo_tables_entry: "i < 1024 \<Longrightarrow> load32 demo_tables (0x400000 + 4 * of_nat i) = of_nat (0x401000 + 4096 * i)"
  using demo_tables_byte [of i 0] demo_tables_byte [of i 1] demo_tables_byte [of i 2] demo_tables_byte [of i 3]
  unfolding load32_def by (simp only: of_nat_0 of_nat_1 of_nat_numeral add_0_right)
    (simp add: bytes_of_word32 del: of_nat_add of_nat_mult)

lemma demo_pd_entry: "i < 1024 \<Longrightarrow> load32 demo_pd (0x400000 + 4 * of_nat i) = of_nat (0x401000 + 4096 * i)"
  using load32_page_store [of "0x300000" "0x400000" 0 i demo_tables "0x400000"] demo_tables_entry [of i]
  by (simp add: demo_pd_def)

lemma demo_pd_table: "i < 1024 \<Longrightarrow> unat (pd_table demo_pd 0x400000 i) = 0x401000 + 4096 * i"
proof -
  assume i: "i < 1024"
  have u: "unat (of_nat (0x401000 + 4096 * i) :: u32) = 0x401000 + 4096 * i" using i by (intro unat_of_nat_u32) simp
  then have "4096 dvd unat (of_nat (0x401000 + 4096 * i) :: u32)" by simp
  then show ?thesis unfolding pd_table_def demo_pd_entry [OF i] by (simp only: page_mask_id u)
qed

lemma demo_pd_wf: "pd_wf demo_pd 0x400000"
proof -
  have "pd_table demo_pd 0x400000 i \<noteq> 0x400000" if "i < 1024" for i
    using demo_pd_table [OF that] by (auto simp: word_unat_eq_iff)
  moreover have "inj_on (pd_table demo_pd 0x400000) {..<1024}"
  proof (rule inj_onI)
    fix i j assume "i \<in> {..<1024}" "j \<in> {..<1024}" "pd_table demo_pd 0x400000 i = pd_table demo_pd 0x400000 j"
    then have "unat (pd_table demo_pd 0x400000 i) = unat (pd_table demo_pd 0x400000 j)" "i < 1024" "j < 1024" by simp_all
    then have "0x401000 + 4096 * i = 0x401000 + 4096 * j" by (simp only: demo_pd_table)
    then show "i = j" by simp
  qed
  ultimately show ?thesis by (simp add: pd_wf_def)
qed

lemma demo_dir_entries: "dir_entries demo_pd 0x300000 = 0x400000"
  by (simp add: dir_entries_def demo_pd_def mem_simps)

lemma demo_page_dir_wf: "page_dir_wf demo_pd 0x300000"
proof -
  have "pd_table demo_pd 0x400000 i \<noteq> 0x300000" if "i < 1024" for i
    using demo_pd_table [OF that] by (auto simp: word_unat_eq_iff)
  then show ?thesis by (simp add: page_dir_wf_def demo_dir_entries demo_pd_wf)
qed

theorem paging_get_after_set_witness:
  "paging_get (snd (paging_set 0x400000 0x3FF000 0xABC007 demo_pd)) 0x400000 0x3FF000 = 0xABC007"
  using paging_get_after_set [OF demo_pd_wf, of "0x3FF000" "0xABC007"]
  by (simp add: paging_is_aligned_def config_simps prod_eq_iff)

lemma paging_map_to_effect:
  assumes "page_dir_wf m dir" "paging_map_to dir v p e flags m = (r, m')"
  shows "if v mod 4096 \<noteq> 0 \<or> p mod 4096 \<noteq> 0 \<or> e mod 4096 \<noteq> 0 \<or> e < p then r = - EINVARG \<and> m' = m
    else if unat (e - p) < 2 ^ 31 then
      r = 0 \<and> page_dir_wf m' dir \<and> dir_entries m' dir = dir_entries m dir \<and>
      (\<forall>w. paging_is_aligned w \<longrightarrow> paging_get m' (dir_entries m dir) w =
         (if w - v < e - p then (p + (w - v)) OR flags else paging_get m (dir_entries m dir) w))
    else r = 0 \<and> m' = m"
proof (cases "v mod 4096 \<noteq> 0 \<or> p mod 4096 \<noteq> 0 \<or> e mod 4096 \<noteq> 0 \<or> e < p")
  case True
  then show ?thesis using assms(2) by (auto simp: paging_map_to_def config_simps split: if_splits)
next
  case False
  then have al: "4096 dvd unat v" "4096 dvd unat p" "4096 dvd unat e" "p \<le> e" by (auto simp: mod_page_iff)
  have run: "paging_map_range_loop (nat (c_div (sint (e - p)) 4096)) dir v p flags 0 m = (r, m')"
    using False assms(2) by (simp add: paging_map_to_def paging_map_range_def config_simps)
  have d: "4096 dvd unat (e - p)" using al by (simp add: unat_sub dvd_diff_nat)
  show ?thesis
  proof (cases "unat (e - p) < 2 ^ 31")
    case True
    then have "sint (e - p) = int (unat (e - p))" by (subst sint_u32_small) (simp_all add: uint_nat del: of_nat_unat)
    then have n: "nat (c_div (sint (e - p)) 4096) = unat (e - p) div 4096" by (simp add: zdiv_int [symmetric] del: of_nat_unat)
    have le: "unat (e - p) div 4096 \<le> 2 ^ 20" using True by simp
    have "unat (w - v) < 4096 * (unat (e - p) div 4096) \<longleftrightarrow> w - v < e - p" for w
      using d by (simp add: word_less_nat_alt)
    then show ?thesis
      using paging_map_range_loop_effect [OF assms(1) al(1,2) le run [unfolded n]] False True by (simp add: aligned_iff)
  next
    case neg: False
    then have "2 ^ 31 \<le> uint (e - p)" unfolding uint_nat by (simp del: of_nat_unat)
    then have "sint (e - p) < 0" by (rule sint_u32_big)
    then have "nat (c_div (sint (e - p)) 4096) = 0" by (simp add: c_div_def)
    then show ?thesis using run neg False by simp
  qed
qed

text \<open>
  \<^verbatim>\<open>paging_map_to\<close> returns \<^verbatim>\<open>-EINVARG\<close> and changes nothing unless the virtual address, the
  physical address and the physical end are page aligned and the end is not below the start. Otherwise
  it returns 0, and if the range is shorter than 2 GB every page at a distance below the length of the
  range is mapped, with the flags, to the physical page at the same distance, every other page
  as before. A range of 2 GB or more is taken as negative: nothing is mapped and 0 is returned.
\<close>

theorem paging_map_to_correct:
  assumes "page_dir_wf m dir" "paging_map_to dir v p e flags m = (r, m')"
  shows "if v mod 4096 \<noteq> 0 \<or> p mod 4096 \<noteq> 0 \<or> e mod 4096 \<noteq> 0 \<or> e < p then r = - EINVARG \<and> m' = m
    else if unat (e - p) < 2 ^ 31 then
      r = 0 \<and> page_dir_wf m' dir \<and> dir_entries m' dir = dir_entries m dir \<and>
      (\<forall>w. paging_is_aligned w \<longrightarrow> paging_get m' (dir_entries m dir) w =
         (if w - v < e - p then (p + (w - v)) OR flags else paging_get m (dir_entries m dir) w))
    else r = 0 \<and> m' = m"
  by (rule paging_map_to_effect [OF assms])

theorem paging_map_to_correct_witness:
  "paging_get (snd (paging_map_to 0x300000 0x800000 0x1000 0x3000 7 demo_pd)) 0x400000 0x801000 = 0x2007"
  using paging_map_to_correct [OF demo_page_dir_wf, of "0x800000" "0x1000" "0x3000" 7]
  by (simp add: paging_is_aligned_def config_simps prod_eq_iff demo_dir_entries)

lemma mod_page_add:
  fixes v off :: u32
  assumes "4096 dvd unat v"
  shows "(v + off) mod 4096 = off mod 4096"
proof -
  have "(unat v + unat off) mod 2 ^ 32 mod 4096 = (unat v + unat off) mod 4096" by (rule mod_mod_cancel) simp
  also have "\<dots> = unat off mod 4096" using assms by (metis mod_add_left_eq dvd_imp_mod_0 add_0)
  finally show ?thesis by (simp add: word_unat_eq_iff unat_mod unat_word_ariths)
qed

lemma aligned_sub_mod: "4096 dvd unat (off - off mod 4096)" for off :: u32
proof -
  have "unat (off - off mod 4096) = unat off - unat off mod 4096"
    by (simp add: unat_sub word_le_nat_alt unat_mod)
  then show ?thesis by simp
qed

lemma aligned_add: "4096 dvd unat p \<Longrightarrow> 4096 dvd unat q \<Longrightarrow> 4096 dvd unat (p + q)" for p q :: u32
  using mod_page_add [of p q] by (simp add: mod_page_iff [symmetric])

lemma sub_mod_le: "off - off mod 4096 \<le> off" for off :: u32
  by (simp add: word_le_nat_alt unat_sub unat_mod)

text \<open>
  C17: translation after mapping. Once \<^verbatim>\<open>paging_map_to\<close> has mapped a page-aligned range, every address
  of the virtual range, aligned or not, translates by \<^verbatim>\<open>paging_get_phys_addr\<close> to the physical address
  at the same distance from the start of the physical range.
\<close>

theorem paging_translates_mapped_range:
  assumes "page_dir_wf m dir" "paging_is_aligned v" "paging_is_aligned p" "paging_is_aligned e" "p \<le> e"
    and "unat (e - p) < 2 ^ 31" "flags < 4096" "off < e - p"
  shows "paging_get_phys_addr (snd (paging_map_to dir v p e flags m)) (dir_entries m dir) (v + off) = p + off"
proof -
  let ?lo = "off - off mod 4096"
  obtain r m' where map: "paging_map_to dir v p e flags m = (r, m')" by fastforce
  have al: "4096 dvd unat v" "4096 dvd unat p" "v mod 4096 = 0" "p mod 4096 = 0" "e mod 4096 = 0"
    using assms(2-4) by (simp_all add: aligned_iff mod_page_iff)
  have low: "paging_align_to_lower (v + off) = v + ?lo"
    using mod_page_add [OF al(1), of off] by (simp add: paging_align_to_lower_def config_simps)
  have "?lo < e - p" using sub_mod_le [of off] assms(8) by simp
  moreover have "paging_is_aligned (v + ?lo)" unfolding aligned_iff by (rule aligned_add [OF al(1) aligned_sub_mod])
  ultimately have "paging_get m' (dir_entries m dir) (v + ?lo) = (p + ?lo) OR flags"
    using paging_map_to_effect [OF assms(1) map] al assms(5,6) by auto
  moreover have "((p + ?lo) OR flags) AND 0xFFFFF000 = p + ?lo"
    using aligned_add [OF al(2) aligned_sub_mod] assms(7) by (rule page_mask_or)
  ultimately show ?thesis by (simp add: map paging_get_phys_addr_def low)
qed

theorem paging_translates_mapped_range_witness:
  "paging_get_phys_addr (snd (paging_map_to 0x300000 0x800000 0x1000 0x3000 7 demo_pd)) 0x400000 0x801ABC = 0x2ABC"
  using paging_translates_mapped_range [OF demo_page_dir_wf, of "0x800000" "0x1000" "0x3000" 7 "0x1ABC"]
  by (simp add: paging_is_aligned_def config_simps demo_dir_entries)

text \<open>
  \<^verbatim>\<open>paging_align_to_lower\<close> returns the largest page-aligned address that is not above its argument;
  \<^verbatim>\<open>paging_align_address\<close> returns the smallest one that is not below it, except in the last page of the
  address space, where it wraps around to 0.
\<close>

theorem paging_align_bounds:
  "paging_is_aligned (paging_align_to_lower a) \<and> paging_align_to_lower a \<le> a \<and> a - paging_align_to_lower a < 4096 \<and>
   paging_is_aligned (paging_align_address a) \<and>
   (if a \<le> 0xFFFFF000 then a \<le> paging_align_address a \<and> paging_align_address a - a < 4096
    else paging_align_address a = 0)"
proof -
  define q r where "q = unat a div 4096" and "r = unat a mod 4096"
  then have a: "unat a = 4096 * q + r" and r: "r < 4096" by simp_all
  have md: "unat (a mod 4096) = r" by (simp add: unat_mod r_def)
  have mod0: "a mod 4096 = 0 \<longleftrightarrow> r = 0" using md by (simp add: word_unat_eq_iff)
  have lower: "unat (a - a mod 4096) = 4096 * q"
    using a md by (simp add: unat_sub word_le_nat_alt)
  have low_off: "a - (a - a mod 4096) = a mod 4096" by simp
  have up: "unat (a + 4096 - a mod 4096) = (4096 * q + 4096) mod 2 ^ 32"
  proof -
    have "a + 4096 - a mod 4096 = (a - a mod 4096) + 4096" by simp
    then have "unat (a + 4096 - a mod 4096) = unat ((a - a mod 4096) + 4096)" by (rule arg_cong)
    also have "\<dots> = (4096 * q + 4096) mod 2 ^ 32" using lower by (simp only: unat_word_ariths) simp
    finally show ?thesis .
  qed
  have q: "q \<le> 1048575" using a unat_u32_bound [of a] by simp
  have wrap: "(4096 * q + 4096) mod 4294967296 = 0" if "\<not> 4096 * q + r \<le> 4294963200"
  proof -
    from that q r have "q = 1048575" by linarith
    then show ?thesis by simp
  qed
  have dvd_up: "4096 dvd (4096 * q + 4096) mod 2 ^ 32" by (intro dvd_mod) simp_all
  have diff: "r \<noteq> 0 \<Longrightarrow> (a + 4096 - a mod 4096) - a = 4096 - a mod 4096" by simp
  have "unat (4096 - a mod 4096) = 4096 - r" using md r by (simp add: unat_sub word_le_nat_alt)
  then have small: "r \<noteq> 0 \<Longrightarrow> 4096 - a mod 4096 < 4096" using r by (simp add: word_less_nat_alt)
  show ?thesis
    using a r md mod0 lower low_off up q dvd_up diff small wrap
    by (auto simp: paging_align_to_lower_def paging_align_address_def aligned_iff config_simps word_le_nat_alt
        word_less_nat_alt word_unat_eq_iff)
qed

end
