(* ===== verification/Paging_Life.thy ===== *)
theory Paging_Life
  imports Paging_Proofs
begin

unbundle bit_operations_syntax

text \<open>
  The life of a page directory: \<^verbatim>\<open>paging_new\<close> takes 1026 fresh blocks from the kernel heap and builds the
  identity map in them, \<^verbatim>\<open>paging_free\<close> gives exactly these blocks back.
\<close>

section \<open>Filling one table\<close>

lemma paging_new_table_frame:
  "a \<notin> extent entry 1 \<Longrightarrow> paging_new_table j entry offset flags m a = m a"
proof (induction j entry offset flags m rule: paging_new_table.induct)
  case (1 j entry offset flags m)
  let ?m = "store32 m (entry + 4 * of_nat j) ((offset + of_nat j * PAGING_PAGE_SIZE) OR ucast flags)"
  have "paging_new_table (j + 1) entry offset flags ?m a = ?m a" if "j < 1024"
    using that "1.prems" by (intro "1.IH") (simp_all add: config_simps)
  moreover have "?m a = m a" if "j < 1024" using that "1.prems" by (rule store32_page_frame)
  ultimately show ?case by (subst paging_new_table.simps) (simp add: config_simps)
qed

lemma paging_new_table_entry:
  assumes "4096 dvd unat entry" "k < 1024"
  shows "load32 (paging_new_table j entry offset flags m) (entry + 4 * of_nat k) =
    (if j \<le> k then (offset + of_nat k * 4096) OR ucast flags else load32 m (entry + 4 * of_nat k))"
  using assms
proof (induction j entry offset flags m rule: paging_new_table.induct)
  case (1 j entry offset flags m)
  let ?m = "store32 m (entry + 4 * of_nat j) ((offset + of_nat j * PAGING_PAGE_SIZE) OR ucast flags)"
  have "load32 (paging_new_table (j + 1) entry offset flags ?m) (entry + 4 * of_nat k) =
      (if j + 1 \<le> k then (offset + of_nat k * 4096) OR ucast flags else load32 ?m (entry + 4 * of_nat k))" if "j < 1024"
    using that "1.prems" by (intro "1.IH") (simp add: config_simps)
  moreover have "load32 ?m (entry + 4 * of_nat k) =
      (if j = k then (offset + of_nat j * 4096) OR ucast flags else load32 m (entry + 4 * of_nat k))" if "j < 1024"
    using that "1.prems" load32_page_store [of entry entry j k] by (simp add: config_simps)
  ultimately show ?case using "1.prems"
    by (subst paging_new_table.simps) (cases "j = k"; simp add: config_simps)
qed

section \<open>Filling the directory\<close>

text \<open>The first \<open>i\<close> entries are done: each points to its own allocated identity table.\<close>

definition dir_built :: "'a paging_state_scheme \<Rightarrow> u32 \<Rightarrow> u8 \<Rightarrow> nat \<Rightarrow> bool" where
  "dir_built s ents flags i \<longleftrightarrow> kheap_wf s \<and> (ents, 1) \<in> kallocs s \<and> inj_on (pd_table (mem s) ents) {..<i} \<and>
     (\<forall>k<i. (pd_table (mem s) ents k, 1) \<in> kallocs s \<and> pd_table (mem s) ents k \<noteq> ents \<and>
        (\<forall>j<1024. load32 (mem s) (pd_table (mem s) ents k + 4 * of_nat j) = page_of k j OR ucast flags))"

definition dir_step :: "nat \<Rightarrow> u32 \<Rightarrow> u8 \<Rightarrow> 'a paging_state_scheme \<Rightarrow> 'a paging_state_scheme" where
  "dir_step i ents flags s =
     (let (entry, s1) = kzalloc s 4096
      in s1\<lparr>mem := store32 (paging_new_table 0 entry (of_nat i * 4194304) flags (mem s1))
               (ents + 4 * of_nat i) (entry OR ucast flags OR PAGING_IS_WRITEABLE)\<rparr>)"

lemma paging_new_dir_step:
  "i < 1024 \<Longrightarrow> paging_new_dir i ents (of_nat i * 4194304) flags s =
     paging_new_dir (i + 1) ents (of_nat (i + 1) * 4194304) flags (dir_step i ents flags s)"
proof -
  assume "i < 1024"
  moreover have "of_nat (i + 1) * 4194304 = of_nat i * 4194304 + (4194304 :: u32)" by (simp add: distrib_right)
  ultimately show ?thesis
    by (subst paging_new_dir.simps) (simp add: config_simps dir_step_def split_beta Let_def del: of_nat_add of_nat_Suc)
qed

lemma page_4096: "blocks_for 4096 = 1"
  by (rule blocks_for_page) simp_all

lemma load32_extent_cong:
  assumes "4096 dvd unat p" "j < 1024" "\<And>a. a \<in> extent p 1 \<Longrightarrow> m' a = m a"
  shows "load32 m' (p + 4 * of_nat j) = load32 m (p + 4 * of_nat j)"
proof (rule load32_cong)
  fix i :: u32 assume "i \<in> {0, 1, 2, 3}"
  then have "i = of_nat (unat i)" "unat i < 4" by auto
  then have "p + 4 * of_nat j + i \<in> extent p 1" using page_word_extent [OF assms(2), of "unat i" p] by simp
  then show "m' (p + 4 * of_nat j + i) = m (p + 4 * of_nat j + i)" by (rule assms(3))
qed

lemma dir_step_pages:
  assumes "dir_built s ents flags i" "i < 1024" "0 < kavail s"
  defines "s' \<equiv> dir_step i ents flags s"
  obtains t where "4096 dvd unat t" "kheap_wf s'" "kallocs s' = insert (t, 1) (kallocs s)" "kavail s' + 1 = kavail s"
    "\<And>q k. (q, k) \<in> kallocs s \<Longrightarrow> t \<noteq> q" "\<And>q k. (q, k) \<in> kallocs s \<Longrightarrow> extent t 1 \<inter> extent q k = {}"
    "\<And>k. k < 1024 \<Longrightarrow> pd_table (mem s') ents k = (if k = i then t else pd_table (mem s) ents k)"
    "\<And>j. j < 1024 \<Longrightarrow> load32 (mem s') (t + 4 * of_nat j) = page_of i j OR ucast flags"
    "\<And>a. a \<notin> extent t 1 \<Longrightarrow> a \<notin> extent ents 1 \<Longrightarrow> mem s' a = mem s a"
proof -
  obtain t s1 where al: "kzalloc s 4096 = (t, s1)" by fastforce
  have wf: "kheap_wf s" and ents: "(ents, 1) \<in> kallocs s" using assms(1) by (simp_all add: dir_built_def)
  have page: "kheap_wf s1" "kallocs s1 = insert (t, 1) (kallocs s)" "4096 dvd unat t" "kavail s1 + 1 = kavail s"
    "\<And>q k. (q, k) \<in> kallocs s \<Longrightarrow> extent t 1 \<inter> extent q k = {}" "\<And>q k. (q, k) \<in> kallocs s \<Longrightarrow> t \<noteq> q"
    "\<And>a. a \<notin> extent t 1 \<Longrightarrow> mem s1 a = mem s a"
    using kzalloc_page [OF wf assms(3) _ _ al] by simp_all
  have ea: "4096 dvd unat ents" using kz.allocs_addr [OF wf ents] by simp
  define f where "f = (ucast flags OR PAGING_IS_WRITEABLE :: u32)"
  have f: "f < 4096" unfolding f_def by (intro or_flags_small ucast_flags_small) (simp add: config_simps)
  define mt where "mt = paging_new_table 0 t (of_nat i * 4194304) flags (mem s1)"
  have s': "s' = s1\<lparr>mem := store32 mt (ents + 4 * of_nat i) (t OR f)\<rparr>"
    by (simp add: s'_def dir_step_def al mt_def f_def or.assoc)
  have mt: "mt a = mem s a" if "a \<notin> extent t 1" for a
    using that page(7) by (simp add: mt_def paging_new_table_frame)
  have entry: "load32 (mem s') (ents + 4 * of_nat k) = (if k = i then t OR f else load32 (mem s) (ents + 4 * of_nat k))"
    if "k < 1024" for k
  proof -
    have "load32 mt (ents + 4 * of_nat k) = load32 (mem s) (ents + 4 * of_nat k)"
      using ea that mt page(5) [OF ents] by (intro load32_extent_cong) blast+
    then show ?thesis using load32_page_store [OF ea ea assms(2) that, of mt] by (auto simp: s')
  qed
  have tab: "load32 (mem s') (t + 4 * of_nat j) = page_of i j OR ucast flags" if "j < 1024" for j
  proof -
    have "load32 (mem s') (t + 4 * of_nat j) = load32 mt (t + 4 * of_nat j)"
      using load32_page_store [OF ea page(3) assms(2) that, of mt] page(6) [OF ents] by (auto simp: s')
    then show ?thesis
      using paging_new_table_entry [OF page(3) that] by (simp add: mt_def page_of_def mult.commute)
  qed
  show thesis
  proof (rule that [of t])
    show "pd_table (mem s') ents k = (if k = i then t else pd_table (mem s) ents k)" if "k < 1024" for k
      using entry [OF that] page_mask_or [OF page(3) f] by (simp add: pd_table_def)
    show "mem s' a = mem s a" if "a \<notin> extent t 1" "a \<notin> extent ents 1" for a
      using that mt assms(2) by (simp add: s' store32_page_frame)
  qed (use page tab s' in simp_all)
qed

lemma dir_built_tables:
  assumes "dir_built s ents flags i" "k < i"
  shows "(pd_table (mem s) ents k, 1) \<in> kallocs s" "pd_table (mem s) ents k \<noteq> ents"
    "\<And>j. j < 1024 \<Longrightarrow> load32 (mem s) (pd_table (mem s) ents k + 4 * of_nat j) = page_of k j OR ucast flags"
  using assms by (simp_all add: dir_built_def)

lemma dir_step_effect:
  assumes "dir_built s ents flags i" "i < 1024" "0 < kavail s"
  defines "s' \<equiv> dir_step i ents flags s"
  shows "dir_built s' ents flags (Suc i)" "kavail s' + 1 = kavail s"
    "kallocs s' = insert (pd_table (mem s') ents i, 1) (kallocs s)" "\<And>k. (pd_table (mem s') ents i, k) \<notin> kallocs s"
    "\<And>k. k < i \<Longrightarrow> pd_table (mem s') ents k = pd_table (mem s) ents k"
    "\<And>q k a. (q, k) \<in> kallocs s \<Longrightarrow> a \<in> extent q k \<Longrightarrow> a \<notin> extent ents 1 \<Longrightarrow> mem s' a = mem s a"
proof -
  from assms(1-3) obtain t where t: "4096 dvd unat t" "kheap_wf s'" "kallocs s' = insert (t, 1) (kallocs s)"
    "kavail s' + 1 = kavail s"
    "\<And>q k. (q, k) \<in> kallocs s \<Longrightarrow> t \<noteq> q" "\<And>q k. (q, k) \<in> kallocs s \<Longrightarrow> extent t 1 \<inter> extent q k = {}"
    "\<And>k. k < 1024 \<Longrightarrow> pd_table (mem s') ents k = (if k = i then t else pd_table (mem s) ents k)"
    "\<And>j. j < 1024 \<Longrightarrow> load32 (mem s') (t + 4 * of_nat j) = page_of i j OR ucast flags"
    "\<And>a. a \<notin> extent t 1 \<Longrightarrow> a \<notin> extent ents 1 \<Longrightarrow> mem s' a = mem s a"
    unfolding s'_def by (rule dir_step_pages) blast
  have wf: "kheap_wf s" and ents: "(ents, 1) \<in> kallocs s" and inj: "inj_on (pd_table (mem s) ents) {..<i}"
    using assms(1) by (simp_all add: dir_built_def)
  have ea: "4096 dvd unat ents" using kz.allocs_addr [OF wf ents] by simp
  note old = dir_built_tables [OF assms(1)]
  have ti: "pd_table (mem s') ents i = t" and tk: "\<And>k. k < i \<Longrightarrow> pd_table (mem s') ents k = pd_table (mem s) ents k"
    using t(7) assms(2) by simp_all
  have fresh: "\<And>k. k < i \<Longrightarrow> t \<noteq> pd_table (mem s) ents k" using old(1) t(5) by blast
  show "kavail s' + 1 = kavail s" "\<And>k. k < i \<Longrightarrow> pd_table (mem s') ents k = pd_table (mem s) ents k" by (fact t tk)+
  show "kallocs s' = insert (pd_table (mem s') ents i, 1) (kallocs s)" "\<And>k. (pd_table (mem s') ents i, k) \<notin> kallocs s"
    using t(3,5) ti by auto
  show "mem s' a = mem s a" if "(q, k) \<in> kallocs s" "a \<in> extent q k" "a \<notin> extent ents 1" for q k a
    using that t(6) [OF that(1)] t(9) by blast
  have keep: "load32 (mem s') (pd_table (mem s) ents k + 4 * of_nat j) = page_of k j OR ucast flags"
    if "k < i" "j < 1024" for k j
  proof -
    let ?q = "pd_table (mem s) ents k"
    have "extent ?q 1 \<inter> extent ents 1 = {}" using extents_disjoint [OF _ ea, of ?q] old(2) [OF that(1)] by auto
    then have "load32 (mem s') (?q + 4 * of_nat j) = load32 (mem s) (?q + 4 * of_nat j)"
      using that(2) t(6,9) old(1) [OF that(1)] by (intro load32_extent_cong) (simp, simp, blast)
    then show ?thesis using old(3) [OF that] by simp
  qed
  show "dir_built s' ents flags (Suc i)" unfolding dir_built_def
  proof (intro conjI allI impI)
    show "kheap_wf s'" "(ents, 1) \<in> kallocs s'" using t(2,3) ents by simp_all
    show "inj_on (pd_table (mem s') ents) {..<Suc i}"
      using inj fresh fresh [symmetric] by (auto simp: inj_on_def less_Suc_eq ti tk)
    fix k assume k: "k < Suc i"
    show "(pd_table (mem s') ents k, 1) \<in> kallocs s'" using old(1) [of k] k t(3) by (auto simp: ti tk less_Suc_eq)
    show "pd_table (mem s') ents k \<noteq> ents" using old(2) [of k] k t(5) [OF ents] by (auto simp: ti tk less_Suc_eq)
    fix j :: nat assume "j < 1024"
    then show "load32 (mem s') (pd_table (mem s') ents k + 4 * of_nat j) = page_of k j OR ucast flags"
      using keep [of k j] t(8) [of j] k by (auto simp: ti tk less_Suc_eq)
  qed
qed

lemma paging_new_dir_effect:
  assumes "dir_built s ents flags i" "i \<le> 1024" "1024 - i \<le> kavail s"
    and "s' = paging_new_dir i ents (of_nat i * 4194304) flags s"
  shows "dir_built s' ents flags 1024 \<and> kavail s' + (1024 - i) = kavail s \<and>
    (\<forall>k<i. pd_table (mem s') ents k = pd_table (mem s) ents k) \<and>
    kallocs s' = kallocs s \<union> (\<lambda>k. (pd_table (mem s') ents k, 1)) ` {i..<1024} \<and>
    (\<forall>k\<in>{i..<1024}. \<forall>n. (pd_table (mem s') ents k, n) \<notin> kallocs s) \<and>
    (\<forall>q k a. (q, k) \<in> kallocs s \<longrightarrow> a \<in> extent q k \<longrightarrow> a \<notin> extent ents 1 \<longrightarrow> mem s' a = mem s a)"
  using assms
proof (induction "1024 - i" arbitrary: i s)
  case 0
  then have "i = 1024" by simp
  then have "paging_new_dir i ents (of_nat i * 4194304) flags s = s"
    by (subst paging_new_dir.simps) (simp add: config_simps)
  with 0 \<open>i = 1024\<close> show ?case by simp
next
  case (Suc n)
  then have i: "i < 1024" and av: "0 < kavail s" by simp_all
  note eff = dir_step_effect [OF Suc.prems(1) i av]
  let ?s1 = "dir_step i ents flags s"
  have step: "s' = paging_new_dir (i + 1) ents (of_nat (i + 1) * 4194304) flags ?s1"
    using Suc.prems(4) paging_new_dir_step [OF i] by simp
  have IH: "dir_built s' ents flags 1024 \<and> kavail s' + (1024 - (i + 1)) = kavail ?s1 \<and>
    (\<forall>k<i + 1. pd_table (mem s') ents k = pd_table (mem ?s1) ents k) \<and>
    kallocs s' = kallocs ?s1 \<union> (\<lambda>k. (pd_table (mem s') ents k, 1)) ` {i + 1..<1024} \<and>
    (\<forall>k\<in>{i + 1..<1024}. \<forall>n. (pd_table (mem s') ents k, n) \<notin> kallocs ?s1) \<and>
    (\<forall>q k a. (q, k) \<in> kallocs ?s1 \<longrightarrow> a \<in> extent q k \<longrightarrow> a \<notin> extent ents 1 \<longrightarrow> mem s' a = mem ?s1 a)"
    using Suc.hyps(2) Suc.prems(3) i eff(1,2) by (intro Suc.hyps(1) step) auto
  have split: "{i..<1024} = insert i {i + 1..<1024}" using i by auto
  have ti: "pd_table (mem s') ents i = pd_table (mem ?s1) ents i" using IH by simp
  show ?case
  proof (intro conjI)
    have "kavail s' + (1024 - (i + 1)) = kavail ?s1" using IH by blast
    then show "kavail s' + (1024 - i) = kavail s" using eff(2) i by arith
    show "\<forall>k<i. pd_table (mem s') ents k = pd_table (mem s) ents k" using IH eff(5) by simp
    show "kallocs s' = kallocs s \<union> (\<lambda>k. (pd_table (mem s') ents k, 1)) ` {i..<1024}"
      unfolding split image_insert ti using IH eff(3) by simp
    show "\<forall>k\<in>{i..<1024}. \<forall>n. (pd_table (mem s') ents k, n) \<notin> kallocs s"
      unfolding split using IH eff(3,4) ti by auto
    show "\<forall>q k a. (q, k) \<in> kallocs s \<longrightarrow> a \<in> extent q k \<longrightarrow> a \<notin> extent ents 1 \<longrightarrow> mem s' a = mem s a"
      using IH eff(3,6) by simp
  qed (use IH in simp)
qed

section \<open>A directory and the blocks it owns\<close>

definition dir_pages :: "memory \<Rightarrow> u32 \<Rightarrow> u32 set" where
  "dir_pages m dir = {dir, dir_entries m dir} \<union> pd_table m (dir_entries m dir) ` {..<1024}"

definition dir_owned :: "'a paging_state_scheme \<Rightarrow> u32 \<Rightarrow> bool" where
  "dir_owned s dir \<longleftrightarrow> kheap_wf s \<and> page_dir_wf (mem s) dir \<and> dir_entries (mem s) dir \<noteq> dir \<and>
     (\<forall>p\<in>dir_pages (mem s) dir. (p, 1) \<in> kallocs s)"

lemma paging_new_effect:
  assumes "kheap_wf s" "1026 \<le> kavail s" "paging_new s flags = (dir, s')"
  shows "dir_owned s' dir" "dir \<noteq> 0" "kavail s' + 1026 = kavail s"
    "kallocs s' = kallocs s \<union> (\<lambda>p. (p, 1)) ` dir_pages (mem s') dir"
    "\<And>p k. p \<in> dir_pages (mem s') dir \<Longrightarrow> (p, k) \<notin> kallocs s"
    "\<And>v. 4096 dvd unat v \<Longrightarrow> paging_get (mem s') (dir_entries (mem s') dir) v = v OR ucast flags"
    "\<And>q k a. (q, k) \<in> kallocs s \<Longrightarrow> a \<in> extent q k \<Longrightarrow> mem s' a = mem s a"
proof -
  obtain ents s1 where al1: "kzalloc s 4096 = (ents, s1)" by fastforce
  define s2 where "s2 = paging_new_dir 0 ents (of_nat 0 * 4194304) flags s1"
  obtain s3 where al3: "kzalloc s2 4 = (dir, s3)" and s': "s' = s3\<lparr>mem := store32 (mem s3) dir ents\<rparr>"
    using assms(3) al1 by (auto simp: paging_new_def config_simps s2_def Let_def split: prod.splits)
  have p1: "kheap_wf s1" "kallocs s1 = insert (ents, 1) (kallocs s)" "4096 dvd unat ents" "kavail s1 + 1 = kavail s"
    "\<And>q k. (q, k) \<in> kallocs s \<Longrightarrow> extent ents 1 \<inter> extent q k = {}" "\<And>q k. (q, k) \<in> kallocs s \<Longrightarrow> ents \<noteq> q"
    "\<And>a. a \<notin> extent ents 1 \<Longrightarrow> mem s1 a = mem s a"
    using kzalloc_page [OF assms(1) _ _ _ al1] assms(2) by simp_all
  have "dir_built s1 ents flags 0" using p1 by (simp add: dir_built_def)
  from paging_new_dir_effect [OF this _ _ s2_def] have p2: "dir_built s2 ents flags 1024" "kavail s2 + 1024 = kavail s1"
    "kallocs s2 = kallocs s1 \<union> (\<lambda>k. (pd_table (mem s2) ents k, 1)) ` {..<1024}"
    "\<And>k n. k < 1024 \<Longrightarrow> (pd_table (mem s2) ents k, n) \<notin> kallocs s1"
    "\<And>q k a. (q, k) \<in> kallocs s1 \<Longrightarrow> a \<in> extent q k \<Longrightarrow> a \<notin> extent ents 1 \<Longrightarrow> mem s2 a = mem s1 a"
    using p1(4) assms(2) by (auto simp: atLeast0LessThan)
  have av: "0 < kavail s2" using p2(2) p1(4) assms(2) by simp
  have p3: "kheap_wf s3" "kallocs s3 = insert (dir, 1) (kallocs s2)" "dir \<noteq> 0" "4096 dvd unat dir" "kavail s3 + 1 = kavail s2"
    "\<And>q k. (q, k) \<in> kallocs s2 \<Longrightarrow> extent dir 1 \<inter> extent q k = {}" "\<And>q k. (q, k) \<in> kallocs s2 \<Longrightarrow> dir \<noteq> q"
    "\<And>a. a \<notin> extent dir 1 \<Longrightarrow> mem s3 a = mem s2 a"
    using kzalloc_page [OF _ av _ _ al3] p2(1) by (simp_all add: dir_built_def)
  have m': "mem s' a = mem s2 a" if "a \<notin> extent dir 1" for a
    using that p3(8) store32_page_frame [of 0 a dir "mem s3" ents] by (simp add: s')
  have de: "dir_entries (mem s') dir = ents" by (simp add: s' dir_entries_def mem_simps)
  have kept: "load32 (mem s') (q + 4 * of_nat j) = load32 (mem s2) (q + 4 * of_nat j)" if "(q, 1) \<in> kallocs s2" "j < 1024" for q j
    using that p3(6) [OF that(1)] m' kz.allocs_addr [OF _ that(1)] p2(1)
    by (intro load32_extent_cong) (auto simp: dir_built_def)
  have ents2: "(ents, 1) \<in> kallocs s2" using p2(1) by (simp add: dir_built_def)
  have tab: "pd_table (mem s') ents k = pd_table (mem s2) ents k" if "k < 1024" for k
    using kept [OF ents2 that] by (simp add: pd_table_def)
  note t = dir_built_tables [OF p2(1)]
  have pages: "dir_pages (mem s') dir = {dir, ents} \<union> pd_table (mem s2) ents ` {..<1024}"
    using tab by (auto simp: dir_pages_def de image_iff)
  show "dir \<noteq> 0" by (rule p3(3))
  show "kavail s' + 1026 = kavail s" using p1(4) p2(2) p3(5) by (simp add: s')
  show ks: "kallocs s' = kallocs s \<union> (\<lambda>p. (p, 1)) ` dir_pages (mem s') dir"
    unfolding pages using p1(2) p2(3) p3(2) by (auto simp: s')
  show "(p, k) \<notin> kallocs s" if "p \<in> dir_pages (mem s') dir" for p k
    using that p1(2,6) p2(3,4) p3(7) unfolding pages by blast
  show "mem s' a = mem s a" if q: "(q, k) \<in> kallocs s" "a \<in> extent q k" for q k a
  proof -
    have "(q, k) \<in> kallocs s1" "(q, k) \<in> kallocs s2" using q(1) p1(2) p2(3) by auto
    then have "a \<notin> extent dir 1" "a \<notin> extent ents 1" using p3(6) p1(5) q by blast+
    then show ?thesis using m' p2(5) [OF \<open>(q, k) \<in> kallocs s1\<close> q(2)] p1(7) by simp
  qed
  show "paging_get (mem s') (dir_entries (mem s') dir) v = v OR ucast flags" if v: "4096 dvd unat v" for v
    using kept [OF t(1) pte_bound, OF pde_bound] t(3) [OF pde_bound pte_bound] page_of_indices [OF v]
    by (simp add: de paging_get_slot [OF v] tab pde_bound)
  have "page_dir_wf (mem s') dir"
    using p1(3) p3(4,7) t p2(1) by (auto simp: page_dir_wf_def pd_wf_def de tab dir_built_def inj_on_def)
  moreover have "kheap_wf s'" using p3(1) by (simp add: s')
  ultimately show "dir_owned s' dir" using ks p3(7) [OF ents2] by (auto simp: dir_owned_def de)
qed

lemma paging_free_tables_effect:
  assumes "kheap_wf s" "inj_on (pd_table (mem s) (dir_entries (mem s) dir)) {..<1024}" "i \<le> 1024"
    and "\<And>k. i \<le> k \<Longrightarrow> k < 1024 \<Longrightarrow> (pd_table (mem s) (dir_entries (mem s) dir) k, 1) \<in> kallocs s"
    and "s' = paging_free_tables i dir s"
  shows "kheap_wf s' \<and> mem s' = mem s \<and> kavail s' = kavail s + (1024 - i) \<and>
    kallocs s' = kallocs s - (\<lambda>k. (pd_table (mem s) (dir_entries (mem s) dir) k, 1)) ` {i..<1024}"
  using assms
proof (induction "1024 - i" arbitrary: i s)
  case 0
  then have "i = 1024" by simp
  then have "paging_free_tables i dir s = s" by (subst paging_free_tables.simps) simp
  with 0 \<open>i = 1024\<close> show ?case by simp
next
  case (Suc n)
  let ?t = "pd_table (mem s) (dir_entries (mem s) dir)"
  from Suc.hyps(2) have i: "i < 1024" by simp
  have live: "(?t i, 1) \<in> kallocs s" using Suc.prems(4) i by simp
  have step: "s' = paging_free_tables (i + 1) dir (kfree s (?t i))"
    unfolding Suc.prems(5) using i by (subst paging_free_tables.simps) (simp add: pd_table_def)
  note fr = km.free_inv [OF Suc.prems(1) live] km.free_allocs [OF Suc.prems(1) live] km.free_avail [OF Suc.prems(1) live]
  have "(?t k, 1) \<in> kallocs (kfree s (?t i))" if "i + 1 \<le> k" "k < 1024" for k
  proof -
    have "?t k \<noteq> ?t i" using that i inj_on_eq_iff [OF Suc.prems(2), of k i] by simp
    then show ?thesis using Suc.prems(4) [of k] that fr(2) by simp
  qed
  then have IH: "kheap_wf s' \<and> mem s' = mem (kfree s (?t i)) \<and> kavail s' = kavail (kfree s (?t i)) + (1024 - (i + 1)) \<and>
    kallocs s' = kallocs (kfree s (?t i)) - (\<lambda>k. (?t k, 1)) ` {i + 1..<1024}"
    using Suc.hyps(1) [of "i + 1" "kfree s (?t i)"] Suc.hyps(2) Suc.prems(2) fr(1) i step by simp
  have split: "{i..<1024} = insert i {i + 1..<1024}" using i by auto
  show ?case unfolding split image_insert using IH fr i by auto
qed

lemma dir_pages_disjoint:
  assumes "dir_owned s dir"
  shows "dir \<notin> pd_table (mem s) (dir_entries (mem s) dir) ` {..<1024}"
    "dir_entries (mem s) dir \<notin> pd_table (mem s) (dir_entries (mem s) dir) ` {..<1024}"
  using assms by (auto simp: dir_owned_def page_dir_wf_def pd_wf_def)

lemma paging_free_effect:
  assumes "dir_owned s dir"
  shows "kheap_wf (paging_free s dir)" "kavail (paging_free s dir) = kavail s + 1026"
    "kallocs (paging_free s dir) = kallocs s - (\<lambda>p. (p, 1)) ` dir_pages (mem s) dir"
    "mem (paging_free s dir) = mem s"
proof -
  let ?d = "dir_entries (mem s) dir"
  let ?T = "pd_table (mem s) ?d ` {..<1024}"
  define s1 where "s1 = paging_free_tables 0 dir s"
  have own: "kheap_wf s" "inj_on (pd_table (mem s) ?d) {..<1024}" "?d \<noteq> dir"
    "\<And>k. k < 1024 \<Longrightarrow> (pd_table (mem s) ?d k, 1) \<in> kallocs s" "(dir, 1) \<in> kallocs s" "(?d, 1) \<in> kallocs s"
    using assms by (auto simp: dir_owned_def page_dir_wf_def pd_wf_def dir_pages_def)
  have s1: "kheap_wf s1" "mem s1 = mem s" "kavail s1 = kavail s + 1024" "kallocs s1 = kallocs s - (\<lambda>p. (p, 1)) ` ?T"
    using paging_free_tables_effect [OF own(1,2) _ _ s1_def] own(4) by (auto simp: atLeast0LessThan image_image)
  have live: "(?d, 1) \<in> kallocs s1" using own(6) s1(4) dir_pages_disjoint(2) [OF assms] by auto
  note f1 = km.free_inv [OF s1(1) live] km.free_allocs [OF s1(1) live] km.free_avail [OF s1(1) live]
  have live': "(dir, 1) \<in> kallocs (kfree s1 ?d)"
    using own(3,5) s1(4) f1(2) dir_pages_disjoint(1) [OF assms] by auto
  note f2 = km.free_inv [OF f1(1) live'] km.free_allocs [OF f1(1) live'] km.free_avail [OF f1(1) live']
  have eq: "paging_free s dir = kfree (kfree s1 ?d) dir" by (simp add: paging_free_def s1_def [symmetric] s1(2) Let_def)
  show "kheap_wf (paging_free s dir)" "kavail (paging_free s dir) = kavail s + 1026" "mem (paging_free s dir) = mem s"
    using f1 f2 s1 by (simp_all add: eq)
  show "kallocs (paging_free s dir) = kallocs s - (\<lambda>p. (p, 1)) ` dir_pages (mem s) dir"
    using f1 f2 s1 by (auto simp: eq dir_pages_def)
qed

section \<open>Properties\<close>

text \<open>
  with 1026 free blocks \<^verbatim>\<open>paging_new\<close> returns a well-formed directory that maps every page to
  itself with the given flags. It owns 1026 blocks that were free before, and no byte of a live
  allocation changes.
\<close>

theorem paging_new_identity:
  assumes "kheap_wf s" "1026 \<le> kavail s" "paging_new s flags = (dir, s')"
  shows "dir \<noteq> 0 \<and> kheap_wf s' \<and> page_dir_wf (mem s') dir \<and> kavail s' + 1026 = kavail s \<and>
    (\<forall>v. paging_is_aligned v \<longrightarrow> paging_get (mem s') (dir_entries (mem s') dir) v = v OR ucast flags) \<and>
    (\<forall>p\<in>dir_pages (mem s') dir. (p, 1) \<in> kallocs s' \<and> (\<forall>k. (p, k) \<notin> kallocs s)) \<and>
    (\<forall>q k a. (q, k) \<in> kallocs s \<and> a \<in> extent q k \<longrightarrow> mem s' a = mem s a)"
  using paging_new_effect [OF assms] by (auto simp: dir_owned_def aligned_iff)

definition demo_paging :: paging_state where
  "demo_paging = \<lparr>mem = (\<lambda>_. 0xAA), io_trace = [], bus = (\<lambda>_ _. 0), data_seg = 0x10, tty_row = 0, tty_col = 0,
     kernel_heap = demo_heap 2048, current_directory = 0, page_reg = 0\<rparr>"

lemma demo_paging_ready: "kheap_wf demo_paging \<and> 1026 \<le> kavail demo_paging"
proof -
  have "free_blocks (demo_heap 2048) = {0 ..< 2048}" by (auto simp: demo_heap_def heap_get_entry_type_def config_simps)
  then show ?thesis
    by (simp add: demo_paging_def kheap_view_defs heap_avail_def demo_heap_wf)
qed

theorem paging_new_identity_witness:
  "paging_get (mem (snd (paging_new demo_paging 3)))
     (dir_entries (mem (snd (paging_new demo_paging 3))) (fst (paging_new demo_paging 3))) 0x12345000 = 0x12345003"
  using paging_new_identity [of demo_paging 3 "fst (paging_new demo_paging 3)" "snd (paging_new demo_paging 3)"] demo_paging_ready
  by (simp add: paging_is_aligned_def config_simps)

text \<open>
  C38: \<^verbatim>\<open>paging_free\<close> of the directory that \<^verbatim>\<open>paging_new\<close> returned releases all of its 1026 blocks: the
  live allocations and the number of free blocks are again what they were before.
\<close>

theorem paging_free_releases:
  assumes "kheap_wf s" "1026 \<le> kavail s" "paging_new s flags = (dir, s')"
  shows "kheap_wf (paging_free s' dir) \<and> kallocs (paging_free s' dir) = kallocs s \<and> kavail (paging_free s' dir) = kavail s"
proof -
  note new = paging_new_effect [OF assms]
  have "kallocs (paging_free s' dir) = kallocs s' - (\<lambda>p. (p, 1)) ` dir_pages (mem s') dir"
    by (rule paging_free_effect(3) [OF new(1)])
  also have "\<dots> = kallocs s" unfolding new(4) using new(5) by auto
  finally show ?thesis using paging_free_effect(1,2) [OF new(1)] new(3) by simp
qed

theorem paging_free_releases_witness:
  "kavail (paging_free (snd (paging_new demo_paging 7)) (fst (paging_new demo_paging 7))) = kavail demo_paging"
  using paging_free_releases [of demo_paging 7 "fst (paging_new demo_paging 7)" "snd (paging_new demo_paging 7)"] demo_paging_ready
  by simp

end
