(* ===== verification/Path_Model.thy ===== *)
theory Path_Model
  imports Paging_Life
begin

text \<open>
  \<^verbatim>\<open>kernel/fs/path.c\<close> and \<^verbatim>\<open>path.h\<close>: parsing of file paths such as \<^verbatim>\<open>0:/dir/file\<close> into a root with the drive number
  and a linked list of parts.

  The two structures are records, kept in stores indexed by the address \<^verbatim>\<open>kzalloc\<close> returned; the text of
  a part is a block of byte memory. A store is total: the kernel runs with address 0 mapped, and the
  code does not always check what \<^verbatim>\<open>kzalloc\<close> returned before it writes there. A fresh structure is
  zeroed by \<^verbatim>\<open>kzalloc\<close>, and every field is assigned right after the allocation.
  The loops over a string and over a list of parts have no bound of their own, so they may not return.
\<close>

section \<open>Definitions\<close>

definition ENKI_MAX_PATH :: int where [config_simps]: "ENKI_MAX_PATH = 108"

record path_root =
  drive_no :: int
  path_first :: u32

record path_part =
  part :: u32
  path_next :: u32

record path_state = paging_state +
  path_roots :: "u32 \<Rightarrow> path_root"
  path_parts :: "u32 \<Rightarrow> path_part"

text \<open>\<^verbatim>\<open>memcmp(&path[1], ":/", 2) == 0\<close> holds exactly when the two bytes are the two of the literal.\<close>

definition path_is_valid :: "memory \<Rightarrow> u32 \<Rightarrow> bool" where
  "path_is_valid m path =
     (let len = sint (strnlen m path ENKI_MAX_PATH)
      in len \<ge> 3 \<and> isdigit (m path) \<and> (m (path + 1) = 0x3A \<and> m (path + 2) = 0x2F))"

definition path_get_drive :: "memory \<Rightarrow> u32 \<Rightarrow> int \<times> u32" where
  "path_get_drive m path =
     (if \<not> path_is_valid m path then (- EBADPATH, path)
      else (todigit (m path), path + 3))"

definition path_create_root :: "'a path_state_scheme \<Rightarrow> int \<Rightarrow> u32 \<times> 'a path_state_scheme" where
  "path_create_root s drive =
     (let (root, s1) = kzalloc s 8
      in (root, s1\<lparr>path_roots := (path_roots s1)(root := \<lparr>drive_no = drive, path_first = 0\<rparr>)\<rparr>))"

text \<open>The copying loop of \<^verbatim>\<open>path_get_part\<close>: the memory, the advanced path and the number of characters.\<close>

partial_function (option) path_copy_part :: "memory \<Rightarrow> u32 \<Rightarrow> u32 \<Rightarrow> u32 \<Rightarrow> (memory \<times> u32 \<times> u32) option" where
  "path_copy_part m dst path i =
     (if m path \<noteq> 0x2F \<and> m path \<noteq> 0 then path_copy_part (m(dst + i := m path)) dst (path + 1) (i + 1)
      else Some (m, path, i))"

definition path_get_part :: "'a path_state_scheme \<Rightarrow> u32 \<Rightarrow> (u32 \<times> u32 \<times> 'a path_state_scheme) option" where
  "path_get_part s path =
     (let (dst, s1) = kzalloc s (word_of_int ENKI_MAX_PATH)
      in do {
        (m, path1, i) \<leftarrow> path_copy_part (mem s1) dst path 0;
        let path2 = (if m path1 = 0x2F then path1 + 1 else path1);
        let s2 = s1\<lparr>mem := m\<rparr>;
        if i = 0 then Some (0, path2, kfree s2 dst) else Some (dst, path2, s2)
      })"

definition path_parse_part :: "'a path_state_scheme \<Rightarrow> u32 \<Rightarrow> u32 \<Rightarrow> (u32 \<times> u32 \<times> 'a path_state_scheme) option" where
  "path_parse_part s last_part path =
     do {
       (part_str, path1, s1) \<leftarrow> path_get_part s path;
       if part_str = 0 then Some (0, path1, s1)
       else do {
         let (p, s2) = kzalloc s1 8;
         let s3 = s2\<lparr>path_parts := (path_parts s2)(p := \<lparr>part = part_str, path_next = 0\<rparr>)\<rparr>;
         let s4 = (if last_part \<noteq> 0
                   then s3\<lparr>path_parts := (path_parts s3)(last_part := (path_parts s3 last_part)\<lparr>path_next := p\<rparr>)\<rparr>
                   else s3);
         Some (p, path1, s4)
       }
     }"

partial_function (option) path_free_parts :: "'a path_state_scheme \<Rightarrow> u32 \<Rightarrow> 'a path_state_scheme option" where
  "path_free_parts s current =
     (if current \<noteq> 0 then
        (let next_part = path_next (path_parts s current)
         in path_free_parts (kfree (kfree s (part (path_parts s current))) current) next_part)
      else Some s)"

definition path_free :: "'a path_state_scheme \<Rightarrow> u32 \<Rightarrow> 'a path_state_scheme option" where
  "path_free s root =
     do {
       s1 \<leftarrow> path_free_parts s (path_first (path_roots s root));
       Some (kfree s1 root)
     }"

partial_function (option) path_parse_rest :: "'a path_state_scheme \<Rightarrow> u32 \<Rightarrow> u32 \<Rightarrow> 'a path_state_scheme option" where
  "path_parse_rest s p path =
     (if p \<noteq> 0 then
        Option.bind (path_parse_part s p path) (\<lambda>(p', path', s'). path_parse_rest s' p' path')
      else Some s)"

definition path_parse :: "'a path_state_scheme \<Rightarrow> u32 \<Rightarrow> (u32 \<times> 'a path_state_scheme) option" where
  "path_parse s path =
     do {
       len \<leftarrow> strlen (mem s) path;
       if len > word_of_int ENKI_MAX_PATH then Some (0, s)
       else do {
         let (drive, tmp_path) = path_get_drive (mem s) path;
         if drive < 0 then Some (0, s)
         else do {
           let (root, s1) = path_create_root s drive;
           if root = 0 then Some (0, s1)
           else do {
             (p_first, tmp1, s2) \<leftarrow> path_parse_part s1 0 tmp_path;
             if p_first = 0 then Some (root, s2)
             else do {
               let s3 = s2\<lparr>path_roots := (path_roots s2)(root := (path_roots s2 root)\<lparr>path_first := p_first\<rparr>)\<rparr>;
               (p, tmp2, s4) \<leftarrow> path_parse_part s3 p_first tmp1;
               s5 \<leftarrow> path_parse_rest s4 p tmp2;
               Some (root, s5)
             }
           }
         }
       }
     }"

end
