(* ===== verification/Path_Proofs.thy ===== *)
theory Path_Proofs
  imports Path_Model
begin

text \<open>
  Proofs about \<open>Path_Model\<close>: the parser builds the list of the components of the path, in blocks of
  its own, and \<^verbatim>\<open>path_free\<close> gives all of them back.
\<close>

section \<open>Specification\<close>

text \<open>The components of the text behind the drive prefix, up to the first empty one.\<close>

function path_split :: "u8 list \<Rightarrow> u8 list list" where
  "path_split xs =
     (let w = takeWhile (\<lambda>c. c \<noteq> 0x2F) xs
      in if w = [] then [] else w # path_split (drop (Suc (length w)) xs))"
  by pat_completeness auto
termination
  by (relation "measure length") (auto simp: takeWhile_eq_Nil_iff neq_Nil_conv)

declare path_split.simps [simp del]

text \<open>The text of a component lies in a buffer of 108 bytes that is zero behind it.\<close>

definition part_text :: "memory \<Rightarrow> u32 \<Rightarrow> u8 list \<Rightarrow> bool" where
  "part_text m d w \<longleftrightarrow> cstring m d w \<and> (\<forall>j<108. m (d + of_nat j) = (if j < length w then w ! j else 0))"

text \<open>A list of parts in memory: node, address of the text, text.\<close>

primrec parts_at :: "'a path_state_scheme \<Rightarrow> u32 \<Rightarrow> (u32 \<times> u32 \<times> u8 list) list \<Rightarrow> bool" where
  "parts_at s p [] \<longleftrightarrow> p = 0"
| "parts_at s p (x # ps) \<longleftrightarrow>
     (case x of (q, d, w) \<Rightarrow> p = q \<and> q \<noteq> 0 \<and> part (path_parts s q) = d \<and> part_text (mem s) d w \<and>
        parts_at s (path_next (path_parts s q)) ps)"

abbreviation part_names :: "(u32 \<times> u32 \<times> u8 list) list \<Rightarrow> u8 list list" where
  "part_names ps \<equiv> map (\<lambda>(q, d, w). w) ps"

abbreviation part_blocks :: "(u32 \<times> u32 \<times> u8 list) list \<Rightarrow> u32 list" where
  "part_blocks ps \<equiv> concat (map (\<lambda>(q, d, w). [q, d]) ps)"

abbreviation owned :: "u32 set \<Rightarrow> (u32 \<times> nat) set" where
  "owned B \<equiv> (\<lambda>b. (b, 1)) ` B"

section \<open>Copying one component\<close>

lemma cstring_nonzero: "cstring m p xs \<Longrightarrow> x \<in> set xs \<Longrightarrow> x \<noteq> 0"
  by (induction xs arbitrary: p) auto

lemma cstring_appendD: "cstring m p (xs @ ys) \<Longrightarrow> cstring m (p + of_nat (length xs)) ys"
proof (induction xs arbitrary: p)
  case (Cons x xs)
  then have "cstring m (p + 1 + of_nat (length xs)) ys" by simp
  then show ?case by (simp add: add.assoc)
qed simp

lemma path_copy_part_effect:
  assumes "cstring m path xs" "w = takeWhile (\<lambda>c. c \<noteq> 0x2F) xs" "i + length w \<le> 4096"
    and "\<And>j. j \<le> length xs \<Longrightarrow> path + of_nat j \<notin> extent dst 1"
  shows "\<exists>m'. path_copy_part m dst path (of_nat i) = Some (m', path + of_nat (length w), of_nat (i + length w)) \<and>
    (\<forall>a. m' a = (if i \<le> unat (a - dst) \<and> unat (a - dst) < i + length w then w ! (unat (a - dst) - i) else m a))"
  using assms
proof (induction xs arbitrary: m path i w)
  case Nil
  then show ?case by (intro exI [of _ m]) (subst path_copy_part.simps, auto)
next
  case (Cons x xs)
  show ?case
  proof (cases "x = 0x2F")
    case True
    with Cons.prems show ?thesis by (intro exI [of _ m]) (subst path_copy_part.simps, auto)
  next
    case False
    let ?w = "takeWhile (\<lambda>c. c \<noteq> 0x2F) xs"
    let ?m = "m(dst + of_nat i := x)"
    have w: "w = x # ?w" using Cons.prems(2) False by simp
    have i: "i < 4096" using Cons.prems(3) w by simp
    then have iu: "unat (of_nat i :: u32) = i" by (intro unat_of_nat_u32) simp
    have dst: "dst + of_nat i \<in> extent dst 1" using iu i by (simp add: extent_def)
    have "?m (path + 1 + of_nat j) = m (path + 1 + of_nat j)" if "j \<le> length xs" for j
      using Cons.prems(4) [of "Suc j"] that dst by (auto simp: algebra_simps)
    then have str: "cstring ?m (path + 1) xs"
      using Cons.prems(1) cstring_cong [of xs ?m "path + 1" m] by simp
    have "\<exists>m'. path_copy_part ?m dst (path + 1) (of_nat (Suc i)) =
        Some (m', path + 1 + of_nat (length ?w), of_nat (Suc i + length ?w)) \<and>
      (\<forall>a. m' a = (if Suc i \<le> unat (a - dst) \<and> unat (a - dst) < Suc i + length ?w then ?w ! (unat (a - dst) - Suc i) else ?m a))"
    proof (rule Cons.IH [OF str refl])
      show "path + 1 + of_nat j \<notin> extent dst 1" if "j \<le> length xs" for j
        using Cons.prems(4) [of "Suc j"] that by (simp add: add.assoc)
    qed (use Cons.prems(3) w in simp)
    then obtain m' where m': "path_copy_part ?m dst (path + 1) (of_nat (Suc i)) =
        Some (m', path + 1 + of_nat (length ?w), of_nat (Suc i + length ?w))"
      "\<And>a. m' a = (if Suc i \<le> unat (a - dst) \<and> unat (a - dst) < Suc i + length ?w then ?w ! (unat (a - dst) - Suc i) else ?m a)"
      by blast
    have "m' a = (if i \<le> unat (a - dst) \<and> unat (a - dst) < i + length w then w ! (unat (a - dst) - i) else m a)" for a
    proof -
      have "a = dst + of_nat i \<longleftrightarrow> unat (a - dst) = i" using i by (intro u32_offset_iff) simp
      then show ?thesis using m'(2) [of a] by (auto simp: w nth_Cons')
    qed
    moreover have "path_copy_part m dst path (of_nat i) = Some (m', path + of_nat (length w), of_nat (i + length w))"
      using Cons.prems(1) False m'(1) w by (subst path_copy_part.simps) (simp add: algebra_simps)
    ultimately show ?thesis by blast
  qed
qed

section \<open>Parsing one component\<close>

lemma kzalloc_keeps_paths:
  "kzalloc s sz = (p, s') \<Longrightarrow> path_parts s' = path_parts s \<and> path_roots s' = path_roots s" for s :: "'a path_state_scheme"
  by (auto simp: kzalloc_def kmalloc_def Let_def split: prod.splits if_splits)

lemma kfree_keeps_paths [simp]:
  "path_parts (kfree s p) = path_parts s" "path_roots (kfree s p) = path_roots s" for s :: "'a path_state_scheme"
  by (simp_all add: kfree_def)

lemma path_update_view [simp]:
  "kheap_wf (s\<lparr>path_parts := x\<rparr>) = kheap_wf s" "kallocs (s\<lparr>path_parts := x\<rparr>) = kallocs s"
  "kavail (s\<lparr>path_parts := x\<rparr>) = kavail s" "kprot (s\<lparr>path_parts := x\<rparr>) a = kprot s a"
  "kheap_wf (s\<lparr>path_roots := y\<rparr>) = kheap_wf s" "kallocs (s\<lparr>path_roots := y\<rparr>) = kallocs s"
  "kavail (s\<lparr>path_roots := y\<rparr>) = kavail s" "kprot (s\<lparr>path_roots := y\<rparr>) a = kprot s a"
  by (simp_all add: kheap_view_defs kprot_def)

definition split_text :: "u8 list \<Rightarrow> u8 list" where
  "split_text xs = takeWhile (\<lambda>c. c \<noteq> 0x2F) xs"

definition split_rest :: "u8 list \<Rightarrow> u8 list" where
  "split_rest xs = drop (Suc (length (split_text xs))) xs"

lemma path_split_eq:
  "path_split xs = (if split_text xs = [] then [] else split_text xs # path_split (split_rest xs))"
  by (subst path_split.simps) (simp add: Let_def split_text_def split_rest_def)

lemma split_text_rest: "xs = split_text xs \<or> xs = split_text xs @ 0x2F # split_rest xs"
  by (induction xs) (auto simp: split_text_def split_rest_def)

lemma split_text_length: "length (split_text xs) \<le> length xs"
  by (simp add: split_text_def length_takeWhile_le)

text \<open>Where the path pointer stands after a component, and that the rest of the path is there.\<close>

definition path_after :: "memory \<Rightarrow> u32 \<Rightarrow> u8 list \<Rightarrow> u32" where
  "path_after m path xs =
     (let p = path + of_nat (length (split_text xs)) in if m p = 0x2F then p + 1 else p)"

lemma path_after_rest:
  assumes "cstring m path xs"
  shows "cstring m (path_after m path xs) (split_rest xs)"
    "j \<le> length (split_rest xs) \<Longrightarrow> \<exists>k\<le>length xs. path_after m path xs + of_nat j = path + of_nat k"
proof -
  let ?w = "split_text xs"
  have "cstring m (path_after m path xs) (split_rest xs) \<and>
    (\<forall>j\<le>length (split_rest xs). \<exists>k\<le>length xs. path_after m path xs + of_nat j = path + of_nat k)"
  proof (cases "xs = ?w")
    case True
    then have "split_rest xs = []" by (simp add: split_rest_def)
    moreover have "cstring m (path + of_nat (length ?w)) []"
      using cstring_appendD [of m path ?w "[]"] assms True by simp
    ultimately show ?thesis using True by (auto simp: path_after_def Let_def intro: exI [of _ "length xs"])
  next
    case False
    then have xs: "xs = ?w @ 0x2F # split_rest xs" using split_text_rest by blast
    then have c: "cstring m (path + of_nat (length ?w)) (0x2F # split_rest xs)"
      using cstring_appendD assms by metis
    then have pa: "path_after m path xs = path + of_nat (length ?w) + 1" by (simp add: path_after_def Let_def)
    have len: "length xs = length ?w + 1 + length (split_rest xs)" using arg_cong [OF xs, of length] by simp
    have "\<exists>k\<le>length xs. path_after m path xs + of_nat j = path + of_nat k" if "j \<le> length (split_rest xs)" for j
      using that len by (intro exI [of _ "length ?w + 1 + j"]) (simp add: pa add.assoc)
    then show ?thesis using c by (simp add: pa)
  qed
  then show "cstring m (path_after m path xs) (split_rest xs)"
    "j \<le> length (split_rest xs) \<Longrightarrow> \<exists>k\<le>length xs. path_after m path xs + of_nat j = path + of_nat k" by blast+
qed

lemma cstring_copied:
  assumes "\<And>j. j < length w \<Longrightarrow> m (d + of_nat j) = w ! j" "m (d + of_nat (length w)) = 0" "\<And>x. x \<in> set w \<Longrightarrow> x \<noteq> 0"
  shows "cstring m d w"
  using assms
proof (induction w arbitrary: d)
  case (Cons x w)
  have "cstring m (d + 1) w"
    using Cons.prems(1) [of "Suc _"] Cons.prems(2,3) by (intro Cons.IH) (auto simp: algebra_simps)
  then show ?case using Cons.prems(1) [of 0] Cons.prems(3) [of x] by simp
qed simp

text \<open>What a step of the parser keeps: the structures that exist, all protected memory, and the state of other components.\<close>

definition path_rest :: "'a path_state_scheme \<Rightarrow> 'a path_state_scheme" where
  "path_rest s = s\<lparr>mem := (\<lambda>_. 0), kernel_heap := undefined, path_roots := undefined, path_parts := undefined\<rparr>"

lemma path_rest_update [simp]:
  "path_rest (s\<lparr>mem := m\<rparr>) = path_rest s" "path_rest (s\<lparr>kernel_heap := h\<rparr>) = path_rest s" "path_rest (kfree s p) = path_rest s"
  "path_rest (s\<lparr>path_roots := r\<rparr>) = path_rest s" "path_rest (s\<lparr>path_parts := q\<rparr>) = path_rest s"
  by (simp_all add: path_rest_def kfree_def)

lemma kzalloc_path_rest: "kzalloc s sz = (p, s') \<Longrightarrow> path_rest s' = path_rest s"
  by (auto simp: kzalloc_def kmalloc_def Let_def split: prod.splits if_splits)

definition path_frame :: "'a path_state_scheme \<Rightarrow> 'a path_state_scheme \<Rightarrow> bool" where
  "path_frame s s' \<longleftrightarrow> kheap_wf s' \<and> kregion s' = kregion s \<and> kallocs s \<subseteq> kallocs s' \<and> path_rest s' = path_rest s \<and>
     kspent s s' \<and> (\<forall>a. kprot s a \<longrightarrow> mem s' a = mem s a)"

lemma path_frame_prot: "path_frame s s' \<Longrightarrow> kprot s a \<Longrightarrow> kprot s' a"
  by (auto simp: path_frame_def kprot_def)

lemma path_frame_trans: "path_frame s s' \<Longrightarrow> path_frame s' s'' \<Longrightarrow> path_frame s s''"
  using path_frame_prot [of s s'] kspent_trans [of s s' s''] by (auto simp: path_frame_def)

lemma path_frame_stores [simp]:
  "path_frame s (s'\<lparr>path_parts := x\<rparr>) = path_frame s s'" "path_frame s (s'\<lparr>path_roots := y\<rparr>) = path_frame s s'"
  "path_frame (s\<lparr>path_parts := x\<rparr>) s' = path_frame s s'" "path_frame (s\<lparr>path_roots := y\<rparr>) s' = path_frame s s'"
  by (simp_all add: path_frame_def kregion_def kspent_def kfits_def)

lemma kspent_page:
  assumes "kheap_wf s" "0 < kavail s" "0 < unat sz" "unat sz \<le> 4096" "kzalloc s sz = (p, s')"
  shows "kspent s s'" "kspent s (kfree s' p)"
proof -
  have "kfits s (blocks_for sz)" using kz.avail_fits [OF assms(1,2)] blocks_for_page [OF assms(3,4)] by simp
  then show "kspent s s'" "kspent s (kfree s' p)"
    using kspent_kzalloc [OF assms(1,3) _ _ assms(5)] kspent_kzalloc_kfree [OF assms(1,3) _ _ assms(5)] assms(4) by simp_all
qed

lemma path_frame_kzalloc:
  assumes "kheap_wf s" "0 < kavail s" "0 < unat sz" "unat sz \<le> 4096" "kzalloc s sz = (p, s')"
  shows "path_frame s s'"
  using kzalloc_page [OF assms] kz.malloc_region [OF assms(5)] kzalloc_path_rest [OF assms(5)] kspent_page(1) [OF assms]
  by (auto simp: path_frame_def)

lemma cstring_frame:
  assumes "path_frame s s'" "cstring (mem s) p xs" "\<And>j. j \<le> length xs \<Longrightarrow> kprot s (p + of_nat j)"
  shows "cstring (mem s') p xs"
  using assms cstring_cong [of xs "mem s'" p "mem s"] by (auto simp: path_frame_def)

lemma extent_prot: "(p, k) \<in> kallocs s \<Longrightarrow> a \<in> extent p k \<Longrightarrow> kprot s a"
  by (auto simp: kprot_def)

lemma small_offset_extent: "j < 4096 \<Longrightarrow> p + of_nat j \<in> extent p 1"
  by (simp add: extent_def)

lemma part_text_frame:
  assumes "path_frame s s'" "part_text (mem s) d w" "(d, 1) \<in> kallocs s" "length w \<le> 108"
  shows "part_text (mem s') d w"
proof -
  have "kprot s (d + of_nat j)" if "j \<le> 108" for j
    using that by (intro extent_prot [OF assms(3)] small_offset_extent) simp
  then show ?thesis
    using assms(1,2,4) cstring_frame [OF assms(1), of d w] by (auto simp: part_text_def path_frame_def)
qed

lemma path_get_part_effect:
  assumes "kheap_wf s" "0 < kavail s" "cstring (mem s) path xs" "length xs < 108"
    and prot: "\<And>j. j \<le> length xs \<Longrightarrow> kprot s (path + of_nat j)"
  shows "\<exists>d s'. path_get_part s path = Some (d, path_after (mem s) path xs, s') \<and> path_frame s s' \<and>
    path_parts s' = path_parts s \<and> path_roots s' = path_roots s \<and>
    (if split_text xs = [] then d = 0 \<and> kallocs s' = kallocs s \<and> kavail s' = kavail s
     else d \<noteq> 0 \<and> kallocs s' = insert (d, 1) (kallocs s) \<and> kavail s' + 1 = kavail s \<and>
       (\<forall>k. (d, k) \<notin> kallocs s) \<and> part_text (mem s') d (split_text xs))"
proof -
  let ?w = "split_text xs"
  obtain d s1 where al: "kzalloc s 108 = (d, s1)" by fastforce
  have pg: "kheap_wf s1" "kallocs s1 = insert (d, 1) (kallocs s)" "d \<noteq> 0" "kavail s1 + 1 = kavail s"
    "\<And>q k. (q, k) \<in> kallocs s \<Longrightarrow> d \<noteq> q" "\<And>a. a \<notin> extent d 1 \<Longrightarrow> mem s1 a = mem s a" "\<And>a. a - d < 108 \<Longrightarrow> mem s1 a = 0"
    "\<And>a. kprot s a \<Longrightarrow> a \<notin> extent d 1 \<and> kprot s1 a"
    using kzalloc_page [OF assms(1,2) _ _ al] by simp_all
  have fr: "path_frame s s1" using path_frame_kzalloc [OF assms(1,2) _ _ al] by simp
  have out: "\<And>j. j \<le> length xs \<Longrightarrow> path + of_nat j \<notin> extent d 1" using pg(8) prot by blast
  have str: "cstring (mem s1) path xs" using cstring_frame [OF fr assms(3) prot] .
  have wlen: "length ?w \<le> length xs" by (rule split_text_length)
  have "\<exists>m'. path_copy_part (mem s1) d path (of_nat 0) = Some (m', path + of_nat (length ?w), of_nat (0 + length ?w)) \<and>
    (\<forall>a. m' a = (if 0 \<le> unat (a - d) \<and> unat (a - d) < 0 + length ?w then ?w ! (unat (a - d) - 0) else mem s1 a))"
    using wlen assms(4) by (intro path_copy_part_effect [OF str _ _ out]) (simp_all add: split_text_def)
  then obtain m' where copy: "path_copy_part (mem s1) d path 0 = Some (m', path + of_nat (length ?w), of_nat (length ?w))"
    and m': "\<And>a. m' a = (if unat (a - d) < length ?w then ?w ! unat (a - d) else mem s1 a)" by auto
  have keep: "m' a = mem s1 a" if "a \<notin> extent d 1" for a
    using that m' [of a] wlen assms(4) by (auto simp: extent_def)
  then have sep: "m' (path + of_nat (length ?w)) = mem s (path + of_nat (length ?w))" using out wlen pg(6) by metis
  define s2 where "s2 = s1\<lparr>mem := m'\<rparr>"
  have run: "path_get_part s path = (if of_nat (length ?w) = (0 :: u32) then Some (0, path_after (mem s) path xs, kfree s2 d)
      else Some (d, path_after (mem s) path xs, s2))"
    by (cases "of_nat (length ?w) = (0 :: u32)")
      (use sep in \<open>simp_all add: path_get_part_def config_simps al copy s2_def path_after_def Let_def\<close>)
  have len0: "of_nat (length ?w) = (0 :: u32) \<longleftrightarrow> ?w = []"
    using wlen assms(4) by (simp add: word_unat_eq_iff)
  have fr2: "path_frame s s2" using fr keep pg(8) by (auto simp: path_frame_def s2_def kregion_def kspent_def)
  have st: "path_parts s2 = path_parts s" "path_roots s2 = path_roots s"
    using kzalloc_keeps_paths [OF al] by (simp_all add: s2_def)
  show ?thesis
  proof (cases "?w = []")
    case True
    have live: "(d, 1) \<in> kallocs s2" "kheap_wf s2" using pg(1,2) by (simp_all add: s2_def)
    note f = km.free_inv [OF live(2,1)] km.free_allocs [OF live(2,1)] km.free_avail [OF live(2,1)]
    have "kallocs (kfree s2 d) = kallocs s" using f(2) pg(2,5) by (auto simp: s2_def)
    moreover have "kavail (kfree s2 d) = kavail s" using f(3) pg(4) by (simp add: s2_def)
    moreover have "kspent s (kfree s2 d)"
      using kspent_page(2) [OF assms(1,2) _ _ al] kspent_eq [of s s "kfree s2 d" "kfree s1 d"] by (simp add: s2_def kfree_def)
    then have "path_frame s (kfree s2 d)"
      using fr2 f(1) calculation(1) km.free_region [of s2 d] by (auto simp: path_frame_def)
    ultimately show ?thesis using True run len0 st by simp
  next
    case False
    have "cstring m' d ?w"
    proof (rule cstring_copied)
      show "m' (d + of_nat j) = ?w ! j" if "j < length ?w" for j using that m' [of "d + of_nat j"] wlen assms(4) by simp
      show "m' (d + of_nat (length ?w)) = 0"
        using m' [of "d + of_nat (length ?w)"] pg(7) [of "d + of_nat (length ?w)"] wlen assms(4)
        by (simp add: word_less_nat_alt)
      show "x \<noteq> 0" if "x \<in> set ?w" for x
        using cstring_nonzero [OF assms(3)] that by (auto simp: split_text_def dest: set_takeWhileD)
    qed
    moreover have "m' (d + of_nat j) = (if j < length ?w then ?w ! j else 0)" if "j < 108" for j
      using m' [of "d + of_nat j"] pg(7) [of "d + of_nat j"] that by (simp add: word_less_nat_alt)
    ultimately have "part_text m' d ?w" by (simp add: part_text_def)
    then show ?thesis using False run len0 st fr2 pg(2-5) by (auto simp: s2_def)
  qed
qed

lemma path_parse_part_effect:
  assumes "kheap_wf s" "2 \<le> kavail s \<or> split_text xs = [] \<and> 0 < kavail s" "cstring (mem s) path xs" "length xs < 108"
    and prot: "\<And>j. j \<le> length xs \<Longrightarrow> kprot s (path + of_nat j)" and last: "lp = 0 \<or> (lp, 1) \<in> kallocs s"
  shows "\<exists>p s'. path_parse_part s lp path = Some (p, path_after (mem s) path xs, s') \<and> path_frame s s' \<and>
    path_roots s' = path_roots s \<and>
    (if split_text xs = [] then p = 0 \<and> kallocs s' = kallocs s \<and> kavail s' = kavail s \<and> path_parts s' = path_parts s
     else \<exists>d. p \<noteq> 0 \<and> d \<noteq> p \<and> kallocs s' = kallocs s \<union> owned {p, d} \<and> kavail s' + 2 = kavail s \<and>
       (\<forall>k. (d, k) \<notin> kallocs s \<and> (p, k) \<notin> kallocs s) \<and> part_text (mem s') d (split_text xs) \<and>
       path_parts s' p = \<lparr>part = d, path_next = 0\<rparr> \<and>
       (\<forall>q. q \<noteq> p \<longrightarrow> path_parts s' q = (if q = lp \<and> lp \<noteq> 0 then (path_parts s q)\<lparr>path_next := p\<rparr> else path_parts s q)))"
proof -
  have av: "0 < kavail s" using assms(2) by auto
  obtain d s1 where get: "path_get_part s path = Some (d, path_after (mem s) path xs, s1)" "path_frame s s1"
    "path_parts s1 = path_parts s" "path_roots s1 = path_roots s"
    and cases: "if split_text xs = [] then d = 0 \<and> kallocs s1 = kallocs s \<and> kavail s1 = kavail s
     else d \<noteq> 0 \<and> kallocs s1 = insert (d, 1) (kallocs s) \<and> kavail s1 + 1 = kavail s \<and>
       (\<forall>k. (d, k) \<notin> kallocs s) \<and> part_text (mem s1) d (split_text xs)"
    using path_get_part_effect [OF assms(1) av assms(3,4) prot] by blast
  show ?thesis
  proof (cases "split_text xs = []")
    case True
    then show ?thesis using get cases by (simp add: path_parse_part_def)
  next
    case False
    then have d: "d \<noteq> 0" "kallocs s1 = insert (d, 1) (kallocs s)" "kavail s1 + 1 = kavail s" "\<And>k. (d, k) \<notin> kallocs s"
      "part_text (mem s1) d (split_text xs)" using cases by simp_all
    obtain p s2 where al: "kzalloc s1 8 = (p, s2)" by fastforce
    have wf1: "kheap_wf s1" using get(2) by (simp add: path_frame_def)
    have av1: "0 < kavail s1" using d(3) assms(2) False by simp
    have pg: "kallocs s2 = insert (p, 1) (kallocs s1)" "p \<noteq> 0" "kavail s2 + 1 = kavail s1"
      "\<And>q k. (q, k) \<in> kallocs s1 \<Longrightarrow> p \<noteq> q"
      using kzalloc_page [OF wf1 av1 _ _ al] by simp_all
    have fr: "path_frame s1 s2" using path_frame_kzalloc [OF wf1 av1 _ _ al] by simp
    have st: "path_parts s2 = path_parts s" "path_roots s2 = path_roots s" using kzalloc_keeps_paths [OF al] get(3,4) by simp_all
    have str: "part_text (mem s2) d (split_text xs)"
      using split_text_length [of xs] assms(4) d(2) by (intro part_text_frame [OF fr d(5)]) auto
    have pd: "d \<noteq> p" "\<And>k. (p, k) \<notin> kallocs s" using pg(4) d(2) by auto
    have lpp: "lp \<noteq> 0 \<Longrightarrow> lp \<noteq> p" using last pd(2) by blast
    define s3 where "s3 = s2\<lparr>path_parts := (path_parts s2)(p := \<lparr>part = d, path_next = 0\<rparr>)\<rparr>"
    define s4 where "s4 = (if lp \<noteq> 0 then s3\<lparr>path_parts := (path_parts s3)(lp := (path_parts s3 lp)\<lparr>path_next := p\<rparr>)\<rparr> else s3)"
    have run: "path_parse_part s lp path = Some (p, path_after (mem s) path xs, s4)"
      using get(1) d(1) by (simp add: path_parse_part_def al s3_def s4_def Let_def)
    have "path_frame s s4" using path_frame_trans [OF get(2) fr] by (simp add: s4_def s3_def)
    moreover have "path_roots s4 = path_roots s" "kallocs s4 = kallocs s \<union> owned {p, d}" "kavail s4 + 2 = kavail s" "mem s4 = mem s2"
      using st pg d by (auto simp: s4_def s3_def)
    moreover have "path_parts s4 p = \<lparr>part = d, path_next = 0\<rparr>" using lpp by (auto simp: s4_def s3_def)
    moreover have "\<forall>q. q \<noteq> p \<longrightarrow>
        path_parts s4 q = (if q = lp \<and> lp \<noteq> 0 then (path_parts s q)\<lparr>path_next := p\<rparr> else path_parts s q)"
      using st lpp by (auto simp: s4_def s3_def)
    ultimately show ?thesis using run False pg(2) pd d(4) str by auto
  qed
qed

section \<open>Parsing the whole path\<close>

lemma path_parse_rest_effect:
  assumes "kheap_wf s" "p \<noteq> 0" "(p, 1) \<in> kallocs s" "path_next (path_parts s p) = 0" "cstring (mem s) path xs" "length xs < 108"
    and "\<And>j. j \<le> length xs \<Longrightarrow> kprot s (path + of_nat j)" "2 * length (path_split xs) + 1 \<le> kavail s"
  shows "\<exists>s' ps. path_parse_rest s p path = Some s' \<and> part_names ps = path_split xs \<and>
    parts_at s' (path_next (path_parts s' p)) ps \<and> part (path_parts s' p) = part (path_parts s p) \<and>
    path_frame s s' \<and> path_roots s' = path_roots s \<and> kavail s' + 2 * length ps = kavail s \<and>
    kallocs s' = kallocs s \<union> owned (set (part_blocks ps)) \<and> distinct (part_blocks ps) \<and>
    (\<forall>b\<in>set (part_blocks ps). \<forall>k. (b, k) \<notin> kallocs s) \<and>
    (\<forall>q k. (q, k) \<in> kallocs s \<longrightarrow> q \<noteq> p \<longrightarrow> path_parts s' q = path_parts s q)"
  using assms
proof (induction "length (path_split xs)" arbitrary: s p path xs)
  case 0
  then have w: "split_text xs = []" by (simp add: path_split_eq [of xs] split: if_splits)
  have "\<exists>p' s'. path_parse_part s p path = Some (p', path_after (mem s) path xs, s') \<and> path_frame s s' \<and>
    path_roots s' = path_roots s \<and> p' = 0 \<and> kallocs s' = kallocs s \<and> kavail s' = kavail s \<and> path_parts s' = path_parts s"
    using path_parse_part_effect [of s xs path p] 0 w by simp
  then obtain s' where "path_parse_part s p path = Some (0, path_after (mem s) path xs, s')" "path_frame s s'"
    "path_roots s' = path_roots s" "kallocs s' = kallocs s" "kavail s' = kavail s" "path_parts s' = path_parts s" by blast
  moreover have "path_parse_rest s' 0 (path_after (mem s) path xs) = Some s'" by (subst path_parse_rest.simps) simp
  ultimately show ?case using 0
    by (intro exI [of _ s'] exI [of _ "[]"]) (subst path_parse_rest.simps, simp)
next
  case (Suc n)
  let ?w = "split_text xs" and ?r = "split_rest xs" and ?path = "path_after (mem s) path xs"
  have w: "?w \<noteq> []" and n: "n = length (path_split ?r)"
    using Suc.hyps(2) by (auto simp: path_split_eq [of xs] split: if_splits)
  have split: "path_split xs = ?w # path_split ?r" using w by (simp add: path_split_eq [of xs])
  obtain p1 s1 d where st: "path_parse_part s p path = Some (p1, ?path, s1)" "path_frame s s1" "path_roots s1 = path_roots s"
    "p1 \<noteq> 0" "d \<noteq> p1" "kallocs s1 = kallocs s \<union> owned {p1, d}" "kavail s1 + 2 = kavail s"
    "\<And>k. (d, k) \<notin> kallocs s" "\<And>k. (p1, k) \<notin> kallocs s" "part_text (mem s1) d ?w" "path_parts s1 p1 = \<lparr>part = d, path_next = 0\<rparr>"
    "\<And>q. q \<noteq> p1 \<Longrightarrow> path_parts s1 q = (if q = p \<and> p \<noteq> 0 then (path_parts s q)\<lparr>path_next := p1\<rparr> else path_parts s q)"
    using path_parse_part_effect [of s xs path p] Suc.prems w split by auto
  note rest = path_after_rest [OF Suc.prems(5)]
  have rl: "length ?r \<le> length xs" by (simp add: split_rest_def)
  have rprot: "kprot s (?path + of_nat j)" if "j \<le> length ?r" for j
    using rest(2) [OF that] Suc.prems(7) by auto
  have "\<exists>s' ps. path_parse_rest s1 p1 ?path = Some s' \<and> part_names ps = path_split ?r \<and>
    parts_at s' (path_next (path_parts s' p1)) ps \<and> part (path_parts s' p1) = part (path_parts s1 p1) \<and>
    path_frame s1 s' \<and> path_roots s' = path_roots s1 \<and> kavail s' + 2 * length ps = kavail s1 \<and>
    kallocs s' = kallocs s1 \<union> owned (set (part_blocks ps)) \<and> distinct (part_blocks ps) \<and>
    (\<forall>b\<in>set (part_blocks ps). \<forall>k. (b, k) \<notin> kallocs s1) \<and>
    (\<forall>q k. (q, k) \<in> kallocs s1 \<longrightarrow> q \<noteq> p1 \<longrightarrow> path_parts s' q = path_parts s1 q)"
  proof (rule Suc.hyps(1) [OF n])
    show "cstring (mem s1) ?path ?r" by (rule cstring_frame [OF st(2) rest(1) rprot])
    show "kheap_wf s1" using st(2) by (simp add: path_frame_def)
    show "\<And>j. j \<le> length ?r \<Longrightarrow> kprot s1 (?path + of_nat j)" using path_frame_prot [OF st(2) rprot] .
  qed (use st rl Suc.prems(6,8) split in auto)
  then obtain s' ps where IH: "path_parse_rest s1 p1 ?path = Some s'" "part_names ps = path_split ?r"
    "parts_at s' (path_next (path_parts s' p1)) ps" "part (path_parts s' p1) = part (path_parts s1 p1)" "path_frame s1 s'"
    "path_roots s' = path_roots s1"
    "kavail s' + 2 * length ps = kavail s1" "kallocs s' = kallocs s1 \<union> owned (set (part_blocks ps))" "distinct (part_blocks ps)"
    "\<And>b k. b \<in> set (part_blocks ps) \<Longrightarrow> (b, k) \<notin> kallocs s1"
    "\<And>q k. (q, k) \<in> kallocs s1 \<Longrightarrow> q \<noteq> p1 \<Longrightarrow> path_parts s' q = path_parts s1 q"
    by blast
  have pp1: "p \<noteq> p1" using Suc.prems(3) st(9) by blast
  have "path_parts s' p = path_parts s1 p" using IH(11) [of p 1] Suc.prems(3) st(6) pp1 by simp
  then have link: "path_parts s' p = (path_parts s p)\<lparr>path_next := p1\<rparr>" using st(12) [OF pp1] Suc.prems(2) by simp
  have str: "part_text (mem s') d ?w"
    using split_text_length [of xs] Suc.prems(6) st(6) by (intro part_text_frame [OF IH(5) st(10)]) auto
  have run: "path_parse_rest s p path = Some s'"
    using Suc.prems(2) st(1) IH(1) by (subst path_parse_rest.simps) simp
  have "parts_at s' (path_next (path_parts s' p)) ((p1, d, ?w) # ps)" using link st(4,11) IH(3,4) str by simp
  moreover have "kallocs s' = kallocs s \<union> owned (set (part_blocks ((p1, d, ?w) # ps)))" using IH(8) st(6) by auto
  moreover have "distinct (part_blocks ((p1, d, ?w) # ps))" "\<forall>b\<in>set (part_blocks ((p1, d, ?w) # ps)). \<forall>k. (b, k) \<notin> kallocs s"
  proof -
    have "part_blocks ((p1, d, ?w) # ps) = p1 # d # part_blocks ps" by simp
    moreover have "p1 \<notin> set (part_blocks ps)" "d \<notin> set (part_blocks ps)" "\<forall>b\<in>set (part_blocks ps). \<forall>k. (b, k) \<notin> kallocs s"
      using IH(10) st(6) by blast+
    ultimately show "distinct (part_blocks ((p1, d, ?w) # ps))" "\<forall>b\<in>set (part_blocks ((p1, d, ?w) # ps)). \<forall>k. (b, k) \<notin> kallocs s"
      using IH(9) st(5,8,9) by (auto simp del: set_concat)
  qed
  moreover have "\<forall>q k. (q, k) \<in> kallocs s \<longrightarrow> q \<noteq> p \<longrightarrow> path_parts s' q = path_parts s q"
    using IH(11) st(6,9,12) by (metis UnI1)
  ultimately show ?case
    using run IH(2,6,7) st(3,7) split link path_frame_trans [OF st(2) IH(5)]
    by (intro exI [of _ s'] exI [of _ "(p1, d, ?w) # ps"] conjI) simp_all
qed

text \<open>A root with its parts, and the blocks they own.\<close>

definition root_at :: "'a path_state_scheme \<Rightarrow> u32 \<Rightarrow> int \<Rightarrow> (u32 \<times> u32 \<times> u8 list) list \<Rightarrow> bool" where
  "root_at s root drive ps \<longleftrightarrow> root \<noteq> 0 \<and> drive_no (path_roots s root) = drive \<and>
     parts_at s (path_first (path_roots s root)) ps"

lemma path_valid_drive:
  assumes "cstring m path (d # 0x3A # 0x2F # rest)" "isdigit d" "length rest \<le> 105"
  shows "path_get_drive m path = (todigit d, path + 3)" "0 \<le> todigit d" "todigit d \<le> 9"
proof -
  have "strnlen m path 108 = of_nat (min 108 (length (d # 0x3A # 0x2F # rest)))"
    using strnlen_cstring [OF assms(1), of 108] by simp
  moreover have "sint (of_nat (length rest + 3) :: u32) = int (length rest + 3)"
    using assms(3) by (intro sint_of_nat_u32) simp
  ultimately have "3 \<le> sint (strnlen m path 108)" using assms(3) by (simp add: algebra_simps)
  moreover have "m path = d" "m (path + 1) = 0x3A" "m (path + 2) = 0x2F"
    using assms(1) by (auto simp: add.assoc)
  ultimately show "path_get_drive m path = (todigit d, path + 3)"
    using assms(2) by (simp add: path_get_drive_def path_is_valid_def config_simps Let_def)
  show "0 \<le> todigit d" "todigit d \<le> 9" using assms(2) by (simp_all add: todigit_def isdigit_def)
qed

lemma path_parse_effect:
  assumes "kheap_wf s" "cstring (mem s) path (dc # 0x3A # 0x2F # rest)" "isdigit dc" "length rest \<le> 105"
    and prot: "\<And>j. j \<le> length rest + 3 \<Longrightarrow> kprot s (path + of_nat j)" and av: "2 * length (path_split rest) + 2 \<le> kavail s"
  shows "\<exists>root s' ps. path_parse s path = Some (root, s') \<and> part_names ps = path_split rest \<and>
    root_at s' root (todigit dc) ps \<and> path_frame s s' \<and> kavail s' + (2 * length ps + 1) = kavail s \<and>
    kallocs s' = kallocs s \<union> owned (set (root # part_blocks ps)) \<and> distinct (root # part_blocks ps) \<and>
    (\<forall>b\<in>set (root # part_blocks ps). \<forall>k. (b, k) \<notin> kallocs s)"
proof -
  let ?xs = "dc # 0x3A # 0x2F # rest"
  note drive = path_valid_drive [OF assms(2-4)]
  have len: "strlen (mem s) path = Some (of_nat (length ?xs))" "\<not> of_nat (length ?xs) > (108 :: u32)"
    using strlen_cstring [OF assms(2)] assms(4) less_of_nat_u32 [of 108 "length ?xs"] by simp_all
  obtain root s0 where al: "kzalloc s 8 = (root, s0)" by fastforce
  have av0: "0 < kavail s" using av by simp
  have pg: "kheap_wf s0" "kallocs s0 = insert (root, 1) (kallocs s)" "root \<noteq> 0" "kavail s0 + 1 = kavail s"
    "\<And>q k. (q, k) \<in> kallocs s \<Longrightarrow> root \<noteq> q" using kzalloc_page [OF assms(1) av0 _ _ al] by simp_all
  define s1 where "s1 = s0\<lparr>path_roots := (path_roots s0)(root := \<lparr>drive_no = todigit dc, path_first = 0\<rparr>)\<rparr>"
  have fr1: "path_frame s s1" using path_frame_kzalloc [OF assms(1) av0 _ _ al] by (simp add: s1_def)
  have view1: "kheap_wf s1" "kallocs s1 = insert (root, 1) (kallocs s)" "kavail s1 + 1 = kavail s" using pg by (simp_all add: s1_def)
  have "cstring (mem s) (path + 3) rest" using assms(2) by (simp add: add.assoc)
  moreover have rprot: "kprot s (path + 3 + of_nat j)" if "j \<le> length rest" for j
    using prot [of "3 + j"] that by (simp add: add.assoc)
  ultimately have str1: "cstring (mem s1) (path + 3) rest" by (rule cstring_frame [OF fr1])
  have prot1: "kprot s1 (path + 3 + of_nat j)" if "j \<le> length rest" for j by (rule path_frame_prot [OF fr1 rprot [OF that]])
  have "\<exists>p s2. path_parse_part s1 0 (path + 3) = Some (p, path_after (mem s1) (path + 3) rest, s2) \<and> path_frame s1 s2 \<and>
    path_roots s2 = path_roots s1 \<and>
    (if split_text rest = [] then p = 0 \<and> kallocs s2 = kallocs s1 \<and> kavail s2 = kavail s1 \<and> path_parts s2 = path_parts s1
     else \<exists>d. p \<noteq> 0 \<and> d \<noteq> p \<and> kallocs s2 = kallocs s1 \<union> owned {p, d} \<and> kavail s2 + 2 = kavail s1 \<and>
       (\<forall>k. (d, k) \<notin> kallocs s1 \<and> (p, k) \<notin> kallocs s1) \<and> part_text (mem s2) d (split_text rest) \<and>
       path_parts s2 p = \<lparr>part = d, path_next = 0\<rparr> \<and>
       (\<forall>q. q \<noteq> p \<longrightarrow> path_parts s2 q = (if q = 0 \<and> (0::u32) \<noteq> 0 then (path_parts s1 q)\<lparr>path_next := p\<rparr> else path_parts s1 q)))"
    using view1 str1 prot1 assms(4) av by (intro path_parse_part_effect) (auto simp: path_split_eq [of rest])
  then obtain p s2 where pp: "path_parse_part s1 0 (path + 3) = Some (p, path_after (mem s1) (path + 3) rest, s2)"
    "path_frame s1 s2" "path_roots s2 = path_roots s1"
    and cs: "if split_text rest = [] then p = 0 \<and> kallocs s2 = kallocs s1 \<and> kavail s2 = kavail s1
     else \<exists>d. p \<noteq> 0 \<and> d \<noteq> p \<and> kallocs s2 = kallocs s1 \<union> owned {p, d} \<and> kavail s2 + 2 = kavail s1 \<and>
       (\<forall>k. (d, k) \<notin> kallocs s1 \<and> (p, k) \<notin> kallocs s1) \<and> part_text (mem s2) d (split_text rest) \<and>
       path_parts s2 p = \<lparr>part = d, path_next = 0\<rparr>" by (auto split: if_splits)
  show ?thesis
  proof (cases "split_text rest = []")
    case True
    have "path_parse s path = Some (root, s2)"
      using len drive pg(3) pp(1) cs True by (simp add: path_parse_def config_simps path_create_root_def al Let_def flip: s1_def)
    then show ?thesis using True pp cs view1 pg(3,5) path_frame_trans [OF fr1 pp(2)]
      by (intro exI [of _ root] exI [of _ s2] exI [of _ "[]"])
        (auto simp: root_at_def s1_def path_split_eq [of rest])
  next
    case False
    then obtain d where d: "p \<noteq> 0" "d \<noteq> p" "kallocs s2 = kallocs s1 \<union> owned {p, d}" "kavail s2 + 2 = kavail s1"
       "\<And>k. (d, k) \<notin> kallocs s1" "\<And>k. (p, k) \<notin> kallocs s1" "part_text (mem s2) d (split_text rest)"
       "path_parts s2 p = \<lparr>part = d, path_next = 0\<rparr>" using cs by auto
    let ?tmp = "path_after (mem s1) (path + 3) rest"
    define s3 where "s3 = s2\<lparr>path_roots := (path_roots s2)(root := (path_roots s2 root)\<lparr>path_first := p\<rparr>)\<rparr>"
    have split: "path_split rest = split_text rest # path_split (split_rest rest)" using False by (simp add: path_split_eq [of rest])
    note ra = path_after_rest [OF str1]
    have tprot: "kprot s1 (?tmp + of_nat j)" if "j \<le> length (split_rest rest)" for j using ra(2) [OF that] prot1 by auto
    have fr3: "path_frame s1 s3" using pp(2) by (simp add: s3_def)
    have "\<exists>s' ps. path_parse_rest s3 p ?tmp = Some s' \<and> part_names ps = path_split (split_rest rest) \<and>
      parts_at s' (path_next (path_parts s' p)) ps \<and> part (path_parts s' p) = part (path_parts s3 p) \<and>
      path_frame s3 s' \<and> path_roots s' = path_roots s3 \<and> kavail s' + 2 * length ps = kavail s3 \<and>
      kallocs s' = kallocs s3 \<union> owned (set (part_blocks ps)) \<and> distinct (part_blocks ps) \<and>
      (\<forall>b\<in>set (part_blocks ps). \<forall>k. (b, k) \<notin> kallocs s3) \<and>
      (\<forall>q k. (q, k) \<in> kallocs s3 \<longrightarrow> q \<noteq> p \<longrightarrow> path_parts s' q = path_parts s3 q)"
    proof (rule path_parse_rest_effect)
      show "cstring (mem s3) ?tmp (split_rest rest)" by (rule cstring_frame [OF fr3 ra(1) tprot])
      show "\<And>j. j \<le> length (split_rest rest) \<Longrightarrow> kprot s3 (?tmp + of_nat j)" using path_frame_prot [OF fr3 tprot] .
      show "kheap_wf s3" using fr3 by (simp add: path_frame_def)
    qed (use d assms(4) av split view1 in \<open>auto simp: s3_def split_rest_def\<close>)
    then obtain s' ps where r: "path_parse_rest s3 p ?tmp = Some s'" "part_names ps = path_split (split_rest rest)"
      "parts_at s' (path_next (path_parts s' p)) ps" "part (path_parts s' p) = part (path_parts s3 p)" "path_frame s3 s'"
      "path_roots s' = path_roots s3" "kavail s' + 2 * length ps = kavail s3"
      "kallocs s' = kallocs s3 \<union> owned (set (part_blocks ps))" "distinct (part_blocks ps)"
      "\<And>b k. b \<in> set (part_blocks ps) \<Longrightarrow> (b, k) \<notin> kallocs s3" by blast
    let ?ps = "(p, d, split_text rest) # ps"
    have blocks: "part_blocks ?ps = p # d # part_blocks ps" by simp
    have ks3: "kallocs s3 = kallocs s \<union> owned {root, p, d}" using d(3) view1(2) by (auto simp: s3_def)
    have str: "part_text (mem s') d (split_text rest)"
      using split_text_length [of rest] assms(4) ks3 d(7) by (intro part_text_frame [OF r(5)]) (auto simp: s3_def)
    have "root_at s' root (todigit dc) ?ps"
      using r(3,4,6) d(1,8) str pg(3) pp(3) by (simp add: root_at_def s3_def s1_def)
    moreover have "path_frame s s'" using path_frame_trans [OF path_frame_trans [OF fr1 fr3] r(5)] .
    moreover have "kavail s' + (2 * length ?ps + 1) = kavail s" using r(7) d(4) view1(3) by (simp add: s3_def)
    moreover have "kallocs s' = kallocs s \<union> owned (set (root # part_blocks ?ps))"
      unfolding blocks using r(8) ks3 by (auto simp del: set_concat)
    moreover have "distinct (root # part_blocks ?ps)" "\<forall>b\<in>set (root # part_blocks ?ps). \<forall>k. (b, k) \<notin> kallocs s"
    proof -
      have "root \<notin> set (part_blocks ps)" "p \<notin> set (part_blocks ps)" "d \<notin> set (part_blocks ps)"
        "\<forall>b\<in>set (part_blocks ps). \<forall>k. (b, k) \<notin> kallocs s" using r(10) ks3 by blast+
      moreover have "root \<noteq> p" "root \<noteq> d" "\<And>k. (root, k) \<notin> kallocs s" "\<And>k. (p, k) \<notin> kallocs s" "\<And>k. (d, k) \<notin> kallocs s"
        using d(5,6) view1(2) pg(5) by blast+
      ultimately show "distinct (root # part_blocks ?ps)" "\<forall>b\<in>set (root # part_blocks ?ps). \<forall>k. (b, k) \<notin> kallocs s"
        unfolding blocks using r(9) d(2) by (auto simp del: set_concat)
    qed
    moreover have "path_parse s path = Some (root, s')"
    proof -
      obtain p2 tmp2 s4 where "path_parse_part s3 p ?tmp = Some (p2, tmp2, s4)" "path_parse_rest s4 p2 tmp2 = Some s'"
        using r(1) d(1) by (subst (asm) path_parse_rest.simps) (auto split: bind_splits)
      then show ?thesis
        using len drive pg(3) pp(1) d(1)
        by (simp add: path_parse_def config_simps path_create_root_def al Let_def flip: s1_def s3_def)
    qed
    moreover have "part_names ?ps = path_split rest" using r(2) split by simp
    ultimately show ?thesis by blast
  qed
qed

section \<open>Releasing a path\<close>

lemma parts_at_kfree [simp]: "parts_at (kfree s b) p ps = parts_at s p ps"
  by (induction ps arbitrary: p) (auto split: prod.splits)

lemma path_free_parts_effect:
  assumes "parts_at s p ps" "kheap_wf s" "distinct (part_blocks ps)" "owned (set (part_blocks ps)) \<subseteq> kallocs s"
  shows "\<exists>s'. path_free_parts s p = Some s' \<and> kheap_wf s' \<and> kallocs s' = kallocs s - owned (set (part_blocks ps)) \<and>
    kavail s' = kavail s + 2 * length ps \<and> path_roots s' = path_roots s"
  using assms
proof (induction ps arbitrary: p s)
  case Nil
  then show ?case by (subst path_free_parts.simps) simp
next
  case (Cons x ps)
  obtain q d w where x: "x = (q, d, w)" by (cases x)
  have blocks: "part_blocks (x # ps) = q # d # part_blocks ps" by (simp add: x)
  have p: "p = q" "q \<noteq> 0" "part (path_parts s q) = d" "parts_at s (path_next (path_parts s q)) ps"
    using Cons.prems(1) by (simp_all add: x)
  have live: "(d, 1) \<in> kallocs s" using Cons.prems(4) unfolding blocks by auto
  note f1 = km.free_inv [OF Cons.prems(2) live] km.free_allocs [OF Cons.prems(2) live] km.free_avail [OF Cons.prems(2) live]
  have live': "(q, 1) \<in> kallocs (kfree s d)" using Cons.prems(3,4) f1(2) unfolding blocks by auto
  note f2 = km.free_inv [OF f1(1) live'] km.free_allocs [OF f1(1) live'] km.free_avail [OF f1(1) live']
  let ?s = "kfree (kfree s d) q"
  have "\<exists>s'. path_free_parts ?s (path_next (path_parts s q)) = Some s' \<and> kheap_wf s' \<and>
    kallocs s' = kallocs ?s - owned (set (part_blocks ps)) \<and> kavail s' = kavail ?s + 2 * length ps \<and> path_roots s' = path_roots ?s"
  proof (rule Cons.IH)
    show "owned (set (part_blocks ps)) \<subseteq> kallocs ?s"
      using Cons.prems(3,4) f1(2) f2(2) unfolding blocks by (auto simp del: set_concat)
  qed (use p(4) f2(1) Cons.prems(3) blocks in simp_all)
  then obtain s' where s': "path_free_parts ?s (path_next (path_parts s q)) = Some s'" "kheap_wf s'"
    "kallocs s' = kallocs ?s - owned (set (part_blocks ps))" "kavail s' = kavail ?s + 2 * length ps" "path_roots s' = path_roots ?s" by blast
  have "path_free_parts s p = Some s'" using p s'(1) by (subst path_free_parts.simps) simp
  moreover have "kallocs s' = kallocs s - owned (set (part_blocks (x # ps)))"
    unfolding blocks s'(3) f1(2) f2(2) by (auto simp del: set_concat)
  ultimately show ?case using s' f1(3) f2(3) by simp
qed

lemma path_free_effect:
  assumes "root_at s root drive ps" "kheap_wf s" "distinct (root # part_blocks ps)" "owned (set (root # part_blocks ps)) \<subseteq> kallocs s"
  shows "\<exists>s'. path_free s root = Some s' \<and> kheap_wf s' \<and> kallocs s' = kallocs s - owned (set (root # part_blocks ps)) \<and>
    kavail s' = kavail s + (2 * length ps + 1)"
proof -
  obtain s1 where s1: "path_free_parts s (path_first (path_roots s root)) = Some s1" "kheap_wf s1"
    "kallocs s1 = kallocs s - owned (set (part_blocks ps))" "kavail s1 = kavail s + 2 * length ps"
    using path_free_parts_effect [of s "path_first (path_roots s root)" ps] assms by (auto simp: root_at_def)
  have live: "(root, 1) \<in> kallocs s1" using assms(3,4) s1(3) by (auto simp del: set_concat)
  note f = km.free_inv [OF s1(2) live] km.free_allocs [OF s1(2) live] km.free_avail [OF s1(2) live]
  have "path_free s root = Some (kfree s1 root)" using s1(1) by (simp add: path_free_def)
  moreover have "kallocs (kfree s1 root) = kallocs s - owned (set (root # part_blocks ps))"
    unfolding f(2) s1(3) by (auto simp del: set_concat)
  ultimately show ?thesis using f(1,3) s1(4) by simp
qed

section \<open>Properties\<close>

text \<open>
  C18: parsing a path \<^verbatim>\<open>d:/...\<close> of at most 108 characters returns a root with the drive number of the digit
  and the list of the components of the rest, in order, up to the first empty one: of \<^verbatim>\<open>0:/a//b\<close> only \<^verbatim>\<open>a\<close>, because one
  separator is consumed after a component and the empty component behind it ends the parse. Every protected byte
  of memory, the path among them, is unchanged. Two blocks for each component and two more must be free.
\<close>

theorem path_parse_builds_components:
  assumes "kheap_wf s" "cstring (mem s) path (dc # 0x3A # 0x2F # rest)" "isdigit dc" "length rest \<le> 105"
    and "\<forall>j\<le>length rest + 3. kprot s (path + of_nat j)" "2 * length (path_split rest) + 2 \<le> kavail s"
  shows "\<exists>root s' ps. path_parse s path = Some (root, s') \<and> part_names ps = path_split rest \<and>
    root_at s' root (todigit dc) ps \<and> kheap_wf s' \<and> (\<forall>a. kprot s a \<longrightarrow> mem s' a = mem s a)"
  using path_parse_effect [OF assms(1-4)] assms(5,6) by (auto simp: path_frame_def)

definition demo_path :: "u8 list \<Rightarrow> path_state" where
  "demo_path xs = \<lparr>mem = (\<lambda>a. if unat (a - 0x2000) < length xs then xs ! unat (a - 0x2000) else 0), io_trace = [],
     bus = (\<lambda>_ _. 0), data_seg = 0x10, tty_row = 0, tty_col = 0, kernel_heap = demo_heap 64, current_directory = 0, page_reg = 0,
     path_roots = (\<lambda>_. \<lparr>drive_no = 0, path_first = 0\<rparr>), path_parts = (\<lambda>_. \<lparr>part = 0, path_next = 0\<rparr>)\<rparr>"

lemma demo_path_heap: "kheap_wf (demo_path xs) \<and> kavail (demo_path xs) = 64 \<and> kallocs (demo_path xs) = {}"
proof -
  have "free_blocks (demo_heap 64) = {0 ..< 64}" by (auto simp: demo_heap_def heap_get_entry_type_def config_simps)
  then show ?thesis by (simp add: demo_path_def kheap_view_defs heap_avail_def demo_heap_wf demo_heap_allocs)
qed

lemma demo_path_prot: "unat a < 0x01000000 \<Longrightarrow> kprot (demo_path xs) a"
proof -
  assume "unat a < 0x01000000"
  then have "\<not> 0x01000000 \<le> uint a" unfolding uint_nat by (simp del: of_nat_unat)
  then show ?thesis by (simp add: kprot_def kregion_def demo_path_def heap_region_def demo_heap_def config_simps)
qed

lemma demo_path_prot_text: "k < 1000 \<Longrightarrow> kprot (demo_path xs) (0x2000 + of_nat k)"
proof -
  assume "k < 1000"
  then have "unat (of_nat (0x2000 + k) :: u32) = 0x2000 + k" by (intro unat_of_nat_u32) simp
  then show ?thesis using \<open>k < 1000\<close> by (intro demo_path_prot) simp
qed

text \<open>The text \<^verbatim>\<open>0:/a/b\<close>.\<close>

abbreviation demo_text :: "u8 list" where
  "demo_text \<equiv> [0x30, 0x3A, 0x2F, 0x61, 0x2F, 0x62]"

lemma demo_path_text: "cstring (mem (demo_path demo_text)) 0x2000 demo_text"
  by (simp add: demo_path_def)

lemma demo_path_split: "path_split [0x61, 0x2F, 0x62] = [[0x61], [0x62]]"
  by (simp add: path_split.simps)

theorem path_parse_builds_components_witness:
  "\<exists>root s' ps. path_parse (demo_path demo_text) 0x2000 = Some (root, s') \<and> part_names ps = [[0x61], [0x62]] \<and>
    root_at s' root 0 ps"
proof -
  have "\<exists>root s' ps. path_parse (demo_path demo_text) 0x2000 = Some (root, s') \<and> part_names ps = path_split [0x61, 0x2F, 0x62] \<and>
    root_at s' root (todigit 0x30) ps \<and> kheap_wf s' \<and> (\<forall>a. kprot (demo_path demo_text) a \<longrightarrow> mem s' a = mem (demo_path demo_text) a)"
    using demo_path_heap demo_path_text demo_path_prot_text
    by (intro path_parse_builds_components) (simp_all add: demo_path_split isdigit_def)
  then obtain root s' ps where "path_parse (demo_path demo_text) 0x2000 = Some (root, s')"
    "part_names ps = path_split [0x61, 0x2F, 0x62]" "root_at s' root (todigit 0x30) ps" by auto
  then show ?thesis
    by (intro exI [of _ root] exI [of _ s'] exI [of _ ps]) (simp add: demo_path_split todigit_def)
qed

text \<open>
  C39: \<^verbatim>\<open>path_free\<close> of a parsed path returns and releases exactly what the parser allocated: the live
  allocations and the number of free blocks are those from before the call of \<^verbatim>\<open>path_parse\<close>.
\<close>

theorem path_free_undoes_parse:
  assumes "kheap_wf s" "cstring (mem s) path (dc # 0x3A # 0x2F # rest)" "isdigit dc" "length rest \<le> 105"
    and "\<forall>j\<le>length rest + 3. kprot s (path + of_nat j)" "2 * length (path_split rest) + 2 \<le> kavail s"
  shows "\<exists>root s' s''. path_parse s path = Some (root, s') \<and> path_free s' root = Some s'' \<and> kheap_wf s'' \<and>
    kallocs s'' = kallocs s \<and> kavail s'' = kavail s"
proof -
  obtain root s' ps where p: "path_parse s path = Some (root, s')" "root_at s' root (todigit dc) ps" "path_frame s s'"
    "kavail s' + (2 * length ps + 1) = kavail s" "kallocs s' = kallocs s \<union> owned (set (root # part_blocks ps))"
    "distinct (root # part_blocks ps)" "\<And>b k. b \<in> set (root # part_blocks ps) \<Longrightarrow> (b, k) \<notin> kallocs s"
    using path_parse_effect [OF assms(1-4) assms(5) [rule_format] assms(6)] by blast
  have wf: "kheap_wf s'" using p(3) by (simp add: path_frame_def)
  have own: "owned (set (root # part_blocks ps)) \<subseteq> kallocs s'" using p(5) by blast
  obtain s'' where f: "path_free s' root = Some s''" "kheap_wf s''" "kallocs s'' = kallocs s' - owned (set (root # part_blocks ps))"
    "kavail s'' = kavail s' + (2 * length ps + 1)"
    using path_free_effect [OF p(2) wf p(6) own] by blast
  have "kallocs s'' = kallocs s" unfolding f(3) p(5) using p(7) by blast
  then show ?thesis using p(1,4) f by auto
qed

theorem path_free_undoes_parse_witness:
  "\<exists>root s' s''. path_parse (demo_path demo_text) 0x2000 = Some (root, s') \<and> path_free s' root = Some s'' \<and> kavail s'' = 64"
proof -
  have "\<exists>root s' s''. path_parse (demo_path demo_text) 0x2000 = Some (root, s') \<and> path_free s' root = Some s'' \<and> kheap_wf s'' \<and>
    kallocs s'' = kallocs (demo_path demo_text) \<and> kavail s'' = kavail (demo_path demo_text)"
    using demo_path_heap demo_path_text demo_path_prot_text
    by (intro path_free_undoes_parse [where dc = "0x30" and rest = "[0x61, 0x2F, 0x62]"])
      (simp_all add: demo_path_split isdigit_def)
  then show ?thesis using demo_path_heap by auto
qed

text \<open>
  a string longer than 108 characters, or one that does not begin with a digit, a colon and a
  slash, is rejected: \<^verbatim>\<open>path_parse\<close> returns null and changes nothing.
\<close>

theorem path_parse_rejects:
  assumes "cstring (mem s) path xs" "length xs < 2 ^ 32"
    and "108 < length xs \<or> \<not> (\<exists>d rest. xs = d # 0x3A # 0x2F # rest \<and> isdigit d)"
  shows "path_parse s path = Some (0, s)"
proof (cases "108 < length xs")
  case True
  then have "(of_nat (length xs) :: u32) > 108" using less_of_nat_u32 [of 108 "length xs"] assms(2) by simp
  then show ?thesis using strlen_cstring [OF assms(1)] by (simp add: path_parse_def config_simps)
next
  case False
  have "\<not> path_is_valid (mem s) path"
  proof
    assume v: "path_is_valid (mem s) path"
    have "strnlen (mem s) path 108 = of_nat (length xs)" using strnlen_cstring [OF assms(1), of 108] False by simp
    then have "3 \<le> length xs" using v False by (simp add: path_is_valid_def config_simps Let_def)
    then obtain a b c rest where xs: "xs = a # b # c # rest" by (metis Suc_le_length_iff numeral_3_eq_3)
    then have "mem s path = a" "mem s (path + 1) = b" "mem s (path + 2) = c" using assms(1) by (auto simp: add.assoc)
    then have "xs = a # 0x3A # 0x2F # rest" "isdigit a" using v xs by (simp_all add: path_is_valid_def Let_def)
    then show False using assms(3) False by blast
  qed
  moreover have "\<not> (of_nat (length xs) :: u32) > 108" using False less_of_nat_u32 [of 108 "length xs"] by simp
  ultimately show ?thesis using strlen_cstring [OF assms(1)] by (simp add: path_parse_def path_get_drive_def config_simps)
qed

theorem path_parse_rejects_witness: "path_parse (demo_path [0x61, 0x62]) 0x2000 = Some (0, demo_path [0x61, 0x62])"
  using path_parse_rejects [of "demo_path [0x61, 0x62]" "0x2000" "[0x61, 0x62]"] by (simp add: demo_path_def)

end
