(* ===== verification/Disk_Model.thy ===== *)
theory Disk_Model
  imports Path_Proofs
begin

unbundle bit_operations_syntax

text \<open>
  \<^verbatim>\<open>kernel/disk/disk.c\<close> and \<^verbatim>\<open>kernel/disk/disk_stream.c\<close>: reading sectors of the primary ATA disk with programmed I/O, and a
  stream of bytes over it.

  The controller is a device behind the ports, given by \<open>bus\<close>. The bytes that \<^verbatim>\<open>disk_read_sector\<close> stores
  through its buffer pointer are returned as a list: its one caller passes a local array. Waiting
  for the controller has no bound, so a read may not return. The file system of the disk is
  identified by the address of its \<^verbatim>\<open>struct file_system\<close>.
\<close>

section \<open>Definitions\<close>

definition ENKI_SECTOR_SIZE :: int where [config_simps]: "ENKI_SECTOR_SIZE = 512"
definition ENKI_DISK_TYPE_REAL :: u32 where [config_simps]: "ENKI_DISK_TYPE_REAL = 0"

record disk =
  disk_type :: u32
  sector_size :: int
  disk_id :: int
  disk_fs :: u32
  fs_private :: u32

record disk_stream =
  stream_pos :: int
  stream_disk :: u32

text \<open>\<^verbatim>\<open>disk_addr\<close> is the address of the global variable \<^verbatim>\<open>disk\<close>.\<close>

record disk_state = path_state +
  the_disk :: disk
  disk_addr :: u32
  disk_streams :: "u32 \<Rightarrow> disk_stream"

partial_function (option) disk_wait :: "'a disk_state_scheme \<Rightarrow> u8 \<Rightarrow> 'a disk_state_scheme option" where
  "disk_wait s c =
     (if c AND 0x08 = 0 then (let (c', s') = inpb s 0x1F7 in disk_wait s' c') else Some s)"

primrec disk_read_words :: "nat \<Rightarrow> 'a disk_state_scheme \<Rightarrow> u8 list \<times> 'a disk_state_scheme" where
  "disk_read_words 0 s = ([], s)"
| "disk_read_words (Suc n) s =
     (let (w, s1) = inpw s 0x1F0; (bs, s2) = disk_read_words n s1
      in (ucast w # ucast (drop_bit 8 w) # bs, s2))"

primrec disk_read_sectors :: "nat \<Rightarrow> 'a disk_state_scheme \<Rightarrow> (u8 list \<times> 'a disk_state_scheme) option" where
  "disk_read_sectors 0 s = Some ([], s)"
| "disk_read_sectors (Suc n) s =
     do {
       let (c, s1) = inpb s 0x1F7;
       s2 \<leftarrow> disk_wait s1 c;
       let (bs, s3) = disk_read_words 256 s2;
       (bs', s4) \<leftarrow> disk_read_sectors n s3;
       Some (bs @ bs', s4)
     }"

text \<open>A conversion to \<^verbatim>\<open>unsigned char\<close> keeps the low byte, so the sign of \<^verbatim>\<open>lba\<close> does not matter for the shifts.\<close>

definition disk_read_sector :: "'a disk_state_scheme \<Rightarrow> u32 \<Rightarrow> int \<Rightarrow> (int \<times> u8 list \<times> 'a disk_state_scheme) option" where
  "disk_read_sector s lba tot =
     (let s1 = outb s 0x1F6 (ucast (drop_bit 24 lba) OR 0xE0);
          s2 = outb s1 0x1F2 (word_of_int tot);
          s3 = outb s2 0x1F3 (ucast (lba AND 0xFF));
          s4 = outb s3 0x1F4 (ucast (drop_bit 8 lba));
          s5 = outb s4 0x1F5 (ucast (drop_bit 16 lba));
          s6 = outb s5 0x1F7 0x20
      in do {
        (bs, s7) \<leftarrow> disk_read_sectors (nat tot) s6;
        Some (0, bs, s7)
      })"

definition disk_get :: "'a disk_state_scheme \<Rightarrow> int \<Rightarrow> u32" where
  "disk_get s idx = (if idx \<noteq> 0 then 0 else disk_addr s)"

definition disk_read_block :: "'a disk_state_scheme \<Rightarrow> u32 \<Rightarrow> u32 \<Rightarrow> int \<Rightarrow> (int \<times> u8 list \<times> 'a disk_state_scheme) option" where
  "disk_read_block s idisk lba tot =
     (if idisk \<noteq> disk_addr s then Some (- EIO, [], s) else disk_read_sector s lba tot)"

definition disk_stream_new :: "'a disk_state_scheme \<Rightarrow> int \<Rightarrow> u32 \<times> 'a disk_state_scheme" where
  "disk_stream_new s id_no =
     (let d = disk_get s id_no
      in if d = 0 then (0, s)
         else let (stream, s1) = kzalloc s 8
              in (stream, s1\<lparr>disk_streams := (disk_streams s1)(stream := \<lparr>stream_pos = 0, stream_disk = d\<rparr>)\<rparr>))"

definition disk_stream_seek :: "'a disk_state_scheme \<Rightarrow> u32 \<Rightarrow> int \<Rightarrow> int \<times> 'a disk_state_scheme" where
  "disk_stream_seek s stream p =
     (0, s\<lparr>disk_streams := (disk_streams s)(stream := (disk_streams s stream)\<lparr>stream_pos := p\<rparr>)\<rparr>)"

text \<open>The loop that copies \<^verbatim>\<open>read\<close> bytes from offset \<^verbatim>\<open>offset\<close> of the sector to \<^verbatim>\<open>out\<close>.\<close>

primrec copy_out :: "nat \<Rightarrow> u32 \<Rightarrow> u8 list \<Rightarrow> memory \<Rightarrow> memory" where
  "copy_out 0 out bs m = m"
| "copy_out (Suc n) out bs m = copy_out n (out + 1) (tl bs) (m(out := hd bs))"

text \<open>
  An index below 0 or above 511 of the sector buffer would be read for a negative position only; the
  read has no defined result then.
\<close>

function disk_stream_read :: "'a disk_state_scheme \<Rightarrow> u32 \<Rightarrow> u32 \<Rightarrow> int \<Rightarrow> (int \<times> 'a disk_state_scheme) option" where
  "disk_stream_read s stream out tot =
     (let st = disk_streams s stream;
          sector = c_div (stream_pos st) ENKI_SECTOR_SIZE;
          offset = c_mod (stream_pos st) ENKI_SECTOR_SIZE;
          overflow = (offset + tot \<ge> ENKI_SECTOR_SIZE);
          read = (if overflow then tot - (offset + tot - ENKI_SECTOR_SIZE) else tot)
      in if offset < 0 then None
         else do {
           (block, buf, s1) \<leftarrow> disk_read_block s (stream_disk st) (word_of_int sector) 1;
           if block < 0 then Some (block, s1)
           else do {
             let s2 = s1\<lparr>mem := copy_out (nat read) out (drop (nat offset) buf) (mem s1)\<rparr>;
             let s3 = s2\<lparr>disk_streams := (disk_streams s2)(stream :=
                        (disk_streams s2 stream)\<lparr>stream_pos := stream_pos (disk_streams s2 stream) + read\<rparr>)\<rparr>;
             if overflow then disk_stream_read s3 stream (out + word_of_int read) (tot - read)
             else Some (block, s3)
           }
         })"
  by pat_completeness auto
termination
proof (relation "measure (\<lambda>(s, stream, out, tot). nat tot)", goal_cases)
  case (2 s stream out tot)
  have m: "c_mod a 512 < 512" for a
  proof (cases "0 \<le> a")
    case False
    then have "c_mod a 512 = a + 512 * (- a div 512)" by (simp add: c_mod_def c_div_def)
    moreover have "512 * (- a div 512) + - a mod 512 = - a" by (rule mult_div_mod_eq)
    moreover have "0 \<le> - a mod 512" by simp
    ultimately show ?thesis by linarith
  qed simp
  show ?case using 2 m [of "stream_pos (disk_streams s stream)"] by (auto simp: config_simps)
qed auto

declare disk_stream_read.simps [simp del]

definition disk_stream_close :: "'a disk_state_scheme \<Rightarrow> u32 \<Rightarrow> 'a disk_state_scheme" where
  "disk_stream_close s stream = kfree s stream"

end
