(* ===== verification/Disk_Proofs.thy ===== *)
theory Disk_Proofs
  imports Disk_Model
begin

unbundle bit_operations_syntax

text \<open>
  Proofs about \<open>Disk_Model\<close>. The hypothesis on the device is the documented behaviour of an ATA drive in
  PIO mode: after the six command bytes of a one-sector read the status register reports data ready
  after some finite number of polls, and then the data register delivers the 256 words of that sector.
\<close>

section \<open>The device\<close>

text \<open>The port accesses of the command, newest first.\<close>

definition ata_command :: "u32 \<Rightarrow> io_event list" where
  "ata_command lba =
     [Out8 0x1F7 0x20, Out8 0x1F5 (ucast (drop_bit 16 lba)), Out8 0x1F4 (ucast (drop_bit 8 lba)),
      Out8 0x1F3 (ucast (lba AND 0xFF)), Out8 0x1F2 1, Out8 0x1F6 (ucast (drop_bit 24 lba) OR 0xE0)]"

definition ata_drive :: "(io_event list \<Rightarrow> u16 \<Rightarrow> u16) \<Rightarrow> (nat \<Rightarrow> u8) \<Rightarrow> nat \<Rightarrow> bool" where
  "ata_drive b img n \<longleftrightarrow>
     (\<forall>h lba. unat lba < n \<longrightarrow> (\<exists>k.
        (\<forall>i<k. (ucast (b (replicate i (In8 0x1F7) @ ata_command lba @ h) 0x1F7) :: u8) AND 0x08 = 0) \<and>
        (ucast (b (replicate k (In8 0x1F7) @ ata_command lba @ h) 0x1F7) :: u8) AND 0x08 \<noteq> 0 \<and>
        (\<forall>j<256. b (replicate j (In16 0x1F0) @ replicate (Suc k) (In8 0x1F7) @ ata_command lba @ h) 0x1F0 =
           ucast (img (512 * unat lba + 2 * j)) OR push_bit 8 (ucast (img (512 * unat lba + 2 * j + 1))))))"

section \<open>Reading a sector\<close>

lemma word16_bytes:
  fixes a b :: u8
  shows "ucast (ucast a OR push_bit 8 (ucast b) :: u16) = a" "ucast (drop_bit 8 (ucast a OR push_bit 8 (ucast b) :: u16)) = b"
  by (rule bit_word_eqI, auto simp: bit_simps dest: bit_imp_le_length)+

lemma disk_read_words_bytes:
  assumes "\<And>j. j < n \<Longrightarrow> bus s (replicate j (In16 0x1F0) @ io_trace s) 0x1F0 =
      ucast (img (a + 2 * j)) OR push_bit 8 (ucast (img (a + 2 * j + 1)))"
  shows "disk_read_words n s = (map img [a..<a + 2 * n], s\<lparr>io_trace := replicate n (In16 0x1F0) @ io_trace s\<rparr>)"
  using assms
proof (induction n arbitrary: s a)
  case (Suc n)
  let ?s = "s\<lparr>io_trace := In16 0x1F0 # io_trace s\<rparr>"
  have "bus ?s (replicate j (In16 0x1F0) @ io_trace ?s) 0x1F0 =
      ucast (img (a + 2 + 2 * j)) OR push_bit 8 (ucast (img (a + 2 + 2 * j + 1)))" if "j < n" for j
    using Suc.prems [of "Suc j"] that by (simp add: replicate_app_Cons_same)
  then have "disk_read_words n ?s = (map img [a + 2..<a + 2 + 2 * n], ?s\<lparr>io_trace := replicate n (In16 0x1F0) @ io_trace ?s\<rparr>)"
    by (rule Suc.IH)
  moreover have "[a..<a + 2 * Suc n] = a # (a + 1) # [a + 2..<a + 2 + 2 * n]" by (simp add: upt_conv_Cons)
  moreover have "bus s (io_trace s) 0x1F0 = ucast (img a) OR push_bit 8 (ucast (img (a + 1)))" using Suc.prems [of 0] by simp
  then have "ucast (bus s (io_trace s) 0x1F0) = img a" "ucast (drop_bit 8 (bus s (io_trace s) 0x1F0)) = img (a + 1)"
    by (simp_all only: word16_bytes)
  ultimately show ?case by (simp add: inpw_def replicate_app_Cons_same)
qed simp

lemma disk_wait_returns:
  assumes "i \<le> k" "\<And>i. i < k \<Longrightarrow> (ucast (bus s (replicate i (In8 0x1F7) @ base) 0x1F7) :: u8) AND 0x08 = 0"
    and "(ucast (bus s (replicate k (In8 0x1F7) @ base) 0x1F7) :: u8) AND 0x08 \<noteq> 0"
    and "io_trace s = replicate (Suc i) (In8 0x1F7) @ base" "c = ucast (bus s (replicate i (In8 0x1F7) @ base) 0x1F7)"
  shows "disk_wait s c = Some (s\<lparr>io_trace := replicate (Suc k) (In8 0x1F7) @ base\<rparr>)"
  using assms
proof (induction "k - i" arbitrary: i s c)
  case 0
  then have "i = k" by simp
  then have "s\<lparr>io_trace := replicate (Suc k) (In8 0x1F7) @ base\<rparr> = s" using 0 by simp
  then show ?case using 0 \<open>i = k\<close> by (subst disk_wait.simps) simp
next
  case (Suc n)
  let ?s = "s\<lparr>io_trace := In8 0x1F7 # io_trace s\<rparr>"
  let ?c = "ucast (bus s (io_trace s) 0x1F7) :: u8"
  have "disk_wait ?s ?c = Some (?s\<lparr>io_trace := replicate (Suc k) (In8 0x1F7) @ base\<rparr>)"
    using Suc.hyps(2) Suc.prems by (intro Suc.hyps(1) [of "Suc i"]) auto
  then show ?case using Suc.hyps(2) Suc.prems by (subst disk_wait.simps) (simp add: inpb_def)
qed

lemma disk_read_block_sector:
  assumes "ata_drive (bus s) img n" "unat lba < n"
  shows "\<exists>t. disk_read_block s (disk_addr s) lba 1 =
    Some (0, map img [512 * unat lba..<512 * unat lba + 512], s\<lparr>io_trace := t\<rparr>)"
proof -
  let ?h = "io_trace s" and ?c = "ata_command lba"
  obtain k where k: "\<And>i. i < k \<Longrightarrow> (ucast (bus s (replicate i (In8 0x1F7) @ ?c @ ?h) 0x1F7) :: u8) AND 0x08 = 0"
    "(ucast (bus s (replicate k (In8 0x1F7) @ ?c @ ?h) 0x1F7) :: u8) AND 0x08 \<noteq> 0"
    "\<And>j. j < 256 \<Longrightarrow> bus s (replicate j (In16 0x1F0) @ replicate (Suc k) (In8 0x1F7) @ ?c @ ?h) 0x1F0 =
       ucast (img (512 * unat lba + 2 * j)) OR push_bit 8 (ucast (img (512 * unat lba + 2 * j + 1)))"
    using assms unfolding ata_drive_def by blast
  define s6 where "s6 = s\<lparr>io_trace := ?c @ ?h\<rparr>"
  define s7 where "s7 = s6\<lparr>io_trace := In8 0x1F7 # ?c @ ?h\<rparr>"
  define s8 where "s8 = s7\<lparr>io_trace := replicate (Suc k) (In8 0x1F7) @ ?c @ ?h\<rparr>"
  have "disk_wait s7 (ucast (bus s6 (io_trace s6) 0x1F7)) = Some s8"
    unfolding s8_def using k(1,2) by (intro disk_wait_returns [of 0 k]) (simp_all add: s7_def s6_def)
  moreover have "disk_read_words 256 s8 = (map img [512 * unat lba..<512 * unat lba + 2 * 256],
      s8\<lparr>io_trace := replicate 256 (In16 0x1F0) @ io_trace s8\<rparr>)"
    using k(3) by (intro disk_read_words_bytes) (simp add: s8_def s7_def s6_def)
  ultimately have "disk_read_sectors 1 s6 = Some (map img [512 * unat lba..<512 * unat lba + 512],
      s8\<lparr>io_trace := replicate 256 (In16 0x1F0) @ io_trace s8\<rparr>)"
    by (simp add: inpb_def s6_def s7_def)
  moreover have "disk_read_block s (disk_addr s) lba 1 = Option.bind (disk_read_sectors 1 s6) (\<lambda>(bs, s7). Some (0, bs, s7))"
    by (simp add: disk_read_block_def disk_read_sector_def outb_def s6_def ata_command_def del: disk_read_sectors.simps)
  ultimately show ?thesis by (auto simp: s8_def s7_def s6_def)
qed

section \<open>Reading a stream\<close>

lemma copy_out_apply:
  "n \<le> length bs \<Longrightarrow> n < 2 ^ 32 \<Longrightarrow> copy_out n out bs m a = (if unat (a - out) < n then bs ! unat (a - out) else m a)"
proof (induction n arbitrary: out bs m)
  case (Suc n)
  then obtain b bs' where bs: "bs = b # bs'" by (cases bs) auto
  have IH: "copy_out n (out + 1) bs' (m(out := b)) a =
      (if unat (a - (out + 1)) < n then bs' ! unat (a - (out + 1)) else (m(out := b)) a)"
    using Suc bs by (intro Suc.IH) simp_all
  show ?case
  proof (cases "a = out")
    case True
    then have "a - (out + 1) = 0xFFFFFFFF" by simp
    then have "unat (a - (out + 1)) = unat (0xFFFFFFFF :: u32)" by (rule arg_cong)
    then have "unat (a - (out + 1)) = 2 ^ 32 - 1" by simp
    then show ?thesis using IH True Suc.prems bs by simp
  next
    case False
    then have nz: "a - out \<noteq> 0" by simp
    then have "unat (a - out) \<noteq> 0" by (simp add: unat_eq_0)
    moreover have "unat (a - out - 1) = unat (a - out) - 1" by (rule unat_minus_one [OF nz])
    moreover have "a - out - 1 = a - (out + 1)" by simp
    ultimately have "unat (a - out) = Suc (unat (a - (out + 1)))" by (simp only:)
    then show ?thesis using IH False bs by simp
  qed
qed simp

text \<open>One round of the read: at most up to the end of the present sector.\<close>

definition stream_advance :: "'a disk_state_scheme \<Rightarrow> u32 \<Rightarrow> memory \<Rightarrow> io_event list \<Rightarrow> nat \<Rightarrow> 'a disk_state_scheme" where
  "stream_advance s st m t p = s\<lparr>io_trace := t, mem := m,
     disk_streams := (disk_streams s)(st := (disk_streams s st)\<lparr>stream_pos := int p\<rparr>)\<rparr>"

lemma disk_stream_read_step:
  assumes "ata_drive (bus s) img n" "stream_disk (disk_streams s st) = disk_addr s" "stream_pos (disk_streams s st) = int p"
    and "p div 512 < n" "n < 2 ^ 22" "r = (if 512 \<le> p mod 512 + t then 512 - p mod 512 else t)"
  shows "\<exists>tr m. (\<forall>a. m a = (if unat (a - out) < r then img (p + unat (a - out)) else mem s a)) \<and>
    disk_stream_read s st out (int t) =
      (if 512 \<le> p mod 512 + t then disk_stream_read (stream_advance s st m tr (p + r)) st (out + of_nat r) (int (t - r))
       else Some (0, stream_advance s st m tr (p + r)))"
proof -
  let ?o = "p mod 512" and ?lba = "of_nat (p div 512) :: u32"
  have lba: "unat ?lba = p div 512" using assms(4,5) by (intro unat_of_nat_u32) simp
  have o: "?o < 512" by simp
  obtain tr where rd: "disk_read_block s (disk_addr s) ?lba 1 =
      Some (0, map img [512 * (p div 512)..<512 * (p div 512) + 512], s\<lparr>io_trace := tr\<rparr>)"
    using disk_read_block_sector [OF assms(1), of ?lba] assms(4) lba by auto
  let ?bs = "drop ?o (map img [512 * (p div 512)..<512 * (p div 512) + 512])"
  have p: "512 * (p div 512) + ?o = p" by simp
  then have bs: "?bs = map img [p..<512 * (p div 512) + 512]" by (simp add: drop_map)
  have r: "r \<le> length ?bs" "r < 2 ^ 32" using assms(6) o p by (auto split: if_splits)
  define m where "m = copy_out r out ?bs (mem s)"
  have m: "m a = (if unat (a - out) < r then img (p + unat (a - out)) else mem s a)" for a
    using r copy_out_apply [OF r, of out "mem s" a] by (simp add: m_def bs)
  have c: "c_div (int p) 512 = int (p div 512)" "c_mod (int p) 512 = int ?o" by (simp_all add: zdiv_int zmod_int)
  have "disk_stream_read s st out (int t) =
      (if 512 \<le> ?o + t then disk_stream_read (stream_advance s st m tr (p + r)) st (out + of_nat r) (int (t - r))
       else Some (0, stream_advance s st m tr (p + r)))"
  proof (cases "512 \<le> ?o + t")
    case True
    then have ov: "512 \<le> int ?o + int t" and "int t - (int ?o + int t - 512) = int r" "int t - int r = int (t - r)"
      using assms(6) o by auto
    then show ?thesis
      using True assms(2,3) rd
      by (subst disk_stream_read.simps)
        (simp add: config_simps c Let_def stream_advance_def m_def del: copy_out.simps of_nat_mod of_nat_div zmod_int zdiv_int)
  next
    case False
    then have ov: "\<not> 512 \<le> int ?o + int t" and rt: "r = t" using assms(6) by auto
    have mt: "m = copy_out t out ?bs (mem s)" by (simp only: m_def rt)
    show ?thesis unfolding rt
      using False ov assms(2,3) rd
      by (subst disk_stream_read.simps)
        (simp add: config_simps c Let_def stream_advance_def mt del: copy_out.simps of_nat_mod of_nat_div zmod_int zdiv_int)
  qed
  then show ?thesis using m by blast
qed

lemma offset_shift:
  fixes a out :: u32
  assumes "r \<le> t" "t < 2 ^ 32"
  shows "unat (a - (out + of_nat r)) < t - r \<longleftrightarrow> r \<le> unat (a - out) \<and> unat (a - out) < t"
    "r \<le> unat (a - out) \<Longrightarrow> unat (a - (out + of_nat r)) = unat (a - out) - r"
proof -
  have eq: "a - (out + of_nat r) = (a - out) - of_nat r" by simp
  have r: "unat (of_nat r :: u32) = r" using assms by (intro unat_of_nat_u32) simp
  show sub: "unat (a - (out + of_nat r)) = unat (a - out) - r" if "r \<le> unat (a - out)"
    using that unfolding eq by (subst unat_sub) (simp_all add: word_le_nat_alt r)
  show "unat (a - (out + of_nat r)) < t - r \<longleftrightarrow> r \<le> unat (a - out) \<and> unat (a - out) < t"
  proof (cases "r \<le> unat (a - out)")
    case True
    then show ?thesis using sub by auto
  next
    case False
    then have "unat (a - (out + of_nat r)) = unat (a - out) + 2 ^ 32 - r"
      unfolding eq by (simp only: unat_sub_if' r) (simp add: r)
    then show ?thesis using False assms by simp
  qed
qed

lemma disk_stream_read_effect:
  assumes "ata_drive (bus s) img n" "stream_disk (disk_streams s st) = disk_addr s" "stream_pos (disk_streams s st) = int p"
    and "p + t < 512 * n" "n < 2 ^ 22"
  shows "\<exists>tr m. disk_stream_read s st out (int t) = Some (0, stream_advance s st m tr (p + t)) \<and>
    (\<forall>a. m a = (if unat (a - out) < t then img (p + unat (a - out)) else mem s a))"
  using assms
proof (induction t arbitrary: s out p rule: less_induct)
  case (less t)
  define r where "r = (if 512 \<le> p mod 512 + t then 512 - p mod 512 else t)"
  have "p div 512 < n" using less.prems(4) by (intro less_mult_imp_div_less) simp
  then obtain tr m where m: "\<And>a. m a = (if unat (a - out) < r then img (p + unat (a - out)) else mem s a)"
    and step: "disk_stream_read s st out (int t) =
      (if 512 \<le> p mod 512 + t then disk_stream_read (stream_advance s st m tr (p + r)) st (out + of_nat r) (int (t - r))
       else Some (0, stream_advance s st m tr (p + r)))"
    using disk_stream_read_step [OF less.prems(1-3) _ less.prems(5) r_def, of out] by blast
  show ?case
  proof (cases "512 \<le> p mod 512 + t")
    case False
    then have "disk_stream_read s st out (int t) = Some (0, stream_advance s st m tr (p + t))" "r = t"
      using step by (simp_all add: r_def)
    then show ?thesis using m by blast
  next
    case True
    let ?s = "stream_advance s st m tr (p + r)"
    have "0 < 512 - p mod 512" by simp
    then have r: "0 < r" "r \<le> t" using True by (auto simp: r_def)
    have "\<exists>tr' m'. disk_stream_read ?s st (out + of_nat r) (int (t - r)) = Some (0, stream_advance ?s st m' tr' (p + r + (t - r))) \<and>
      (\<forall>a. m' a = (if unat (a - (out + of_nat r)) < t - r then img (p + r + unat (a - (out + of_nat r))) else mem ?s a))"
      using r less.prems by (intro less.IH) (simp_all add: stream_advance_def)
    then obtain tr' m' where m': "disk_stream_read ?s st (out + of_nat r) (int (t - r)) = Some (0, stream_advance ?s st m' tr' (p + r + (t - r)))"
      "\<And>a. m' a = (if unat (a - (out + of_nat r)) < t - r then img (p + r + unat (a - (out + of_nat r))) else m a)"
      by (auto simp: stream_advance_def)
    have t: "t < 2 ^ 32" using less.prems(4,5) by simp
    have "m' a = (if unat (a - out) < t then img (p + unat (a - out)) else mem s a)" for a
      using m'(2) [of a] m [of a] offset_shift [OF r(2) t, of a out] r(2) by auto
    moreover have "stream_advance ?s st m' tr' (p + r + (t - r)) = stream_advance s st m' tr' (p + t)"
      using r by (simp add: stream_advance_def)
    then have "disk_stream_read s st out (int t) = Some (0, stream_advance s st m' tr' (p + t))" using True step m'(1) by simp
    ultimately show ?thesis by blast
  qed
qed

section \<open>Properties\<close>

text \<open>
  C19: reading \<^verbatim>\<open>total\<close> bytes from a disk stream at any position returns 0, stores exactly the bytes of the
  disk image from that position on into the destination and nothing else, and advances the position by
  \<^verbatim>\<open>total\<close>, across the sectors that the range spans. The range may touch at most 128 sectors, the largest cluster of a
  FAT16 volume: the function calls itself once for each sector with a buffer of 512 bytes on the stack, and the
  stack, which a longer range could overflow, is not modelled.
\<close>

theorem disk_stream_read_correct:
  assumes "ata_drive (bus s) img n" "n < 2 ^ 22" "stream_disk (disk_streams s st) = disk_addr s"
    and "stream_pos (disk_streams s st) = int p" "p + t < 512 * n" "p mod 512 + t < 512 * 128"
  shows "\<exists>s'. disk_stream_read s st out (int t) = Some (0, s') \<and> stream_pos (disk_streams s' st) = int (p + t) \<and>
    (\<forall>i<t. mem s' (out + of_nat i) = img (p + i)) \<and> (\<forall>a. t \<le> unat (a - out) \<longrightarrow> mem s' a = mem s a)"
proof -
  obtain tr m where run: "disk_stream_read s st out (int t) = Some (0, stream_advance s st m tr (p + t))"
    and m: "\<And>a. m a = (if unat (a - out) < t then img (p + unat (a - out)) else mem s a)"
    using disk_stream_read_effect [OF assms(1,3-5,2), of out] by blast
  have "m (out + of_nat i) = img (p + i)" if "i < t" for i
    using m [of "out + of_nat i"] that assms(2,5) by simp
  then show ?thesis using run m by (auto simp: stream_advance_def)
qed

text \<open>A drive for the witnesses: byte \<open>k\<close> of the disk is \<open>k mod 251\<close>, and data is ready at once.\<close>

definition demo_img :: "nat \<Rightarrow> u8" where
  "demo_img k = of_nat (k mod 251)"

definition demo_bus :: "(nat \<Rightarrow> u8) \<Rightarrow> io_event list \<Rightarrow> u16 \<Rightarrow> u16" where
  "demo_bus img t port =
     (if port = 0x1F7 then 8
      else
        let j = length (takeWhile (\<lambda>e. e = In16 0x1F0) t)
        in case dropWhile (\<lambda>e. e = In16 0x1F0 \<or> e = In8 0x1F7) t of
             Out8 _ _ # Out8 _ b2 # Out8 _ b1 # Out8 _ b0 # _ \<Rightarrow>
               let a = 512 * (unat b0 + 256 * unat b1 + 65536 * unat b2) + 2 * j
               in ucast (img a) OR push_bit 8 (ucast (img (a + 1)))
           | _ \<Rightarrow> 0)"

lemma lba_bytes:
  assumes "unat lba < 2 ^ 22"
  shows "unat (ucast (lba AND 0xFF) :: u8) + 256 * unat (ucast (drop_bit 8 lba) :: u8) + 65536 * unat (ucast (drop_bit 16 lba) :: u8) =
    unat (lba :: u32)"
proof -
  have m: "(0xFF :: u32) = mask 8" by (simp add: mask_numeral)
  have "(ucast (lba AND 0xFF) :: u8) = ucast lba" unfolding m by (rule bit_word_eqI) (auto simp: bit_simps)
  then have 0: "unat (ucast (lba AND 0xFF) :: u8) = unat lba mod 256"
    by (simp add: unsigned_ucast_eq take_bit_eq_mod)
  have 1: "unat (ucast (drop_bit 8 lba) :: u8) = unat lba div 256 mod 256"
    by (simp add: unsigned_ucast_eq take_bit_eq_mod unsigned_drop_bit_eq drop_bit_eq_div unat_div)
  have 2: "unat (ucast (drop_bit 16 lba) :: u8) = unat lba div 65536 mod 256"
    by (simp add: unsigned_ucast_eq take_bit_eq_mod unsigned_drop_bit_eq drop_bit_eq_div unat_div)
  have "unat lba div 65536 mod 256 = unat lba div 256 div 256" using assms by (simp add: div_mult2_eq [symmetric])
  then show ?thesis unfolding 0 1 2
    using mult_div_mod_eq [of 256 "unat lba"] mult_div_mod_eq [of 256 "unat lba div 256"] by linarith
qed

lemma demo_drive: "ata_drive (demo_bus img) img (2 ^ 22 - 1)"
  unfolding ata_drive_def
proof (intro allI impI, rule exI [of _ 0], intro conjI allI impI)
  fix h lba j assume lba: "unat (lba :: u32) < 2 ^ 22 - 1" and "j < (256 :: nat)"
  have tw: "takeWhile (\<lambda>e. e = In16 0x1F0) (replicate j (In16 0x1F0) @ In8 0x1F7 # x) = replicate j (In16 0x1F0)" for x
    by (simp add: takeWhile_append)
  have dw: "dropWhile (\<lambda>e. e = In16 0x1F0 \<or> e = In8 0x1F7) (replicate j (In16 0x1F0) @ In8 0x1F7 # ata_command lba @ h) =
      ata_command lba @ h"
    by (simp add: dropWhile_append ata_command_def)
  show "demo_bus img (replicate j (In16 0x1F0) @ replicate (Suc 0) (In8 0x1F7) @ ata_command lba @ h) 0x1F0 =
      ucast (img (512 * unat lba + 2 * j)) OR push_bit 8 (ucast (img (512 * unat lba + 2 * j + 1)))"
    using lba by (simp add: demo_bus_def tw dw) (simp add: ata_command_def Let_def lba_bytes del: distrib_left_numeral)
qed (simp_all add: demo_bus_def)

definition demo_disk :: "(nat \<Rightarrow> u8) \<Rightarrow> disk_state" where
  "demo_disk img = \<lparr>mem = (\<lambda>_. 0), io_trace = [], bus = demo_bus img, data_seg = 0x10, tty_row = 0, tty_col = 0,
     kernel_heap = demo_heap 64, current_directory = 0, page_reg = 0,
     path_roots = (\<lambda>_. \<lparr>drive_no = 0, path_first = 0\<rparr>), path_parts = (\<lambda>_. \<lparr>part = 0, path_next = 0\<rparr>),
     the_disk = \<lparr>disk_type = 0, sector_size = 512, disk_id = 0, disk_fs = 0, fs_private = 0\<rparr>, disk_addr = 0x5000,
     disk_streams = (\<lambda>_. \<lparr>stream_pos = 500, stream_disk = 0x5000\<rparr>)\<rparr>"

theorem disk_stream_read_correct_witness:
  "\<exists>s'. disk_stream_read (demo_disk demo_img) 7 0x9000 (int 1000) = Some (0, s') \<and> mem s' (0x9000 + of_nat 999) = demo_img 1499"
proof -
  have "\<exists>s'. disk_stream_read (demo_disk demo_img) 7 0x9000 (int 1000) = Some (0, s') \<and>
    stream_pos (disk_streams s' 7) = int (500 + 1000) \<and> (\<forall>i<1000. mem s' (0x9000 + of_nat i) = demo_img (500 + i)) \<and>
    (\<forall>a. 1000 \<le> unat (a - 0x9000) \<longrightarrow> mem s' a = mem (demo_disk demo_img) a)"
    using demo_drive [of demo_img] by (intro disk_stream_read_correct [where n = "2 ^ 22 - 1"]) (simp_all add: demo_disk_def)
  then obtain s' where "disk_stream_read (demo_disk demo_img) 7 0x9000 (int 1000) = Some (0, s')"
    "\<And>i. i < 1000 \<Longrightarrow> mem s' (0x9000 + of_nat i) = demo_img (500 + i)" by blast
  from this(1) this(2) [of 999] show ?thesis by auto
qed

end
