(* ===== verification/Fat16_Model.thy ===== *)
theory Fat16_Model
  imports Disk_Proofs
begin

unbundle bit_operations_syntax

text \<open>
  \<^verbatim>\<open>kernel/fs/fat16.c\<close>: the FAT16 driver. The structures of the driver and the packed structures of the disk format
  live in the byte memory; each field is read and written at the offset the compiler gives it on the
  i686 target, so that a record read from the disk into memory is seen through the same fields.

  Every caller passes the address of the one global disk, so the operations use \<open>the_disk\<close>. Local
  variables whose address is passed on (the directory item of \<^verbatim>\<open>fat16_get_dir_items\<close>, the entry of
  \<^verbatim>\<open>fat16_get_fat_entry\<close>, the name of \<^verbatim>\<open>fat16_find_item_in_dir\<close>) lie at addresses that are fields of the state.
  A division by zero, a panic and a loop that does not end have no result (\<open>None\<close>).
\<close>

section \<open>Definitions\<close>

definition ENKI_FAT16_SIGNATURE :: u8 where [config_simps]: "ENKI_FAT16_SIGNATURE = 0x29"
definition ENKI_FAT16_ENTRY_SIZE :: int where [config_simps]: "ENKI_FAT16_ENTRY_SIZE = 0x02"
definition FAT_FILE_READ_ONLY :: u8 where [config_simps]: "FAT_FILE_READ_ONLY = 0x01"
definition FAT_FILE_SUBDIRECTORY :: u8 where [config_simps]: "FAT_FILE_SUBDIRECTORY = 0x10"
definition FAT_ITEM_TYPE_DIR :: u32 where [config_simps]: "FAT_ITEM_TYPE_DIR = 0"
definition FAT_ITEM_TYPE_FILE :: u32 where [config_simps]: "FAT_ITEM_TYPE_FILE = 1"

definition SEEK_SET :: u32 where [config_simps]: "SEEK_SET = 0"
definition SEEK_CUR :: u32 where [config_simps]: "SEEK_CUR = 1"
definition SEEK_END :: u32 where [config_simps]: "SEEK_END = 2"
definition FILE_MODE_READ :: u32 where [config_simps]: "FILE_MODE_READ = 0"
definition FILE_MODE_WRITE :: u32 where [config_simps]: "FILE_MODE_WRITE = 1"
definition FILE_MODE_APPEND :: u32 where [config_simps]: "FILE_MODE_APPEND = 2"
definition FILE_MODE_INVALID :: u32 where [config_simps]: "FILE_MODE_INVALID = 3"
definition FILE_STAT_READ_ONLY :: u32 where [config_simps]: "FILE_STAT_READ_ONLY = 0b00000001"

record file_stat =
  stat_flags :: u32
  file_size :: u32

record fat_state = disk_state +
  stk_item :: u32
  stk_entry :: u32
  stk_name :: u32
  fat16_fs :: u32

text \<open>Fields of \<^verbatim>\<open>struct fat_header\<close> and \<^verbatim>\<open>struct fat_header_extended\<close>, from the start of the boot sector.\<close>

definition hd_sect_per_cluster :: "memory \<Rightarrow> u32 \<Rightarrow> u8" where "hd_sect_per_cluster m h = m (h + 13)"
definition hd_reserved_sectors :: "memory \<Rightarrow> u32 \<Rightarrow> u16" where "hd_reserved_sectors m h = load16 m (h + 14)"
definition hd_number_of_fat :: "memory \<Rightarrow> u32 \<Rightarrow> u8" where "hd_number_of_fat m h = m (h + 16)"
definition hd_root_entries :: "memory \<Rightarrow> u32 \<Rightarrow> u16" where "hd_root_entries m h = load16 m (h + 17)"
definition hd_sectors_per_fat :: "memory \<Rightarrow> u32 \<Rightarrow> u16" where "hd_sectors_per_fat m h = load16 m (h + 22)"
definition hd_ext_boot_signature :: "memory \<Rightarrow> u32 \<Rightarrow> u8" where "hd_ext_boot_signature m h = m (h + 38)"

definition sizeof_fat_h :: int where [config_simps]: "sizeof_fat_h = 62"

text \<open>Fields of \<^verbatim>\<open>struct fat_dir_item\<close> (32 bytes).\<close>

definition di_name :: "u32 \<Rightarrow> u32" where "di_name p = p"
definition di_ext :: "u32 \<Rightarrow> u32" where "di_ext p = p + 8"
definition di_attribute :: "memory \<Rightarrow> u32 \<Rightarrow> u8" where "di_attribute m p = m (p + 11)"
definition di_high_first_cluster :: "memory \<Rightarrow> u32 \<Rightarrow> u16" where "di_high_first_cluster m p = load16 m (p + 20)"
definition di_low_first_cluster :: "memory \<Rightarrow> u32 \<Rightarrow> u16" where "di_low_first_cluster m p = load16 m (p + 26)"
definition di_file_size :: "memory \<Rightarrow> u32 \<Rightarrow> u32" where "di_file_size m p = load32 m (p + 28)"

definition sizeof_fat_dir_item :: int where [config_simps]: "sizeof_fat_dir_item = 32"

text \<open>Fields of \<^verbatim>\<open>struct fat_dir\<close> (16 bytes), \<^verbatim>\<open>struct fat_item\<close> (8), \<^verbatim>\<open>struct fat_file_descriptor\<close> (8).\<close>

definition fdir_item :: "memory \<Rightarrow> u32 \<Rightarrow> u32" where "fdir_item m d = load32 m d"
definition fdir_total :: "memory \<Rightarrow> u32 \<Rightarrow> int" where "fdir_total m d = sint (load32 m (d + 4))"
definition fdir_sector_end :: "memory \<Rightarrow> u32 \<Rightarrow> int" where "fdir_sector_end m d = sint (load32 m (d + 12))"
definition fitem_ptr :: "memory \<Rightarrow> u32 \<Rightarrow> u32" where "fitem_ptr m f = load32 m f"
definition fitem_type :: "memory \<Rightarrow> u32 \<Rightarrow> u32" where "fitem_type m f = load32 m (f + 4)"
definition ffd_item :: "memory \<Rightarrow> u32 \<Rightarrow> u32" where "ffd_item m d = load32 m d"
definition ffd_pos :: "memory \<Rightarrow> u32 \<Rightarrow> u32" where "ffd_pos m d = load32 m (d + 4)"

text \<open>Fields of \<^verbatim>\<open>struct fat_private\<close> (92 bytes): the header comes first, the root directory at 64.\<close>

definition fp_root :: "u32 \<Rightarrow> u32" where "fp_root p = p + 64"
definition fp_cluster_read :: "memory \<Rightarrow> u32 \<Rightarrow> u32" where "fp_cluster_read m p = load32 m (p + 80)"
definition fp_fat_read :: "memory \<Rightarrow> u32 \<Rightarrow> u32" where "fp_fat_read m p = load32 m (p + 84)"
definition fp_dir_read :: "memory \<Rightarrow> u32 \<Rightarrow> u32" where "fp_dir_read m p = load32 m (p + 88)"

definition poke32 :: "'a fat_state_scheme \<Rightarrow> u32 \<Rightarrow> u32 \<Rightarrow> 'a fat_state_scheme" where
  "poke32 s a v = s\<lparr>mem := store32 (mem s) a v\<rparr>"

definition fat16_init_private :: "'a fat_state_scheme \<Rightarrow> u32 \<Rightarrow> 'a fat_state_scheme" where
  "fat16_init_private s private =
     (let s1 = s\<lparr>mem := memset private 0 92 (mem s)\<rparr>;
          (a, s2) = disk_stream_new s1 (disk_id (the_disk s1));
          s3 = poke32 s2 (private + 80) a;
          (b, s4) = disk_stream_new s3 (disk_id (the_disk s3));
          s5 = poke32 s4 (private + 84) b;
          (c, s6) = disk_stream_new s5 (disk_id (the_disk s5))
      in poke32 s6 (private + 88) c)"

definition fat16_sector_to_abs :: "'a fat_state_scheme \<Rightarrow> int \<Rightarrow> int" where
  "fat16_sector_to_abs s sector = i32 (sector * sector_size (the_disk s))"

partial_function (option) fat16_count_items :: "'a fat_state_scheme \<Rightarrow> u32 \<Rightarrow> int \<Rightarrow> (int \<times> 'a fat_state_scheme) option" where
  "fat16_count_items s stream i =
     Option.bind (disk_stream_read s stream (stk_item s) sizeof_fat_dir_item) (\<lambda>(r, s1).
       if r \<noteq> 0 then Some (- EIO, s1)
       else if mem s1 (stk_item s1) = 0x00 then Some (i, s1)
       else if mem s1 (stk_item s1) = 0xE5 then fat16_count_items s1 stream i
       else fat16_count_items s1 stream (i + 1))"

definition fat16_get_dir_items :: "'a fat_state_scheme \<Rightarrow> u32 \<Rightarrow> (int \<times> 'a fat_state_scheme) option" where
  "fat16_get_dir_items s dir_sector_start =
     (let stream = fp_dir_read (mem s) (fs_private (the_disk s));
          dir_start = sint (dir_sector_start * word_of_int (sector_size (the_disk s)));
          (r, s1) = disk_stream_seek s stream dir_start
      in if r \<noteq> 0 then Some (- EIO, s1) else fat16_count_items s1 stream 0)"

definition fat16_get_root :: "'a fat_state_scheme \<Rightarrow> u32 \<Rightarrow> u32 \<Rightarrow> (int \<times> 'a fat_state_scheme) option" where
  "fat16_get_root s fat_private dir_out =
     (let root_pos = uint (hd_number_of_fat (mem s) fat_private) * uint (hd_sectors_per_fat (mem s) fat_private) +
                     uint (hd_reserved_sectors (mem s) fat_private);
          root_entries = uint (hd_root_entries (mem s) fat_private);
          root_size = root_entries * sizeof_fat_dir_item
      in if sector_size (the_disk s) = 0 then None
         else do {
           (total_items, s1) \<leftarrow> fat16_get_dir_items s (word_of_int root_pos);
           let (dir, s2) = kzalloc s1 (word_of_int root_size);
           if dir = 0 then Some (- ENOMEM, s2)
           else do {
             let stream = fp_dir_read (mem s2) fat_private;
             let (r, s3) = disk_stream_seek s2 stream (fat16_sector_to_abs s2 root_pos);
             if r \<noteq> 0 then Some (- EIO, kfree s3 dir)
             else do {
               (r', s4) \<leftarrow> disk_stream_read s3 stream dir root_size;
               if r' \<noteq> 0 then Some (- EIO, kfree s4 dir)
               else
                 let s5 = poke32 s4 dir_out dir;
                     s6 = poke32 s5 (dir_out + 4) (word_of_int total_items);
                     s7 = poke32 s6 (dir_out + 8) (word_of_int root_pos);
                     s8 = poke32 s7 (dir_out + 12) (word_of_int (root_pos + c_div root_size (sector_size (the_disk s7))))
                 in Some (0, s8)
             }
           }
         })"

text \<open>The common tail of the three failing exits of \<^verbatim>\<open>fat16_resolve\<close>.\<close>

definition fat16_resolve_fail :: "'a fat_state_scheme \<Rightarrow> u32 \<Rightarrow> u32 \<Rightarrow> 'a fat_state_scheme" where
  "fat16_resolve_fail s stream fat_private =
     (let s1 = kfree (disk_stream_close s stream) fat_private
      in s1\<lparr>the_disk := (the_disk s1)\<lparr>fs_private := 0\<rparr>\<rparr>)"

definition fat16_resolve :: "'a fat_state_scheme \<Rightarrow> (int \<times> 'a fat_state_scheme) option" where
  "fat16_resolve s =
     (let (fat_private, s1) = kzalloc s 92;
          s2 = fat16_init_private s1 fat_private;
          s3 = s2\<lparr>the_disk := (the_disk s2)\<lparr>fs_private := fat_private, disk_fs := fat16_fs s2\<rparr>\<rparr>;
          (stream, s4) = disk_stream_new s3 (disk_id (the_disk s3))
      in if stream = 0 then
           Some (- ENOMEM, (kfree s4 fat_private)\<lparr>the_disk := (the_disk s4)\<lparr>fs_private := 0\<rparr>\<rparr>)
         else do {
           (r, s5) \<leftarrow> disk_stream_read s4 stream fat_private sizeof_fat_h;
           if r \<noteq> 0 then Some (- EIO, fat16_resolve_fail s5 stream fat_private)
           else if hd_ext_boot_signature (mem s5) fat_private \<noteq> ENKI_FAT16_SIGNATURE then
             Some (- EFSNOTUS, fat16_resolve_fail s5 stream fat_private)
           else do {
             (r', s6) \<leftarrow> fat16_get_root s5 fat_private (fp_root fat_private);
             if r' \<noteq> 0 then Some (- EIO, fat16_resolve_fail s6 stream fat_private) else Some (0, s6)
           }
         })"

text \<open>The loop of \<^verbatim>\<open>fat16_fmt_str\<close>, with at most \<open>n\<close> characters left; it returns the advanced output pointer.\<close>

primrec fat16_fmt_str :: "nat \<Rightarrow> u32 \<Rightarrow> u32 \<Rightarrow> memory \<Rightarrow> u32 \<times> memory" where
  "fat16_fmt_str 0 out in_ptr m = (out, m(out := 0))"
| "fat16_fmt_str (Suc n) out in_ptr m =
     (if m in_ptr \<noteq> 0x00 \<and> m in_ptr \<noteq> 0x20 then fat16_fmt_str n (out + 1) (in_ptr + 1) (m(out := m in_ptr))
      else (out, m(out := 0)))"

definition fat16_file_name_resolve :: "u32 \<Rightarrow> u32 \<Rightarrow> u32 \<Rightarrow> memory \<Rightarrow> memory" where
  "fat16_file_name_resolve item out max_len m =
     (let m1 = memset out 0 max_len m;
          (tmp, m2) = fat16_fmt_str 8 out (di_name item) m1
      in if m2 (di_ext item) \<noteq> 0x00 \<and> m2 (di_ext item) \<noteq> 0x20
         then snd (fat16_fmt_str 3 (tmp + 1) (di_ext item) (m2(tmp := 0x2E)))
         else m2)"

definition fat16_clone_dir_item :: "'a fat_state_scheme \<Rightarrow> u32 \<Rightarrow> int \<Rightarrow> u32 \<times> 'a fat_state_scheme" where
  "fat16_clone_dir_item s item sz =
     (if (word_of_int sz :: u32) < word_of_int sizeof_fat_dir_item then (0, s)
      else
        let (copy, s1) = kzalloc s (word_of_int sz)
        in if copy = 0 then (0, s1) else (copy, s1\<lparr>mem := memcpy copy item (word_of_int sz) (mem s1)\<rparr>))"

definition fat16_get_first_fat_sector :: "memory \<Rightarrow> u32 \<Rightarrow> u32" where
  "fat16_get_first_fat_sector m private = ucast (hd_reserved_sectors m private)"

definition fat16_get_fat_entry :: "'a fat_state_scheme \<Rightarrow> int \<Rightarrow> (int \<times> 'a fat_state_scheme) option" where
  "fat16_get_fat_entry s cluster =
     (let private = fs_private (the_disk s);
          stream = fp_fat_read (mem s) private
      in if stream = 0 then Some (0, s)
         else
           let fat_table_pos = fat16_get_first_fat_sector (mem s) private * word_of_int (sector_size (the_disk s));
               (r, s1) = disk_stream_seek s stream (sint (fat_table_pos + word_of_int (cluster * ENKI_FAT16_ENTRY_SIZE)))
           in if r < 0 then Some (r, s1)
              else do {
                let s2 = s1\<lparr>mem := store16 (mem s1) (stk_entry s1) 0\<rparr>;
                (r', s3) \<leftarrow> disk_stream_read s2 stream (stk_entry s2) 2;
                if r' < 0 then Some (r', s3) else Some (uint (load16 (mem s3) (stk_entry s3)), s3)
              })"

primrec fat16_follow :: "nat \<Rightarrow> 'a fat_state_scheme \<Rightarrow> int \<Rightarrow> (int \<times> 'a fat_state_scheme) option" where
  "fat16_follow 0 s cluster_target = Some (cluster_target, s)"
| "fat16_follow (Suc n) s cluster_target =
     do {
       (entry, s1) \<leftarrow> fat16_get_fat_entry s cluster_target;
       if entry \<in> {0x00, 0xFF0, 0xFF6, 0xFF7, 0xFF8, 0xFFF} then Some (- EIO, s1) else fat16_follow n s1 entry
     }"

definition fat16_get_cluster_offset :: "'a fat_state_scheme \<Rightarrow> int \<Rightarrow> int \<Rightarrow> (int \<times> 'a fat_state_scheme) option" where
  "fat16_get_cluster_offset s cluster_start offset =
     (let cluster_size = uint (hd_sect_per_cluster (mem s) (fs_private (the_disk s))) * sector_size (the_disk s)
      in if cluster_size = 0 then None
         else fat16_follow (nat (c_div offset cluster_size)) s cluster_start)"

definition fat16_get_first_cluster :: "memory \<Rightarrow> u32 \<Rightarrow> u32" where
  "fat16_get_first_cluster m item = ucast (di_high_first_cluster m item OR di_low_first_cluster m item)"

definition fat16_cluster_to_sector :: "memory \<Rightarrow> u32 \<Rightarrow> int \<Rightarrow> int" where
  "fat16_cluster_to_sector m private cluster =
     fdir_sector_end m (fp_root private) + (cluster - 2) * uint (hd_sect_per_cluster m private)"

partial_function (option) fat16_read_internal_stream ::
    "'a fat_state_scheme \<Rightarrow> u32 \<Rightarrow> int \<Rightarrow> int \<Rightarrow> int \<Rightarrow> u32 \<Rightarrow> (int \<times> 'a fat_state_scheme) option" where
  "fat16_read_internal_stream s stream cluster offset tot out =
     (let private = fs_private (the_disk s);
          cluster_size = uint (hd_sect_per_cluster (mem s) private) * sector_size (the_disk s)
      in Option.bind (fat16_get_cluster_offset s cluster offset) (\<lambda>(cluster_target, s1).
           if cluster_target < 0 then Some (cluster_target, s1)
           else
             let cluster_offset = c_mod offset cluster_size;
                 start_sector = fat16_cluster_to_sector (mem s1) private cluster_target;
                 start_pos = i32 (i32 (start_sector * sector_size (the_disk s1)) + cluster_offset);
                 to_read = (if tot > cluster_size then cluster_size else tot);
                 (r, s2) = disk_stream_seek s1 stream start_pos
             in if r \<noteq> 0 then Some (r, s2)
                else Option.bind (disk_stream_read s2 stream out to_read) (\<lambda>(r', s3).
                  if r' \<noteq> 0 then Some (r', s3)
                  else if tot - to_read > 0
                  then fat16_read_internal_stream s3 stream cluster (i32 (offset + to_read)) (tot - to_read) (out + word_of_int to_read)
                  else Some (r', s3))))"

definition fat16_read_internal :: "'a fat_state_scheme \<Rightarrow> int \<Rightarrow> int \<Rightarrow> int \<Rightarrow> u32 \<Rightarrow> (int \<times> 'a fat_state_scheme) option" where
  "fat16_read_internal s start_cluster offset tot out =
     fat16_read_internal_stream s (fp_cluster_read (mem s) (fs_private (the_disk s))) start_cluster offset tot out"

definition fat16_free_dir :: "'a fat_state_scheme \<Rightarrow> u32 \<Rightarrow> 'a fat_state_scheme" where
  "fat16_free_dir s dir =
     (if dir \<noteq> 0 then
        let s1 = (if fdir_item (mem s) dir = 0 then kfree s (fdir_item (mem s) dir) else s) in kfree s1 dir
      else s)"

definition fat16_fat_item_free :: "'a fat_state_scheme \<Rightarrow> u32 \<Rightarrow> 'a fat_state_scheme option" where
  "fat16_fat_item_free s item =
     (if fitem_type (mem s) item = FAT_ITEM_TYPE_DIR then Some (kfree (fat16_free_dir s (fitem_ptr (mem s) item)) item)
      else if fitem_type (mem s) item = FAT_ITEM_TYPE_FILE then Some (kfree (kfree s (fitem_ptr (mem s) item)) item)
      else None)"

definition fat16_load_fat_dir :: "'a fat_state_scheme \<Rightarrow> u32 \<Rightarrow> (u32 \<times> 'a fat_state_scheme) option" where
  "fat16_load_fat_dir s item =
     (if di_attribute (mem s) item AND FAT_FILE_SUBDIRECTORY = 0 then Some (0, s)
      else
        let (dir, s1) = kzalloc s 16
        in if dir = 0 then Some (0, s1)
           else do {
             let cluster = sint (fat16_get_first_cluster (mem s1) item);
             let sector = fat16_cluster_to_sector (mem s1) (fs_private (the_disk s1)) cluster;
             (tot, s2) \<leftarrow> fat16_get_dir_items s1 (word_of_int sector);
             let s3 = poke32 s2 (dir + 4) (word_of_int tot);
             let sz = fdir_total (mem s3) dir * sizeof_fat_dir_item;
             let (items, s4) = kzalloc s3 (word_of_int sz);
             let s5 = poke32 s4 dir items;
             if fdir_item (mem s5) dir \<noteq> 0 then Some (0, fat16_free_dir s5 dir)
             else do {
               (r, s6) \<leftarrow> fat16_read_internal s5 cluster 0 sz (fdir_item (mem s5) dir);
               Some (dir, if r \<noteq> 0 then fat16_free_dir s6 dir else s6)
             }
           })"

definition fat16_new_item_for_dir :: "'a fat_state_scheme \<Rightarrow> u32 \<Rightarrow> (u32 \<times> 'a fat_state_scheme) option" where
  "fat16_new_item_for_dir s item =
     (let (f, s1) = kzalloc s 8
      in if f = 0 then Some (0, s1)
         else if di_attribute (mem s1) item AND FAT_FILE_SUBDIRECTORY \<noteq> 0 then do {
           (d, s2) \<leftarrow> fat16_load_fat_dir s1 item;
           let s3 = poke32 s2 f d;
           Some (f, poke32 s3 (f + 4) FAT_ITEM_TYPE_DIR)
         }
         else
           let s2 = poke32 s1 (f + 4) FAT_ITEM_TYPE_FILE;
               (c, s3) = fat16_clone_dir_item s2 item sizeof_fat_dir_item
           in Some (f, poke32 s3 f c))"

text \<open>The loop of \<^verbatim>\<open>fat16_find_item_in_dir\<close> over the entries; \<open>n\<close> entries are left.\<close>

primrec fat16_find_loop :: "nat \<Rightarrow> 'a fat_state_scheme \<Rightarrow> u32 \<Rightarrow> u32 \<Rightarrow> u32 \<Rightarrow> u32 \<Rightarrow> (u32 \<times> 'a fat_state_scheme) option" where
  "fat16_find_loop 0 s dir i name item = Some (item, s)"
| "fat16_find_loop (Suc n) s dir i name item =
     do {
       let entry = fdir_item (mem s) dir + 32 * i;
       let s1 = s\<lparr>mem := fat16_file_name_resolve entry (stk_name s) (word_of_int ENKI_MAX_PATH) (mem s)\<rparr>;
       if istrncmp (mem s1) (stk_name s1) name ENKI_MAX_PATH = 0 then do {
         (item', s2) \<leftarrow> fat16_new_item_for_dir s1 (fdir_item (mem s1) dir + 32 * i);
         fat16_find_loop n s2 dir (i + 1) name item'
       }
       else fat16_find_loop n s1 dir (i + 1) name item
     }"

definition fat16_find_item_in_dir :: "'a fat_state_scheme \<Rightarrow> u32 \<Rightarrow> u32 \<Rightarrow> (u32 \<times> 'a fat_state_scheme) option" where
  "fat16_find_item_in_dir s dir name = fat16_find_loop (nat (fdir_total (mem s) dir)) s dir 0 name 0"

partial_function (option) fat16_descend :: "'a fat_state_scheme \<Rightarrow> u32 \<Rightarrow> u32 \<Rightarrow> (u32 \<times> 'a fat_state_scheme) option" where
  "fat16_descend s current next_path =
     (if next_path \<noteq> 0 then
        if fitem_type (mem s) current \<noteq> FAT_ITEM_TYPE_DIR then Some (0, s)
        else Option.bind (fat16_find_item_in_dir s (fitem_ptr (mem s) current) (part (path_parts s next_path))) (\<lambda>(tmp, s1).
          Option.bind (fat16_fat_item_free s1 current) (\<lambda>s2.
            fat16_descend s2 tmp (path_next (path_parts s2 next_path))))
      else Some (current, s))"

definition fat16_get_dir_entry :: "'a fat_state_scheme \<Rightarrow> u32 \<Rightarrow> (u32 \<times> 'a fat_state_scheme) option" where
  "fat16_get_dir_entry s path =
     do {
       (root, s1) \<leftarrow> fat16_find_item_in_dir s (fp_root (fs_private (the_disk s))) (part (path_parts s path));
       if root = 0 then Some (0, s1) else fat16_descend s1 root (path_next (path_parts s1 path))
     }"

definition fat16_open :: "'a fat_state_scheme \<Rightarrow> u32 \<Rightarrow> u32 \<Rightarrow> (u32 \<times> 'a fat_state_scheme) option" where
  "fat16_open s path mode =
     (if mode \<noteq> FILE_MODE_READ then Some (word_of_int (- ERDONLY), s)
      else
        let (descriptor, s1) = kzalloc s 8
        in if descriptor = 0 then Some (word_of_int (- ENOMEM), s1)
           else do {
             (item, s2) \<leftarrow> fat16_get_dir_entry s1 path;
             let s3 = poke32 s2 descriptor item;
             if ffd_item (mem s3) descriptor = 0 then Some (word_of_int (- EIO), kfree s3 descriptor)
             else Some (descriptor, poke32 s3 (descriptor + 4) 0)
           })"

primrec fat16_read_blocks :: "nat \<Rightarrow> 'a fat_state_scheme \<Rightarrow> u32 \<Rightarrow> int \<Rightarrow> u32 \<Rightarrow> u32 \<Rightarrow> int \<Rightarrow> (int \<times> 'a fat_state_scheme) option" where
  "fat16_read_blocks 0 s item offset sz out blocks = Some (blocks, s)"
| "fat16_read_blocks (Suc n) s item offset sz out blocks =
     do {
       (r, s1) \<leftarrow> fat16_read_internal s (sint (fat16_get_first_cluster (mem s) item)) offset (sint sz) out;
       if r < 0 then Some (r, s1)
       else fat16_read_blocks n s1 item (sint (word_of_int offset + sz)) sz (out + sz) blocks
     }"

definition fat16_read :: "'a fat_state_scheme \<Rightarrow> u32 \<Rightarrow> u32 \<Rightarrow> u32 \<Rightarrow> u32 \<Rightarrow> (int \<times> 'a fat_state_scheme) option" where
  "fat16_read s desc sz blocks out =
     (let item = fitem_ptr (mem s) (ffd_item (mem s) desc);
          offset = sint (ffd_pos (mem s) desc)
      in fat16_read_blocks (unat blocks) s item offset sz out (sint blocks))"

definition fat16_free_file_descriptor :: "'a fat_state_scheme \<Rightarrow> u32 \<Rightarrow> 'a fat_state_scheme option" where
  "fat16_free_file_descriptor s desc =
     do {
       s1 \<leftarrow> fat16_fat_item_free s (ffd_item (mem s) desc);
       Some (kfree s1 desc)
     }"

definition fat16_close :: "'a fat_state_scheme \<Rightarrow> u32 \<Rightarrow> (int \<times> 'a fat_state_scheme) option" where
  "fat16_close s private =
     do {
       s1 \<leftarrow> fat16_free_file_descriptor s private;
       Some (0, s1)
     }"

definition fat16_seek :: "'a fat_state_scheme \<Rightarrow> u32 \<Rightarrow> u32 \<Rightarrow> u32 \<Rightarrow> int \<times> 'a fat_state_scheme" where
  "fat16_seek s desc offset mode =
     (let desc_item = ffd_item (mem s) desc
      in if fitem_type (mem s) desc_item \<noteq> FAT_ITEM_TYPE_FILE then (- EINVARG, s)
         else
           let item = fitem_ptr (mem s) desc_item
           in if offset \<ge> di_file_size (mem s) item then (- EIO, s)
              else if mode = SEEK_SET then (0, poke32 s (desc + 4) offset)
              else if mode = SEEK_CUR then (0, poke32 s (desc + 4) (ffd_pos (mem s) desc + offset))
              else if mode = SEEK_END then (- EUNIMP, s)
              else (- EINVARG, s))"

definition fat16_stat :: "memory \<Rightarrow> u32 \<Rightarrow> file_stat \<Rightarrow> int \<times> file_stat" where
  "fat16_stat m desc stat =
     (let desc_item = ffd_item m desc
      in if fitem_type m (ffd_item m desc) \<noteq> FAT_ITEM_TYPE_FILE then (- EINVARG, stat)
         else
           let item = fitem_ptr m desc_item;
               stat1 = stat\<lparr>file_size := di_file_size m item, stat_flags := 0x00\<rparr>
           in if di_attribute m item AND FAT_FILE_READ_ONLY \<noteq> 0
              then (0, stat1\<lparr>stat_flags := stat_flags stat1 OR FILE_STAT_READ_ONLY\<rparr>)
              else (0, stat1))"

end
