(* ===== verification/File_Model.thy ===== *)
theory File_Model
  imports Fat16_Model
begin

unbundle bit_operations_syntax

text \<open>
  \<^verbatim>\<open>kernel/fs/file.c\<close>, \<^verbatim>\<open>file.h\<close> and the initialisation of the disk in \<^verbatim>\<open>disk.c\<close>: the list of file systems, the table of
  file descriptors and the operations on open files.

  A call through a pointer of \<^verbatim>\<open>struct file_system\<close> goes to the FAT16 driver when the structure is
  \<^verbatim>\<open>fat16_fs\<close>, the only one the kernel has; for any other address there is no defined result. The mode of
  \<^verbatim>\<open>fopen\<close> is a string literal at every call and is passed as its list of characters.
\<close>

section \<open>Definitions\<close>

definition ENKI_MAX_FILE_SYSTEMS :: nat where [config_simps]: "ENKI_MAX_FILE_SYSTEMS = 12"
definition ENKI_MAX_FILE_DESCRIPTORS :: nat where [config_simps]: "ENKI_MAX_FILE_DESCRIPTORS = 512"

record file_descriptor =
  fd_index :: int
  fd_fs :: u32
  private_data :: u32
  fd_disk :: u32

record file_state = fat_state +
  file_systems :: "u32 list"
  file_descriptors :: "u32 list"
  descriptors :: "u32 \<Rightarrow> file_descriptor"

text \<open>The index of the first null entry of a table of pointers.\<close>

fun first_null :: "u32 list \<Rightarrow> nat option" where
  "first_null [] = None"
| "first_null (x # xs) = (if x = 0 then Some 0 else map_option Suc (first_null xs))"

definition fs_get_free_file_system :: "'a file_state_scheme \<Rightarrow> nat option" where
  "fs_get_free_file_system s = first_null (file_systems s)"

definition file_free_descriptor :: "'a file_state_scheme \<Rightarrow> u32 \<Rightarrow> 'a file_state_scheme" where
  "file_free_descriptor s desc =
     kfree (s\<lparr>file_descriptors := (file_descriptors s)[nat (fd_index (descriptors s desc) - 1) := 0]\<rparr>) desc"

definition file_new_descriptor :: "'a file_state_scheme \<Rightarrow> int \<times> u32 \<times> 'a file_state_scheme" where
  "file_new_descriptor s =
     (case first_null (file_descriptors s) of
        None \<Rightarrow> (- ENOMEM, 0, s)
      | Some i \<Rightarrow>
          let (desc, s1) = kzalloc s 16;
              d = \<lparr>fd_index = int i + 1, fd_fs = 0, private_data = 0, fd_disk = 0\<rparr>;
              s2 = s1\<lparr>descriptors := (descriptors s1)(desc := d)\<rparr>
          in (0, desc, s2\<lparr>file_descriptors := (file_descriptors s2)[i := desc]\<rparr>))"

definition file_get_descriptor :: "'a file_state_scheme \<Rightarrow> int \<Rightarrow> u32" where
  "file_get_descriptor s fd =
     (if fd \<le> 0 \<or> fd \<ge> int ENKI_MAX_FILE_DESCRIPTORS then 0 else file_descriptors s ! nat (fd - 1))"

definition fs_insert_file_system :: "'a file_state_scheme \<Rightarrow> u32 \<Rightarrow> 'a file_state_scheme option" where
  "fs_insert_file_system s fs =
     (case fs_get_free_file_system s of
        None \<Rightarrow> None
      | Some i \<Rightarrow> Some (s\<lparr>file_systems := (file_systems s)[i := fs]\<rparr>))"

text \<open>\<^verbatim>\<open>fat16_init\<close> also copies the name of the file system, which nothing reads.\<close>

definition fat16_init :: "'a file_state_scheme \<Rightarrow> u32" where
  "fat16_init s = fat16_fs s"

definition fs_static_load :: "'a file_state_scheme \<Rightarrow> 'a file_state_scheme option" where
  "fs_static_load s = fs_insert_file_system s (fat16_init s)"

definition fs_load :: "'a file_state_scheme \<Rightarrow> 'a file_state_scheme option" where
  "fs_load s = fs_static_load (s\<lparr>file_systems := replicate ENKI_MAX_FILE_SYSTEMS 0\<rparr>)"

definition fs_init :: "'a file_state_scheme \<Rightarrow> 'a file_state_scheme option" where
  "fs_init s = fs_load (s\<lparr>file_descriptors := replicate ENKI_MAX_FILE_DESCRIPTORS 0\<rparr>)"

fun fs_resolve_loop :: "'a file_state_scheme \<Rightarrow> u32 list \<Rightarrow> (u32 \<times> 'a file_state_scheme) option" where
  "fs_resolve_loop s [] = Some (0, s)"
| "fs_resolve_loop s (fs # rest) =
     (if fs \<noteq> 0 then
        if fs \<noteq> fat16_fs s then None
        else do {
          (r, s1) \<leftarrow> fat16_resolve s;
          if r = 0 then Some (fs, s1) else fs_resolve_loop s1 rest
        }
      else fs_resolve_loop s rest)"

definition fs_resolve :: "'a file_state_scheme \<Rightarrow> (u32 \<times> 'a file_state_scheme) option" where
  "fs_resolve s = fs_resolve_loop s (file_systems s)"

definition disk_search_and_init :: "'a file_state_scheme \<Rightarrow> 'a file_state_scheme option" where
  "disk_search_and_init s =
     (let s1 = s\<lparr>the_disk := \<lparr>disk_type = ENKI_DISK_TYPE_REAL, sector_size = ENKI_SECTOR_SIZE, disk_id = 0, disk_fs = 0, fs_private = 0\<rparr>\<rparr>
      in do {
        (fs, s2) \<leftarrow> fs_resolve s1;
        Some (s2\<lparr>the_disk := (the_disk s2)\<lparr>disk_fs := fs\<rparr>\<rparr>)
      })"

text \<open>\<^verbatim>\<open>strncmp(s, "r", 1) == 0\<close> compares the first characters, the terminator of an empty string included.\<close>

definition file_get_mode_from_str :: "u8 list \<Rightarrow> u32" where
  "file_get_mode_from_str str =
     (let c = (case str of [] \<Rightarrow> 0 | x # _ \<Rightarrow> x)
      in if c = 0x72 then FILE_MODE_READ
         else if c = 0x77 then FILE_MODE_WRITE
         else if c = 0x61 then FILE_MODE_APPEND
         else FILE_MODE_INVALID)"

text \<open>
  The test \<^verbatim>\<open>desc_private < 0\<close> compares a pointer, an unsigned value, with 0 and is never true, so it is
  not a branch here: an error code that the driver returned as a pointer is stored as private data.
\<close>

definition fopen :: "'a file_state_scheme \<Rightarrow> u32 \<Rightarrow> u8 list \<Rightarrow> (int \<times> 'a file_state_scheme) option" where
  "fopen s file_name mode =
     do {
       (root, s1) \<leftarrow> path_parse s file_name;
       if root = 0 \<or> path_first (path_roots s1 root) = 0 then Some (- EINVARG, s1)
       else
         let d = disk_get s1 (drive_no (path_roots s1 root))
         in if d = 0 \<or> disk_fs (the_disk s1) = 0 then Some (- EIO, s1)
            else
              let fmode = file_get_mode_from_str mode
              in if fmode = FILE_MODE_INVALID then Some (- EINVARG, s1)
                 else if disk_fs (the_disk s1) \<noteq> fat16_fs s1 then None
                 else do {
                   (desc_private, s2) \<leftarrow> fat16_open s1 (path_first (path_roots s1 root)) fmode;
                   let (r, desc, s3) = file_new_descriptor s2;
                   if r < 0 then Some (0, s3)
                   else
                     let old = descriptors s3 desc;
                         new = old\<lparr>fd_fs := disk_fs (the_disk s3), private_data := desc_private, fd_disk := d\<rparr>
                     in Some (fd_index new, s3\<lparr>descriptors := (descriptors s3)(desc := new)\<rparr>)
                 }
     }"

definition fread :: "'a file_state_scheme \<Rightarrow> u32 \<Rightarrow> u32 \<Rightarrow> u32 \<Rightarrow> int \<Rightarrow> (int \<times> 'a file_state_scheme) option" where
  "fread s buf sz blocks fd =
     (if sz = 0 \<or> blocks = 0 \<or> fd < 1 then Some (- EINVARG, s)
      else
        let desc = file_get_descriptor s fd
        in if desc = 0 then Some (- EINVARG, s)
           else if fd_fs (descriptors s desc) \<noteq> fat16_fs s then None
           else fat16_read s (private_data (descriptors s desc)) sz blocks buf)"

definition fclose :: "'a file_state_scheme \<Rightarrow> int \<Rightarrow> (int \<times> 'a file_state_scheme) option" where
  "fclose s fd =
     (let desc = file_get_descriptor s fd
      in if desc = 0 then Some (- EIO, s)
         else if fd_fs (descriptors s desc) \<noteq> fat16_fs s then None
         else do {
           (r, s1) \<leftarrow> fat16_close s (private_data (descriptors s desc));
           Some (0, if r = 0 then file_free_descriptor s1 desc else s1)
         })"

definition fseek :: "'a file_state_scheme \<Rightarrow> int \<Rightarrow> int \<Rightarrow> u32 \<Rightarrow> (int \<times> 'a file_state_scheme) option" where
  "fseek s fd offset mode =
     (let desc = file_get_descriptor s fd
      in if desc = 0 then Some (- EIO, s)
         else if fd_fs (descriptors s desc) \<noteq> fat16_fs s then None
         else Some (fat16_seek s (private_data (descriptors s desc)) (word_of_int offset) mode))"

definition fstat :: "'a file_state_scheme \<Rightarrow> int \<Rightarrow> file_stat \<Rightarrow> (int \<times> file_stat) option" where
  "fstat s fd stat =
     (let desc = file_get_descriptor s fd
      in if desc = 0 then Some (- EIO, stat)
         else if fd_fs (descriptors s desc) \<noteq> fat16_fs s then None
         else Some (fat16_stat (mem s) (private_data (descriptors s desc)) stat))"

end
