(* ===== verification/Elf_Model.thy ===== *)
theory Elf_Model
  imports File_Model
begin

unbundle bit_operations_syntax

text \<open>
  \<^verbatim>\<open>kernel/elf/elf.h\<close>, \<^verbatim>\<open>elf.c\<close> and \<^verbatim>\<open>elf_loader.c\<close>: validation and loading of 32-bit ELF executables. The file image is
  in the byte memory and its headers are read there, at the offsets of the packed structures;
  \<^verbatim>\<open>struct elf_file\<close> is a record in a store indexed by its address (the fields \<^verbatim>\<open>file_name\<close> and \<^verbatim>\<open>in_mem_size\<close> are never
  used).
\<close>

section \<open>Definitions\<close>

definition PF_W :: u32 where [config_simps]: "PF_W = 2"
definition PT_LOAD :: u32 where [config_simps]: "PT_LOAD = 1"
definition ET_EXEC :: u16 where [config_simps]: "ET_EXEC = 2"
definition EI_CLASS :: u32 where [config_simps]: "EI_CLASS = 4"
definition EI_DATA :: u32 where [config_simps]: "EI_DATA = 5"
definition ELFCLASSNONE :: u8 where [config_simps]: "ELFCLASSNONE = 0"
definition ELFCLASS32 :: u8 where [config_simps]: "ELFCLASS32 = 1"
definition ELFDATANONE :: u8 where [config_simps]: "ELFDATANONE = 0"
definition ELFDATA2LSB :: u8 where [config_simps]: "ELFDATA2LSB = 1"
definition ENKI_PGM_VIRT_ADDR :: u32 where [config_simps]: "ENKI_PGM_VIRT_ADDR = 0x400000"

text \<open>\<^verbatim>\<open>struct elf_header\<close>: 52 bytes.\<close>

definition e_type :: "memory \<Rightarrow> u32 \<Rightarrow> u16" where "e_type m h = load16 m (h + 16)"
definition e_entry :: "memory \<Rightarrow> u32 \<Rightarrow> u32" where "e_entry m h = load32 m (h + 24)"
definition e_phoff :: "memory \<Rightarrow> u32 \<Rightarrow> u32" where "e_phoff m h = load32 m (h + 28)"
definition e_shoff :: "memory \<Rightarrow> u32 \<Rightarrow> u32" where "e_shoff m h = load32 m (h + 32)"
definition e_phnum :: "memory \<Rightarrow> u32 \<Rightarrow> u16" where "e_phnum m h = load16 m (h + 44)"
definition e_shstrndx :: "memory \<Rightarrow> u32 \<Rightarrow> u16" where "e_shstrndx m h = load16 m (h + 50)"

text \<open>\<^verbatim>\<open>struct elf32_phdr\<close>: 32 bytes; of \<^verbatim>\<open>struct elf32_shdr\<close> (40 bytes) only the offset is read.\<close>

definition p_type :: "memory \<Rightarrow> u32 \<Rightarrow> u32" where "p_type m p = load32 m p"
definition p_offset :: "memory \<Rightarrow> u32 \<Rightarrow> u32" where "p_offset m p = load32 m (p + 4)"
definition p_vaddr :: "memory \<Rightarrow> u32 \<Rightarrow> u32" where "p_vaddr m p = load32 m (p + 8)"
definition p_filesz :: "memory \<Rightarrow> u32 \<Rightarrow> u32" where "p_filesz m p = load32 m (p + 16)"
definition p_memsz :: "memory \<Rightarrow> u32 \<Rightarrow> u32" where "p_memsz m p = load32 m (p + 20)"
definition p_flags :: "memory \<Rightarrow> u32 \<Rightarrow> u32" where "p_flags m p = load32 m (p + 24)"
definition sh_offset :: "memory \<Rightarrow> u32 \<Rightarrow> u32" where "sh_offset m p = load32 m (p + 16)"

record elf_file =
  elf_mem :: u32
  virt_base_addr :: u32
  virt_end_addr :: u32
  phys_base_addr :: u32
  phys_end_addr :: u32

record elf_state = file_state +
  elf_files :: "u32 \<Rightarrow> elf_file"

definition elf_get_entry_ptr :: "memory \<Rightarrow> u32 \<Rightarrow> u32" where
  "elf_get_entry_ptr m header = e_entry m header"

definition elf_get_entry :: "memory \<Rightarrow> u32 \<Rightarrow> u32" where
  "elf_get_entry m header = e_entry m header"

text \<open>\<^verbatim>\<open>memcmp\<close> with the four bytes of \<^verbatim>\<open>elf_magic\<close> is 0 exactly when the bytes are equal.\<close>

definition elf_valid_signature :: "memory \<Rightarrow> u32 \<Rightarrow> bool" where
  "elf_valid_signature m buf \<longleftrightarrow> m buf = 0x7F \<and> m (buf + 1) = 0x45 \<and> m (buf + 2) = 0x4C \<and> m (buf + 3) = 0x46"

definition elf_valid_class :: "memory \<Rightarrow> u32 \<Rightarrow> bool" where
  "elf_valid_class m header \<longleftrightarrow> m (header + EI_CLASS) = ELFCLASSNONE \<or> m (header + EI_CLASS) = ELFCLASS32"

definition elf_valid_encoding :: "memory \<Rightarrow> u32 \<Rightarrow> bool" where
  "elf_valid_encoding m header \<longleftrightarrow> m (header + EI_DATA) = ELFDATANONE \<or> m (header + EI_DATA) = ELFDATA2LSB"

definition elf_is_executable :: "memory \<Rightarrow> u32 \<Rightarrow> bool" where
  "elf_is_executable m header \<longleftrightarrow> e_type m header = ET_EXEC \<and> e_entry m header \<ge> ENKI_PGM_VIRT_ADDR"

definition elf_has_program_header :: "memory \<Rightarrow> u32 \<Rightarrow> bool" where
  "elf_has_program_header m header \<longleftrightarrow> e_phoff m header \<noteq> 0"

definition elf_memory :: "'a elf_state_scheme \<Rightarrow> u32 \<Rightarrow> u32" where
  "elf_memory s file = elf_mem (elf_files s file)"

definition elf_header :: "'a elf_state_scheme \<Rightarrow> u32 \<Rightarrow> u32" where
  "elf_header s file = elf_mem (elf_files s file)"

definition elf_sheader :: "memory \<Rightarrow> u32 \<Rightarrow> u32" where
  "elf_sheader m header = header + e_shoff m header"

definition elf_pheader :: "memory \<Rightarrow> u32 \<Rightarrow> u32" where
  "elf_pheader m header = (if e_phoff m header = 0 then 0 else header + e_phoff m header)"

definition elf_program_header :: "memory \<Rightarrow> u32 \<Rightarrow> u32 \<Rightarrow> u32" where
  "elf_program_header m header idx = elf_pheader m header + 32 * idx"

definition elf_section_header :: "memory \<Rightarrow> u32 \<Rightarrow> u32 \<Rightarrow> u32" where
  "elf_section_header m header idx = elf_sheader m header + 40 * idx"

definition elf_str_table :: "memory \<Rightarrow> u32 \<Rightarrow> u32" where
  "elf_str_table m header = header + sh_offset m (elf_section_header m header (ucast (e_shstrndx m header)))"

definition elf_phdr_phys_addr :: "'a elf_state_scheme \<Rightarrow> u32 \<Rightarrow> u32 \<Rightarrow> u32" where
  "elf_phdr_phys_addr s ef phdr = elf_memory s ef + p_offset (mem s) phdr"

definition elf_validate_loaded :: "memory \<Rightarrow> u32 \<Rightarrow> int" where
  "elf_validate_loaded m header =
     (if elf_valid_signature m header \<and> elf_valid_class m header \<and> elf_valid_encoding m header \<and> elf_has_program_header m header
      then 0 else - EINVFMT)"

definition elf_process_phdr_pt_load :: "memory \<Rightarrow> elf_file \<Rightarrow> u32 \<Rightarrow> elf_file" where
  "elf_process_phdr_pt_load m ef phdr =
     (let ef1 = (if virt_base_addr ef \<ge> p_vaddr m phdr \<or> virt_base_addr ef = 0
                 then ef\<lparr>virt_base_addr := p_vaddr m phdr, phys_base_addr := elf_mem ef + p_offset m phdr\<rparr> else ef);
          end_virt_addr = p_vaddr m phdr + p_filesz m phdr
      in if virt_end_addr ef1 \<le> end_virt_addr \<or> virt_end_addr ef1 = 0
         then ef1\<lparr>virt_end_addr := end_virt_addr, phys_end_addr := elf_mem ef1 + p_offset m phdr + p_filesz m phdr\<rparr>
         else ef1)"

text \<open>Both functions always return 0, so the loop over the program headers never breaks.\<close>

definition elf_process_pheader :: "memory \<Rightarrow> elf_file \<Rightarrow> u32 \<Rightarrow> elf_file" where
  "elf_process_pheader m ef phdr = (if p_type m phdr = PT_LOAD then elf_process_phdr_pt_load m ef phdr else ef)"

definition elf_process_pheaders :: "memory \<Rightarrow> elf_file \<Rightarrow> elf_file" where
  "elf_process_pheaders m ef =
     foldl (\<lambda>ef i. elf_process_pheader m ef (elf_program_header m (elf_mem ef) (of_nat i))) ef [0..<unat (e_phnum m (elf_mem ef))]"

definition elf_process_loaded :: "'a elf_state_scheme \<Rightarrow> u32 \<Rightarrow> int \<times> 'a elf_state_scheme" where
  "elf_process_loaded s ef =
     (let header = elf_header s ef;
          r = elf_validate_loaded (mem s) header
      in if r < 0 then (r, s)
         else (0, s\<lparr>elf_files := (elf_files s)(ef := elf_process_pheaders (mem s) (elf_files s ef))\<rparr>))"

text \<open>
  \<^verbatim>\<open>elf_load\<close> returns the address of the new \<^verbatim>\<open>struct elf_file\<close> as its out-parameter, with 0 standing for an
  out-parameter that is left alone. The first \<^verbatim>\<open>fclose\<close> is called with \<^verbatim>\<open>fd\<close> still 0.
\<close>

definition elf_load :: "'a elf_state_scheme \<Rightarrow> u32 \<Rightarrow> (int \<times> u32 \<times> 'a elf_state_scheme) option" where
  "elf_load s file_name =
     (let (ef, s1) = kzalloc s 132;
          s2 = s1\<lparr>elf_files := (elf_files s1)(ef :=
                 \<lparr>elf_mem = 0, virt_base_addr = 0, virt_end_addr = 0, phys_base_addr = 0, phys_end_addr = 0\<rparr>)\<rparr>
      in do {
        (fd, s3) \<leftarrow> fopen s2 file_name [0x72];
        if fd \<le> 0 then do {
          (_, s4) \<leftarrow> fclose s3 0;
          Some (- EIO, 0, s4)
        }
        else do {
          (r, stat) \<leftarrow> fstat s3 fd \<lparr>stat_flags = 0, file_size = 0\<rparr>;
          if r < 0 then do {
            (_, s4) \<leftarrow> fclose s3 fd;
            Some (r, 0, s4)
          }
          else do {
            let (image, s4) = kzalloc s3 (file_size stat);
            let s5 = s4\<lparr>elf_files := (elf_files s4)(ef := (elf_files s4 ef)\<lparr>elf_mem := image\<rparr>)\<rparr>;
            (r', s6) \<leftarrow> fread s5 (elf_mem (elf_files s5 ef)) (file_size stat) 1 fd;
            if r' < 0 then do {
              (_, s7) \<leftarrow> fclose s6 fd;
              Some (r', 0, s7)
            }
            else do {
              let (r'', s7) = elf_process_loaded s6 ef;
              if r'' < 0 then do {
                (_, s8) \<leftarrow> fclose s7 fd;
                Some (r'', 0, s8)
              }
              else Some (r'', ef, s7)
            }
          }
        }
      })"

definition elf_close :: "'a elf_state_scheme \<Rightarrow> u32 \<Rightarrow> 'a elf_state_scheme" where
  "elf_close s ef = (if ef \<noteq> 0 then kfree (kfree s (elf_mem (elf_files s ef))) ef else s)"

end
