(* ===== verification/Fat16_Proofs.thy ===== *)
theory Fat16_Proofs
  imports File_Model
begin

unbundle bit_operations_syntax

text \<open>
  Reading files: \<^verbatim>\<open>fread\<close> delivers the bytes of the clusters that the file allocation table chains together.

  The disk is the drive of \<open>Disk_Proofs\<close> with an image. \<open>mounted\<close> says that the private data of the driver is
  in memory and describes the volume, as \<^verbatim>\<open>fat16_resolve\<close> leaves it.
\<close>

section \<open>The volume\<close>

record volume =
  v_img :: "nat \<Rightarrow> u8"
  v_sectors :: nat
  v_reserved :: nat
  v_spc :: nat
  v_data :: nat
  v_fat_read :: u32
  v_cluster_read :: u32

definition priv_bytes :: "u32 \<Rightarrow> u32 set" where
  "priv_bytes p = {a. unat (a - p) < 92}"

text \<open>The part of the private data that reading uses.\<close>

definition priv_ok :: "memory \<Rightarrow> u32 \<Rightarrow> volume \<Rightarrow> bool" where
  "priv_ok m p v \<longleftrightarrow> uint (hd_sect_per_cluster m p) = int (v_spc v) \<and> uint (hd_reserved_sectors m p) = int (v_reserved v) \<and>
     fdir_sector_end m (fp_root p) = int (v_data v) \<and> fp_fat_read m p = v_fat_read v \<and> fp_cluster_read m p = v_cluster_read v"

definition mounted :: "'a fat_state_scheme \<Rightarrow> volume \<Rightarrow> bool" where
  "mounted s v \<longleftrightarrow> ata_drive (bus s) (v_img v) (v_sectors v) \<and> v_sectors v < 2 ^ 22 \<and> sector_size (the_disk s) = 512 \<and>
     0 < v_spc v \<and> priv_ok (mem s) (fs_private (the_disk s)) v \<and> v_fat_read v \<noteq> 0 \<and> v_fat_read v \<noteq> v_cluster_read v \<and>
     stream_disk (disk_streams s (v_fat_read v)) = disk_addr s \<and> stream_disk (disk_streams s (v_cluster_read v)) = disk_addr s \<and>
     stk_entry s \<notin> priv_bytes (fs_private (the_disk s)) \<and> stk_entry s + 1 \<notin> priv_bytes (fs_private (the_disk s))"

lemma priv_ok_cong:
  assumes "\<And>a. a \<in> priv_bytes p \<Longrightarrow> m' a = m a"
  shows "priv_ok m' p v = priv_ok m p v"
proof -
  have in_priv: "p + k \<in> priv_bytes p" if "unat k < 92" for k using that by (simp add: priv_bytes_def)
  have "m' (p + k) = m (p + k)" if "unat k < 92" for k using assms in_priv [OF that] .
  then show ?thesis
    by (simp add: priv_ok_def hd_sect_per_cluster_def hd_reserved_sectors_def fdir_sector_end_def fp_root_def fp_fat_read_def
        fp_cluster_read_def load16_def load32_def add.assoc)
qed

text \<open>What a read may change: the bytes in a set of addresses, the streams and the port trace.\<close>

definition read_step :: "'a fat_state_scheme \<Rightarrow> 'a fat_state_scheme \<Rightarrow> u32 set \<Rightarrow> bool" where
  "read_step s s' A \<longleftrightarrow> (\<exists>m t ds. s' = s\<lparr>mem := m, io_trace := t, disk_streams := ds\<rparr> \<and>
     (\<forall>st. stream_disk (ds st) = stream_disk (disk_streams s st)) \<and> (\<forall>a. a \<notin> A \<longrightarrow> m a = mem s a))"

lemma read_stepI:
  assumes "s' = s\<lparr>mem := m, io_trace := t, disk_streams := ds\<rparr>" "\<And>st. stream_disk (ds st) = stream_disk (disk_streams s st)"
    and "\<And>a. a \<notin> A \<Longrightarrow> m a = mem s a"
  shows "read_step s s' A"
  unfolding read_step_def using assms by (intro exI conjI) auto

lemma read_step_refl: "read_step s s A"
  by (rule read_stepI [where m = "mem s" and t = "io_trace s" and ds = "disk_streams s"]) simp_all

lemma read_step_fields:
  assumes "read_step s s' A"
  shows "bus s' = bus s" "the_disk s' = the_disk s" "disk_addr s' = disk_addr s" "stk_entry s' = stk_entry s"
    "stream_disk (disk_streams s' st) = stream_disk (disk_streams s st)" "a \<notin> A \<Longrightarrow> mem s' a = mem s a"
  using assms by (auto simp: read_step_def)

lemma read_step_trans:
  assumes "read_step s s1 A" "read_step s1 s2 A"
  shows "read_step s s2 A"
proof -
  obtain m t ds where 1: "s1 = s\<lparr>mem := m, io_trace := t, disk_streams := ds\<rparr>"
    "\<forall>st. stream_disk (ds st) = stream_disk (disk_streams s st)" "\<forall>a. a \<notin> A \<longrightarrow> m a = mem s a"
    using assms(1) unfolding read_step_def by blast
  obtain m' t' ds' where 2: "s2 = s1\<lparr>mem := m', io_trace := t', disk_streams := ds'\<rparr>"
    "\<forall>st. stream_disk (ds' st) = stream_disk (disk_streams s1 st)" "\<forall>a. a \<notin> A \<longrightarrow> m' a = mem s1 a"
    using assms(2) unfolding read_step_def by blast
  have "s2 = s\<lparr>mem := m', io_trace := t', disk_streams := ds'\<rparr>" using 1(1) 2(1) by simp
  moreover have "\<forall>st. stream_disk (ds' st) = stream_disk (disk_streams s st)" using 1 2 by simp
  moreover have "\<forall>a. a \<notin> A \<longrightarrow> m' a = mem s a" using 1 2 by simp
  ultimately show ?thesis unfolding read_step_def by blast
qed

lemma read_step_mono: "read_step s s' A \<Longrightarrow> A \<subseteq> B \<Longrightarrow> read_step s s' B"
  unfolding read_step_def by blast

abbreviation seek_to :: "'a fat_state_scheme \<Rightarrow> u32 \<Rightarrow> int \<Rightarrow> 'a fat_state_scheme" where
  "seek_to s st p \<equiv> s\<lparr>disk_streams := (disk_streams s)(st := (disk_streams s st)\<lparr>stream_pos := p\<rparr>)\<rparr>"

lemma read_step_seek: "read_step s (seek_to s st p) A"
  by (rule read_stepI [where m = "mem s" and t = "io_trace s"
        and ds = "(disk_streams s)(st := (disk_streams s st)\<lparr>stream_pos := p\<rparr>)"]) simp_all

lemma mounted_step:
  assumes "mounted s v" "read_step s s' A" "A \<inter> priv_bytes (fs_private (the_disk s)) = {}"
  shows "mounted s' v"
proof -
  have "mem s' a = mem s a" if "a \<in> priv_bytes (fs_private (the_disk s))" for a
    using read_step_fields(6) [OF assms(2)] assms(3) that by blast
  then have "priv_ok (mem s') (fs_private (the_disk s)) v = priv_ok (mem s) (fs_private (the_disk s)) v" by (rule priv_ok_cong)
  then show ?thesis using assms(1) by (simp add: mounted_def read_step_fields [OF assms(2)])
qed

text \<open>A read from a stream at a known position.\<close>

lemma stream_read:
  assumes "ata_drive (bus s) img n" "n < 2 ^ 22" "stream_disk (disk_streams s st) = disk_addr s"
    and "stream_pos (disk_streams s st) = int p" "p + t < 512 * n"
  shows "\<exists>s'. disk_stream_read s st out (int t) = Some (0, s') \<and> read_step s s' {a. unat (a - out) < t} \<and>
    (\<forall>j<t. mem s' (out + of_nat j) = img (p + j))"
proof -
  obtain tr m where run: "disk_stream_read s st out (int t) = Some (0, stream_advance s st m tr (p + t))"
    and m: "\<And>a. m a = (if unat (a - out) < t then img (p + unat (a - out)) else mem s a)"
    using disk_stream_read_effect [OF assms(1,3,4,5,2), of out] by blast
  have "read_step s (stream_advance s st m tr (p + t)) {a. unat (a - out) < t}"
    by (rule read_stepI [where m = m and t = tr and ds = "(disk_streams s)(st := (disk_streams s st)\<lparr>stream_pos := int (p + t)\<rparr>)"])
      (simp_all add: stream_advance_def m)
  moreover have "m (out + of_nat j) = img (p + j)" if "j < t" for j
  proof -
    have "unat (of_nat j :: u32) = j" using that assms(2,5) by (intro unat_of_nat_u32) simp
    then show ?thesis using m [of "out + of_nat j"] that by simp
  qed
  ultimately show ?thesis using run by (auto simp: stream_advance_def)
qed

section \<open>The chain of clusters\<close>

definition fat_entry :: "volume \<Rightarrow> nat \<Rightarrow> nat" where
  "fat_entry v c = (let p = 512 * v_reserved v + 2 * c
     in unat (ucast (v_img v p) OR push_bit 8 (ucast (v_img v (p + 1))) :: u16))"

abbreviation entry_bytes :: "'a fat_state_scheme \<Rightarrow> u32 set" where
  "entry_bytes s \<equiv> {stk_entry s, stk_entry s + 1}"

lemma fat16_get_fat_entry_value:
  assumes v: "mounted s v" and c: "512 * v_reserved v + 2 * c + 2 < 512 * v_sectors v"
  shows "\<exists>s'. fat16_get_fat_entry s (int c) = Some (int (fat_entry v c), s') \<and> read_step s s' (entry_bytes s)"
proof -
  let ?p = "512 * v_reserved v + 2 * c" and ?st = "v_fat_read v" and ?e = "stk_entry s"
  let ?s1 = "seek_to s ?st (int ?p)"
  let ?s2 = "?s1\<lparr>mem := store16 (mem ?s1) (stk_entry ?s1) 0\<rparr>"
  note v' = v [unfolded mounted_def priv_ok_def]
  have pos: "sint (fat16_get_first_fat_sector (mem s) (fs_private (the_disk s)) * word_of_int (sector_size (the_disk s)) +
      word_of_int (int c * ENKI_FAT16_ENTRY_SIZE)) = int ?p"
  proof -
    have "fat16_get_first_fat_sector (mem s) (fs_private (the_disk s)) = word_of_int (int (v_reserved v))"
      using v' by (metis fat16_get_first_fat_sector_def ucast_eq)
    then have "fat16_get_first_fat_sector (mem s) (fs_private (the_disk s)) * word_of_int (sector_size (the_disk s)) +
        word_of_int (int c * ENKI_FAT16_ENTRY_SIZE) = (word_of_int (int ?p) :: u32)"
      using v' by (simp add: config_simps mult.commute)
    moreover have "sint (of_nat ?p :: u32) = int ?p" using v' c by (intro sint_of_nat_u32) simp
    ultimately show ?thesis by simp
  qed
  have s2: "bus ?s2 = bus s" "disk_addr ?s2 = disk_addr s" "stk_entry ?s2 = ?e" "stream_pos (disk_streams ?s2 ?st) = int ?p"
    "stream_disk (disk_streams ?s2 ?st) = disk_addr ?s2"
    using v' by (simp_all add: disk_stream_seek_def)
  have "read_step s ?s2 (entry_bytes s)"
    by (rule read_step_trans [OF read_step_seek [of s ?st "int ?p"]], rule read_stepI [where
          m = "store16 (mem ?s1) (stk_entry ?s1) 0" and t = "io_trace ?s1" and ds = "disk_streams ?s1"])
      (simp_all add: store16_def disk_stream_seek_def)
  moreover obtain s3 where s3: "disk_stream_read ?s2 ?st ?e (int 2) = Some (0, s3)" "read_step ?s2 s3 {a. unat (a - ?e) < 2}"
    "\<And>j. j < 2 \<Longrightarrow> mem s3 (?e + of_nat j) = v_img v (?p + j)"
    using stream_read [of ?s2 "v_img v" "v_sectors v" ?st ?p 2 ?e] s2 v' c by auto
  moreover have "{a. unat (a - ?e) < 2} \<subseteq> entry_bytes s"
  proof
    fix a assume "a \<in> {a. unat (a - ?e) < 2}"
    then have "unat (a - ?e) = 0 \<or> unat (a - ?e) = 1" by auto
    then have "a - ?e = 0 \<or> a - ?e = 1" by (metis unat_1 unsigned_0 word_unat_eq_iff)
    then show "a \<in> entry_bytes s" by (auto simp: algebra_simps)
  qed
  ultimately have step: "read_step s s3 (entry_bytes s)" by (blast intro: read_step_trans read_step_mono)
  have "load16 (mem s3) ?e = ucast (v_img v ?p) OR push_bit 8 (ucast (v_img v (?p + 1)))"
    using s3(3) [of 0] s3(3) [of 1] by (simp add: load16_def)
  then have "unat (load16 (mem s3) (stk_entry s3)) = fat_entry v c"
    using read_step_fields(4) [OF step] by (simp only: fat_entry_def Let_def)
  then have "uint (load16 (mem s3) (stk_entry s3)) = int (fat_entry v c)" by (metis uint_nat)
  moreover have "fat16_get_fat_entry s (int c) = Some (uint (load16 (mem s3) (stk_entry s3)), s3)"
  proof -
    have st: "fp_fat_read (mem s) (fs_private (the_disk s)) = ?st" "?st \<noteq> 0" using v' by simp_all
    have seek: "disk_stream_seek s ?st (int ?p) = (0, ?s1)" by (simp add: disk_stream_seek_def)
    show ?thesis
      unfolding fat16_get_fat_entry_def Let_def st(1) pos seek prod.case s2(3) s3(1) [simplified] using st(2) s3(1) s2(3) by simp
  qed
  ultimately show ?thesis using step by auto
qed

text \<open>
  A list of clusters chained by the table. Each lies on the disk, and none but the first may have one of the
  numbers that the driver takes for an end mark.
\<close>

definition chain_stop :: "nat set" where
  "chain_stop = {0x00, 0xFF0, 0xFF6, 0xFF7, 0xFF8, 0xFFF}"

definition cluster_chain :: "volume \<Rightarrow> nat list \<Rightarrow> bool" where
  "cluster_chain v cl \<longleftrightarrow>
     (\<forall>c\<in>set cl. 2 \<le> c \<and> 512 * v_reserved v + 2 * c + 2 < 512 * v_sectors v \<and> v_data v + (c - 1) * v_spc v < v_sectors v) \<and>
     (\<forall>i. Suc i < length cl \<longrightarrow> fat_entry v (cl ! i) = cl ! Suc i \<and> cl ! Suc i \<notin> chain_stop)"

lemma mounted_entry_step: "mounted s v \<Longrightarrow> read_step s s' (entry_bytes s) \<Longrightarrow> mounted s' v"
  by (rule mounted_step) (auto simp: mounted_def)

lemma mounted_read:
  assumes "mounted s v" "read_step s s' (entry_bytes s \<union> A)" "A \<inter> priv_bytes (fs_private (the_disk s)) = {}"
  shows "mounted s' v"
proof -
  have "entry_bytes s \<inter> priv_bytes (fs_private (the_disk s)) = {}" using assms(1) by (auto simp: mounted_def)
  then show ?thesis using mounted_step [OF assms(1,2)] assms(3) by blast
qed

lemma fat16_follow_chain:
  assumes "cluster_chain v cl"
  shows "mounted s v \<Longrightarrow> i + k < length cl \<Longrightarrow>
    \<exists>s'. fat16_follow k s (int (cl ! i)) = Some (int (cl ! (i + k)), s') \<and> read_step s s' (entry_bytes s)"
proof (induction k arbitrary: s i)
  case 0
  then show ?case using read_step_refl by auto
next
  case (Suc k)
  have c: "512 * v_reserved v + 2 * cl ! i + 2 < 512 * v_sectors v"
    using assms Suc.prems(2) by (simp add: cluster_chain_def)
  obtain s1 where s1: "fat16_get_fat_entry s (int (cl ! i)) = Some (int (fat_entry v (cl ! i)), s1)" "read_step s s1 (entry_bytes s)"
    using fat16_get_fat_entry_value [OF Suc.prems(1) c] by blast
  have e: "fat_entry v (cl ! i) = cl ! Suc i" "cl ! Suc i \<notin> chain_stop"
    using assms Suc.prems(2) by (simp_all add: cluster_chain_def)
  then have "int (cl ! Suc i) \<notin> {0x00, 0xFF0, 0xFF6, 0xFF7, 0xFF8, 0xFFF}" by (auto simp: chain_stop_def)
  then have run: "fat16_follow (Suc k) s (int (cl ! i)) = fat16_follow k s1 (int (cl ! Suc i))"
    using s1(1) e(1) by simp
  obtain s' where "fat16_follow k s1 (int (cl ! Suc i)) = Some (int (cl ! (Suc i + k)), s')" "read_step s1 s' (entry_bytes s1)"
    using Suc.IH [OF mounted_entry_step [OF Suc.prems(1) s1(2)], of "Suc i"] Suc.prems(2) by auto
  then show ?case using run read_step_trans [OF s1(2)] read_step_fields(4) [OF s1(2)] by auto
qed

section \<open>Reading along the chain\<close>

text \<open>Byte \<open>j\<close> of the file whose clusters are \<open>cl\<close>.\<close>

definition file_byte :: "volume \<Rightarrow> nat list \<Rightarrow> nat \<Rightarrow> u8" where
  "file_byte v cl j = (let csize = 512 * v_spc v
     in v_img v (512 * (v_data v + (cl ! (j div csize) - 2) * v_spc v) + j mod csize))"

text \<open>
  A read is delivered correctly when it starts at the start of a cluster or stays inside one; \<^verbatim>\<open>to_read\<close> does not
  take the offset inside the cluster into account.
\<close>

definition read_fits :: "volume \<Rightarrow> nat \<Rightarrow> nat \<Rightarrow> bool" where
  "read_fits v p t \<longleftrightarrow> p mod (512 * v_spc v) = 0 \<or> p mod (512 * v_spc v) + t \<le> 512 * v_spc v"

abbreviation out_bytes :: "u32 \<Rightarrow> nat \<Rightarrow> u32 set" where
  "out_bytes out t \<equiv> {a. unat (a - out) < t}"

lemma within_block:
  fixes p k j :: nat
  assumes "p mod k + j < k"
  shows "(p + j) div k = p div k" "(p + j) mod k = p mod k + j"
proof -
  have p: "p + j = (p mod k + j) + k * (p div k)" by simp
  show "(p + j) div k = p div k"
  proof (rule div_nat_eqI)
    show "k * (p div k) \<le> p + j" using p by linarith
    show "p + j < k * Suc (p div k)" using p assms unfolding mult_Suc_right by linarith
  qed
  then have "k * ((p + j) div k) = k * (p div k)" by simp
  then show "(p + j) mod k = p mod k + j" using p mult_div_mod_eq [of k "p + j"] by linarith
qed

lemma fat16_read_internal_stream_step:
  assumes "uint (hd_sect_per_cluster (mem s) (fs_private (the_disk s))) * sector_size (the_disk s) = csize"
    and "fat16_get_cluster_offset s cluster p = Some (c, s1)" "\<not> c < 0" "the_disk s1 = the_disk s"
    and "i32 (i32 (fat16_cluster_to_sector (mem s1) (fs_private (the_disk s)) c * sector_size (the_disk s)) + c_mod p csize) = q"
    and "r = (if tot > csize then csize else tot)" "disk_stream_read (seek_to s1 st q) st out r = Some (0, s3)"
  shows "fat16_read_internal_stream s st cluster p tot out =
    (if tot - r > 0 then fat16_read_internal_stream s3 st cluster (i32 (p + r)) (tot - r) (out + word_of_int r) else Some (0, s3))"
proof -
  have seek: "disk_stream_seek s1 st q = (0, seek_to s1 st q)" by (simp add: disk_stream_seek_def)
  show ?thesis
    by (subst fat16_read_internal_stream.simps)
      (simp only: Let_def assms(1,2,4,5) assms(6) [symmetric] assms(7) seek prod.case Option.bind.simps assms(3) if_False simp_thms)
qed

text \<open>One round: the cluster of the offset is found and read from.\<close>

lemma fat16_read_round:
  assumes v: "mounted s v" and cl: "cluster_chain v cl" and i: "p div (512 * v_spc v) < length cl"
    and t: "0 < t" "p mod (512 * v_spc v) + min t (512 * v_spc v) \<le> 512 * v_spc v" "p + t < 2 ^ 31"
    and out: "out_bytes out t \<inter> priv_bytes (fs_private (the_disk s)) = {}"
  shows "\<exists>s'. read_step s s' (entry_bytes s \<union> out_bytes out (min t (512 * v_spc v))) \<and>
    (\<forall>j<min t (512 * v_spc v). mem s' (out + of_nat j) = file_byte v cl (p + j)) \<and>
    fat16_read_internal_stream s (v_cluster_read v) (int (cl ! 0)) (int p) (int t) out =
      (if 512 * v_spc v < t
       then fat16_read_internal_stream s' (v_cluster_read v) (int (cl ! 0)) (int (p + 512 * v_spc v)) (int (t - 512 * v_spc v))
              (out + of_nat (512 * v_spc v))
       else Some (0, s'))"
proof -
  let ?C = "512 * v_spc v" and ?st = "v_cluster_read v" and ?priv = "fs_private (the_disk s)"
  let ?c = "cl ! (p div ?C)" and ?r = "min t ?C"
  let ?sec = "v_data v + (?c - 2) * v_spc v"
  let ?q = "512 * ?sec + p mod ?C"
  note v' = v [unfolded mounted_def priv_ok_def]
  have C: "0 < ?C" using v' by simp
  have csize: "uint (hd_sect_per_cluster (mem s) ?priv) * sector_size (the_disk s) = int ?C" using v' by simp
  have "fat16_get_cluster_offset s (int (cl ! 0)) (int p) = fat16_follow (p div ?C) s (int (cl ! 0))"
    using C by (simp add: fat16_get_cluster_offset_def csize zdiv_int [symmetric] del: of_nat_mult)
  then obtain s1 where s1: "fat16_get_cluster_offset s (int (cl ! 0)) (int p) = Some (int ?c, s1)" "read_step s s1 (entry_bytes s)"
    using fat16_follow_chain [OF cl v, of 0 "p div ?C"] i by auto
  have m1: "mounted s1 v" using mounted_entry_step [OF v s1(2)] .
  note v1 = m1 [unfolded mounted_def priv_ok_def] and f1 = read_step_fields [OF s1(2)]
  have c: "2 \<le> ?c" "v_data v + (?c - 1) * v_spc v < v_sectors v"
    using cl i by (auto simp: cluster_chain_def)
  have "?c - 1 = Suc (?c - 2)" using c(1) by simp
  then have top: "?sec + v_spc v < v_sectors v" using c(2) by simp
  have "512 * sec + x + y < 512 * v_sectors v" if "sec + v_spc v < v_sectors v" "x + y \<le> ?C" for sec x y using that by linarith
  from this [OF top t(2)] have q: "?q + ?r < 512 * v_sectors v" .
  have sector: "fat16_cluster_to_sector (mem s1) ?priv (int ?c) = int ?sec"
    using v1 f1(2) c(1) by (simp add: fat16_cluster_to_sector_def of_nat_diff)
  have "512 * v_sectors v < 2 ^ 31" using v' by simp
  then have pos: "i32 (i32 (int ?sec * sector_size (the_disk s1)) + c_mod (int p) (int ?C)) = int ?q"
    using v1 q C by (simp add: zmod_int [symmetric] del: of_nat_mult)
  let ?s2 = "seek_to s1 ?st (int ?q)"
  obtain s3 where s3: "disk_stream_read ?s2 ?st out (int ?r) = Some (0, s3)" "read_step ?s2 s3 (out_bytes out ?r)"
    "\<And>j. j < ?r \<Longrightarrow> mem s3 (out + of_nat j) = v_img v (?q + j)"
    using stream_read [of ?s2 "v_img v" "v_sectors v" ?st ?q ?r out] v1 q by (auto simp: disk_stream_seek_def)
  have step: "read_step s s3 (entry_bytes s \<union> out_bytes out ?r)"
    by (rule read_step_trans [OF read_step_mono [OF s1(2)] read_step_trans [OF read_step_seek read_step_mono [OF s3(2)]]]) auto
  have bytes: "mem s3 (out + of_nat j) = file_byte v cl (p + j)" if "j < ?r" for j
  proof -
    have "(p + j) div ?C = p div ?C" "(p + j) mod ?C = p mod ?C + j" using within_block [of p ?C j] that t(2) by linarith+
    then show ?thesis using s3(3) [OF that] by (simp add: file_byte_def Let_def add.assoc)
  qed
  have run: "fat16_read_internal_stream s ?st (int (cl ! 0)) (int p) (int t) out =
      (if int t - int ?r > 0
       then fat16_read_internal_stream s3 ?st (int (cl ! 0)) (i32 (int p + int ?r)) (int t - int ?r) (out + word_of_int (int ?r))
       else Some (0, s3))"
    by (rule fat16_read_internal_stream_step [OF csize s1(1) _ f1(2) _ _ s3(1)]) (use pos [unfolded f1(2)] sector in simp_all)
  show ?thesis
  proof (intro exI [of _ s3] conjI allI impI)
    have "int t - int ?r > 0 \<longleftrightarrow> ?C < t" by auto
    moreover have "i32 (int p + int ?r) = int (p + ?C)" if "?C < t" using that t(3) by (simp add: i32_id)
    moreover have "int t - int ?r = int (t - ?C)" if "?C < t" using that by simp
    ultimately show "fat16_read_internal_stream s ?st (int (cl ! 0)) (int p) (int t) out =
        (if ?C < t then fat16_read_internal_stream s3 ?st (int (cl ! 0)) (int (p + ?C)) (int (t - ?C)) (out + of_nat ?C) else Some (0, s3))"
      using run by simp
  qed (use step bytes in auto)
qed

text \<open>Two reads of adjacent pieces of the output.\<close>

lemma out_split:
  assumes "r \<le> T" "T < 2 ^ 32"
  shows "out_bytes (out + of_nat r) (T - r) \<subseteq> out_bytes out T" "out_bytes out r \<subseteq> out_bytes out T"
    "a \<in> out_bytes (out + of_nat r) (T - r) \<Longrightarrow> r \<le> unat (a - out)"
  using offset_shift(1) [OF assms] assms(1) unfolding mem_Collect_eq by (blast, force, blast)

lemma read_glue:
  assumes E: "out_bytes out T \<inter> E = {}" and T: "r \<le> T" "T < 2 ^ 32"
    and 1: "read_step s s1 (E \<union> out_bytes out r)" "\<And>j. j < r \<Longrightarrow> mem s1 (out + of_nat j) = f j"
    and 2: "read_step s1 s2 (E \<union> out_bytes (out + of_nat r) (T - r))"
      "\<And>j. j < T - r \<Longrightarrow> mem s2 (out + of_nat r + of_nat j) = f (r + j)"
  shows "read_step s s2 (E \<union> out_bytes out T) \<and> (\<forall>j<T. mem s2 (out + of_nat j) = f j)"
proof (intro conjI allI impI)
  note sub = out_split(1,2) [OF T, of out]
  show "read_step s s2 (E \<union> out_bytes out T)"
    by (rule read_step_trans [OF read_step_mono [OF 1(1)] read_step_mono [OF 2(1)]]) (use sub in blast)+
  fix j assume j: "j < T"
  show "mem s2 (out + of_nat j) = f j"
  proof (cases "j < r")
    case True
    have j': "unat (of_nat j :: u32) = j" using j T by (intro unat_of_nat_u32) simp
    then have "out + of_nat j \<notin> out_bytes (out + of_nat r) (T - r)" using out_split(3) [OF T, of "out + of_nat j" out] True by auto
    moreover have "out + of_nat j \<in> out_bytes out T" using j' j by simp
    then have "out + of_nat j \<notin> E" using E by blast
    ultimately show ?thesis using read_step_fields(6) [OF 2(1)] 1(2) [OF True] by simp
  next
    case False
    then have "out + of_nat j = out + of_nat r + of_nat (j - r)" by (simp add: of_nat_diff)
    then show ?thesis using 2(2) [of "j - r"] False j by simp
  qed
qed

text \<open>The whole read, by induction on the number of bytes that are left.\<close>

lemma fat16_read_internal_stream_bytes:
  assumes cl: "cluster_chain v cl"
  shows "mounted s v \<Longrightarrow> 0 < t \<Longrightarrow> p + t \<le> 512 * v_spc v * length cl \<Longrightarrow> p + t < 2 ^ 31 \<Longrightarrow> read_fits v p t \<Longrightarrow>
    out_bytes out t \<inter> (priv_bytes (fs_private (the_disk s)) \<union> entry_bytes s) = {} \<Longrightarrow>
    \<exists>s'. fat16_read_internal_stream s (v_cluster_read v) (int (cl ! 0)) (int p) (int t) out = Some (0, s') \<and>
      read_step s s' (entry_bytes s \<union> out_bytes out t) \<and> (\<forall>j<t. mem s' (out + of_nat j) = file_byte v cl (p + j))"
proof (induction t arbitrary: s p out rule: less_induct)
  case (less t)
  let ?C = "512 * v_spc v" and ?r = "min t (512 * v_spc v)"
  have C: "0 < ?C" using less.prems(1) by (simp add: mounted_def)
  have i: "p div ?C < length cl"
    using less.prems(2,3) C by (metis add_less_cancel_left less_mult_imp_div_less mult.commute order_less_le_trans add.right_neutral)
  have fit: "p mod ?C + ?r \<le> ?C" using less.prems(5) by (auto simp: read_fits_def)
  have priv: "out_bytes out t \<inter> priv_bytes (fs_private (the_disk s)) = {}" using less.prems(6) by blast
  obtain s1 where s1: "read_step s s1 (entry_bytes s \<union> out_bytes out ?r)"
    "\<And>j. j < ?r \<Longrightarrow> mem s1 (out + of_nat j) = file_byte v cl (p + j)"
    "fat16_read_internal_stream s (v_cluster_read v) (int (cl ! 0)) (int p) (int t) out =
      (if ?C < t
       then fat16_read_internal_stream s1 (v_cluster_read v) (int (cl ! 0)) (int (p + ?C)) (int (t - ?C)) (out + of_nat ?C)
       else Some (0, s1))"
    using fat16_read_round [OF less.prems(1) cl i less.prems(2) fit less.prems(4) priv] by blast
  show ?case
  proof (cases "?C < t")
    case False
    then show ?thesis using s1 by auto
  next
    case True
    note f1 = read_step_fields [OF s1(1)]
    have small: "t < 2 ^ 32" using less.prems(4) by simp
    note sub = out_split(1,2) [OF less_imp_le [OF True] small, of out]
    have r: "?r = ?C" using True by simp
    have m1: "mounted s1 v"
      using mounted_read [OF less.prems(1) s1(1)] less.prems(6) sub(2) unfolding r by blast
    have fits: "read_fits v (p + ?C) (t - ?C)" using less.prems(5) True by (auto simp: read_fits_def)
    have dis: "out_bytes (out + of_nat ?C) (t - ?C) \<inter> (priv_bytes (fs_private (the_disk s1)) \<union> entry_bytes s1) = {}"
      using less.prems(6) sub(1) f1(2,4) by auto
    have le: "t - ?C < t" "0 < t - ?C" "p + ?C + (t - ?C) \<le> ?C * length cl" "p + ?C + (t - ?C) < 2 ^ 31"
      using True C less.prems(3,4) by auto
    obtain s2 where s2: "fat16_read_internal_stream s1 (v_cluster_read v) (int (cl ! 0)) (int (p + ?C)) (int (t - ?C)) (out + of_nat ?C) = Some (0, s2)"
      "read_step s1 s2 (entry_bytes s1 \<union> out_bytes (out + of_nat ?C) (t - ?C))"
      "\<And>j. j < t - ?C \<Longrightarrow> mem s2 (out + of_nat ?C + of_nat j) = file_byte v cl (p + ?C + j)"
      using less.IH [OF le(1) m1 le(2,3,4) fits dis] by blast
    have E: "out_bytes out t \<inter> entry_bytes s = {}" using less.prems(6) by blast
    have "read_step s s2 (entry_bytes s \<union> out_bytes out t) \<and> (\<forall>j<t. mem s2 (out + of_nat j) = file_byte v cl (p + j))"
      by (rule read_glue [OF E less_imp_le [OF True] small s1(1,2) [unfolded r] s2(2) [unfolded f1(4)]])
        (use s2(3) in \<open>simp_all add: add.assoc\<close>)
    then show ?thesis using s1(3) True s2(1) by auto
  qed
qed

section \<open>\<^verbatim>\<open>fread\<close>\<close>

text \<open>
  Descriptor \<open>fd\<close> is open on a file whose directory entry is at \<open>item\<close> and names the first cluster of the chain,
  with the read position \<open>p\<close>. The output must not overlap what the driver reads from memory.
\<close>

definition item_bytes :: "u32 \<Rightarrow> u32 set" where
  "item_bytes item = {a. unat (a - item) < 32}"

definition open_file :: "'a file_state_scheme \<Rightarrow> int \<Rightarrow> u32 \<Rightarrow> nat list \<Rightarrow> nat \<Rightarrow> bool" where
  "open_file s fd item cl p \<longleftrightarrow> file_get_descriptor s fd \<noteq> 0 \<and> 1 \<le> fd \<and>
     (let d = descriptors s (file_get_descriptor s fd); fat_desc = private_data d
      in fd_fs d = fat16_fs s \<and> fitem_ptr (mem s) (ffd_item (mem s) fat_desc) = item \<and> ffd_pos (mem s) fat_desc = of_nat p) \<and>
     fat16_get_first_cluster (mem s) item = of_nat (cl ! 0) \<and> entry_bytes s \<inter> item_bytes item = {}"

lemma of_nat_eq_0_u32:
  assumes "k < 2 ^ 31"
  shows "(of_nat k :: u32) = 0 \<longleftrightarrow> k = 0"
proof
  assume "(of_nat k :: u32) = 0"
  then have "sint (of_nat k :: u32) = 0" by (simp only: sint_0)
  then show "k = 0" unfolding sint_of_nat_u32 [OF assms] by simp
qed simp

lemma first_cluster_cong:
  assumes "\<And>a. a \<in> item_bytes item \<Longrightarrow> m' a = m a"
  shows "fat16_get_first_cluster m' item = fat16_get_first_cluster m item"
proof -
  have "item + k \<in> item_bytes item" if "unat k < 32" for k using that by (simp add: item_bytes_def)
  then have "m' (item + k) = m (item + k)" if "unat k < 32" for k using assms that by blast
  then show ?thesis
    by (simp add: fat16_get_first_cluster_def di_high_first_cluster_def di_low_first_cluster_def load16_def add.assoc)
qed

lemma fat16_read_blocks_bytes:
  assumes cl: "cluster_chain v cl" "cl \<noteq> []" "cl ! 0 < 2 ^ 31" and t: "0 < t"
  shows "mounted s v \<Longrightarrow> p + n * t \<le> 512 * v_spc v * length cl \<Longrightarrow> p + n * t < 2 ^ 31 \<Longrightarrow>
    (\<And>i. i < n \<Longrightarrow> read_fits v (p + i * t) t) \<Longrightarrow>
    out_bytes out (n * t) \<inter> (priv_bytes (fs_private (the_disk s)) \<union> entry_bytes s \<union> item_bytes item) = {} \<Longrightarrow>
    entry_bytes s \<inter> item_bytes item = {} \<Longrightarrow> fat16_get_first_cluster (mem s) item = of_nat (cl ! 0) \<Longrightarrow>
    \<exists>s'. fat16_read_blocks n s item (int p) (of_nat t) out b = Some (b, s') \<and>
      read_step s s' (entry_bytes s \<union> out_bytes out (n * t)) \<and> (\<forall>j<n * t. mem s' (out + of_nat j) = file_byte v cl (p + j))"
proof (induction n arbitrary: s p out)
  case 0
  then show ?case using read_step_refl by auto
next
  case (Suc n)
  have nt: "Suc n * t = t + n * t" by simp
  have small: "t + n * t < 2 ^ 32" "t < 2 ^ 31" using Suc.prems(3) by simp_all
  have sub: "out_bytes (out + of_nat t) (n * t) \<subseteq> out_bytes out (Suc n * t)" "out_bytes out t \<subseteq> out_bytes out (Suc n * t)"
    using out_split(1,2) [OF le_add1 small(1), of out] unfolding nt by simp_all
  have pre: "p + t \<le> 512 * v_spc v * length cl" "p + t < 2 ^ 31" "read_fits v p t"
    "out_bytes out t \<inter> (priv_bytes (fs_private (the_disk s)) \<union> entry_bytes s) = {}"
    using Suc.prems(2,3) Suc.prems(4) [of 0] Suc.prems(5) sub(2) by auto
  obtain s1 where s1: "fat16_read_internal_stream s (v_cluster_read v) (int (cl ! 0)) (int p) (int t) out = Some (0, s1)"
    "read_step s s1 (entry_bytes s \<union> out_bytes out t)" "\<And>j. j < t \<Longrightarrow> mem s1 (out + of_nat j) = file_byte v cl (p + j)"
    using fat16_read_internal_stream_bytes [OF cl(1) Suc.prems(1) t pre] by blast
  note f1 = read_step_fields [OF s1(2)]
  have "fp_cluster_read (mem s) (fs_private (the_disk s)) = v_cluster_read v" using Suc.prems(1) by (simp add: mounted_def priv_ok_def)
  then have read: "fat16_read_internal s (sint (fat16_get_first_cluster (mem s) item)) (int p) (sint (of_nat t :: u32)) out = Some (0, s1)"
    using s1(1) Suc.prems(7) cl(3) small(2) by (simp add: fat16_read_internal_def)
  have "sint (word_of_int (int p) + of_nat t :: u32) = int (p + t)"
    using sint_of_nat_u32 [OF pre(2)] by simp
  then have run: "fat16_read_blocks (Suc n) s item (int p) (of_nat t) out b = fat16_read_blocks n s1 item (int (p + t)) (of_nat t) (out + of_nat t) b"
    using read by simp
  have item: "fat16_get_first_cluster (mem s1) item = of_nat (cl ! 0)"
  proof -
    have "item_bytes item \<inter> (entry_bytes s \<union> out_bytes out t) = {}" using Suc.prems(5,6) sub(2) by blast
    then have "mem s1 a = mem s a" if "a \<in> item_bytes item" for a using f1(6) that by blast
    then show ?thesis using first_cluster_cong Suc.prems(7) by metis
  qed
  have m1: "mounted s1 v"
    using mounted_read [OF Suc.prems(1) s1(2)] pre(4) by blast
  have dis: "out_bytes (out + of_nat t) (n * t) \<inter> (priv_bytes (fs_private (the_disk s1)) \<union> entry_bytes s1 \<union> item_bytes item) = {}"
    "entry_bytes s1 \<inter> item_bytes item = {}"
    unfolding f1(2,4) using Suc.prems(5,6) sub(1) by blast+
  have fits: "read_fits v (p + t + i * t) t" if "i < n" for i using Suc.prems(4) [of "Suc i"] that by (simp add: ac_simps)
  have le: "p + t + n * t \<le> 512 * v_spc v * length cl" "p + t + n * t < 2 ^ 31" using Suc.prems(2,3) by simp_all
  obtain s2 where s2: "fat16_read_blocks n s1 item (int (p + t)) (of_nat t) (out + of_nat t) b = Some (b, s2)"
    "read_step s1 s2 (entry_bytes s1 \<union> out_bytes (out + of_nat t) (n * t))"
    "\<And>j. j < n * t \<Longrightarrow> mem s2 (out + of_nat t + of_nat j) = file_byte v cl (p + t + j)"
    using Suc.IH [OF m1 le fits dis item] by blast
  have E: "out_bytes out (t + n * t) \<inter> entry_bytes s = {}" using Suc.prems(5) unfolding nt by blast
  have "read_step s s2 (entry_bytes s \<union> out_bytes out (t + n * t)) \<and> (\<forall>j<t + n * t. mem s2 (out + of_nat j) = file_byte v cl (p + j))"
    by (rule read_glue [OF E le_add1 small(1) s1(2,3)]) (use s2(2,3) f1(4) in \<open>simp_all add: add.assoc\<close>)
  then show ?case using run s2(1) unfolding nt by simp
qed

lemma fread_effect:
  assumes "mounted s v" "cluster_chain v cl" "cl \<noteq> []" "cl ! 0 < 2 ^ 31" "open_file s fd item cl p"
    and "0 < t" "0 < n" "p + n * t \<le> 512 * v_spc v * length cl" "p + n * t < 2 ^ 31" "\<forall>i<n. read_fits v (p + i * t) t"
    and "out_bytes buf (n * t) \<inter> (priv_bytes (fs_private (the_disk s)) \<union> entry_bytes s \<union> item_bytes item) = {}"
  shows "\<exists>s'. fread s buf (of_nat t) (of_nat n) fd = Some (int n, s') \<and>
    (\<forall>j<n * t. mem s' (buf + of_nat j) = file_byte v cl (p + j)) \<and>
    (\<forall>a. a \<notin> entry_bytes s \<union> out_bytes buf (n * t) \<longrightarrow> mem s' a = mem s a) \<and> mounted s' v \<and> read_step s s' (entry_bytes s \<union> out_bytes buf (n * t))"
proof -
  have "n \<le> n * t" "t \<le> n * t" using assms(6,7) by simp_all
  then have small: "n < 2 ^ 31" "t < 2 ^ 31" "p < 2 ^ 31" using assms(9) by linarith+
  have nz: "(of_nat t :: u32) \<noteq> 0" "(of_nat n :: u32) \<noteq> 0"
    using of_nat_eq_0_u32 [of t] of_nat_eq_0_u32 [of n] small assms(6,7) by simp_all
  note fd = assms(5) [unfolded open_file_def Let_def]
  have "fread s buf (of_nat t) (of_nat n) fd = fat16_read s (private_data (descriptors s (file_get_descriptor s fd))) (of_nat t) (of_nat n) buf"
    using fd nz by (simp add: fread_def Let_def)
  also have "\<dots> = fat16_read_blocks n s item (int p) (of_nat t) buf (int n)"
    using fd small unat_of_nat_u32 [of n] by (simp add: fat16_read_def Let_def del: unat_of_nat)
  finally have run: "fread s buf (of_nat t) (of_nat n) fd = fat16_read_blocks n s item (int p) (of_nat t) buf (int n)" .
  obtain s' where s': "fat16_read_blocks n s item (int p) (of_nat t) buf (int n) = Some (int n, s')"
    "read_step s s' (entry_bytes s \<union> out_bytes buf (n * t))" "\<forall>j<n * t. mem s' (buf + of_nat j) = file_byte v cl (p + j)"
    using fat16_read_blocks_bytes [OF assms(2,3,4,6,1,8,9) _ assms(11), of "int n"] assms(10) fd by blast
  moreover have "mounted s' v" using mounted_read [OF assms(1) s'(2)] assms(11) by blast
  moreover have "mem s' a = mem s a" if "a \<notin> entry_bytes s \<union> out_bytes buf (n * t)" for a by (rule read_step_fields(6) [OF s'(2) that])
  ultimately show ?thesis using run by (intro exI [of _ s'] conjI allI impI) auto
qed

text \<open>
  C10: on a mounted volume, \<^verbatim>\<open>fread\<close> of \<open>n\<close> blocks of \<open>t\<close> bytes from an open file returns \<open>n\<close> and delivers the bytes of the
  cluster chain of the file from its read position on, whatever the order of the clusters on the disk, as long
  as the blocks lie inside the chain and each starts at a cluster boundary or stays inside one cluster. Nothing
  else in memory changes but the two bytes of a local variable of the driver.
\<close>

theorem fread_delivers_file:
  assumes "mounted s v" "cluster_chain v cl" "cl \<noteq> []" "cl ! 0 < 2 ^ 31" "open_file s fd item cl p"
    and "0 < t" "0 < n" "p + n * t \<le> 512 * v_spc v * length cl" "p + n * t < 2 ^ 31" "\<forall>i<n. read_fits v (p + i * t) t"
    and "out_bytes buf (n * t) \<inter> (priv_bytes (fs_private (the_disk s)) \<union> entry_bytes s \<union> item_bytes item) = {}"
  shows "\<exists>s'. fread s buf (of_nat t) (of_nat n) fd = Some (int n, s') \<and>
    (\<forall>j<n * t. mem s' (buf + of_nat j) = file_byte v cl (p + j)) \<and>
    (\<forall>a. a \<notin> entry_bytes s \<union> out_bytes buf (n * t) \<longrightarrow> mem s' a = mem s a) \<and> mounted s' v"
  using fread_effect [OF assms] by blast

text \<open>A volume with one sector per cluster and a file in the clusters 2 and 5, opened as descriptor 1.\<close>

definition demo_vol_img :: "nat \<Rightarrow> u8" where
  "demo_vol_img k = (if k = 516 then 5 else if k = 517 then 0 else of_nat (k mod 251))"

definition demo_vol :: volume where
  "demo_vol = \<lparr>v_img = demo_vol_img, v_sectors = 2 ^ 22 - 1, v_reserved = 1, v_spc = 1, v_data = 10, v_fat_read = 0x22, v_cluster_read = 0x11\<rparr>"

definition demo_vol_mem :: memory where
  "demo_vol_mem = (\<lambda>_. 0)(0x300D := 1, 0x300E := 1, 0x304C := 10, 0x3050 := 0x11, 0x3054 := 0x22, 0x4001 := 0x41, 0x4101 := 0x42, 0x421A := 2)"

definition demo_opened :: file_state where
  "demo_opened = fat_state.extend (disk_state.extend ((demo_disk demo_vol_img)\<lparr>mem := demo_vol_mem, the_disk := \<lparr>disk_type = 0, sector_size = 512, disk_id = 0, disk_fs = 0x9300, fs_private = 0x3000\<rparr>\<rparr>)
       (fat_state.fields 0x9000 0x4300 0x9200 0x9300))
     (file_state.fields (0x9300 # replicate 11 0) (0x6000 # replicate 511 0) (\<lambda>_. \<lparr>fd_index = 1, fd_fs = 0x9300, private_data = 0x4000, fd_disk = 0x5000\<rparr>))"

lemmas demo_opened_defs = demo_opened_def demo_disk_def disk_state.extend_def fat_state.extend_def fat_state.fields_def file_state.fields_def

lemma demo_opened_fields:
  "mem demo_opened = demo_vol_mem" "bus demo_opened = demo_bus demo_vol_img" "fs_private (the_disk demo_opened) = 0x3000"
  "sector_size (the_disk demo_opened) = 512" "stk_entry demo_opened = 0x4300" "fat16_fs demo_opened = 0x9300"
  "disk_addr demo_opened = 0x5000" "stream_disk (disk_streams demo_opened st) = 0x5000"
  "file_get_descriptor demo_opened 1 = 0x6000" "fd_fs (descriptors demo_opened 0x6000) = 0x9300"
  "private_data (descriptors demo_opened 0x6000) = 0x4000"
  by (simp_all add: demo_opened_defs file_get_descriptor_def config_simps)

lemma demo_mounted: "mounted demo_opened demo_vol"
  using demo_drive [of demo_vol_img]
  by (simp add: mounted_def priv_ok_def demo_opened_fields demo_vol_def priv_bytes_def hd_sect_per_cluster_def hd_reserved_sectors_def
      fdir_sector_end_def fp_root_def fp_fat_read_def fp_cluster_read_def load16_def load32_def demo_vol_mem_def)

lemma demo_chain: "cluster_chain demo_vol [2, 5]"
proof -
  have "fat_entry demo_vol 2 = 5" by (simp add: fat_entry_def demo_vol_def demo_vol_img_def)
  then show ?thesis by (auto simp: cluster_chain_def demo_vol_def chain_stop_def less_Suc_eq)
qed

lemma demo_open_file: "open_file demo_opened 1 0x4200 [2, 5] 0"
proof -
  have "{0x4300, 0x4301} \<inter> item_bytes 0x4200 = {}" by (simp add: item_bytes_def)
  then show ?thesis
    by (simp add: open_file_def demo_opened_fields Let_def fitem_ptr_def ffd_item_def ffd_pos_def fat16_get_first_cluster_def
        di_high_first_cluster_def di_low_first_cluster_def load16_def load32_def demo_vol_mem_def)
qed

theorem fread_delivers_file_witness:
  "\<exists>s'. fread demo_opened 0x5000 1024 1 1 = Some (1, s') \<and> mem s' 0x5000 = demo_vol_img 5120 \<and> mem s' 0x5200 = demo_vol_img 6656"
proof -
  have dis: "out_bytes 0x5000 (1 * 1024) \<inter> (priv_bytes (fs_private (the_disk demo_opened)) \<union> entry_bytes demo_opened \<union> item_bytes 0x4200) = {}"
  proof -
    have far: "\<not> (unat (a - b) < k \<and> unat (a - 0x5000) < 1024)" if "unat b + k \<le> 0x5000" "b < 0x5000" for a b :: u32 and k
      using that by (auto simp: unat_sub_if' word_less_nat_alt unat_arith_simps split: if_splits)
    show ?thesis using far [of "0x3000" 92] far [of "0x4200" 32]
      by (auto simp: demo_opened_fields priv_bytes_def item_bytes_def)
  qed
  obtain s' where run: "fread demo_opened 0x5000 (of_nat 1024) (of_nat 1) 1 = Some (int 1, s')"
    and b: "\<And>j. j < 1 * 1024 \<Longrightarrow> mem s' (0x5000 + of_nat j) = file_byte demo_vol [2, 5] (0 + j)"
    using fread_delivers_file [OF demo_mounted demo_chain _ _ demo_open_file, of 1024 1 "0x5000"] dis
    by (auto simp: demo_vol_def read_fits_def)
  show ?thesis
    using run b [of 0] b [of 512] by (simp add: file_byte_def demo_vol_def Let_def)
qed

end
