(* ===== verification/Fat16_Mount.thy ===== *)
theory Fat16_Mount
  imports Fat16_Proofs
begin

unbundle bit_operations_syntax

text \<open>
  Mounting: \<^verbatim>\<open>fat16_resolve\<close> on a disk that holds a FAT16 volume leaves the driver in the state that \<open>Fat16_Proofs\<close> calls
  \<open>mounted\<close>, with the root directory in memory. The memory is allocated as the contract of \<open>Alloc_Interface\<close> says,
  so that nothing the driver keeps is overwritten while it mounts.
\<close>

section \<open>Steps of the driver\<close>

text \<open>
  What a step of mounting keeps: the allocations of the heap, the disk each live stream reads from, and
  all protected memory outside the set \<open>A\<close>.
\<close>

definition drv_frame :: "'a fat_state_scheme \<Rightarrow> 'a fat_state_scheme \<Rightarrow> bool" where
  "drv_frame s s' \<longleftrightarrow> (\<exists>m t h ds. s' = s\<lparr>mem := m, io_trace := t, kernel_heap := h, disk_streams := ds\<rparr>)"

lemma drv_frameI: "s' = s\<lparr>mem := m, io_trace := t, kernel_heap := h, disk_streams := ds\<rparr> \<Longrightarrow> drv_frame s s'"
  unfolding drv_frame_def by blast

lemma drv_frame_fields:
  assumes "drv_frame s s'"
  shows "bus s' = bus s" "the_disk s' = the_disk s" "disk_addr s' = disk_addr s" "stk_item s' = stk_item s"
    "stk_entry s' = stk_entry s" "fat16_fs s' = fat16_fs s" "stk_name s' = stk_name s" "path_parts s' = path_parts s"
    "path_roots s' = path_roots s" "fat_state.more s' = fat_state.more s"
  using assms by (auto simp: drv_frame_def)

lemma drv_frame_trans: "drv_frame s s1 \<Longrightarrow> drv_frame s1 s2 \<Longrightarrow> drv_frame s s2"
  unfolding drv_frame_def by (elim exE, rule exI, rule exI, rule exI, rule exI) simp

definition drv_step :: "'a fat_state_scheme \<Rightarrow> 'a fat_state_scheme \<Rightarrow> u32 set \<Rightarrow> bool" where
  "drv_step s s' A \<longleftrightarrow> drv_frame s s' \<and> kregion s' = kregion s \<and> kheap_wf s' \<and> kallocs s \<subseteq> kallocs s' \<and> kspent s s' \<and>
     (\<forall>st k. (st, k) \<in> kallocs s \<longrightarrow> stream_disk (disk_streams s' st) = stream_disk (disk_streams s st)) \<and>
     (\<forall>a. kprot s a \<longrightarrow> kprot s' a \<and> (a \<notin> A \<longrightarrow> mem s' a = mem s a))"

lemma drv_step_fields:
  assumes "drv_step s s' A"
  shows "bus s' = bus s" "the_disk s' = the_disk s" "disk_addr s' = disk_addr s" "stk_item s' = stk_item s"
    "stk_entry s' = stk_entry s" "fat16_fs s' = fat16_fs s" "kregion s' = kregion s" "kheap_wf s'" "kallocs s \<subseteq> kallocs s'"
    "\<And>st k. (st, k) \<in> kallocs s \<Longrightarrow> stream_disk (disk_streams s' st) = stream_disk (disk_streams s st)"
    "\<And>a. kprot s a \<Longrightarrow> kprot s' a" "\<And>a. kprot s a \<Longrightarrow> a \<notin> A \<Longrightarrow> mem s' a = mem s a" "drv_frame s s'" "kspent s s'"
  using assms drv_frame_fields [of s s'] unfolding drv_step_def by blast+

lemma drv_step_trans:
  assumes "drv_step s s1 A" "drv_step s1 s2 A"
  shows "drv_step s s2 A"
proof -
  note 1 = drv_step_fields [OF assms(1)] and 2 = drv_step_fields [OF assms(2)]
  have "stream_disk (disk_streams s2 st) = stream_disk (disk_streams s st)" if "(st, k) \<in> kallocs s" for st k
    using 1(10) [OF that] 2(10) [of st k] that 1(9) by auto
  moreover have "kprot s2 a \<and> (a \<notin> A \<longrightarrow> mem s2 a = mem s a)" if "kprot s a" for a
    using 1(11,12) [OF that] 2(11,12) [of a] by simp
  ultimately show ?thesis
    unfolding drv_step_def using 1(7,9) 2(7,8,9) drv_frame_trans [OF 1(13) 2(13)] kspent_trans [OF 1(14) 2(14)] by blast
qed

lemma drv_step_mono: "drv_step s s' A \<Longrightarrow> A \<subseteq> B \<Longrightarrow> drv_step s s' B"
  unfolding drv_step_def by blast

text \<open>A step may write what was not protected before the one that precedes it.\<close>

lemma drv_step_fresh:
  assumes "drv_step s s1 A" "drv_step s1 s2 (A \<union> B)" "\<And>a. kprot s a \<Longrightarrow> a \<notin> B"
  shows "drv_step s s2 A"
proof -
  have "drv_step s s2 (A \<union> B)" using drv_step_trans [OF drv_step_mono [OF assms(1)] assms(2)] by simp
  then show ?thesis using assms(3) unfolding drv_step_def by blast
qed

lemma drv_step_read:
  assumes "kheap_wf s" "read_step s s' A"
  shows "drv_step s s' A" "kallocs s' = kallocs s" "kfits s' n = kfits s n"
proof -
  obtain m t ds where s': "s' = s\<lparr>mem := m, io_trace := t, disk_streams := ds\<rparr>"
    and f: "\<And>st. stream_disk (ds st) = stream_disk (disk_streams s st)" "\<And>a. a \<notin> A \<Longrightarrow> m a = mem s a"
    using assms(2) unfolding read_step_def by blast
  show v: "kallocs s' = kallocs s" "kfits s' n = kfits s n" by (simp_all add: s' kheap_view_defs)
  have "kregion s' = kregion s" "kheap_wf s'" using assms(1) by (simp_all add: s' kheap_view_defs)
  moreover have "drv_frame s s'" by (rule drv_frameI [where m = m and t = t and h = "kernel_heap s" and ds = ds]) (simp add: s')
  moreover have "kspent s s'" by (rule kspent_same) (simp add: s')
  ultimately show "drv_step s s' A" using v(1) f by (simp add: drv_step_def kprot_def) (simp add: s')
qed

lemma drv_step_mem:
  assumes "kheap_wf s" "\<And>a. a \<notin> A \<Longrightarrow> m a = mem s a"
  shows "drv_step s (s\<lparr>mem := m\<rparr>) A"
proof -
  have "drv_frame s (s\<lparr>mem := m\<rparr>)"
    by (rule drv_frameI [where m = m and t = "io_trace s" and h = "kernel_heap s" and ds = "disk_streams s"]) simp
  then show ?thesis using assms by (simp add: drv_step_def kspent_same)
qed

lemma kprot_live: "(p, k) \<in> kallocs s \<Longrightarrow> a \<in> extent p k \<Longrightarrow> kprot s a"
  by (auto simp: kprot_def)

lemma kzalloc_drv:
  assumes "kheap_wf s" "0 < unat sz" "unat sz \<le> 2 ^ 32 - 4096" "kfits s (blocks_for sz + n)" "kzalloc s sz = (p, s')"
  shows "drv_step s s' {}" "kallocs s' = insert (p, blocks_for sz) (kallocs s)" "\<And>q k. (q, k) \<in> kallocs s \<Longrightarrow> p \<noteq> q" "p \<noteq> 0"
    "kfits s' n" "disk_streams s' = disk_streams s" "extent p (blocks_for sz) \<subseteq> kregion s"
    "\<And>q k. (q, k) \<in> kallocs s \<Longrightarrow> extent p (blocks_for sz) \<inter> extent q k = {}"
    "\<And>a. kprot s a \<Longrightarrow> a \<notin> extent p (blocks_for sz)"
proof -
  have fit: "kfits s (blocks_for sz)" using kz.fits_mono [OF assms(4)] by simp
  note pre = assms(1-3) fit assms(5)
  have wf: "kheap_wf s'" by (rule kz.malloc_inv [OF pre])
  show al: "kallocs s' = insert (p, blocks_for sz) (kallocs s)" by (rule kz.malloc_allocs [OF pre])
  have p: "(p, blocks_for sz) \<in> kallocs s'" using al by simp
  show "p \<noteq> 0" using kz.allocs_addr [OF wf p] by simp
  show "p \<noteq> q" if "(q, k) \<in> kallocs s" for q k using kz.malloc_new [OF pre, of k] that by blast
  show "kfits s' n" by (rule kz.malloc_fits [OF assms])
  have reg: "kregion s' = kregion s" by (rule kz.malloc_region [OF assms(5)])
  show "extent p (blocks_for sz) \<subseteq> kregion s" using kz.allocs_region [OF wf p] reg by simp
  show "extent p (blocks_for sz) \<inter> extent q k = {}" if "(q, k) \<in> kallocs s" for q k by (rule kz.malloc_fresh [OF pre that])
  show new: "a \<notin> extent p (blocks_for sz)" if "kprot s a" for a
    using kz.protected_malloc(1) [OF pre, of a] that by (simp add: kprot_def)
  have s': "s' = s\<lparr>mem := mem s', io_trace := io_trace s, kernel_heap := kernel_heap s', disk_streams := disk_streams s\<rparr>"
    using assms(5) by (auto simp: kzalloc_def kmalloc_def Let_def split: prod.splits if_splits)
  then show "disk_streams s' = disk_streams s" by (cases s; cases s'; simp)
  moreover have "drv_frame s s'" by (rule drv_frameI [OF s'])
  moreover have "kprot s' a \<and> mem s' a = mem s a" if "kprot s a" for a
    using kz.protected_malloc [OF pre, of a] that kzalloc_mem [OF assms(5), of a] in_extent_blocks_for [of a p sz] by (auto simp: kprot_def)
  ultimately show "drv_step s s' {}" using reg wf al kspent_kzalloc [OF pre] by (auto simp: drv_step_def)
qed

lemma blocks_for_8: "blocks_for 8 = 1" "blocks_for 92 = 1"
  by (simp_all add: blocks_for_def)

lemma disk_stream_new_ok:
  assumes "kheap_wf s" "kfits s (Suc n)" "disk_addr s \<noteq> 0" "disk_stream_new s 0 = (st, s')"
  shows "drv_step s s' {}" "(st, 1) \<in> kallocs s'" "\<And>q k. (q, k) \<in> kallocs s \<Longrightarrow> st \<noteq> q" "st \<noteq> 0" "kfits s' n"
    "disk_streams s' st = \<lparr>stream_pos = 0, stream_disk = disk_addr s\<rparr>"
proof -
  obtain p s1 where al: "kzalloc s 8 = (p, s1)" by force
  let ?ds = "(disk_streams s1)(p := \<lparr>stream_pos = 0, stream_disk = disk_addr s\<rparr>)"
  have run: "st = p" "s' = s1\<lparr>disk_streams := ?ds\<rparr>"
    using assms(3,4) al by (auto simp: disk_stream_new_def disk_get_def Let_def)
  have fit: "kfits s (blocks_for 8 + n)" using assms(2) by (simp add: blocks_for_8)
  note k = kzalloc_drv [OF assms(1) _ _ fit al, unfolded blocks_for_8, simplified]
  show "st \<noteq> 0" "(st, 1) \<in> kallocs s'" "kfits s' n" using k(2,4,5) by (simp_all add: run kheap_view_defs)
  show new: "st \<noteq> q" if "(q, k) \<in> kallocs s" for q k using k(3) [OF that] by (simp add: run)
  show "disk_streams s' st = \<lparr>stream_pos = 0, stream_disk = disk_addr s\<rparr>" by (simp add: run)
  have "drv_frame s1 s'" by (rule drv_frameI [where m = "mem s1" and t = "io_trace s1" and h = "kernel_heap s1" and ds = ?ds]) (simp add: run)
  then have "drv_frame s s'" by (rule drv_frame_trans [OF drv_step_fields(13) [OF k(1)]])
  moreover have "kspent s s'" using drv_step_fields(14) [OF k(1)] kspent_eq [of s s s' s1] by (simp add: run)
  ultimately show "drv_step s s' {}" using k(1) new by (auto simp: drv_step_def run kheap_view_defs kprot_def)
qed

section \<open>The private data\<close>

lemma priv_extent: "priv_bytes p \<subseteq> extent p 1"
  by (auto simp: priv_bytes_def extent_def)

lemma drv_poke:
  assumes "kheap_wf s" "{a, a + 1, a + 2, a + 3} \<subseteq> A"
  shows "drv_step s (poke32 s a v) A"
  unfolding poke32_def by (rule drv_step_mem [OF assms(1)], rule store32_frame) (use assms(2) in blast)

lemma poke32_view [simp]:
  "kallocs (poke32 s a v) = kallocs s" "kfits (poke32 s a v) n = kfits s n" "kheap_wf (poke32 s a v) = kheap_wf s"
  "disk_streams (poke32 s a v) = disk_streams s" "mem (poke32 s a v) = store32 (mem s) a v" "the_disk (poke32 s a v) = the_disk s"
  "disk_addr (poke32 s a v) = disk_addr s"
  by (simp_all add: poke32_def)

text \<open>A word of a live page survives a step that does not write there.\<close>

lemma drv_load32:
  assumes "drv_step s s' A" "(p, 1) \<in> kallocs s" "unat k < 4093" "\<And>i. i \<in> {0, 1, 2, 3} \<Longrightarrow> p + k + i \<notin> A"
  shows "load32 (mem s') (p + k) = load32 (mem s) (p + k)"
proof (rule load32_cong)
  fix i :: u32 assume i: "i \<in> {0, 1, 2, 3}"
  then have "unat (k + i) < 4096" using assms(3) by (auto simp: unat_word_ariths)
  then have "p + k + i \<in> extent p 1" by (simp add: extent_def add.assoc)
  then show "mem s' (p + k + i) = mem s (p + k + i)"
    using drv_step_fields(12) [OF assms(1) kprot_live [OF assms(2)]] assms(4) [OF i] by blast
qed

lemma load32_store32_offset:
  "load32 (store32 m (p + 84) v) (p + 80) = load32 m (p + 80)" "load32 (store32 m (p + 88) v) (p + 80) = load32 m (p + 80)"
  "load32 (store32 m (p + 88) v) (p + 84) = load32 m (p + 84)"
  by (simp_all add: load32_def store32_def add.assoc)

lemma fat16_init_private_ok:
  assumes "kheap_wf s" "kfits s (n + 3)" "disk_addr s \<noteq> 0" "disk_id (the_disk s) = 0" "(p, 1) \<in> kallocs s"
    and "s' = fat16_init_private s p"
  shows "drv_step s s' (priv_bytes p)" "kfits s' n"
    "\<And>r. r \<in> {fp_cluster_read, fp_fat_read, fp_dir_read} \<Longrightarrow> (r (mem s') p, 1) \<in> kallocs s' \<and> r (mem s') p \<noteq> 0 \<and>
      stream_disk (disk_streams s' (r (mem s') p)) = disk_addr s"
    "fp_fat_read (mem s') p \<noteq> fp_cluster_read (mem s') p"
proof -
  let ?P = "priv_bytes p"
  let ?s1 = "s\<lparr>mem := memset p 0 92 (mem s)\<rparr>"
  obtain a s2 where a: "disk_stream_new ?s1 0 = (a, s2)" by force
  let ?s3 = "poke32 s2 (p + 80) a"
  obtain b s4 where b: "disk_stream_new ?s3 0 = (b, s4)" by force
  let ?s5 = "poke32 s4 (p + 84) b"
  obtain c s6 where c: "disk_stream_new ?s5 0 = (c, s6)" by force
  let ?s7 = "poke32 s6 (p + 88) c"
  have 1: "drv_step s ?s1 ?P"
    by (rule drv_step_mem [OF assms(1)]) (simp add: memset_apply priv_bytes_def word_less_nat_alt)
  have k1: "kheap_wf ?s1" "kfits ?s1 (Suc (Suc (Suc n)))" "disk_addr ?s1 \<noteq> 0" using assms by (simp_all add: numeral_3_eq_3)
  note 2 = disk_stream_new_ok [OF k1 a]
  note f2 = drv_step_fields [OF 2(1)]
  have k3: "kheap_wf ?s3" "kfits ?s3 (Suc (Suc n))" "disk_addr ?s3 \<noteq> 0" using f2 2(5) assms(3) by simp_all
  have 3: "drv_step s2 ?s3 ?P" by (rule drv_poke) (use f2 in \<open>simp_all add: priv_bytes_def add.assoc\<close>)
  note 4 = disk_stream_new_ok [OF k3 b]
  note f4 = drv_step_fields [OF 4(1)]
  have k5: "kheap_wf ?s5" "kfits ?s5 (Suc n)" "disk_addr ?s5 \<noteq> 0" using f4 4(5) k3(3) by simp_all
  have 5: "drv_step s4 ?s5 ?P" by (rule drv_poke) (use f4 in \<open>simp_all add: priv_bytes_def add.assoc\<close>)
  note 6 = disk_stream_new_ok [OF k5 c]
  note f6 = drv_step_fields [OF 6(1)]
  have 7: "drv_step s6 ?s7 ?P" by (rule drv_poke) (use f6 in \<open>simp_all add: priv_bytes_def add.assoc\<close>)
  note m = drv_step_mono [OF _ empty_subsetI]
  have run: "s' = ?s7"
    using a b c f2(2) f4(2) assms(4,6) by (simp add: fat16_init_private_def Let_def)
  show "kfits s' n" using 6(5) by (simp add: run)
  show "drv_step s s' ?P" unfolding run
    by (intro drv_step_trans [OF 1] drv_step_trans [OF m [OF 2(1)]] drv_step_trans [OF 3] drv_step_trans [OF m [OF 4(1)]]
        drv_step_trans [OF 5] drv_step_trans [OF m [OF 6(1)]] 7)
  have p: "(p, 1) \<in> kallocs ?s3" "(p, 1) \<in> kallocs ?s5" using assms(5) f2(9) f4(9) by auto
  have live: "(a, 1) \<in> kallocs ?s3" "(a, 1) \<in> kallocs ?s5" "(b, 1) \<in> kallocs ?s5"
    "(a, 1) \<in> kallocs s'" "(b, 1) \<in> kallocs s'" "(c, 1) \<in> kallocs s'"
    using 2(2) 4(2) 6(2) f4(9) f6(9) by (auto simp: run)
  have rd: "fp_cluster_read (mem s') p = a" "fp_fat_read (mem s') p = b" "fp_dir_read (mem s') p = c"
    using drv_load32 [OF 4(1) p(1), of 80] drv_load32 [OF 6(1) p(2), of 80] drv_load32 [OF 6(1) p(2), of 84]
    by (simp_all add: run fp_cluster_read_def fp_fat_read_def fp_dir_read_def load32_store32_offset load32_store32_same)
  have ds: "stream_disk (disk_streams s' x) = disk_addr s" if "x \<in> {a, b, c}" for x
  proof -
    have "stream_disk (disk_streams s6 a) = disk_addr s" "stream_disk (disk_streams s6 b) = disk_addr s" "stream_disk (disk_streams s6 c) = disk_addr s"
      using 2(6) 4(6) 6(6) f4(10) [OF live(1)] f6(10) [OF live(2)] f6(10) [OF live(3)] f2(3) f4(3) by simp_all
    then show ?thesis using that unfolding run poke32_view by blast
  qed
  show "fp_fat_read (mem s') p \<noteq> fp_cluster_read (mem s') p" using 4(3) [OF live(1)] by (simp add: rd)
  show "(r (mem s') p, 1) \<in> kallocs s' \<and> r (mem s') p \<noteq> 0 \<and> stream_disk (disk_streams s' (r (mem s') p)) = disk_addr s"
    if "r \<in> {fp_cluster_read, fp_fat_read, fp_dir_read}" for r
    using that live(4-6) 2(4) 4(4) 6(4) ds [of a] ds [of b] ds [of c] rd by auto
qed

section \<open>The directory on the disk\<close>

lemma stream_read_pos:
  assumes "ata_drive (bus s) img n" "n < 2 ^ 22" "stream_disk (disk_streams s st) = disk_addr s"
    and "stream_pos (disk_streams s st) = int p" "p + t < 512 * n"
  shows "\<exists>s'. disk_stream_read s st out (int t) = Some (0, s') \<and> read_step s s' (out_bytes out t) \<and>
    (\<forall>j<t. mem s' (out + of_nat j) = img (p + j)) \<and> stream_pos (disk_streams s' st) = int (p + t)"
proof -
  obtain s' where s': "disk_stream_read s st out (int t) = Some (0, s')" "read_step s s' (out_bytes out t)"
    "\<forall>j<t. mem s' (out + of_nat j) = img (p + j)"
    using stream_read [OF assms] by blast
  moreover have "stream_pos (disk_streams s' st) = int (p + t)"
    using disk_stream_read_effect [OF assms(1,3,4,5,2), of out] s'(1) by (auto simp: stream_advance_def)
  ultimately show ?thesis by blast
qed

text \<open>The number of entries in use among the first \<open>k\<close> of the directory at byte \<open>p\<close> of the disk.\<close>

definition live_entries :: "(nat \<Rightarrow> u8) \<Rightarrow> nat \<Rightarrow> nat \<Rightarrow> nat" where
  "live_entries img p k = length (filter (\<lambda>i. img (p + 32 * i) \<noteq> 0xE5) [0..<k])"

lemma live_entries_Suc: "live_entries img p (Suc k) = (if img p = 0xE5 then 0 else 1) + live_entries img (p + 32) k"
proof -
  have "[0..<Suc k] = 0 # map Suc [0..<k]" by (simp only: upt_conv_Cons map_Suc_upt zero_less_Suc)
  then show ?thesis by (simp add: live_entries_def filter_map o_def ac_simps)
qed

lemma fat16_count_items_live:
  "ata_drive (bus s) img n \<Longrightarrow> n < 2 ^ 22 \<Longrightarrow> stream_disk (disk_streams s st) = disk_addr s \<Longrightarrow>
   stream_pos (disk_streams s st) = int p \<Longrightarrow> (\<And>i. i < k \<Longrightarrow> img (p + 32 * i) \<noteq> 0) \<Longrightarrow> img (p + 32 * k) = 0 \<Longrightarrow>
   p + 32 * Suc k < 512 * n \<Longrightarrow>
   \<exists>s'. fat16_count_items s st c = Some (c + int (live_entries img p k), s') \<and> read_step s s' (out_bytes (stk_item s) 32)"
proof (induction k arbitrary: s p c)
  case 0
  obtain s1 where s1: "disk_stream_read s st (stk_item s) (int 32) = Some (0, s1)" "read_step s s1 (out_bytes (stk_item s) 32)"
    "mem s1 (stk_item s) = img p"
    using stream_read_pos [OF "0.prems"(1-4), of 32 "stk_item s"] "0.prems"(7) by fastforce
  have "stk_item s1 = stk_item s" using s1(2) by (auto simp: read_step_def)
  then show ?case using s1 "0.prems"(6) by (subst fat16_count_items.simps) (simp add: live_entries_def config_simps)
next
  case (Suc k)
  obtain s1 where s1: "disk_stream_read s st (stk_item s) (int 32) = Some (0, s1)" "read_step s s1 (out_bytes (stk_item s) 32)"
    "mem s1 (stk_item s) = img p" "stream_pos (disk_streams s1 st) = int (p + 32)"
    using stream_read_pos [OF Suc.prems(1-4), of 32 "stk_item s"] Suc.prems(7) by fastforce
  note f = read_step_fields [OF s1(2)]
  have i: "stk_item s1 = stk_item s" using s1(2) by (auto simp: read_step_def)
  have nz: "img p \<noteq> 0" using Suc.prems(5) [of 0] by simp
  have live: "img (p + 32 + 32 * i) \<noteq> 0" if "i < k" for i using Suc.prems(5) [of "Suc i"] that by (simp add: ac_simps)
  have rest: "img (p + 32 + 32 * k) = 0" "p + 32 + 32 * Suc k < 512 * n" using Suc.prems(6,7) by (simp_all add: ac_simps)
  have dr: "ata_drive (bus s1) img n" "stream_disk (disk_streams s1 st) = disk_addr s1" using Suc.prems(1,3) f by simp_all
  obtain s' where s': "fat16_count_items s1 st (c + (if img p = 0xE5 then 0 else 1)) =
      Some (c + (if img p = 0xE5 then 0 else 1) + int (live_entries img (p + 32) k), s')" "read_step s1 s' (out_bytes (stk_item s1) 32)"
    using Suc.IH [OF dr(1) Suc.prems(2) dr(2) s1(4) live rest] by blast
  have "fat16_count_items s st c = fat16_count_items s1 st (c + (if img p = 0xE5 then 0 else 1))"
    using s1(1,3) nz i by (subst fat16_count_items.simps) (simp add: config_simps)
  then show ?case using s' read_step_trans [OF s1(2) s'(2) [unfolded i]] by (auto simp: live_entries_Suc)
qed

section \<open>The root directory\<close>

text \<open>The geometry that the boot sector of an image gives, and the boot sector in memory.\<close>

definition img16 :: "(nat \<Rightarrow> u8) \<Rightarrow> nat \<Rightarrow> nat" where
  "img16 img p = unat (ucast (img p) OR push_bit 8 (ucast (img (p + 1))) :: u16)"

definition root_start :: "(nat \<Rightarrow> u8) \<Rightarrow> nat" where
  "root_start img = unat (img 16) * img16 img 22 + img16 img 14"

definition root_bytes :: "(nat \<Rightarrow> u8) \<Rightarrow> nat" where
  "root_bytes img = 32 * img16 img 17"

definition header_at :: "memory \<Rightarrow> u32 \<Rightarrow> (nat \<Rightarrow> u8) \<Rightarrow> bool" where
  "header_at m p img \<longleftrightarrow> (\<forall>j<62. m (p + of_nat j) = img j)"

lemma header_at_fields:
  assumes "header_at m p img"
  shows "uint (hd_sect_per_cluster m p) = int (unat (img 13))" "uint (hd_reserved_sectors m p) = int (img16 img 14)"
    "uint (hd_number_of_fat m p) = int (unat (img 16))" "uint (hd_root_entries m p) = int (img16 img 17)"
    "uint (hd_sectors_per_fat m p) = int (img16 img 22)" "hd_ext_boot_signature m p = img 38"
proof -
  have b: "m (p + of_nat j) = img j" if "j < 62" for j using assms that by (simp add: header_at_def)
  have w: "unat (load16 m (p + of_nat j)) = img16 img j" if "j < 61" for j
    using b [of j] b [of "j + 1"] that by (simp add: load16_def img16_def ac_simps)
  have 14: "unat (load16 m (p + 14)) = img16 img 14" and 17: "unat (load16 m (p + 17)) = img16 img 17"
    and 22: "unat (load16 m (p + 22)) = img16 img 22" using w [of 14] w [of 17] w [of 22] by simp_all
  show "uint (hd_reserved_sectors m p) = int (img16 img 14)" "uint (hd_root_entries m p) = int (img16 img 17)"
    "uint (hd_sectors_per_fat m p) = int (img16 img 22)"
    unfolding hd_reserved_sectors_def hd_root_entries_def hd_sectors_per_fat_def 14 [symmetric] 17 [symmetric] 22 [symmetric]
    by (rule uint_nat)+
  have "m (p + 13) = img 13" "m (p + 16) = img 16" "m (p + 38) = img 38" using b [of 13] b [of 16] b [of 38] by simp_all
  then show "uint (hd_sect_per_cluster m p) = int (unat (img 13))" "uint (hd_number_of_fat m p) = int (unat (img 16))"
    "hd_ext_boot_signature m p = img 38"
    unfolding hd_sect_per_cluster_def hd_number_of_fat_def hd_ext_boot_signature_def by (simp_all only: uint_nat [symmetric])
qed

lemma dir_fields:
  assumes "m' = store32 (store32 (store32 (store32 m q d) (q + 4) t) (q + 8) r) (q + 12) e"
  shows "load32 m' q = d" "load32 m' (q + 4) = t" "load32 m' (q + 12) = e"
proof -
  have o: "load32 (store32 m (q + 4) v) q = load32 m q" "load32 (store32 m (q + 8) v) q = load32 m q"
    "load32 (store32 m (q + 12) v) q = load32 m q" "load32 (store32 m (q + 8) v) (q + 4) = load32 m (q + 4)"
    "load32 (store32 m (q + 12) v) (q + 4) = load32 m (q + 4)" for m v
    by (simp_all add: load32_def store32_def add.assoc)
  then show "load32 m' q = d" "load32 m' (q + 4) = t" "load32 m' (q + 12) = e" by (simp_all add: assms o load32_store32_same)
qed

definition root_slot :: "u32 \<Rightarrow> u32 set" where
  "root_slot p = {a. 64 \<le> unat (a - p) \<and> unat (a - p) < 80}"

abbreviation name_local :: "'a fat_state_scheme \<Rightarrow> u32 set" where
  "name_local s \<equiv> out_bytes (stk_name s) 108"

abbreviation item_local :: "'a fat_state_scheme \<Rightarrow> u32 set" where
  "item_local s \<equiv> out_bytes (stk_item s) 32"

lemma fat16_get_dir_items_live:
  assumes "ata_drive (bus s) img n" "n < 2 ^ 22" "sector_size (the_disk s) = 512"
    and st: "fp_dir_read (mem s) (fs_private (the_disk s)) = st" "stream_disk (disk_streams s st) = disk_addr s"
    and k: "\<And>i. i < k \<Longrightarrow> img (512 * q + 32 * i) \<noteq> 0" "img (512 * q + 32 * k) = 0" "512 * q + 32 * Suc k < 512 * n"
  shows "\<exists>s'. fat16_get_dir_items s (word_of_int (int q)) = Some (int (live_entries img (512 * q) k), s') \<and> read_step s s' (item_local s)"
proof -
  let ?s1 = "seek_to s st (int (512 * q))"
  have "sint (word_of_int (int q) * word_of_int 512 :: u32) = int (512 * q)"
    using sint_of_nat_u32 [of "512 * q"] k(3) assms(2) by (simp add: mult.commute)
  then have "fat16_get_dir_items s (word_of_int (int q)) = fat16_count_items ?s1 st 0"
    by (simp add: fat16_get_dir_items_def st(1) assms(3) disk_stream_seek_def)
  moreover obtain s' where "fat16_count_items ?s1 st 0 = Some (0 + int (live_entries img (512 * q) k), s')"
      "read_step ?s1 s' (item_local ?s1)"
    using fat16_count_items_live [of ?s1 img n st "512 * q" k 0] assms(1,2) st(2) k by auto
  ultimately show ?thesis using read_step_trans [OF read_step_seek] by auto
qed

text \<open>
  A root directory of \<open>root_bytes\<close> bytes on a disk of \<open>n\<close> sectors, whose entry \<open>k\<close> is the first that has never been used.
\<close>

definition root_dir_ok :: "(nat \<Rightarrow> u8) \<Rightarrow> nat \<Rightarrow> nat \<Rightarrow> bool" where
  "root_dir_ok img n k \<longleftrightarrow> n < 2 ^ 22 \<and> 512 * root_start img + root_bytes img < 512 * n \<and> 32 * Suc k \<le> root_bytes img \<and>
     (\<forall>i<k. img (512 * root_start img + 32 * i) \<noteq> 0) \<and> img (512 * root_start img + 32 * k) = 0"

lemma live_entries_le: "live_entries img p k \<le> k"
  unfolding live_entries_def using length_filter_le [of _ "[0..<k]"] by simp

lemma root_bytes_bound: "root_bytes img < 2 ^ 21"
proof -
  have "img16 img 17 < 2 ^ 16" 
    unfolding img16_def by (rule order_less_le_trans [OF unsigned_less]) simp
  then show ?thesis by (simp add: root_bytes_def)
qed

lemma unat_root_bytes [simp]: "unat (of_nat (root_bytes img) :: u32) = root_bytes img"
  using root_bytes_bound [of img] by (intro unat_of_nat_u32) simp

lemma out_bytes_extent: "t < 2 ^ 32 \<Longrightarrow> out_bytes p t \<subseteq> extent p (blocks_for (of_nat t))"
  using in_extent_blocks_for [of _ p "of_nat t"] by (auto simp: word_less_nat_alt)

text \<open>What \<^verbatim>\<open>fat16_get_root\<close> stores.\<close>

definition root_loaded :: "memory \<Rightarrow> u32 \<Rightarrow> (nat \<Rightarrow> u8) \<Rightarrow> nat \<Rightarrow> bool" where
  "root_loaded m p img k \<longleftrightarrow> fdir_total m (fp_root p) = int (live_entries img (512 * root_start img) k) \<and>
     fdir_sector_end m (fp_root p) = int (root_start img + root_bytes img div 512) \<and>
     (\<forall>j<root_bytes img. m (fdir_item m (fp_root p) + of_nat j) = img (512 * root_start img + j))"

lemma drv_poke_root:
  assumes "kheap_wf s"
  shows "drv_step s (poke32 (poke32 (poke32 (poke32 s (p + 64) a) (p + 68) b) (p + 72) c) (p + 76) d) (root_slot p)"
  by (rule drv_step_trans [OF _ drv_poke], rule drv_step_trans [OF _ drv_poke], rule drv_step_trans [OF _ drv_poke], rule drv_poke)
    (use assms in \<open>simp_all add: root_slot_def add.assoc\<close>)

lemma fat16_get_root_ok:
  assumes wf: "kheap_wf s" "kfits s (blocks_for (of_nat (root_bytes img)) + m)"
    and dr: "ata_drive (bus s) img n" "root_dir_ok img n k"
    and p: "(p, 1) \<in> kallocs s" "fs_private (the_disk s) = p" "sector_size (the_disk s) = 512" "header_at (mem s) p img"
    and st: "fp_dir_read (mem s) p = st" "(st, 1) \<in> kallocs s" "stream_disk (disk_streams s st) = disk_addr s"
    and stk: "item_local s \<inter> kregion s = {}"
  shows "\<exists>s'. fat16_get_root s p (fp_root p) = Some (0, s') \<and> drv_step s s' (root_slot p \<union> item_local s) \<and>
    root_loaded (mem s') p img k \<and> (fdir_item (mem s') (fp_root p), blocks_for (of_nat (root_bytes img))) \<in> kallocs s' \<and> kfits s' m"
proof -
  let ?q = "root_start img" and ?b = "root_bytes img" and ?A = "root_slot p \<union> item_local s"
  let ?B = "blocks_for (of_nat ?b)"
  note d = dr(2) [unfolded root_dir_ok_def]
  note h = header_at_fields [OF p(4)]
  have b: "0 < ?b" "?b < 2 ^ 21" using d root_bytes_bound by auto
  have "?q < 2 ^ 22" "k < 2 ^ 31" using d b by auto
  then have small: "512 * ?q < 2 ^ 31" "?q + ?b div 512 < 2 ^ 31" "live_entries img (512 * ?q) k < 2 ^ 31"
    using d b live_entries_le [of img "512 * ?q" k] by auto
  obtain s1 where s1: "fat16_get_dir_items s (word_of_int (int ?q)) = Some (int (live_entries img (512 * ?q) k), s1)"
      "read_step s s1 (item_local s)"
    using fat16_get_dir_items_live [OF dr(1) _ p(3), of st k ?q] p(2) st d by auto
  note 1 = drv_step_read [OF wf(1) s1(2)]
  note f1 = drv_step_fields [OF 1(1)]
  obtain dir s2 where al: "kzalloc s1 (of_nat ?b) = (dir, s2)" by force
  have fit1: "kfits s1 (?B + m)" using wf(2) 1(3) by simp
  note 2 = kzalloc_drv [OF f1(8) _ _ fit1 al, unfolded unat_root_bytes, simplified, OF b(1)]
  have lim: "?b \<le> 4294963200" using b(2) by simp
  note 2 = 2 [OF lim]
  note f2 = drv_step_fields [OF 2(1)]
  have pl: "(p, 1) \<in> kallocs s1" "(p, 1) \<in> kallocs s2" "(st, 1) \<in> kallocs s1" using p(1) st(2) 1(2) 2(2) by auto
  have off: "a \<notin> item_local s" if "a \<in> extent p 1" for a using kz.allocs_region [OF wf(1) p(1)] stk that by blast
  have off88: "p + 88 + i \<notin> item_local s" if "i \<in> {0, 1, 2, 3}" for i
    using that by (intro off) (auto simp: extent_def add.assoc)
  have st2: "fp_dir_read (mem s2) p = st"
    using drv_load32 [OF 1(1) p(1), of 88] drv_load32 [OF 2(1) pl(1), of 88] off88 st(1) by (simp add: fp_dir_read_def)
  let ?s3 = "seek_to s2 st (int (512 * ?q))"
  have dk: "stream_disk (disk_streams s2 st) = disk_addr s2"
    using f1(3) f2(3) f1(10) [OF st(2)] f2(10) [OF pl(3)] st(3) by simp
  obtain s4 where s4: "disk_stream_read ?s3 st dir (int ?b) = Some (0, s4)" "read_step ?s3 s4 (out_bytes dir ?b)"
    "\<And>j. j < ?b \<Longrightarrow> mem s4 (dir + of_nat j) = img (512 * ?q + j)"
    using stream_read [of ?s3 img n st "512 * ?q" ?b dir] dr(1) d dk f1(1) f2(1) by auto
  have r4: "read_step s2 s4 (out_bytes dir ?b)" by (rule read_step_trans [OF read_step_seek s4(2)])
  note 4 = drv_step_read [OF f2(8) r4]
  let ?t = "word_of_int (int (live_entries img (512 * ?q) k)) :: u32" and ?e = "word_of_int (int (?q + ?b div 512)) :: u32"
  let ?s8 = "poke32 (poke32 (poke32 (poke32 s4 (p + 64) dir) (p + 64 + 4) ?t) (p + 64 + 8) (word_of_int (int ?q))) (p + 64 + 12) ?e"
  have 8: "drv_step s4 ?s8 (root_slot p)" using drv_poke_root [OF drv_step_fields(8) [OF 4(1)]] by (simp add: add.assoc)
  have oe: "out_bytes dir ?b \<subseteq> extent dir ?B" using out_bytes_extent [of ?b dir] b(2) by simp
  have sub: "out_bytes dir ?b \<subseteq> ?A \<union> extent dir ?B" "root_slot p \<subseteq> ?A \<union> extent dir ?B" "item_local s \<subseteq> ?A" using oe by blast+
  have 28: "drv_step s2 ?s8 (?A \<union> extent dir ?B)"
    by (rule drv_step_trans [OF drv_step_mono [OF 4(1) sub(1)] drv_step_mono [OF 8 sub(2)]])
  have 18: "drv_step s1 ?s8 ?A" by (rule drv_step_fresh [OF drv_step_mono [OF 2(1) empty_subsetI] 28 2(9)])
  have step: "drv_step s ?s8 ?A" by (rule drv_step_trans [OF drv_step_mono [OF 1(1) sub(3)] 18])
  note m8 = dir_fields [of "mem ?s8" "mem s4" "p + 64" dir ?t "word_of_int (int ?q)" ?e, unfolded poke32_view, OF refl]
  have item: "fdir_item (mem ?s8) (fp_root p) = dir" using m8(1) by (simp add: fdir_item_def fp_root_def)
  have byte: "mem ?s8 (dir + of_nat j) = img (512 * ?q + j)" if "j < ?b" for j
  proof -
    have "dir + of_nat j \<in> out_bytes dir ?b" using that b(2) by simp
    then have e: "dir + of_nat j \<in> extent dir ?B" using oe by (rule subsetD [rotated])
    moreover have "root_slot p \<subseteq> extent p 1" by (auto simp: root_slot_def extent_def)
    ultimately have "dir + of_nat j \<notin> root_slot p" using 2(8) [OF pl(1)] by blast
    moreover have "kprot s4 (dir + of_nat j)" using 4(2) 2(2) e by (intro kprot_live [of dir ?B]) auto
    ultimately show ?thesis using drv_step_fields(12) [OF 8] s4(3) [OF that] by simp
  qed
  have "sint ?t = int (live_entries img (512 * ?q) k)" "sint ?e = int (?q + ?b div 512)"
    using sint_of_nat_u32 [OF small(2)] sint_of_nat_u32 [OF small(3)] by simp_all
  then have "root_loaded (mem ?s8) p img k"
    unfolding root_loaded_def item using byte m8(2,3)
    by (intro conjI allI impI) (simp_all only: fdir_total_def fdir_sector_end_def fp_root_def poke32_view)
  moreover have "fat16_get_root s p (fp_root p) = Some (0, ?s8)"
  proof -
    have pos: "uint (hd_number_of_fat (mem s) p) * uint (hd_sectors_per_fat (mem s) p) + uint (hd_reserved_sectors (mem s) p) = int ?q"
      "uint (hd_root_entries (mem s) p) * sizeof_fat_dir_item = int ?b"
      by (simp_all add: h root_start_def root_bytes_def config_simps)
    have abs: "fat16_sector_to_abs s2 (int ?q) = int (512 * ?q)"
      using small(1) f1(2) f2(2) p(3) by (simp add: fat16_sector_to_abs_def mult.commute)
    have w: "(word_of_int (int ?b) :: u32) = of_nat ?b" by simp
    have "int ?b div 512 = int (?b div 512)" by (simp add: zdiv_int)
    then have q: "(of_nat ?q :: u32) + word_of_int (int ?b div 512) = of_nat (?q + ?b div 512)"
      by (simp only: of_int_of_nat_eq of_nat_add)
    have sec: "sector_size (the_disk s4) = 512" using p(3) f1(2) f2(2) drv_step_fields(2) [OF 4(1)] by simp
    have seek: "disk_stream_seek s2 st (int (512 * ?q)) = (0, ?s3)" by (simp add: disk_stream_seek_def)
    show ?thesis
      unfolding fat16_get_root_def Let_def pos w s1(1) al
      using 2(4) p(3) b(1)
      by (simp del: of_nat_add of_nat_mult of_nat_numeral add: al s1 st2 abs seek s4(1) sec q fp_root_def)
  qed
  moreover have "(dir, ?B) \<in> kallocs ?s8" "kfits ?s8 m" using 2(2,5) 4(2,3) by simp_all
  ultimately show ?thesis using step item by auto
qed

section \<open>\<^verbatim>\<open>fat16_resolve\<close>\<close>

lemma the_disk_view [simp]:
  "kallocs (s\<lparr>the_disk := d\<rparr>) = kallocs s" "kfits (s\<lparr>the_disk := d\<rparr>) n = kfits s n" "kheap_wf (s\<lparr>the_disk := d\<rparr>) = kheap_wf s"
  "kregion (s\<lparr>the_disk := d\<rparr>) = kregion s" "kprot (s\<lparr>the_disk := d\<rparr>) a = kprot s a"
  by (simp_all add: kheap_view_defs kprot_def)

lemma drv_frame_disk: "drv_frame s s' \<Longrightarrow> drv_frame (s\<lparr>the_disk := d\<rparr>) (s'\<lparr>the_disk := d\<rparr>)"
proof -
  assume "drv_frame s s'"
  then obtain m t h ds where "s' = s\<lparr>mem := m, io_trace := t, kernel_heap := h, disk_streams := ds\<rparr>" unfolding drv_frame_def by blast
  then have "s'\<lparr>the_disk := d\<rparr> = s\<lparr>the_disk := d, mem := m, io_trace := t, kernel_heap := h, disk_streams := ds\<rparr>" by simp
  then show ?thesis by (rule drv_frameI)
qed

text \<open>The state after the boot sector has been read into the private data at \<open>p\<close>.\<close>

definition header_read :: "'a fat_state_scheme \<Rightarrow> u32 \<Rightarrow> (nat \<Rightarrow> u8) \<Rightarrow> bool" where
  "header_read s p img \<longleftrightarrow> kheap_wf s \<and> (p, 1) \<in> kallocs s \<and> fs_private (the_disk s) = p \<and> disk_fs (the_disk s) = fat16_fs s \<and>
     sector_size (the_disk s) = 512 \<and> header_at (mem s) p img \<and> fp_fat_read (mem s) p \<noteq> fp_cluster_read (mem s) p \<and>
     (\<forall>r \<in> {fp_cluster_read, fp_fat_read, fp_dir_read}. (r (mem s) p, 1) \<in> kallocs s \<and> r (mem s) p \<noteq> 0 \<and>
        stream_disk (disk_streams s (r (mem s) p)) = disk_addr s)"

lemma drv_priv_read:
  assumes "drv_step s s' A" "(p, 1) \<in> kallocs s" "\<And>k. 80 \<le> unat k \<Longrightarrow> unat k < 92 \<Longrightarrow> p + k \<notin> A"
    and "r \<in> {fp_cluster_read, fp_fat_read, fp_dir_read}"
  shows "r (mem s') p = r (mem s) p"
proof -
  have "p + k + i \<notin> A" if "k \<in> {80, 84, 88}" "i \<in> {0, 1, 2, 3}" for k i using that by (auto simp: add.assoc assms(3))
  then have "load32 (mem s') (p + k) = load32 (mem s) (p + k)" if "k \<in> {80, 84, 88}" for k
    using that by (intro drv_load32 [OF assms(1,2)]) auto
  from this [of 80] this [of 84] this [of 88]
  have "fp_cluster_read (mem s') p = fp_cluster_read (mem s) p" "fp_fat_read (mem s') p = fp_fat_read (mem s) p"
    "fp_dir_read (mem s') p = fp_dir_read (mem s) p"
    by (simp_all add: fp_cluster_read_def fp_fat_read_def fp_dir_read_def)
  then show ?thesis using assms(4) by (elim insertE) simp_all
qed

lemma drv_streams:
  assumes "drv_step s s' A" "(p, 1) \<in> kallocs s" "\<And>k. 80 \<le> unat k \<Longrightarrow> unat k < 92 \<Longrightarrow> p + k \<notin> A"
    and "\<forall>r \<in> {fp_cluster_read, fp_fat_read, fp_dir_read}. (r (mem s) p, 1) \<in> kallocs s \<and> r (mem s) p \<noteq> 0 \<and>
      stream_disk (disk_streams s (r (mem s) p)) = disk_addr s"
  shows "\<forall>r \<in> {fp_cluster_read, fp_fat_read, fp_dir_read}. (r (mem s') p, 1) \<in> kallocs s' \<and> r (mem s') p \<noteq> 0 \<and>
      stream_disk (disk_streams s' (r (mem s') p)) = disk_addr s'"
proof
  fix r assume r: "r \<in> {fp_cluster_read, fp_fat_read, fp_dir_read}"
  note f = drv_step_fields [OF assms(1)]
  have "(r (mem s) p, 1) \<in> kallocs s" "r (mem s) p \<noteq> 0" "stream_disk (disk_streams s (r (mem s) p)) = disk_addr s"
    using assms(4) r by blast+
  moreover have "r (mem s') p = r (mem s) p" using assms(3) by (rule drv_priv_read [OF assms(1,2) _ r])
  ultimately show "(r (mem s') p, 1) \<in> kallocs s' \<and> r (mem s') p \<noteq> 0 \<and> stream_disk (disk_streams s' (r (mem s') p)) = disk_addr s'"
    using f(3,9,10) by auto
qed

text \<open>Up to the test of the signature.\<close>

lemma fat16_resolve_header:
  assumes wf: "kheap_wf s" "kfits s (m + 5)" and dr: "ata_drive (bus s) img n" "n < 2 ^ 22" "0 < n"
    and d: "sector_size (the_disk s) = 512" "disk_id (the_disk s) = 0" "disk_addr s \<noteq> 0"
  obtains p str s5 where "header_read s5 p img" "kfits s5 m" "(str, 1) \<in> kallocs s5" "kallocs s \<subseteq> kallocs s5"
    "\<And>q k. (q, k) \<in> kallocs s \<Longrightarrow> p \<noteq> q \<and> str \<noteq> q" "str \<noteq> p"
    "bus s5 = bus s" "disk_addr s5 = disk_addr s" "stk_item s5 = stk_item s" "stk_entry s5 = stk_entry s"
    "kregion s5 = kregion s" "fat16_fs s5 = fat16_fs s" "extent p 1 \<subseteq> kregion s"
    "drv_frame (s\<lparr>the_disk := the_disk s5\<rparr>) s5" "\<And>a. kprot s a \<Longrightarrow> a \<notin> extent p 1 \<and> kprot s5 a \<and> mem s5 a = mem s a"
    "fat16_resolve s =
       (if img 38 \<noteq> 0x29 then Some (- EFSNOTUS, fat16_resolve_fail s5 str p)
        else do {
          (r', s6) \<leftarrow> fat16_get_root s5 p (fp_root p);
          if r' \<noteq> 0 then Some (- EIO, fat16_resolve_fail s6 str p) else Some (0, s6)
        })"
proof -
  obtain p s1 where al: "kzalloc s 92 = (p, s1)" by force
  have fit: "kfits s (blocks_for 92 + (m + 4))" using wf(2) by (simp add: blocks_for_8 add.commute)
  note 1 = kzalloc_drv [OF wf(1) _ _ fit al, unfolded blocks_for_8, simplified]
  note f1 = drv_step_fields [OF 1(1)]
  define s2 where "s2 = fat16_init_private s1 p"
  have "kfits s1 (m + 1 + 3)" using 1(5) by (simp add: add.commute)
  note 2 = fat16_init_private_ok [OF f1(8) this _ _ _ s2_def, unfolded f1(2,3) 1(2), OF d(3,2), simplified]
  note f2 = drv_step_fields [OF 2(1)]
  define s3 where "s3 = s2\<lparr>the_disk := (the_disk s2)\<lparr>fs_private := p, disk_fs := fat16_fs s2\<rparr>\<rparr>"
  obtain str s4 where new: "disk_stream_new s3 0 = (str, s4)" by force
  have k3: "kheap_wf s3" "kfits s3 (Suc m)" "disk_addr s3 \<noteq> 0" using f2(3,8) 2(2) f1(3) d(3) by (simp_all add: s3_def)
  note 4 = disk_stream_new_ok [OF k3 new]
  note f4 = drv_step_fields [OF 4(1)]
  have b4: "bus s4 = bus s" using f1(1) f2(1) f4(1) by (simp add: s3_def)
  obtain s5 where s5: "disk_stream_read s4 str p (int 62) = Some (0, s5)" "read_step s4 s5 (out_bytes p 62)"
    "\<And>j. j < 62 \<Longrightarrow> mem s5 (p + of_nat j) = img j"
    using stream_read [of s4 img n str 0 62 p] dr 4(6) f4(3) b4 by auto
  note 5 = drv_step_read [OF f4(8) s5(2)]
  note f5 = drv_step_fields [OF 5(1)]
  have p2: "(p, 1) \<in> kallocs s2" using f2(9) 1(2) by auto
  have p4: "(p, 1) \<in> kallocs s4" using f4(9) p2 by (auto simp: s3_def)
  have off: "p + k \<notin> out_bytes p 62" if "80 \<le> unat k" for k using that by simp
  have str3: "\<forall>r \<in> {fp_cluster_read, fp_fat_read, fp_dir_read}. (r (mem s3) p, 1) \<in> kallocs s3 \<and> r (mem s3) p \<noteq> 0 \<and>
      stream_disk (disk_streams s3 (r (mem s3) p)) = disk_addr s3" using 2(3) f2(3) f1(3) by (simp add: s3_def)
  have p3: "(p, 1) \<in> kallocs s3" using p2 by (simp add: s3_def)
  have str4: "\<forall>r \<in> {fp_cluster_read, fp_fat_read, fp_dir_read}. (r (mem s4) p, 1) \<in> kallocs s4 \<and> r (mem s4) p \<noteq> 0 \<and>
      stream_disk (disk_streams s4 (r (mem s4) p)) = disk_addr s4" by (rule drv_streams [OF 4(1) p3 _ str3]) simp
  have str5: "\<forall>r \<in> {fp_cluster_read, fp_fat_read, fp_dir_read}. (r (mem s5) p, 1) \<in> kallocs s5 \<and> r (mem s5) p \<noteq> 0 \<and>
      stream_disk (disk_streams s5 (r (mem s5) p)) = disk_addr s5" using off by (intro drv_streams [OF 5(1) p4 _ str4])
  have same: "r (mem s5) p = r (mem s2) p" if "r \<in> {fp_cluster_read, fp_fat_read, fp_dir_read}" for r
    using drv_priv_read [OF 4(1) p3 _ that] drv_priv_read [OF 5(1) p4 _ that] off by (simp add: s3_def)
  have disk5: "the_disk s5 = (the_disk s)\<lparr>fs_private := p, disk_fs := fat16_fs s\<rparr>"
    using f1(2,6) f2(2,6) f4(2) f5(2) by (simp add: s3_def)
  have "drv_frame (s\<lparr>the_disk := the_disk s5\<rparr>) s3"
    using drv_frame_disk [OF drv_frame_trans [OF f1(13) f2(13)], of "the_disk s5"] by (simp add: s3_def disk5 f1(2,6) f2(2,6))
  then have frm: "drv_frame (s\<lparr>the_disk := the_disk s5\<rparr>) s5" using f4(13) f5(13) by (blast intro: drv_frame_trans)
  have fs: "fat16_fs s5 = fat16_fs s" using f1(6) f2(6) f4(6) f5(6) by (simp add: s3_def)
  have hdr: "header_at (mem s5) p img" using s5(3) by (simp add: header_at_def)
  have "fp_fat_read (mem s5) p \<noteq> fp_cluster_read (mem s5) p" using 2(4) same [of fp_fat_read] same [of fp_cluster_read] by simp
  then have read: "header_read s5 p img"
    unfolding header_read_def using f5(8) p4 5(2) d(1) str5 hdr by (simp add: disk5 fs)
  have run: "fat16_resolve s = (if img 38 \<noteq> 0x29 then Some (- EFSNOTUS, fat16_resolve_fail s5 str p)
        else do {
          (r', s6) \<leftarrow> fat16_get_root s5 p (fp_root p);
          if r' \<noteq> 0 then Some (- EIO, fat16_resolve_fail s6 str p) else Some (0, s6)
        })"
  proof -
    have id3: "disk_id (the_disk s3) = 0" using d(2) f1(2) f2(2) by (simp add: s3_def)
    show ?thesis
      unfolding fat16_resolve_def Let_def al prod.case s2_def [symmetric] s3_def [symmetric] id3 new
      using s5(1) 4(4) header_at_fields(6) [OF hdr] by (simp add: config_simps)
  qed
  have frame: "a \<notin> extent p 1 \<and> kprot s5 a \<and> mem s5 a = mem s a" if a: "kprot s a" for a
  proof -
    have n: "a \<notin> extent p 1" using 1(9) [OF a] by simp
    then have "a \<notin> priv_bytes p" "a \<notin> out_bytes p 62" using priv_extent [of p] by (auto simp: extent_def)
    moreover note k1 = f1(11) [OF a]
    moreover have k3: "kprot s3 a" using f2(11) [OF k1] by (simp add: s3_def)
    ultimately show ?thesis
      using n f1(12) [OF a] f2(12) [OF k1] f4(12) [OF k3] f5(12) [OF f4(11) [OF k3]] f5(11) [OF f4(11) [OF k3]] by (simp add: s3_def)
  qed
  show thesis
  proof (rule that [OF read])
    show "kfits s5 m" using 5(3) 4(5) by simp
    show "(str, 1) \<in> kallocs s5" "kallocs s \<subseteq> kallocs s5" using 4(2) 5(2) f1(9) f2(9) f4(9) by (auto simp: s3_def)
    have "kallocs s \<subseteq> kallocs s3" using f1(9) f2(9) by (auto simp: s3_def)
    then show "p \<noteq> q \<and> str \<noteq> q" if "(q, k) \<in> kallocs s" for q k using 1(3) [OF that] 4(3) that by blast
    show "str \<noteq> p" by (rule 4(3) [OF p3])
    show "bus s5 = bus s" "disk_addr s5 = disk_addr s" "stk_item s5 = stk_item s" "stk_entry s5 = stk_entry s" "kregion s5 = kregion s"
      using f1 f2 f4 f5 by (simp_all add: s3_def)
  qed (use fs 1(7) frame run frm in simp_all)
qed

definition volume_of :: "'a fat_state_scheme \<Rightarrow> (nat \<Rightarrow> u8) \<Rightarrow> nat \<Rightarrow> volume" where
  "volume_of s img n = \<lparr>v_img = img, v_sectors = n, v_reserved = img16 img 14, v_spc = unat (img 13),
     v_data = root_start img + root_bytes img div 512, v_fat_read = fp_fat_read (mem s) (fs_private (the_disk s)),
     v_cluster_read = fp_cluster_read (mem s) (fs_private (the_disk s))\<rparr>"

text \<open>Everything the driver needs later is in live allocations of the heap.\<close>

definition mount_live :: "'a fat_state_scheme \<Rightarrow> (nat \<Rightarrow> u8) \<Rightarrow> bool" where
  "mount_live s img \<longleftrightarrow> (let p = fs_private (the_disk s) in kheap_wf s \<and> (p, 1) \<in> kallocs s \<and>
     (fdir_item (mem s) (fp_root p), blocks_for (of_nat (root_bytes img))) \<in> kallocs s \<and>
     (\<forall>r \<in> {fp_cluster_read, fp_fat_read, fp_dir_read}. (r (mem s) p, 1) \<in> kallocs s))"

lemma fat16_resolve_effect:
  assumes wf: "kheap_wf s" "kfits s (blocks_for (of_nat (root_bytes img)) + m + 5)"
    and dr: "ata_drive (bus s) img n" "root_dir_ok img n k" "img 38 = 0x29" "img 13 \<noteq> 0"
    and d: "sector_size (the_disk s) = 512" "disk_id (the_disk s) = 0" "disk_addr s \<noteq> 0"
    and stk: "item_local s \<inter> kregion s = {}" "entry_bytes s \<inter> kregion s = {}"
  shows "\<exists>s'. fat16_resolve s = Some (0, s') \<and> mounted s' (volume_of s' img n) \<and>
    root_loaded (mem s') (fs_private (the_disk s')) img k \<and> mount_live s' img \<and> disk_fs (the_disk s') = fat16_fs s \<and>
    kallocs s \<subseteq> kallocs s' \<and> kregion s' = kregion s \<and> drv_frame (s\<lparr>the_disk := the_disk s'\<rparr>) s' \<and> kfits s' m \<and>
    (\<forall>a. kprot s a \<and> a \<notin> item_local s \<longrightarrow> mem s' a = mem s a)"
proof -
  have n: "n < 2 ^ 22" "0 < n" using dr(2) by (auto simp: root_dir_ok_def)
  obtain p str s5 where h: "header_read s5 p img" "kfits s5 (blocks_for (of_nat (root_bytes img)) + m)" "kallocs s \<subseteq> kallocs s5"
    "bus s5 = bus s" "disk_addr s5 = disk_addr s" "stk_item s5 = stk_item s" "stk_entry s5 = stk_entry s"
    "kregion s5 = kregion s" "fat16_fs s5 = fat16_fs s" "extent p 1 \<subseteq> kregion s"
    "\<And>a. kprot s a \<Longrightarrow> a \<notin> extent p 1 \<and> kprot s5 a \<and> mem s5 a = mem s a"
    "drv_frame (s\<lparr>the_disk := the_disk s5\<rparr>) s5"
    "fat16_resolve s = do {
       (r', s6) \<leftarrow> fat16_get_root s5 p (fp_root p);
       if r' \<noteq> 0 then Some (- EIO, fat16_resolve_fail s6 str p) else Some (0, s6)
     }"
    by (rule fat16_resolve_header [OF wf dr(1) n d]) (simp add: dr(3))
  note r = h(1) [unfolded header_read_def]
  note rd = conjunct2 [OF conjunct2 [OF conjunct2 [OF conjunct2 [OF conjunct2 [OF conjunct2 [OF conjunct2 [OF r]]]]]]]
  obtain s6 where s6: "fat16_get_root s5 p (fp_root p) = Some (0, s6)" "drv_step s5 s6 (root_slot p \<union> item_local s5)"
    "root_loaded (mem s6) p img k" "(fdir_item (mem s6) (fp_root p), blocks_for (of_nat (root_bytes img))) \<in> kallocs s6"
    "kfits s6 m"
    using fat16_get_root_ok [of s5 img m n k p, OF _ h(2) _ dr(2) _ _ _ _ refl] r rd dr(1) stk(1) h(4,6,8) by auto
  note f6 = drv_step_fields [OF s6(2)]
  have off: "p + k \<notin> root_slot p \<union> item_local s5" if "unat k < 64 \<or> 80 \<le> unat k" "unat k < 92" for k
  proof -
    have "p + k \<in> kregion s" using h(10) that by (intro subsetD [OF h(10)]) (simp add: extent_def)
    then show ?thesis using that stk(1) h(6) by (auto simp: root_slot_def)
  qed
  have p5: "(p, 1) \<in> kallocs s5" and disk: "the_disk s6 = the_disk s5" "fs_private (the_disk s6) = p" using r f6(2) by simp_all
  have off': "p + k \<notin> root_slot p \<union> item_local s5" if "80 \<le> unat k" "unat k < 92" for k using off that by blast
  have str6: "\<forall>r \<in> {fp_cluster_read, fp_fat_read, fp_dir_read}. (r (mem s6) p, 1) \<in> kallocs s6 \<and> r (mem s6) p \<noteq> 0 \<and>
      stream_disk (disk_streams s6 (r (mem s6) p)) = disk_addr s6" by (rule drv_streams [OF s6(2) p5 off' rd])
  have "fp_fat_read (mem s6) p = fp_fat_read (mem s5) p" "fp_cluster_read (mem s6) p = fp_cluster_read (mem s5) p"
    by (rule drv_priv_read [OF s6(2) p5 off'], simp_all)+
  then have "fp_fat_read (mem s6) p \<noteq> fp_cluster_read (mem s6) p" using r by simp
  moreover have "header_at (mem s6) p img" unfolding header_at_def
  proof (intro allI impI)
    fix j :: nat assume j: "j < 62"
    have "p + of_nat j \<notin> root_slot p \<union> item_local s5" by (rule off) (use j in simp_all)
    moreover have "kprot s5 (p + of_nat j)" by (rule kprot_live [OF p5]) (use j in \<open>simp add: extent_def\<close>)
    ultimately have "mem s6 (p + of_nat j) = mem s5 (p + of_nat j)" by (rule f6(12) [rotated])
    then show "mem s6 (p + of_nat j) = img j" using r j by (simp add: header_at_def)
  qed
  moreover have "priv_bytes p \<inter> entry_bytes s6 = {}" using stk(2) h(7,10) f6(5) priv_extent [of p] by auto
  moreover have "0 < unat (img 13)" using dr(4) by (simp add: unat_gt_0)
  ultimately have "mounted s6 (volume_of s6 img n)"
    using header_at_fields(1,2) [of "mem s6" p img] s6(3) str6 disk r f6(1) h(4) dr(1) n(1)
    by (auto simp: mounted_def priv_ok_def volume_of_def root_loaded_def)
  moreover have "mem s6 a = mem s a" if "kprot s a \<and> a \<notin> item_local s" for a
  proof -
    have "root_slot p \<subseteq> extent p 1" by (auto simp: root_slot_def extent_def)
    then have "a \<notin> root_slot p \<union> item_local s5" using h(6) h(11) [of a] that by auto
    then show ?thesis using f6(12) [of a] h(11) [of a] that by simp
  qed
  moreover have "mount_live s6 img" using f6(8,9) p5 s6(4) disk(2) str6 by (auto simp: mount_live_def Let_def)
  moreover have "fat16_resolve s = Some (0, s6)" using h(13) s6(1) by simp
  moreover have "drv_frame (s\<lparr>the_disk := the_disk s6\<rparr>) s6" unfolding disk(1) by (rule drv_frame_trans [OF h(12) f6(13)])
  ultimately show ?thesis using s6(3,5) disk r h(3,8,9) f6(7,9) by (intro exI [of _ s6]) auto
qed

section \<open>Finding the file system at boot\<close>

text \<open>
  The file system is ready for use: mounted, with the root directory in memory, all of it in live allocations,
  and the local variables of the driver (which are on the stack) outside the heap.
\<close>

definition fs_ready :: "'a fat_state_scheme \<Rightarrow> (nat \<Rightarrow> u8) \<Rightarrow> nat \<Rightarrow> nat \<Rightarrow> bool" where
  "fs_ready s img n k \<longleftrightarrow> mounted s (volume_of s img n) \<and> root_loaded (mem s) (fs_private (the_disk s)) img k \<and> mount_live s img \<and>
     disk_fs (the_disk s) = fat16_fs s \<and> fat16_fs s \<noteq> 0 \<and> disk_addr s \<noteq> 0 \<and>
     item_local s \<inter> kregion s = {} \<and> entry_bytes s \<inter> kregion s = {} \<and> name_local s \<inter> kregion s = {}"

text \<open>The state in which \<^verbatim>\<open>kernel_main\<close> looks for a file system: \<open>n\<close> sectors, and room for the driver in the heap.\<close>

definition boot_ready :: "'a file_state_scheme \<Rightarrow> (nat \<Rightarrow> u8) \<Rightarrow> nat \<Rightarrow> nat \<Rightarrow> bool" where
  "boot_ready s img n m \<longleftrightarrow> kheap_wf s \<and> kfits s (m + 5) \<and> ata_drive (bus s) img n \<and> disk_addr s \<noteq> 0 \<and> fat16_fs s \<noteq> 0 \<and>
     item_local s \<inter> kregion s = {} \<and> entry_bytes s \<inter> kregion s = {} \<and> name_local s \<inter> kregion s = {}"

definition boot_state :: "'a file_state_scheme \<Rightarrow> 'a file_state_scheme" where
  "boot_state s = s\<lparr>file_descriptors := replicate 512 0, file_systems := fat16_fs s # replicate 11 0,
     the_disk := \<lparr>disk_type = 0, sector_size = 512, disk_id = 0, disk_fs = 0, fs_private = 0\<rparr>\<rparr>"

lemma boot_state_view [simp]:
  "kallocs (boot_state s) = kallocs s" "kfits (boot_state s) n = kfits s n" "kheap_wf (boot_state s) = kheap_wf s"
  "kregion (boot_state s) = kregion s" "kprot (boot_state s) a = kprot s a" "mem (boot_state s) = mem s" "bus (boot_state s) = bus s"
  "disk_addr (boot_state s) = disk_addr s" "fat16_fs (boot_state s) = fat16_fs s" "stk_item (boot_state s) = stk_item s"
  "stk_entry (boot_state s) = stk_entry s" "stk_name (boot_state s) = stk_name s" "disk_streams (boot_state s) = disk_streams s"
  "the_disk (boot_state s) = \<lparr>disk_type = 0, sector_size = 512, disk_id = 0, disk_fs = 0, fs_private = 0\<rparr>"
  by (simp_all add: boot_state_def kheap_view_defs kprot_def)

lemma fs_resolve_null: "fs_resolve_loop s (replicate n 0) = Some (0, s)"
  by (induction n) simp_all

lemma disk_search_after_init:
  assumes "fat16_fs s \<noteq> 0"
  shows "Option.bind (fs_init s) disk_search_and_init =
    Option.bind (fat16_resolve (boot_state s)) (\<lambda>(r, s1). Some (s1\<lparr>the_disk := (the_disk s1)\<lparr>disk_fs := if r = 0 then fat16_fs s else 0\<rparr>\<rparr>))"
proof -
  let ?t = "s\<lparr>file_descriptors := replicate 512 0, file_systems := fat16_fs s # replicate 11 0\<rparr>"
  have rep: "replicate 12 (0 :: u32) = 0 # replicate 11 0" by (simp add: numeral_eq_Suc)
  have "fs_init s = Some ?t"
    by (simp add: fs_init_def fs_load_def fs_static_load_def fs_insert_file_system_def fs_get_free_file_system_def fat16_init_def
        config_simps rep del: replicate.simps)
  moreover have "fs_resolve (boot_state s) =
      Option.bind (fat16_resolve (boot_state s)) (\<lambda>(r, s1). if r = 0 then Some (fat16_fs s, s1) else Some (0, s1))"
    using assms by (simp add: fs_resolve_def boot_state_def fs_resolve_null cong: if_cong)
  moreover have "disk_search_and_init ?t = Option.bind (fs_resolve (boot_state s)) (\<lambda>(fs, s2). Some (s2\<lparr>the_disk := (the_disk s2)\<lparr>disk_fs := fs\<rparr>\<rparr>))"
    by (simp add: disk_search_and_init_def boot_state_def config_simps)
  ultimately show ?thesis by (cases "fat16_resolve (boot_state s)") auto
qed

lemma file_fields_more:
  "fat_state.more s' = fat_state.more s \<Longrightarrow>
   file_systems s' = file_systems s \<and> file_descriptors s' = file_descriptors s \<and> descriptors s' = descriptors s \<and>
   file_state.more s' = file_state.more s" for s :: "'a file_state_scheme"
  by (cases s; cases s') simp

lemma disk_search_effect:
  assumes "boot_ready s img n (blocks_for (of_nat (root_bytes img)) + m)" "root_dir_ok img n k" "img 38 = 0x29" "img 13 \<noteq> 0"
  shows "\<exists>s'. Option.bind (fs_init s) disk_search_and_init = Some s' \<and> fs_ready s' img n k \<and> file_descriptors s' = replicate 512 0 \<and>
    kfits s' m \<and> kregion s' = kregion s \<and> stk_entry s' = stk_entry s \<and> stk_name s' = stk_name s \<and> stk_item s' = stk_item s \<and>
    file_state.more s' = file_state.more s \<and> (\<forall>a. kprot s a \<longrightarrow> kprot s' a) \<and> (\<forall>a. kprot s a \<and> a \<notin> item_local s \<longrightarrow> mem s' a = mem s a)"
proof -
  note b = assms(1) [unfolded boot_ready_def]
  obtain s' where s': "fat16_resolve (boot_state s) = Some (0, s')" "mounted s' (volume_of s' img n)"
    "root_loaded (mem s') (fs_private (the_disk s')) img k" "mount_live s' img" "disk_fs (the_disk s') = fat16_fs s"
    "kallocs s \<subseteq> kallocs s'" "kregion s' = kregion s" "drv_frame ((boot_state s)\<lparr>the_disk := the_disk s'\<rparr>) s'" "kfits s' m"
    "\<forall>a. kprot s a \<and> a \<notin> item_local s \<longrightarrow> mem s' a = mem s a"
    using fat16_resolve_effect [of "boot_state s" img m n k] b assms(2-4) by auto
  note f = drv_frame_fields [OF s'(8)]
  have "s'\<lparr>the_disk := (the_disk s')\<lparr>disk_fs := fat16_fs s\<rparr>\<rparr> = s'" using s'(5) by simp
  then have "Option.bind (fs_init s) disk_search_and_init = Some s'" using disk_search_after_init [of s] b s'(1) by simp
  moreover have "fs_ready s' img n k" using s'(2-5,7) f b by (simp add: fs_ready_def)
  moreover have "file_descriptors s' = replicate 512 0" "file_state.more s' = file_state.more s"
    using file_fields_more [OF f(10)] by (simp_all add: boot_state_def)
  moreover have "kprot s' a" if "kprot s a" for a using that s'(6,7) by (auto simp: kprot_def)
  moreover have "stk_entry s' = stk_entry s" "stk_name s' = stk_name s" "stk_item s' = stk_item s" using f by simp_all
  ultimately show ?thesis using s'(7,9,10) by blast
qed

text \<open>
  C8: after \<^verbatim>\<open>fs_init\<close>, \<^verbatim>\<open>disk_search_and_init\<close> recognises a FAT16 volume on the disk and mounts it: the driver holds the geometry
  of the boot sector, its streams read from the disk, the root directory is in memory byte for byte, the number
  of its entries is that of the entries in use before the first one never used, no file is open, and memory
  that was protected before is unchanged except the local directory item. Five blocks and those of the root
  directory are taken from the heap: a run of \<open>m\<close> more free blocks is still free.
\<close>

theorem disk_search_mounts:
  assumes "boot_ready s img n (blocks_for (of_nat (root_bytes img)) + m)" "root_dir_ok img n k" "img 38 = 0x29" "img 13 \<noteq> 0"
  shows "\<exists>s'. Option.bind (fs_init s) disk_search_and_init = Some s' \<and> fs_ready s' img n k \<and> file_descriptors s' = replicate 512 0 \<and>
    kfits s' m \<and> (\<forall>a. kprot s a \<and> a \<notin> item_local s \<longrightarrow> mem s' a = mem s a)"
  using disk_search_effect [OF assms] by blast

text \<open>
  A volume with one sector per cluster, two tables of one sector and a root directory of 16 entries from sector 3 on.
  Entry 0 is the file \<^verbatim>\<open>HI.TXT\<close> with the contents \<open>c\<close> in cluster 2, which is sector 4; entry 1 is a deleted one. The path
  \<^verbatim>\<open>0:/hi.txt\<close> is in memory.
\<close>

definition boot_img :: "u8 list \<Rightarrow> nat \<Rightarrow> u8" where
  "boot_img c k =
     (if k < 512 then (if k = 13 \<or> k = 14 \<or> k = 22 then 1 else if k = 16 then 2 else if k = 17 then 16 else if k = 38 then 0x29 else 0)
      else if 1536 \<le> k \<and> k < 1600 then ([0x48, 0x49, 0x20, 0x20, 0x20, 0x20, 0x20, 0x20, 0x54, 0x58, 0x54, 0x20] @
        replicate 14 0 @ [2, 0, of_nat (length c), 0, 0, 0] @ 0xE5 # replicate 31 0x20) ! (k - 1536)
      else if 2048 \<le> k \<and> k < 2048 + length c then c ! (k - 2048)
      else 0)"

abbreviation demo_boot_img :: "nat \<Rightarrow> u8" where
  "demo_boot_img \<equiv> boot_img [0x68, 0x65, 0x6C, 0x6C, 0x6F]"

definition demo_boot_mem :: memory where
  "demo_boot_mem = (\<lambda>_. 0)(0x2000 := 0x30, 0x2001 := 0x3A, 0x2002 := 0x2F, 0x2003 := 0x68, 0x2004 := 0x69, 0x2005 := 0x2E,
     0x2006 := 0x74, 0x2007 := 0x78, 0x2008 := 0x74)"

text \<open>A machine with that disk and a heap of \<open>N\<close> blocks.\<close>

definition demo_machine :: "'a file_state_scheme \<Rightarrow> u8 list \<Rightarrow> u32 \<Rightarrow> bool" where
  "demo_machine s c N \<longleftrightarrow> bus s = demo_bus (boot_img c) \<and> disk_addr s = 0x5000 \<and> fat16_fs s = 0x9300 \<and> stk_item s = 0x9000 \<and>
     mem s = demo_boot_mem \<and> stk_entry s = 0x9100 \<and> stk_name s = 0x9200 \<and> kernel_heap s = demo_heap N \<and> 64 \<le> uint N \<and> uint N \<le> 25600"

definition demo_boot :: file_state where
  "demo_boot = fat_state.extend (disk_state.extend ((demo_disk demo_boot_img)\<lparr>mem := demo_boot_mem\<rparr>) (fat_state.fields 0x9000 0x9100 0x9200 0x9300))
     (file_state.fields [] [] (\<lambda>_. \<lparr>fd_index = 0, fd_fs = 0, private_data = 0, fd_disk = 0\<rparr>))"

lemma demo_boot_machine: "demo_machine demo_boot [0x68, 0x65, 0x6C, 0x6C, 0x6F] 64"
  by (simp add: demo_machine_def demo_boot_def demo_opened_defs)

lemma boot_img_geometry: "root_start (boot_img c) = 3" "root_bytes (boot_img c) = 512"
  by (simp_all add: root_start_def root_bytes_def img16_def boot_img_def)

lemma boot_img_root: "root_dir_ok (boot_img c) (2 ^ 22 - 1) 2"
proof -
  have "boot_img c (1536 + 32 * i) \<noteq> 0" if "i < 2" for i
  proof -
    have "i = 0 \<or> i = 1" using that by auto
    then show ?thesis by (auto simp: boot_img_def nth_append nth_Cons')
  qed
  then show ?thesis by (simp add: root_dir_ok_def boot_img_geometry boot_img_def)
qed

lemma demo_low:
  assumes "demo_machine s c N" "unat a < 0x10000"
  shows "a \<notin> kregion s"
proof -
  have "int (unat a) < int 0x10000" using assms(2) by (simp only: of_nat_less_iff)
  then show ?thesis using assms(1) by (simp add: demo_machine_def kheap_view_defs heap_region_def demo_heap_def config_simps)
qed

lemma demo_machine_ready:
  assumes "demo_machine s c N" "m + 5 \<le> unat N"
  shows "boot_ready s (boot_img c) (2 ^ 22 - 1) m"
proof -
  note d = assms(1) [unfolded demo_machine_def]
  have out: "a \<notin> kregion s" if "unat (a - 0x9000) < 32 \<or> a = 0x9100 \<or> a = 0x9101 \<or> unat (a - 0x9200) < 108" for a
    by (rule demo_low [OF assms(1)]) (use that in \<open>auto simp: unat_sub_if' unat_arith_simps split: if_splits\<close>)
  have "int (m + 5) \<le> int (unat N)" using assms(2) by (simp only: of_nat_le_iff)
  then have "int (m + 5) \<le> uint N" by (simp only: uint_nat)
  then have "kheap_wf s" "kfits s (m + 5)" using demo_heap_wf [of N] demo_heap_fits [of "m + 5" N] d by (simp_all add: kheap_view_defs)
  then show ?thesis using demo_drive [of "boot_img c"] out d by (auto simp: boot_ready_def)
qed

lemma boot_img_live: "live_entries (boot_img c) 1536 2 = 1"
  by (simp add: live_entries_def upt_conv_Cons boot_img_def nth_append nth_Cons')

theorem disk_search_mounts_witness:
  "\<exists>s'. Option.bind (fs_init demo_boot) disk_search_and_init = Some s' \<and> mounted s' (volume_of s' demo_boot_img (2 ^ 22 - 1)) \<and>
    fdir_total (mem s') (fp_root (fs_private (the_disk s'))) = 1"
proof -
  have r: "boot_ready demo_boot demo_boot_img (2 ^ 22 - 1) (blocks_for (of_nat (root_bytes demo_boot_img)) + 0)"
    by (rule demo_machine_ready [OF demo_boot_machine]) (simp add: boot_img_geometry blocks_for_def)
  have "fs_ready s' demo_boot_img (2 ^ 22 - 1) 2 \<Longrightarrow> fdir_total (mem s') (fp_root (fs_private (the_disk s'))) = 1" for s' :: file_state
    using boot_img_live by (simp add: fs_ready_def root_loaded_def boot_img_geometry)
  moreover obtain s' where "Option.bind (fs_init demo_boot) disk_search_and_init = Some s'" "fs_ready s' demo_boot_img (2 ^ 22 - 1) 2"
    using disk_search_mounts [OF r boot_img_root] by (auto simp: boot_img_def)
  ultimately show ?thesis by (auto simp: fs_ready_def)
qed

text \<open>
  C33: when the boot sector has no FAT16 signature, \<^verbatim>\<open>disk_search_and_init\<close> still returns: the disk has no file system and no private
  data, and every allocation that was live, with its contents, is kept. (The three streams of the private
  data are not released.)
\<close>

theorem disk_search_unknown:
  assumes "boot_ready s img n 0" "0 < n" "n < 2 ^ 22" "img 38 \<noteq> 0x29"
  shows "\<exists>s'. Option.bind (fs_init s) disk_search_and_init = Some s' \<and> disk_fs (the_disk s') = 0 \<and> fs_private (the_disk s') = 0 \<and>
    kheap_wf s' \<and> kallocs s \<subseteq> kallocs s' \<and> (\<forall>a. kprot s a \<longrightarrow> mem s' a = mem s a)"
proof -
  let ?s = "boot_state s"
  note b = assms(1) [unfolded boot_ready_def]
  obtain p str s5 where h: "header_read s5 p img" "(str, 1) \<in> kallocs s5" "kallocs s \<subseteq> kallocs s5" "str \<noteq> p"
    "\<And>q k. (q, k) \<in> kallocs s \<Longrightarrow> p \<noteq> q \<and> str \<noteq> q" "\<And>a. kprot s a \<Longrightarrow> mem s5 a = mem s a"
    "fat16_resolve ?s = Some (- EFSNOTUS, fat16_resolve_fail s5 str p)"
    by (rule fat16_resolve_header [of ?s 0 img n]) (use b assms(2-4) in auto)
  have wf: "kheap_wf s5" "(p, 1) \<in> kallocs s5" using h(1) by (simp_all add: header_read_def)
  have f: "kheap_wf (kfree s5 str)" "kallocs (kfree s5 str) = kallocs s5 - {(str, 1)}"
    using kz.free_inv [OF wf(1) h(2)] kz.free_allocs [OF wf(1) h(2)] by simp_all
  have "(p, 1) \<in> kallocs (kfree s5 str)" using f(2) wf(2) h(4) by auto
  note f2 = kz.free_inv [OF f(1) this] kz.free_allocs [OF f(1) this]
  have "kallocs s \<subseteq> kallocs (kfree (kfree s5 str) p)" using f2(2) f(2) h(3) h(5) [of str 1] h(5) [of p 1] by auto
  then show ?thesis
    using disk_search_after_init [of s] b h(6,7) f2(1)
    by (simp add: fat16_resolve_fail_def disk_stream_close_def Let_def config_simps)
qed

theorem disk_search_unknown_witness:
  "\<exists>s'. Option.bind (fs_init (demo_boot\<lparr>bus := demo_bus demo_img\<rparr>)) disk_search_and_init = Some s' \<and> disk_fs (the_disk s') = 0"
proof -
  have "boot_ready (demo_boot\<lparr>bus := demo_bus demo_img\<rparr>) demo_img (2 ^ 22 - 1) 0"
    using demo_machine_ready [OF demo_boot_machine, of 0] demo_drive [of demo_img] by (simp add: boot_ready_def kheap_view_defs)
  moreover have "demo_img 38 \<noteq> 0x29" by (simp add: demo_img_def)
  ultimately show ?thesis using disk_search_unknown by fastforce
qed

end
