(* ===== verification/File_Proofs.thy ===== *)
theory File_Proofs
  imports File_Model
begin

unbundle bit_operations_syntax

text \<open>
  Names and descriptors of files: \<^verbatim>\<open>fat16_file_name_resolve\<close> against the text of a directory entry, and the table of file
  descriptors.
\<close>

section \<open>Short names\<close>

text \<open>A field of a directory entry is padded with blanks; the name and the extension are joined by a dot.\<close>

definition field_text :: "memory \<Rightarrow> u32 \<Rightarrow> nat \<Rightarrow> u8 list" where
  "field_text m p n = takeWhile (\<lambda>c. c \<noteq> 0x00 \<and> c \<noteq> 0x20) (map (\<lambda>i. m (p + of_nat i)) [0..<n])"

definition short_name :: "memory \<Rightarrow> u32 \<Rightarrow> u8 list" where
  "short_name m item =
     (let nm = field_text m item 8; ext = field_text m (item + 8) 3 in if ext = [] then nm else nm @ 0x2E # ext)"

lemma field_text_Suc:
  "field_text m p (Suc n) = (if m p \<noteq> 0x00 \<and> m p \<noteq> 0x20 then m p # field_text m (p + 1) n else [])"
proof -
  have "map (\<lambda>i. m (p + of_nat i)) [0..<Suc n] = m p # map (\<lambda>i. m (p + 1 + of_nat i)) [0..<n]"
    by (simp add: map_upt_Suc add.assoc del: upt_Suc)
  then show ?thesis by (simp add: field_text_def)
qed

lemma field_text_Nil: "0 < n \<Longrightarrow> field_text m p n = [] \<longleftrightarrow> m p = 0x00 \<or> m p = 0x20"
  by (cases n) (auto simp: field_text_Suc)

lemma field_text_length: "length (field_text m p n) \<le> n"
  unfolding field_text_def by (rule order_trans [OF length_takeWhile_le]) simp

lemma field_text_cong: "(\<And>i. i < n \<Longrightarrow> m' (p + of_nat i) = m (p + of_nat i)) \<Longrightarrow> field_text m' p n = field_text m p n"
  unfolding field_text_def by (intro arg_cong [where f = "takeWhile _"] map_cong) auto

text \<open>Writing a list of bytes.\<close>

definition put_bytes :: "u32 \<Rightarrow> u8 list \<Rightarrow> memory \<Rightarrow> memory" where
  "put_bytes p w m a = (if unat (a - p) < length w then w ! unat (a - p) else m a)"

lemma put_bytes_Nil [simp]: "put_bytes p [] m = m"
  by (simp add: put_bytes_def fun_eq_iff)

lemma put_bytes_Cons:
  assumes "length w < 2 ^ 32 - 1"
  shows "put_bytes p (c # w) m = put_bytes (p + 1) w (m(p := c))"
proof
  fix a
  show "put_bytes p (c # w) m a = put_bytes (p + 1) w (m(p := c)) a"
  proof (cases "a = p")
    case True
    have "unat (p - (p + 1)) = 2 ^ 32 - 1" by (simp add: unsigned_minus_1_eq_mask mask_eq_exp_minus_1)
    then show ?thesis using True assms by (simp add: put_bytes_def)
  next
    case False
    then have "unat (a - p) \<noteq> 0" by (simp add: unat_eq_0)
    then obtain k where k: "unat (a - p) = Suc k" by (metis not0_implies_Suc)
    have "unat (a - (p + 1)) = k" using offset_shift(2) [of 1 2 a p] k by simp
    then show ?thesis using k False by (simp add: put_bytes_def)
  qed
qed

lemma fat16_fmt_str_text:
  assumes "n < 2 ^ 31" "\<And>i j. i < n \<Longrightarrow> j \<le> n \<Longrightarrow> inp + of_nat i \<noteq> out + of_nat j"
  shows "fat16_fmt_str n out inp m = (out + of_nat (length (field_text m inp n)), put_bytes out (field_text m inp n @ [0]) m)"
  using assms
proof (induction n arbitrary: out inp m)
  case 0
  then show ?case by (simp add: field_text_def put_bytes_Cons fun_upd_def)
next
  case (Suc n)
  show ?case
  proof (cases "m inp \<noteq> 0x00 \<and> m inp \<noteq> 0x20")
    case True
    let ?m = "m(out := m inp)" and ?w = "field_text m (inp + 1) n"
    have sep: "inp + 1 + of_nat i \<noteq> out + 1 + of_nat j" if "i < n" "j \<le> n" for i j
      using Suc.prems(2) [of "Suc i" "Suc j"] that by (simp add: algebra_simps)
    have w: "field_text ?m (inp + 1) n = ?w"
    proof (rule field_text_cong)
      fix i assume "i < n"
      then have "inp + 1 + of_nat i \<noteq> out" using Suc.prems(2) [of "Suc i" 0] by (simp add: algebra_simps)
      then show "?m (inp + 1 + of_nat i) = m (inp + 1 + of_nat i)" by simp
    qed
    have "n < 2 ^ 31" using Suc.prems(1) by simp
    from Suc.IH [OF this sep, of ?m]
    have "fat16_fmt_str n (out + 1) (inp + 1) ?m = (out + 1 + of_nat (length ?w), put_bytes (out + 1) (?w @ [0]) ?m)" unfolding w .
    moreover have "length (?w @ [0 :: u8]) < 2 ^ 32 - 1" using field_text_length [of m "inp + 1" n] Suc.prems(1) by simp
    ultimately show ?thesis using True by (simp add: field_text_Suc put_bytes_Cons)
  next
    case False
    then have "field_text m inp (Suc n) = []" by (auto simp: field_text_Suc)
    then show ?thesis using False by (auto simp: put_bytes_Cons)
  qed
qed

text \<open>Bytes written behind \<open>r\<close> bytes, seen from the start of the buffer.\<close>

lemma put_bytes_shift:
  assumes "r + length w < 2 ^ 32"
  shows "put_bytes (p + of_nat r) w m a =
    (if r \<le> unat (a - p) \<and> unat (a - p) < r + length w then w ! (unat (a - p) - r) else m a)"
proof -
  have "unat (a - (p + of_nat r)) < length w \<longleftrightarrow> r \<le> unat (a - p) \<and> unat (a - p) < r + length w"
    using offset_shift(1) [of r "r + length w" a p] assms by simp
  moreover have "unat (a - (p + of_nat r)) = unat (a - p) - r" if "r \<le> unat (a - p)"
    using offset_shift(2) [of r "r + length w" a p] assms that by simp
  ultimately show ?thesis by (simp add: put_bytes_def)
qed

lemma fat16_name_text:
  assumes "13 \<le> unat max_len" "\<And>i j. i < 11 \<Longrightarrow> j < unat max_len \<Longrightarrow> item + of_nat i \<noteq> out + of_nat j"
  shows "fat16_file_name_resolve item out max_len m a =
    (let w = short_name m item
     in if unat (a - out) < length w then w ! unat (a - out) else if unat (a - out) < unat max_len then 0 else m a)"
proof -
  let ?m1 = "memset out 0 max_len m" and ?nm = "field_text m item 8" and ?ext = "field_text m (item + 8) 3"
  have m1: "?m1 x = (if unat (x - out) < unat max_len then 0 else m x)" for x by (simp add: mem_simps word_less_nat_alt)
  have off: "\<not> unat (item + of_nat i - out) < unat max_len" if "i < 11" for i
  proof
    assume "unat (item + of_nat i - out) < unat max_len"
    then show False using assms(2) [OF that, of "unat (item + of_nat i - out)"] by simp
  qed
  have nm: "field_text ?m1 item 8 = ?nm" using off by (intro field_text_cong) (simp add: m1)
  have sep: "item + of_nat i \<noteq> out + of_nat j" if "i < 8" "j \<le> 8" for i j using assms that by simp
  let ?m2 = "put_bytes out (?nm @ [0]) ?m1"
  have fmt1: "fat16_fmt_str 8 out item ?m1 = (out + of_nat (length ?nm), ?m2)"
    using fat16_fmt_str_text [of 8 item out ?m1] sep by (simp add: nm)
  have l: "length ?nm \<le> 8" "length ?ext \<le> 3" by (rule field_text_length)+
  have m2: "?m2 x = (if unat (x - out) < length ?nm then ?nm ! unat (x - out) else if unat (x - out) < unat max_len then 0 else m x)" for x
    using l(1) assms(1) by (auto simp: put_bytes_def m1 nth_append less_Suc_eq)
  have ext: "field_text ?m2 (item + 8) 3 = ?ext"
  proof (rule field_text_cong)
    fix i :: nat assume "i < 3"
    then have far: "\<not> unat (item + 8 + of_nat i - out) < unat max_len" using off [of "8 + i"] by (simp add: add.assoc)
    then have "\<not> unat (item + 8 + of_nat i - out) < length ?nm" using l(1) assms(1) by linarith
    then show "?m2 (item + 8 + of_nat i) = m (item + 8 + of_nat i)" using far unfolding m2 by simp
  qed
  have ext_nil: "?ext = [] \<longleftrightarrow> \<not> (?m2 (item + 8) \<noteq> 0x00 \<and> ?m2 (item + 8) \<noteq> 0x20)"
    using field_text_Nil [of 3 ?m2 "item + 8"] ext by simp
  show ?thesis
  proof (cases "?ext = []")
    case True
    then have "fat16_file_name_resolve item out max_len m a = ?m2 a"
      using ext_nil by (auto simp: fat16_file_name_resolve_def di_name_def di_ext_def fmt1)
    then show ?thesis using True unfolding m2 by (simp add: short_name_def)
  next
    case False
    let ?r = "length ?nm"
    let ?p = "out + of_nat ?r"
    let ?m3 = "?m2(?p := 0x2E)" and ?w = "0x2E # ?ext @ [0]"
    have sep3: "item + 8 + of_nat i \<noteq> ?p + 1 + of_nat j" if "i < 3" "j \<le> 3" for i j
      using assms(2) [of "8 + i" "?r + 1 + j"] that l(1) assms(1) by (simp add: add.assoc)
    have "field_text ?m3 (item + 8) 3 = field_text ?m2 (item + 8) 3"
    proof (rule field_text_cong)
      fix i :: nat assume "i < 3"
      then have "item + 8 + of_nat i \<noteq> ?p" using assms(2) [of "8 + i" ?r] l(1) assms(1) by (simp add: add.assoc)
      then show "?m3 (item + 8 + of_nat i) = ?m2 (item + 8 + of_nat i)" by simp
    qed
    then have e3: "field_text ?m3 (item + 8) 3 = ?ext" using ext by simp
    have three: "(3 :: nat) < 2 ^ 31" by simp
    have "fat16_fmt_str 3 (?p + 1) (item + 8) ?m3 = (?p + 1 + of_nat (length ?ext), put_bytes (?p + 1) (?ext @ [0]) ?m3)"
      using fat16_fmt_str_text [OF three sep3, of ?m3] unfolding e3 .
    moreover have "put_bytes (?p + 1) (?ext @ [0]) ?m3 = put_bytes ?p ?w ?m2"
      using l(2) by (intro put_bytes_Cons [symmetric]) simp
    ultimately have "fat16_file_name_resolve item out max_len m a = put_bytes ?p ?w ?m2 a"
      using False ext_nil by (simp add: fat16_file_name_resolve_def di_name_def di_ext_def fmt1)
    also have "\<dots> = (if ?r \<le> unat (a - out) \<and> unat (a - out) < ?r + length ?w then ?w ! (unat (a - out) - ?r) else ?m2 a)"
      using l by (intro put_bytes_shift) simp
    finally show ?thesis
      using False l assms(1) unfolding m2 by (auto simp: short_name_def Let_def nth_append nth_Cons' less_Suc_eq)
  qed
qed

text \<open>
  C29: \<^verbatim>\<open>fat16_file_name_resolve\<close> writes the short name of a directory entry, the name without its padding and, when there is an
  extension, a dot and the extension without its padding, at the start of the buffer; the rest of the buffer is
  zero and no other memory changes. The letters keep their case: \<^verbatim>\<open>TEST    TXT\<close> gives \<^verbatim>\<open>TEST.TXT\<close>.
\<close>

theorem fat16_file_name_resolve_text:
  assumes "13 \<le> unat max_len" "\<And>i j. i < 11 \<Longrightarrow> j < unat max_len \<Longrightarrow> item + of_nat i \<noteq> out + of_nat j"
  shows "fat16_file_name_resolve item out max_len m a =
    (let w = short_name m item
     in if unat (a - out) < length w then w ! unat (a - out) else if unat (a - out) < unat max_len then 0 else m a)"
  using assms by (rule fat16_name_text)

text \<open>A directory entry with the name \<^verbatim>\<open>SH\<close> and the extension \<^verbatim>\<open>C\<close>, in a memory of blanks.\<close>

definition demo_entry :: memory where
  "demo_entry = (\<lambda>_. 0x20)(0x100 := 0x53, 0x101 := 0x48, 0x108 := 0x43)"

theorem fat16_file_name_resolve_text_witness:
  "map (\<lambda>i. fat16_file_name_resolve 0x100 0x200 108 demo_entry (0x200 + of_nat i)) [0..<6] = [0x53, 0x48, 0x2E, 0x43, 0, 0]"
proof -
  have sep: "0x100 + of_nat i \<noteq> (0x200 + of_nat j :: u32)" if "i < 11" "j < unat (108 :: u32)" for i j
  proof -
    have w: "(0x100 + of_nat i :: u32) = of_nat (0x100 + i)" "(0x200 + of_nat j :: u32) = of_nat (0x200 + j)" by simp_all
    have "unat (of_nat (0x100 + i) :: u32) = 0x100 + i" "unat (of_nat (0x200 + j) :: u32) = 0x200 + j"
      using that by (intro unat_of_nat_u32; simp)+
    then have "unat (of_nat (0x100 + i) :: u32) \<noteq> unat (of_nat (0x200 + j) :: u32)" using that(1) by linarith
    then show ?thesis unfolding w by metis
  qed
  have w: "short_name demo_entry 0x100 = [0x53, 0x48, 0x2E, 0x43]"
    by (simp add: short_name_def field_text_def demo_entry_def upt_rec)
  have "fat16_file_name_resolve 0x100 0x200 108 demo_entry a =
      (let w = short_name demo_entry 0x100
       in if unat (a - 0x200) < length w then w ! unat (a - 0x200) else if unat (a - 0x200) < unat (108 :: u32) then 0 else demo_entry a)" for a
    by (rule fat16_file_name_resolve_text [OF _ sep]) simp_all
  then show ?thesis by (simp add: w upt_rec)
qed

section \<open>File descriptors\<close>

lemma first_null_Some: "first_null xs = Some i \<Longrightarrow> i < length xs \<and> xs ! i = 0 \<and> (\<forall>j<i. xs ! j \<noteq> 0)"
proof (induction xs arbitrary: i)
  case (Cons x xs)
  then show ?case by (cases i) (auto split: if_splits simp: nth_Cons' less_Suc_eq_0_disj)
qed simp

text \<open>
  C30: with room in the heap \<^verbatim>\<open>file_new_descriptor\<close> takes the first free slot \<open>i\<close> of the table and numbers the descriptor
  \<open>i + 1\<close>; \<^verbatim>\<open>file_get_descriptor\<close> finds it under this number, and every other number as before. Only the last slot cannot be
  found again: number 512 is refused. Freeing the descriptor gives back the table.
\<close>

theorem file_descriptor_table:
  assumes "kheap_wf s" "0 < kavail s" "length (file_descriptors s) = 512" "first_null (file_descriptors s) = Some i"
    and "file_new_descriptor s = (r, desc, s')"
  shows "r = 0 \<and> desc \<noteq> 0 \<and> fd_index (descriptors s' desc) = int i + 1 \<and>
    (\<forall>fd. file_get_descriptor s' fd = (if fd = int i + 1 \<and> fd < 512 then desc else file_get_descriptor s fd)) \<and>
    file_descriptors (file_free_descriptor s' desc) = file_descriptors s \<and>
    kallocs (file_free_descriptor s' desc) = kallocs s"
proof -
  obtain p s1 where al: "kzalloc s 16 = (p, s1)" by force
  have "kheap_state.more s1 = kheap_state.more s"
    using al by (auto simp: kzalloc_def kmalloc_def Let_def split: prod.splits if_splits)
  then have f1: "file_descriptors s1 = file_descriptors s" "descriptors s1 = descriptors s" by (cases s; cases s1; simp)+
  have pg: "kheap_wf s1" "p \<noteq> 0" "kallocs s1 = insert (p, 1) (kallocs s)" "\<And>q k. (q, k) \<in> kallocs s \<Longrightarrow> p \<noteq> q"
    using kzalloc_page [OF assms(1,2) _ _ al] by simp_all
  note i = first_null_Some [OF assms(4)]
  let ?d = "\<lparr>fd_index = int i + 1, fd_fs = 0, private_data = 0, fd_disk = 0\<rparr>"
  have run: "r = 0" "desc = p" "s' = s1\<lparr>descriptors := (descriptors s)(p := ?d), file_descriptors := (file_descriptors s)[i := p]\<rparr>"
    using assms(4,5) al f1 by (auto simp: file_new_descriptor_def)
  have get: "file_get_descriptor s' fd = (if fd = int i + 1 \<and> fd < 512 then p else file_get_descriptor s fd)" for fd
  proof (cases "fd \<le> 0 \<or> fd \<ge> 512")
    case False
    then have "nat (fd - 1) < 512" "nat (fd - 1) = i \<longleftrightarrow> fd = int i + 1" by linarith+
    then show ?thesis using False i assms(3) by (simp add: run(3) file_get_descriptor_def config_simps nth_list_update)
  qed (auto simp: file_get_descriptor_def config_simps)
  have "file_descriptors (file_free_descriptor s' p) = (file_descriptors s)[i := p, i := 0]"
    by (simp add: run(3) file_free_descriptor_def kfree_def)
  then have table: "file_descriptors (file_free_descriptor s' p) = file_descriptors s"
    using i by (simp add: list_update_same_conv)
  have "kallocs (file_free_descriptor s' p) = kallocs (kfree s1 p)"
    by (simp add: run(3) file_free_descriptor_def kfree_def kheap_view_defs)
  also have "\<dots> = kallocs s1 - {(p, 1)}" using kz.free_allocs [OF pg(1), of p 1] pg(3) by simp
  also have "\<dots> = kallocs s" using pg(3,4) by blast
  finally show ?thesis using get table pg(2) by (simp add: run)
qed

text \<open>A table with descriptors in every slot but the last.\<close>

definition demo_table :: file_state where
  "demo_table = fat_state.extend (disk_state.extend (demo_disk demo_img) (fat_state.fields 0x9000 0x9100 0x9200 0x9300))
     (file_state.fields (replicate 12 0) (replicate 511 7 @ [0]) (\<lambda>_. \<lparr>fd_index = 0, fd_fs = 0, private_data = 0, fd_disk = 0\<rparr>))"

theorem file_descriptor_table_witness:
  "\<exists>desc s'. file_new_descriptor demo_table = (0, desc, s') \<and> fd_index (descriptors s' desc) = 512 \<and> file_get_descriptor s' 512 = 0"
proof -
  have heap: "kheap_wf demo_table" "0 < kavail demo_table"
  proof -
    have "free_blocks (demo_heap 64) = {0 ..< 64}" by (auto simp: demo_heap_def heap_get_entry_type_def config_simps)
    then show "kheap_wf demo_table" "0 < kavail demo_table"
      by (simp_all add: demo_table_def demo_disk_def kheap_view_defs heap_avail_def demo_heap_wf fat_state.extend_def disk_state.extend_def)
  qed
  have null: "first_null (replicate n 7 @ [0]) = Some n" for n by (induction n) simp_all
  have fds: "length (file_descriptors demo_table) = 512" "first_null (file_descriptors demo_table) = Some 511"
    by (simp_all add: demo_table_def fat_state.extend_def file_state.fields_def null)
  obtain r desc s' where run: "file_new_descriptor demo_table = (r, desc, s')" by (cases "file_new_descriptor demo_table")
  show ?thesis
    using file_descriptor_table [OF heap fds run] run by (auto simp: file_get_descriptor_def config_simps)
qed

end
