(* ===== verification/Fat16_Open.thy ===== *)
theory Fat16_Open
  imports Fat16_Mount File_Proofs
begin

unbundle bit_operations_syntax

text \<open>
  Opening: \<^verbatim>\<open>fopen\<close> of a path finds the entry of the root directory with that name and opens it, so that \<^verbatim>\<open>fread\<close> delivers its
  clusters. This joins the path parser, the heap, the FAT16 driver and the table of file descriptors.
\<close>

section \<open>Comparing names\<close>

lemma istrncmp_loop_zero:
  "istrncmp_loop m n s1 s2 a b = 0 \<longleftrightarrow> a = b \<and> (\<forall>j<n. tolower (m (s1 + of_nat j)) = tolower (m (s2 + of_nat j)))"
proof (induction n arbitrary: s1 s2 a b)
  case (Suc n)
  have "(\<forall>j<Suc n. tolower (m (s1 + of_nat j)) = tolower (m (s2 + of_nat j))) \<longleftrightarrow>
      tolower (m s1) = tolower (m s2) \<and> (\<forall>j<n. tolower (m (s1 + 1 + of_nat j)) = tolower (m (s2 + 1 + of_nat j)))"
    by (auto simp: less_Suc_eq_0_disj add.assoc)
  then show ?case using Suc.IH by (auto simp: sint_eq_iff)
qed simp

lemma tolower_zero: "tolower c = 0 \<longleftrightarrow> c = 0"
proof
  assume z: "tolower c = 0"
  show "c = 0"
  proof (rule ccontr)
    assume "c \<noteq> 0"
    then have c: "sint c > 64" "sint c < 91" "c + 32 = 0" using z by (auto simp: tolower_def split: if_splits)
    from c(3) have "c = - 32" by (simp add: eq_neg_iff_add_eq_0)
    then show False using c(1) by simp
  qed
qed (simp add: tolower_def)

lemma istrncmp_padded:
  assumes "\<And>j. j < 108 \<Longrightarrow> m (a + of_nat j) = (if j < length v then v ! j else 0)" "length v < 108" "0 \<notin> set v"
    and "\<And>j. j < 108 \<Longrightarrow> m (b + of_nat j) = (if j < length w then w ! j else 0)" "length w < 108" "0 \<notin> set w"
  shows "istrncmp m a b 108 = 0 \<longleftrightarrow> map tolower v = map tolower w"
proof -
  let ?v = "\<lambda>j. if j < length v then v ! j else 0" and ?w = "\<lambda>j. if j < length w then w ! j else 0"
  have "istrncmp m a b 108 = 0 \<longleftrightarrow> (\<forall>j<108. tolower (?v j) = tolower (?w j))"
    using assms(1,4) by (auto simp: istrncmp_def istrncmp_loop_zero)
  also have "\<dots> \<longleftrightarrow> map tolower v = map tolower w"
  proof
    assume e: "\<forall>j<108. tolower (?v j) = tolower (?w j)"
    have nz: "x ! j \<noteq> 0" if "0 \<notin> set x" "j < length x" for x :: "u8 list" and j using that nth_mem by metis
    have "length v = length w"
    proof (rule linorder_cases)
      assume l: "length v < length w"
      then have "tolower 0 = tolower (w ! length v)" using e [rule_format, of "length v"] assms(5) by simp
      then show ?thesis using nz [OF assms(6) l] tolower_zero [of "w ! length v"] tolower_zero [of 0] by simp
    next
      assume l: "length w < length v"
      then have "tolower (v ! length w) = tolower 0" using e [rule_format, of "length w"] assms(2) by simp
      then show ?thesis using nz [OF assms(3) l] tolower_zero [of "v ! length w"] tolower_zero [of 0] by simp
    qed
    moreover have "tolower (v ! i) = tolower (w ! i)" if "i < length v" for i
      using e [rule_format, of i] that calculation assms(2) by simp
    ultimately show "map tolower v = map tolower w" by (intro nth_equalityI) simp_all
  next
    assume e: "map tolower v = map tolower w"
    then have "length v = length w" by (metis length_map)
    then show "\<forall>j<108. tolower (?v j) = tolower (?w j)" using e by (auto simp: list_eq_iff_nth_eq)
  qed
  finally show ?thesis .
qed

section \<open>Live memory\<close>

text \<open>
  A step of the driver that writes, of the heap, only what it allocates keeps everything that is live; outside
  the heap it writes the local variables of the driver only.
\<close>

definition drv_locals :: "'a fat_state_scheme \<Rightarrow> u32 set" where
  "drv_locals s = item_local s \<union> entry_bytes s \<union> name_local s"

definition live_keep :: "'a fat_state_scheme \<Rightarrow> 'a fat_state_scheme \<Rightarrow> bool" where
  "live_keep s s' \<longleftrightarrow> bus s' = bus s \<and> the_disk s' = the_disk s \<and> disk_addr s' = disk_addr s \<and> stk_item s' = stk_item s \<and>
     stk_entry s' = stk_entry s \<and> stk_name s' = stk_name s \<and> fat16_fs s' = fat16_fs s \<and> kregion s' = kregion s \<and> kheap_wf s' \<and>
     kallocs s \<subseteq> kallocs s' \<and>
     (\<forall>st k. (st, k) \<in> kallocs s \<longrightarrow> stream_disk (disk_streams s' st) = stream_disk (disk_streams s st)) \<and>
     (\<forall>p k a. (p, k) \<in> kallocs s \<and> a \<in> extent p k \<longrightarrow> mem s' a = mem s a) \<and>
     (\<forall>a. kprot s a \<longrightarrow> kprot s' a \<and> (a \<notin> drv_locals s \<longrightarrow> mem s' a = mem s a))"

lemma live_keep_fields:
  assumes "live_keep s s'"
  shows "bus s' = bus s" "the_disk s' = the_disk s" "disk_addr s' = disk_addr s" "stk_item s' = stk_item s" "stk_entry s' = stk_entry s"
    "stk_name s' = stk_name s" "fat16_fs s' = fat16_fs s" "kregion s' = kregion s" "kheap_wf s'" "kallocs s \<subseteq> kallocs s'" "drv_locals s' = drv_locals s"
    "\<And>st k. (st, k) \<in> kallocs s \<Longrightarrow> stream_disk (disk_streams s' st) = stream_disk (disk_streams s st)"
    "\<And>p k a. (p, k) \<in> kallocs s \<Longrightarrow> a \<in> extent p k \<Longrightarrow> mem s' a = mem s a"
    "\<And>a. kprot s a \<Longrightarrow> kprot s' a" "\<And>a. kprot s a \<Longrightarrow> a \<notin> drv_locals s \<Longrightarrow> mem s' a = mem s a"
proof -
  note k = assms [unfolded live_keep_def]
  show "bus s' = bus s" "the_disk s' = the_disk s" "disk_addr s' = disk_addr s" "stk_item s' = stk_item s" "stk_entry s' = stk_entry s"
    "stk_name s' = stk_name s" "fat16_fs s' = fat16_fs s" "kregion s' = kregion s" "kheap_wf s'" "kallocs s \<subseteq> kallocs s'"
    using k by simp_all
  then show "drv_locals s' = drv_locals s" by (simp add: drv_locals_def)
qed (use assms in \<open>unfold live_keep_def, blast+\<close>)

lemma live_keep_trans:
  assumes "live_keep s s1" "live_keep s1 s2"
  shows "live_keep s s2"
proof -
  note 1 = live_keep_fields [OF assms(1)] and 2 = live_keep_fields [OF assms(2)]
  show ?thesis unfolding live_keep_def
  proof (intro conjI allI impI)
    show "stream_disk (disk_streams s2 st) = stream_disk (disk_streams s st)" if "(st, k) \<in> kallocs s" for st k
      using 1(12) [OF that] 2(12) [OF subsetD [OF 1(10) that]] by simp
    show "mem s2 a = mem s a" if "(p, k) \<in> kallocs s \<and> a \<in> extent p k" for p k a
      using that 1(13) [of p k a] 2(13) [of p k a] subsetD [OF 1(10), of "(p, k)"] by simp
    show "mem s2 a = mem s a" if "kprot s a" "a \<notin> drv_locals s" for a
      using that 1(14,15) [OF that(1)] 2(14,15) [of a] 1(11) by simp
    show "kprot s2 a" if "kprot s a" for a using 2(14) [OF 1(14) [OF that]] .
  qed (use 1(1-11) 2(1-11) in \<open>simp_all add: order_trans [OF 1(10) 2(10)]\<close>)
qed

lemma live_keep_drv:
  assumes "drv_step s s' A" "A \<inter> kregion s = {}" "kheap_wf s" "A \<subseteq> drv_locals s"
  shows "live_keep s s'"
proof -
  note f = drv_step_fields [OF assms(1)]
  have "mem s' a = mem s a" if "(p, k) \<in> kallocs s" "a \<in> extent p k" for p k a
    using f(12) [OF kprot_live [OF that]] kz.allocs_region [OF assms(3) that(1)] that(2) assms(2) by blast
  moreover have "kprot s' a \<and> (a \<notin> drv_locals s \<longrightarrow> mem s' a = mem s a)" if "kprot s a" for a
    using f(11,12) [OF that] assms(4) by blast
  ultimately show ?thesis unfolding live_keep_def using f drv_frame_fields [OF f(13)] by blast
qed

lemma name_local_locals [simp]: "name_local s \<subseteq> drv_locals s" "entry_bytes s \<subseteq> drv_locals s"
  by (auto simp: drv_locals_def)

lemma live_keep_path:
  assumes "path_frame s s'"
  shows "live_keep s s'"
proof -
  have r: "path_rest s' = path_rest s" using assms by (simp add: path_frame_def)
  have "bus s' = bus s" "the_disk s' = the_disk s" "disk_addr s' = disk_addr s" "stk_item s' = stk_item s" "stk_entry s' = stk_entry s"
    "stk_name s' = stk_name s" "fat16_fs s' = fat16_fs s" "disk_streams s' = disk_streams s"
    using arg_cong [OF r, of bus] arg_cong [OF r, of the_disk] arg_cong [OF r, of disk_addr] arg_cong [OF r, of stk_item]
      arg_cong [OF r, of stk_entry] arg_cong [OF r, of stk_name] arg_cong [OF r, of fat16_fs] arg_cong [OF r, of disk_streams]
    by (simp_all add: path_rest_def)
  moreover have "mem s' a = mem s a" if "(p, k) \<in> kallocs s" "a \<in> extent p k" for p k a
    using assms kprot_live [OF that] by (simp add: path_frame_def)
  ultimately show ?thesis using assms path_frame_prot [OF assms] by (auto simp: live_keep_def path_frame_def)
qed

text \<open>The part of \<open>live_keep\<close> that concerns the driver and live allocations, whatever happens to memory outside the heap.\<close>

definition live_same :: "'a fat_state_scheme \<Rightarrow> 'a fat_state_scheme \<Rightarrow> bool" where
  "live_same s s' \<longleftrightarrow> bus s' = bus s \<and> the_disk s' = the_disk s \<and> disk_addr s' = disk_addr s \<and> stk_item s' = stk_item s \<and>
     stk_entry s' = stk_entry s \<and> stk_name s' = stk_name s \<and> fat16_fs s' = fat16_fs s \<and> kregion s' = kregion s \<and> kheap_wf s' \<and>
     kallocs s \<subseteq> kallocs s' \<and>
     (\<forall>st k. (st, k) \<in> kallocs s \<longrightarrow> stream_disk (disk_streams s' st) = stream_disk (disk_streams s st)) \<and>
     (\<forall>p k a. (p, k) \<in> kallocs s \<and> a \<in> extent p k \<longrightarrow> mem s' a = mem s a)"

lemma live_keep_same: "live_keep s s' \<Longrightarrow> live_same s s'"
  unfolding live_keep_def live_same_def by (elim conjE, intro conjI)

lemma live_same_byte: "live_same s s' \<Longrightarrow> (p, k) \<in> kallocs s \<Longrightarrow> a \<in> extent p k \<Longrightarrow> mem s' a = mem s a"
  unfolding live_same_def by blast

lemma live_same_load32:
  assumes "live_same s s'" "(p, 1) \<in> kallocs s" "unat k < 4093"
  shows "load32 (mem s') (p + k) = load32 (mem s) (p + k)"
proof (rule load32_cong)
  fix i :: u32 assume "i \<in> {0, 1, 2, 3}"
  then have "unat (k + i) < 4096" using assms(3) by (auto simp: unat_word_ariths)
  then have "p + k + i \<in> extent p 1" by (simp add: extent_def add.assoc)
  then show "mem s' (p + k + i) = mem s (p + k + i)" by (rule live_same_byte [OF assms(1,2)])
qed

lemma root_loaded_cong:
  assumes "load32 m' (p + 64) = load32 m (p + 64)" "load32 m' (p + 68) = load32 m (p + 68)" "load32 m' (p + 76) = load32 m (p + 76)"
    and "\<And>j. j < root_bytes img \<Longrightarrow> m' (load32 m (p + 64) + of_nat j) = m (load32 m (p + 64) + of_nat j)"
  shows "root_loaded m' p img k = root_loaded m p img k"
  using assms by (simp add: root_loaded_def fdir_item_def fdir_total_def fdir_sector_end_def fp_root_def add.assoc)

lemma fs_ready_same:
  assumes "live_same s s'" "fs_ready s img n k"
  shows "fs_ready s' img n k"
proof -
  note k = assms(1) [unfolded live_same_def] and r = assms(2) [unfolded fs_ready_def]
  let ?p = "fs_private (the_disk s)"
  have l: "(?p, 1) \<in> kallocs s" "(fdir_item (mem s) (fp_root ?p), blocks_for (of_nat (root_bytes img))) \<in> kallocs s"
    "(fp_cluster_read (mem s) ?p, 1) \<in> kallocs s" "(fp_fat_read (mem s) ?p, 1) \<in> kallocs s" "(fp_dir_read (mem s) ?p, 1) \<in> kallocs s"
    using r by (simp_all add: mount_live_def Let_def)
  note ld = live_same_load32 [OF assms(1) l(1)]
  have fp: "fp_cluster_read (mem s') ?p = fp_cluster_read (mem s) ?p" "fp_fat_read (mem s') ?p = fp_fat_read (mem s) ?p"
    "fp_dir_read (mem s') ?p = fp_dir_read (mem s) ?p" "fdir_item (mem s') (fp_root ?p) = fdir_item (mem s) (fp_root ?p)"
    using ld [of 80] ld [of 84] ld [of 88] ld [of 64]
    by (simp_all add: fp_cluster_read_def fp_fat_read_def fp_dir_read_def fdir_item_def fp_root_def)
  have "mem s' (load32 (mem s) (?p + 64) + of_nat j) = mem s (load32 (mem s) (?p + 64) + of_nat j)" if "j < root_bytes img" for j
  proof (rule live_same_byte [OF assms(1) l(2)])
    have "load32 (mem s) (?p + 64) + of_nat j \<in> out_bytes (load32 (mem s) (?p + 64)) (root_bytes img)"
      using that root_bytes_bound [of img] by simp
    then show "load32 (mem s) (?p + 64) + of_nat j \<in> extent (fdir_item (mem s) (fp_root ?p)) (blocks_for (of_nat (root_bytes img)))"
      using subsetD [OF out_bytes_extent [of "root_bytes img"]] root_bytes_bound [of img] by (simp add: fdir_item_def fp_root_def)
  qed
  then have "root_loaded (mem s') ?p img k = root_loaded (mem s) ?p img k"
    using ld [of 64] ld [of 68] ld [of 76] by (intro root_loaded_cong) simp_all
  moreover have "mem s' a = mem s a" if "a \<in> priv_bytes ?p" for a
    using subsetD [OF priv_extent that] by (rule live_same_byte [OF assms(1) l(1)])
  then have "priv_ok (mem s') ?p v = priv_ok (mem s) ?p v" for v by (rule priv_ok_cong)
  moreover have "volume_of s' img n = volume_of s img n" using k fp by (simp add: volume_of_def)
  moreover have "mount_live s' img" using l k fp by (auto simp: mount_live_def Let_def)
  moreover have "stream_disk (disk_streams s' (fp_fat_read (mem s) ?p)) = stream_disk (disk_streams s (fp_fat_read (mem s) ?p))"
    "stream_disk (disk_streams s' (fp_cluster_read (mem s) ?p)) = stream_disk (disk_streams s (fp_cluster_read (mem s) ?p))"
    using k l(3,4) by blast+
  ultimately show ?thesis using r k by (simp add: fs_ready_def mounted_def) (simp add: volume_of_def)
qed

lemma volume_of_same:
  assumes "live_same s s'" "fs_ready s img n k"
  shows "volume_of s' img n = volume_of s img n"
proof -
  have p: "(fs_private (the_disk s), 1) \<in> kallocs s" using assms(2) by (simp add: fs_ready_def mount_live_def Let_def)
  show ?thesis
    using assms(1) live_same_load32 [OF assms(1) p, of 80] live_same_load32 [OF assms(1) p, of 84]
    by (simp add: volume_of_def fp_fat_read_def fp_cluster_read_def live_same_def)
qed

lemmas live_keep_byte = live_same_byte [OF live_keep_same]
lemmas live_keep_load32 = live_same_load32 [OF live_keep_same]
lemmas fs_ready_keep = fs_ready_same [OF live_keep_same]
lemmas volume_of_keep = volume_of_same [OF live_keep_same]

section \<open>The root directory\<close>

text \<open>The short name, the attributes and the first cluster of the directory entry at byte \<open>e\<close> of the disk.\<close>

definition img_text :: "(nat \<Rightarrow> u8) \<Rightarrow> nat \<Rightarrow> nat \<Rightarrow> u8 list" where
  "img_text img e l = takeWhile (\<lambda>c. c \<noteq> 0x00 \<and> c \<noteq> 0x20) (map (\<lambda>j. img (e + j)) [0..<l])"

definition dir_name :: "(nat \<Rightarrow> u8) \<Rightarrow> nat \<Rightarrow> u8 list" where
  "dir_name img e = (let nm = img_text img e 8; ext = img_text img (e + 8) 3 in if ext = [] then nm else nm @ 0x2E # ext)"

definition dir_cluster :: "(nat \<Rightarrow> u8) \<Rightarrow> nat \<Rightarrow> nat" where
  "dir_cluster img e = unat ((ucast (img (e + 20)) OR push_bit 8 (ucast (img (e + 21)))) OR
     (ucast (img (e + 26)) OR push_bit 8 (ucast (img (e + 27)))) :: u16)"

definition name_match :: "u8 list \<Rightarrow> u8 list \<Rightarrow> bool" where
  "name_match v w \<longleftrightarrow> map tolower v = map tolower w"

text \<open>Entry \<open>i\<close> is the only one that the search sees with the name \<open>w\<close>, and it is a file.\<close>

definition root_file :: "(nat \<Rightarrow> u8) \<Rightarrow> nat \<Rightarrow> nat \<Rightarrow> u8 list \<Rightarrow> bool" where
  "root_file img k i w \<longleftrightarrow> (let q = 512 * root_start img in i < live_entries img q k \<and>
     (\<forall>j<live_entries img q k. name_match (dir_name img (q + 32 * j)) w \<longleftrightarrow> j = i) \<and> img (q + 32 * i + 11) AND 0x10 = 0)"

lemma img_text_props: "length (img_text img e l) \<le> l" "0 \<notin> set (img_text img e l)"
proof -
  show "length (img_text img e l) \<le> l" unfolding img_text_def by (rule order_trans [OF length_takeWhile_le]) simp
  show "0 \<notin> set (img_text img e l)" unfolding img_text_def by (blast dest: set_takeWhileD)
qed

lemma dir_name_props: "length (dir_name img e) < 108" "0 \<notin> set (dir_name img e)"
  using img_text_props [of img e 8] img_text_props [of img "e + 8" 3] by (auto simp: dir_name_def Let_def)

lemma short_name_img:
  assumes "\<And>j. j < 11 \<Longrightarrow> m (a + of_nat j) = img (e + j)"
  shows "short_name m a = dir_name img e"
proof -
  have "map (\<lambda>i. m (a + of_nat i)) [0..<8] = map (\<lambda>j. img (e + j)) [0..<8]" using assms by (intro map_cong) auto
  moreover have "m (a + 8 + of_nat i) = img (e + 8 + i)" if "i < 3" for i using assms [of "8 + i"] that by (simp add: ac_simps)
  then have "map (\<lambda>i. m (a + 8 + of_nat i)) [0..<3] = map (\<lambda>j. img (e + 8 + j)) [0..<3]" by (intro map_cong) auto
  ultimately have "field_text m a 8 = img_text img e 8" "field_text m (a + 8) 3 = img_text img (e + 8) 3"
    unfolding img_text_def field_text_def by (simp_all only:)
  then show ?thesis by (simp add: short_name_def dir_name_def)
qed

text \<open>The search for the name \<open>w\<close> at \<open>name\<close>.\<close>

definition find_ctx :: "'a fat_state_scheme \<Rightarrow> (nat \<Rightarrow> u8) \<Rightarrow> nat \<Rightarrow> nat \<Rightarrow> u32 \<Rightarrow> u8 list \<Rightarrow> bool" where
  "find_ctx s img n k name w \<longleftrightarrow> fs_ready s img n k \<and> (name, 1) \<in> kallocs s \<and> part_text (mem s) name w \<and> length w < 108"

abbreviation root_of :: "'a fat_state_scheme \<Rightarrow> u32" where
  "root_of s \<equiv> fp_root (fs_private (the_disk s))"

abbreviation entry_at :: "'a fat_state_scheme \<Rightarrow> nat \<Rightarrow> u32" where
  "entry_at s i \<equiv> fdir_item (mem s) (root_of s) + 32 * of_nat i"

lemma part_text_keep:
  assumes "live_keep s s'" "(d, 1) \<in> kallocs s" "part_text (mem s) d w" "length w < 108"
  shows "part_text (mem s') d w"
proof -
  have "mem s' (d + of_nat j) = mem s (d + of_nat j)" if "j \<le> 108" for j
    using that by (intro live_keep_byte [OF assms(1,2)] small_offset_extent) simp
  then show ?thesis using assms(3,4) cstring_cong [of w "mem s'" d "mem s"] by (auto simp: part_text_def)
qed

lemma find_ctx_keep: "live_keep s s' \<Longrightarrow> find_ctx s img n k name w \<Longrightarrow> find_ctx s' img n k name w"
  using fs_ready_keep [of s s'] part_text_keep [of s s' name w] subsetD [of "kallocs s" "kallocs s'" "(name, 1)"]
  by (simp add: find_ctx_def) (simp add: live_keep_def)

lemma fs_ready_wf: "fs_ready s img n k \<Longrightarrow> kheap_wf s"
  by (simp add: fs_ready_def mount_live_def Let_def)

lemma entry_byte:
  assumes "fs_ready s img n k" "32 * Suc i \<le> root_bytes img" "j < 32"
  shows "mem s (entry_at s i + of_nat j) = img (512 * root_start img + 32 * i + j)" "entry_at s i + of_nat j \<in> kregion s"
    "entry_at s i + of_nat j \<in> extent (fdir_item (mem s) (root_of s)) (blocks_for (of_nat (root_bytes img)))"
proof -
  let ?b = "fdir_item (mem s) (root_of s)" and ?j = "32 * i + j"
  have a: "entry_at s i + of_nat j = ?b + of_nat ?j" by (simp add: add.assoc)
  have j: "?j < root_bytes img" "root_bytes img < 2 ^ 21" using assms(2,3) root_bytes_bound [of img] by simp_all
  have "mem s (?b + of_nat ?j) = img (512 * root_start img + ?j)" using assms(1) j(1) unfolding fs_ready_def root_loaded_def by blast
  then show "mem s (entry_at s i + of_nat j) = img (512 * root_start img + 32 * i + j)" unfolding a by (simp add: add.assoc)
  have "?b + of_nat ?j \<in> out_bytes ?b (root_bytes img)" using j unat_of_nat_u32 [of ?j] by (simp del: unat_of_nat_u32 of_nat_add)
  then show e: "entry_at s i + of_nat j \<in> extent ?b (blocks_for (of_nat (root_bytes img)))"
    unfolding a using j(2) by (intro subsetD [OF out_bytes_extent]) simp_all
  have "(?b, blocks_for (of_nat (root_bytes img))) \<in> kallocs s" using assms(1) by (simp add: fs_ready_def mount_live_def Let_def)
  then show "entry_at s i + of_nat j \<in> kregion s" using subsetD [OF kz.allocs_region [OF fs_ready_wf [OF assms(1)]] e] by blast
qed

lemma resolve_entry:
  assumes "find_ctx s img n k name w" "32 * Suc i \<le> root_bytes img"
    and "s1 = s\<lparr>mem := fat16_file_name_resolve (entry_at s i) (stk_name s) 108 (mem s)\<rparr>"
  shows "drv_step s s1 (name_local s)"
    "istrncmp (mem s1) (stk_name s1) name 108 = 0 \<longleftrightarrow> name_match (dir_name img (512 * root_start img + 32 * i)) w"
proof -
  let ?v = "dir_name img (512 * root_start img + 32 * i)"
  have fs: "fs_ready s img n k" using assms(1) by (simp add: find_ctx_def)
  have reg: "name_local s \<inter> kregion s = {}" using fs by (simp add: fs_ready_def)
  note e = entry_byte [OF fs assms(2)]
  have name: "short_name (mem s) (entry_at s i) = ?v" using e(1) by (intro short_name_img) simp
  have out: "stk_name s + of_nat j \<in> name_local s" if "j < 108" for j using that by simp
  have sep: "entry_at s i + of_nat i' \<noteq> stk_name s + of_nat j" if "i' < 11" "j < unat (108 :: u32)" for i' j
  proof -
    have "stk_name s + of_nat j \<notin> kregion s" using disjoint_iff [THEN iffD1, OF reg] out [of j] that by simp
    then show ?thesis using e(2) [of i'] that by auto
  qed
  have m1: "mem s1 a = (if unat (a - stk_name s) < length ?v then ?v ! unat (a - stk_name s) else if unat (a - stk_name s) < 108 then 0 else mem s a)" for a
    using fat16_name_text [where max_len = 108 and item = "entry_at s i" and out = "stk_name s" and m = "mem s" and a = a, OF _ sep] by (simp add: assms(3) name Let_def)
  have lv: "length ?v < 108" "0 \<notin> set ?v" by (rule dir_name_props)+
  show "drv_step s s1 (name_local s)" unfolding assms(3)
  proof (rule drv_step_mem [OF fs_ready_wf [OF fs]])
    fix a assume "a \<notin> name_local s"
    then show "fat16_file_name_resolve (entry_at s i) (stk_name s) 108 (mem s) a = mem s a"
      using m1 [of a] lv(1) by (simp add: assms(3))
  qed
  then have keep: "live_keep s s1" by (rule live_keep_drv [OF _ reg fs_ready_wf [OF fs]]) simp
  have w: "(name, 1) \<in> kallocs s" "part_text (mem s) name w" "length w < 108" using assms(1) by (simp_all add: find_ctx_def)
  have "part_text (mem s1) name w" by (rule part_text_keep [OF keep w])
  then have wb: "mem s1 (name + of_nat j) = (if j < length w then w ! j else 0)" "0 \<notin> set w" if "j < 108" for j
    using that cstring_nonzero [of "mem s1" name w] by (auto simp: part_text_def)
  have vb: "mem s1 (stk_name s1 + of_nat j) = (if j < length ?v then ?v ! j else 0)" if "j < 108" for j
    using m1 [of "stk_name s + of_nat j"] that by (simp add: assms(3))
  show "istrncmp (mem s1) (stk_name s1) name 108 = 0 \<longleftrightarrow> name_match ?v w"
    unfolding name_match_def by (rule istrncmp_padded [OF vb lv wb(1) w(3) wb(2) [of 0]]) simp_all
qed

section \<open>A new item\<close>

lemma kzalloc_drv_page:
  assumes "kheap_wf s" "0 < kavail s" "0 < unat sz" "unat sz \<le> 4096" "kzalloc s sz = (p, s')"
  shows "drv_step s s' {}" "kallocs s' = insert (p, 1) (kallocs s)" "\<And>q k. (q, k) \<in> kallocs s \<Longrightarrow> p \<noteq> q" "p \<noteq> 0"
    "kavail s' + 1 = kavail s" "\<And>a. kprot s a \<Longrightarrow> a \<notin> extent p 1" "kheap_wf s'"
proof -
  have b: "blocks_for sz = 1" by (rule blocks_for_page [OF assms(3,4)])
  have "kfits s (blocks_for sz + 0)" using kz.avail_fits [OF assms(1,2)] b by simp
  note k = kzalloc_drv [OF assms(1,3) _ this assms(5), unfolded b]
  have l: "unat sz \<le> 2 ^ 32 - 4096" using assms(4) by simp
  show "drv_step s s' {}" "kallocs s' = insert (p, 1) (kallocs s)" "p \<noteq> 0" "kheap_wf s'"
    using k(1,2,4) [OF l] drv_step_fields(8) [OF k(1) [OF l]] by simp_all
  show "p \<noteq> q" if "(q, k) \<in> kallocs s" for q k using k(3) [OF l that] .
  show "a \<notin> extent p 1" if "kprot s a" for a using k(9) [OF l that] .
  show "kavail s' + 1 = kavail s" using kzalloc_page(5) [OF assms] .
qed

lemma load32_store32_next:
  "load32 (store32 m p b) (p + 4) = load32 m (p + 4)" "load32 (store32 m (p + 4) b) p = load32 m p"
  by (simp_all add: load32_def store32_def add.assoc)

lemma memcpy_apart:
  assumes "\<And>j. j < unat sz \<Longrightarrow> src + of_nat j \<notin> out_bytes dst (unat sz)"
  shows "memcpy dst src sz m a = (if unat (a - dst) < unat sz then m (src + (a - dst)) else m a)"
proof -
  have "\<not> (0 \<le> unat (src + of_nat k - dst) \<and> unat (src + of_nat k - dst) < k)" if "0 \<le> k \<and> k < unat sz" for k
    using assms [of k] that by auto
  then show ?thesis unfolding memcpy_def
    using memcpy_loop_apply [of "unat sz" 0 src dst m a] unat_u32_bound [of sz] by simp
qed

lemma page_word: "unat k < 4093 \<Longrightarrow> {p + k, p + k + 1, p + k + 2, p + k + 3} \<subseteq> extent p 1"
proof -
  assume k: "unat k < 4093"
  have "unat (k + i) < 4096" if "i \<in> {0, 1, 2, 3}" for i using that k by (auto simp: unat_word_ariths)
  from this [of 0] this [of 1] this [of 2] this [of 3] show ?thesis by (auto simp: extent_def add.assoc)
qed

text \<open>The item for a file: a copy of its directory entry and a structure that points to it.\<close>

definition item_for :: "memory \<Rightarrow> u32 \<Rightarrow> u32 \<Rightarrow> memory \<Rightarrow> u32 \<Rightarrow> bool" where
  "item_for m f c m0 e \<longleftrightarrow> f \<noteq> c \<and> fitem_type m f = FAT_ITEM_TYPE_FILE \<and> fitem_ptr m f = c \<and> (\<forall>j<32. m (c + of_nat j) = m0 (e + of_nat j))"

lemma new_item_file:
  assumes wf: "kheap_wf s" "2 \<le> kavail s" and e: "\<And>j. j < 32 \<Longrightarrow> kprot s (e + of_nat j)" "mem s (e + 11) AND 0x10 = 0"
  shows "\<exists>f c s'. fat16_new_item_for_dir s e = Some (f, s') \<and> drv_step s s' {} \<and> f \<noteq> 0 \<and> kallocs s' = {(f, 1), (c, 1)} \<union> kallocs s \<and>
    kavail s' + 2 = kavail s \<and> item_for (mem s') f c (mem s) e \<and> (\<forall>q k. (q, k) \<in> kallocs s \<longrightarrow> f \<noteq> q \<and> c \<noteq> q)"
proof -
  obtain f s1 where al: "kzalloc s 8 = (f, s1)" by force
  have av: "0 < kavail s" using wf(2) by simp
  note 1 = kzalloc_drv_page [OF wf(1) av _ _ al, simplified]
  note f1 = drv_step_fields [OF 1(1)]
  let ?s2 = "poke32 s1 (f + 4) FAT_ITEM_TYPE_FILE"
  obtain c s3 where al3: "kzalloc ?s2 32 = (c, s3)" by force
  have w2: "kheap_wf ?s2" "0 < kavail ?s2" using 1(5,7) wf(2) by (simp_all add: poke32_def)
  note 3 = kzalloc_drv_page [OF w2 _ _ al3, simplified]
  note f3 = drv_step_fields [OF 3(1)]
  let ?m = "memcpy c e 32 (mem s3)"
  let ?s5 = "poke32 (s3\<lparr>mem := ?m\<rparr>) f c"
  have ekeep: "mem s1 (e + of_nat j) = mem s (e + of_nat j)" "kprot s1 (e + of_nat j)" "e + of_nat j \<notin> extent f 1" if "j < 32" for j
    using f1(11,12) [OF e(1) [OF that]] 1(6) [OF e(1) [OF that]] by simp_all
  have live_f: "(f, 1) \<in> kallocs s1" using 1(2) by simp
  have pk: "drv_step s1 ?s2 (extent f 1)" by (rule drv_poke [OF 1(7)]) (use page_word [of 4 f] in simp)
  note f2 = drv_step_fields [OF pk]
  have e2: "mem s3 (e + of_nat j) = mem s (e + of_nat j)" "e + of_nat j \<notin> extent c 1" if "j < 32" for j
  proof -
    have p2: "kprot ?s2 (e + of_nat j)" by (rule f2(11) [OF ekeep(2) [OF that]])
    show "e + of_nat j \<notin> extent c 1" using 3(6) [OF p2] by simp
    show "mem s3 (e + of_nat j) = mem s (e + of_nat j)"
      using f3(12) [OF p2] f2(12) [OF ekeep(2,3) [OF that]] ekeep(1) [OF that] by simp
  qed
  have cin: "out_bytes c 32 \<subseteq> extent c 1" by (auto simp: extent_def)
  have m: "?m a = (if unat (a - c) < 32 then mem s3 (e + (a - c)) else mem s3 a)" for a
  proof -
    have "e + of_nat j \<notin> out_bytes c (unat (32 :: u32))" if "j < unat (32 :: u32)" for j
      using e2(2) [of j] that cin by auto
    then show ?thesis by (subst memcpy_apart) simp_all
  qed
  have fc: "extent f 1 \<inter> extent c 1 = {}" using 3(6) kprot_live [of f 1 ?s2] live_f by auto
  have 4: "drv_step s3 (s3\<lparr>mem := ?m\<rparr>) (extent c 1)" by (rule drv_step_mem [OF 3(7)]) (use m cin in auto)
  have 5: "drv_step (s3\<lparr>mem := ?m\<rparr>) ?s5 (extent f 1)" by (rule drv_poke) (use page_word [of 0 f] 3(7) in simp_all)
  have "drv_step s3 ?s5 (extent f 1 \<union> extent c 1)"
    by (rule drv_step_trans [OF drv_step_mono [OF 4 Un_upper2] drv_step_mono [OF 5 Un_upper1]])
  then have "drv_step ?s2 ?s5 (extent f 1)"
    by (rule drv_step_fresh [OF drv_step_mono [OF 3(1) empty_subsetI]]) (use 3(6) in auto)
  then have "drv_step s1 ?s5 ({} \<union> extent f 1)" using drv_step_trans [OF pk] by simp
  then have step: "drv_step s ?s5 {}" by (rule drv_step_fresh [OF 1(1)]) (use 1(6) in auto)
  have "load32 ?m (f + 4) = load32 (mem s3) (f + 4)"
  proof (rule load32_cong)
    fix i :: u32 assume "i \<in> {0, 1, 2, 3}"
    then have "f + 4 + i \<in> extent f 1" using page_word [of 4 f] by auto
    then have "f + 4 + i \<notin> out_bytes c 32" using fc cin by blast
    then show "?m (f + 4 + i) = mem s3 (f + 4 + i)" using m by simp
  qed
  also have "\<dots> = FAT_ITEM_TYPE_FILE"
    using drv_load32 [OF 3(1), of f 4] live_f by (simp add: load32_store32_same)
  finally have "fitem_type (mem ?s5) f = FAT_ITEM_TYPE_FILE" "fitem_ptr (mem ?s5) f = c"
    by (simp_all add: fitem_type_def fitem_ptr_def load32_store32_next load32_store32_same)
  moreover have "mem ?s5 (c + of_nat j) = mem s (e + of_nat j)" if "j < 32" for j
  proof -
    have "c + of_nat j \<in> extent c 1" using that by (intro small_offset_extent) simp
    then have "c + of_nat j \<notin> {f, f + 1, f + 2, f + 3}" using fc page_word [of 0 f] by auto
    then show ?thesis using m [of "c + of_nat j"] e2(1) [OF that] that by (simp add: store32_frame)
  qed
  moreover have "fat16_new_item_for_dir s e = Some (f, ?s5)"
    using al al3 1(4) 3(4) ekeep(1) [of 11] e(2)
    by (simp add: fat16_new_item_for_dir_def fat16_clone_dir_item_def di_attribute_def config_simps)
  moreover have "kallocs ?s5 = {(f, 1), (c, 1)} \<union> kallocs s" "kavail ?s5 + 2 = kavail s"
    using 1(2,5) 3(2,5) by (auto simp: poke32_def)
  moreover have "f \<noteq> q \<and> c \<noteq> q" if "(q, k) \<in> kallocs s" for q k using 1(3) [OF that] 3(3) [of q k] that 1(2) by simp
  moreover have "f \<noteq> c" using 3(3) [of f 1] live_f by auto
  ultimately show ?thesis using step 1(4) by (intro exI [of _ f] exI [of _ c] exI [of _ ?s5]) (simp add: item_for_def)
qed

section \<open>The search\<close>

lemma fat16_find_loop_add:
  "fat16_find_loop (n + k) s dir i name item =
   Option.bind (fat16_find_loop n s dir i name item) (\<lambda>(item', s'). fat16_find_loop k s' dir (i + of_nat n) name item')"
proof (induction n arbitrary: s i item)
  case (Suc n)
  then show ?case by (simp add: Let_def add.assoc split: bind_splits prod.split)
qed simp

lemma find_step:
  assumes "find_ctx s img n k name w" "32 * Suc i \<le> root_bytes img"
  shows "\<exists>s1. drv_step s s1 (name_local s) \<and> kallocs s1 = kallocs s \<and> kavail s1 = kavail s \<and> find_ctx s1 img n k name w \<and>
    root_of s1 = root_of s \<and> entry_at s1 i = entry_at s i \<and> name_local s1 = name_local s \<and> kregion s1 = kregion s \<and>
    fat16_find_loop (Suc m) s (root_of s) (of_nat i) name item =
      (if name_match (dir_name img (512 * root_start img + 32 * i)) w
       then Option.bind (fat16_new_item_for_dir s1 (entry_at s1 i)) (\<lambda>(item', s2). fat16_find_loop m s2 (root_of s) (of_nat (Suc i)) name item')
       else fat16_find_loop m s1 (root_of s) (of_nat (Suc i)) name item)"
proof -
  define s1 where "s1 = s\<lparr>mem := fat16_file_name_resolve (entry_at s i) (stk_name s) 108 (mem s)\<rparr>"
  note r = resolve_entry [OF assms s1_def]
  have fs: "fs_ready s img n k" using assms(1) by (simp add: find_ctx_def)
  have keep: "live_keep s s1"
    by (rule live_keep_drv [OF r(1) _ fs_ready_wf [OF fs]]) (use fs in \<open>simp_all add: fs_ready_def\<close>)
  have "(fs_private (the_disk s), 1) \<in> kallocs s" using fs by (simp add: fs_ready_def mount_live_def Let_def)
  then have item: "fdir_item (mem s1) (root_of s) = fdir_item (mem s) (root_of s)"
    using live_keep_load32 [OF keep, of _ 64] by (simp add: fdir_item_def fp_root_def)
  have one: "of_nat i + 1 = (of_nat (Suc i) :: u32)" by (simp add: add.commute)
  have c: "word_of_int ENKI_MAX_PATH = (108 :: u32)" "ENKI_MAX_PATH = 108" by (simp_all add: config_simps)
  have "fat16_find_loop (Suc m) s (root_of s) (of_nat i) name item =
      (if istrncmp (mem s1) (stk_name s1) name 108 = 0
       then Option.bind (fat16_new_item_for_dir s1 (entry_at s1 i)) (\<lambda>(item', s2). fat16_find_loop m s2 (root_of s) (of_nat (Suc i)) name item')
       else fat16_find_loop m s1 (root_of s) (of_nat (Suc i)) name item)"
    unfolding fat16_find_loop.simps Let_def c one s1_def [symmetric] by (simp add: s1_def)
  then show ?thesis using r find_ctx_keep [OF keep assms(1)] item by (intro exI [of _ s1] conjI) (simp_all add: s1_def)
qed

lemma find_skip:
  "find_ctx s img n k name w \<Longrightarrow> (\<And>j. i \<le> j \<Longrightarrow> j < i + m \<Longrightarrow> \<not> name_match (dir_name img (512 * root_start img + 32 * j)) w) \<Longrightarrow>
   32 * (i + m) \<le> root_bytes img \<Longrightarrow>
   \<exists>s'. fat16_find_loop m s (root_of s) (of_nat i) name item = Some (item, s') \<and> drv_step s s' (name_local s) \<and>
     kallocs s' = kallocs s \<and> kavail s' = kavail s"
proof (induction m arbitrary: s i)
  case 0
  then show ?case using drv_step_mem [OF fs_ready_wf, of s img n k "name_local s" "mem s"] by (auto simp: find_ctx_def)
next
  case (Suc m)
  have b: "32 * Suc i \<le> root_bytes img" using Suc.prems(3) by simp
  have no: "\<not> name_match (dir_name img (512 * root_start img + 32 * i)) w" using Suc.prems(2) [of i] by simp
  obtain s1 where s1: "drv_step s s1 (name_local s)" "kallocs s1 = kallocs s" "kavail s1 = kavail s" "find_ctx s1 img n k name w"
    "root_of s1 = root_of s" "name_local s1 = name_local s"
    "fat16_find_loop (Suc m) s (root_of s) (of_nat i) name item = fat16_find_loop m s1 (root_of s) (of_nat (Suc i)) name item"
    using find_step [OF Suc.prems(1) b, of m item] no by auto
  obtain s' where "fat16_find_loop m s1 (root_of s1) (of_nat (Suc i)) name item = Some (item, s')" "drv_step s1 s' (name_local s1)"
    "kallocs s' = kallocs s1" "kavail s' = kavail s1"
    using Suc.IH [of s1 "Suc i"] s1(4) Suc.prems(2,3) by auto
  then show ?case using s1 drv_step_trans [OF s1(1)] by auto
qed

lemma item_for_keep:
  assumes "live_keep s s'" "(f, 1) \<in> kallocs s" "(c, 1) \<in> kallocs s" "item_for (mem s) f c m0 e"
  shows "item_for (mem s') f c m0 e"
proof -
  have "mem s' (c + of_nat j) = mem s (c + of_nat j)" if "j < 32" for j
    using that by (intro live_keep_byte [OF assms(1,3)] small_offset_extent) simp
  then show ?thesis
    using assms(4) live_keep_load32 [OF assms(1,2), of 0] live_keep_load32 [OF assms(1,2), of 4]
    by (simp add: item_for_def fitem_type_def fitem_ptr_def)
qed

text \<open>The item for the file whose directory entry is at byte \<open>e\<close> of the disk.\<close>

definition file_item :: "memory \<Rightarrow> u32 \<Rightarrow> u32 \<Rightarrow> (nat \<Rightarrow> u8) \<Rightarrow> nat \<Rightarrow> bool" where
  "file_item m f c img e \<longleftrightarrow> f \<noteq> c \<and> fitem_type m f = FAT_ITEM_TYPE_FILE \<and> fitem_ptr m f = c \<and> (\<forall>j<32. m (c + of_nat j) = img (e + j))"

lemma fat16_find_root_file:
  assumes ctx: "find_ctx s img n k name w" and rf: "root_file img k i w" and b: "32 * k \<le> root_bytes img" and av: "2 \<le> kavail s"
  shows "\<exists>f c s'. fat16_find_item_in_dir s (root_of s) name = Some (f, s') \<and> drv_step s s' (name_local s) \<and> f \<noteq> 0 \<and>
    (f, 1) \<in> kallocs s' \<and> (c, 1) \<in> kallocs s' \<and> kavail s' + 2 = kavail s \<and> (\<forall>q k. (q, k) \<in> kallocs s \<longrightarrow> f \<noteq> q \<and> c \<noteq> q) \<and>
    file_item (mem s') f c img (512 * root_start img + 32 * i)"
proof -
  let ?q = "512 * root_start img"
  let ?T = "live_entries img ?q k" and ?N = "name_local s"
  have rf': "i < ?T" "\<And>j. j < ?T \<Longrightarrow> name_match (dir_name img (?q + 32 * j)) w \<longleftrightarrow> j = i" "img (?q + 32 * i + 11) AND 0x10 = 0"
    using rf by (simp_all add: root_file_def Let_def)
  have T: "?T \<le> k" by (rule live_entries_le)
  have fs: "fs_ready s img n k" using ctx by (simp add: find_ctx_def)
  have wf: "kheap_wf s" by (rule fs_ready_wf [OF fs])
  have reg: "?N \<inter> kregion s = {}" using fs by (simp add: fs_ready_def)
  have total: "nat (fdir_total (mem s) (root_of s)) = i + Suc (?T - Suc i)"
    using fs rf'(1) by (simp add: fs_ready_def root_loaded_def)
  obtain s1 where s1: "fat16_find_loop i s (root_of s) (of_nat 0) name 0 = Some (0, s1)" "drv_step s s1 ?N"
    "kallocs s1 = kallocs s" "kavail s1 = kavail s"
    using find_skip [OF ctx, of 0 i 0] rf'(1,2) T b by fastforce
  note k1 = live_keep_drv [OF s1(2) reg wf name_local_locals(1)]
  note f1 = drv_step_fields [OF s1(2)]
  have n1: "stk_name s1 = stk_name s" using k1 by (simp add: live_keep_def)
  have bi: "32 * Suc i \<le> root_bytes img" using rf'(1) T b by (meson Suc_leI mult_le_mono2 order_trans)
  have ctx1: "find_ctx s1 img n k name w" by (rule find_ctx_keep [OF k1 ctx])
  obtain s2 where s2: "drv_step s1 s2 (name_local s1)" "kallocs s2 = kallocs s1" "kavail s2 = kavail s1" "find_ctx s2 img n k name w"
    "root_of s2 = root_of s1" "name_local s2 = name_local s1"
    "fat16_find_loop (Suc (?T - Suc i)) s1 (root_of s1) (of_nat i) name 0 =
      Option.bind (fat16_new_item_for_dir s2 (entry_at s2 i)) (\<lambda>(item', s3). fat16_find_loop (?T - Suc i) s3 (root_of s1) (of_nat (Suc i)) name item')"
    using find_step [OF ctx1 bi, of "?T - Suc i" 0] rf'(1) rf'(2) [of i] by auto
  have fs2: "fs_ready s2 img n k" using s2(4) by (simp add: find_ctx_def)
  note e2 = entry_byte [OF fs2 bi]
  have ep: "kprot s2 (entry_at s2 i + of_nat j)" if "j < 32" for j
    using fs2 by (intro kprot_live [OF _ e2(3) [OF that]]) (simp add: fs_ready_def mount_live_def Let_def)
  have att: "mem s2 (entry_at s2 i + 11) AND 0x10 = 0" using e2(1) [of 11] rf'(3) by simp
  obtain f c s3 where s3: "fat16_new_item_for_dir s2 (entry_at s2 i) = Some (f, s3)" "drv_step s2 s3 {}" "f \<noteq> 0"
    "kallocs s3 = {(f, 1), (c, 1)} \<union> kallocs s2" "kavail s3 + 2 = kavail s2" "item_for (mem s3) f c (mem s2) (entry_at s2 i)"
    "\<forall>q k. (q, k) \<in> kallocs s2 \<longrightarrow> f \<noteq> q \<and> c \<noteq> q"
    using new_item_file [OF fs_ready_wf [OF fs2] _ ep att] av s1(4) s2(3) by auto
  have k3: "live_keep s2 s3" by (rule live_keep_drv [OF s3(2) _ fs_ready_wf [OF fs2]]) simp_all
  have ctx3: "find_ctx s3 img n k name w" by (rule find_ctx_keep [OF k3 s2(4)])
  have d3: "root_of s3 = root_of s1" "name_local s3 = ?N" using k3 s2(5,6) n1 by (simp_all add: live_keep_def)
  obtain s4 where s4: "fat16_find_loop (?T - Suc i) s3 (root_of s3) (of_nat (Suc i)) name f = Some (f, s4)" "drv_step s3 s4 (name_local s3)"
    "kallocs s4 = kallocs s3" "kavail s4 = kavail s3"
    using find_skip [OF ctx3, of "Suc i" "?T - Suc i" f] rf'(1,2) T b by fastforce
  have k4: "live_keep s3 s4"
    by (rule live_keep_drv [OF s4(2)]) (use ctx3 in \<open>simp_all add: find_ctx_def fs_ready_def mount_live_def Let_def\<close>)
  have "item_for (mem s4) f c (mem s2) (entry_at s2 i)" by (rule item_for_keep [OF k4 _ _ s3(6)]) (use s3(4) in simp_all)
  then have item: "file_item (mem s4) f c img (?q + 32 * i)" using e2(1) by (simp add: item_for_def file_item_def)
  have "drv_step s s4 ?N"
    using drv_step_trans [OF drv_step_trans [OF drv_step_trans [OF s1(2) s2(1) [unfolded n1]] drv_step_mono [OF s3(2) empty_subsetI]] s4(2) [unfolded d3(2)]] .
  moreover have "fat16_find_item_in_dir s (root_of s) name = Some (f, s4)"
    unfolding fat16_find_item_in_dir_def total fat16_find_loop_add using s1(1) s2(7) s3(1) s4(1) d3(1) f1(2) by simp
  ultimately show ?thesis using s3(3,4,5,7) s4(3,4) s2(2,3) s1(3,4) item by (intro exI [of _ f] exI [of _ c] exI [of _ s4]) auto
qed

section \<open>\<^verbatim>\<open>fat16_open\<close>\<close>

text \<open>The descriptor \<open>d\<close> of the driver for an open file, all of it in live allocations.\<close>

definition fat_open :: "'a fat_state_scheme \<Rightarrow> u32 \<Rightarrow> u32 \<Rightarrow> (nat \<Rightarrow> u8) \<Rightarrow> nat \<Rightarrow> bool" where
  "fat_open s d c img e \<longleftrightarrow> (d, 1) \<in> kallocs s \<and> (ffd_item (mem s) d, 1) \<in> kallocs s \<and> (c, 1) \<in> kallocs s \<and>
     d \<noteq> ffd_item (mem s) d \<and> d \<noteq> c \<and> ffd_pos (mem s) d = 0 \<and> file_item (mem s) (ffd_item (mem s) d) c img e"

lemma file_item_keep:
  assumes "live_keep s s'" "(f, 1) \<in> kallocs s" "(c, 1) \<in> kallocs s" "file_item (mem s) f c img e"
  shows "file_item (mem s') f c img e"
  using item_for_keep [OF assms(1-3), of "mem s" c] assms(4) by (auto simp: item_for_def file_item_def)

lemma fat_open_keep:
  assumes "live_keep s s'" "fat_open s d c img e"
  shows "fat_open s' d c img e"
proof -
  note o = assms(2) [unfolded fat_open_def]
  have d: "(d, 1) \<in> kallocs s" "(ffd_item (mem s) d, 1) \<in> kallocs s" "(c, 1) \<in> kallocs s" using o by blast+
  have "ffd_item (mem s') d = ffd_item (mem s) d" "ffd_pos (mem s') d = ffd_pos (mem s) d"
    using live_keep_load32 [OF assms(1) d(1), of 0] live_keep_load32 [OF assms(1) d(1), of 4] by (simp_all add: ffd_item_def ffd_pos_def)
  moreover have "kallocs s \<subseteq> kallocs s'" using assms(1) by (simp add: live_keep_def)
  ultimately show ?thesis using o file_item_keep [OF assms(1) d(2,3)] by (auto simp: fat_open_def)
qed

lemma fat16_open_root_file:
  assumes ctx: "find_ctx s img n k (part (path_parts s path)) w" "path_next (path_parts s path) = 0"
    and rf: "root_file img k i w" "32 * k \<le> root_bytes img" and av: "3 \<le> kavail s"
  shows "\<exists>d c s'. fat16_open s path FILE_MODE_READ = Some (d, s') \<and> drv_step s s' (name_local s) \<and> kavail s' + 3 = kavail s \<and>
    fat_open s' d c img (512 * root_start img + 32 * i) \<and> (\<forall>q l. (q, l) \<in> kallocs s \<longrightarrow> q \<noteq> d \<and> q \<noteq> ffd_item (mem s') d \<and> q \<noteq> c)"
proof -
  let ?e = "512 * root_start img + 32 * i" and ?N = "name_local s" and ?name = "part (path_parts s path)"
  have fs: "fs_ready s img n k" using ctx(1) by (simp add: find_ctx_def)
  note wf = fs_ready_wf [OF fs]
  have reg: "?N \<inter> kregion s = {}" using fs by (simp add: fs_ready_def)
  obtain d s1 where al: "kzalloc s 8 = (d, s1)" by force
  have av0: "0 < kavail s" using av by simp
  note 1 = kzalloc_drv_page [OF wf av0 _ _ al, simplified]
  note f1 = drv_step_fields [OF 1(1)]
  note r1 = drv_frame_fields [OF f1(13)]
  have k1: "live_keep s s1" by (rule live_keep_drv [OF 1(1) _ wf]) simp_all
  obtain f c s2 where s2: "fat16_find_item_in_dir s1 (root_of s1) ?name = Some (f, s2)" "drv_step s1 s2 (name_local s1)" "f \<noteq> 0"
    "(f, 1) \<in> kallocs s2" "(c, 1) \<in> kallocs s2" "kavail s2 + 2 = kavail s1" "file_item (mem s2) f c img ?e"
    "\<forall>q k. (q, k) \<in> kallocs s1 \<longrightarrow> f \<noteq> q \<and> c \<noteq> q"
    using fat16_find_root_file [OF find_ctx_keep [OF k1 ctx(1)] rf] av 1(5) by auto
  note f2 = drv_step_fields [OF s2(2)]
  note r2 = drv_frame_fields [OF f2(13)]
  have "fat16_descend s2 f 0 = Some (f, s2)" by (subst fat16_descend.simps) simp
  then have get: "fat16_get_dir_entry s1 path = Some (f, s2)"
    using s2(1,3) ctx(2) r1(8) r2(8) by (simp add: fat16_get_dir_entry_def)
  let ?s4 = "poke32 (poke32 s2 d f) (d + 4) 0"
  have d2: "(d, 1) \<in> kallocs s2" using 1(2) f2(9) by auto
  have sub: "{d, d + 1, d + 2, d + 3} \<subseteq> extent d 1" "{d + 4, d + 4 + 1, d + 4 + 2, d + 4 + 3} \<subseteq> extent d 1"
    using page_word [of 0 d] page_word [of 4 d] by simp_all
  have 4: "drv_step s2 ?s4 (extent d 1)"
    by (rule drv_step_trans [OF drv_poke [OF f2(8) sub(1)] drv_poke [OF _ sub(2)]]) (use f2(8) in simp)
  have n1: "name_local s1 = ?N" using r1(7) by simp
  have "drv_step s1 ?s4 (?N \<union> extent d 1)"
    by (rule drv_step_trans [OF drv_step_mono [OF s2(2) [unfolded n1] Un_upper1] drv_step_mono [OF 4 Un_upper2]])
  then have step: "drv_step s ?s4 ?N" by (rule drv_step_fresh [OF drv_step_mono [OF 1(1) empty_subsetI]]) (use 1(6) in simp)
  have desc: "ffd_item (mem ?s4) d = f" "ffd_pos (mem ?s4) d = 0"
    by (simp_all add: ffd_item_def ffd_pos_def load32_store32_next load32_store32_same)
  have fcd: "f \<noteq> d" "c \<noteq> d" using s2(8) 1(2) by auto
  then have apart: "extent f 1 \<inter> extent d 1 = {}" "extent c 1 \<inter> extent d 1 = {}"
    using kz.allocs_disjoint [OF f2(8) s2(4) d2] kz.allocs_disjoint [OF f2(8) s2(5) d2] by blast+
  have ld: "load32 (mem ?s4) (f + k) = load32 (mem s2) (f + k)" if "unat k < 4093" for k
  proof (rule drv_load32 [OF 4 s2(4) that])
    fix i :: u32 assume "i \<in> {0, 1, 2, 3}"
    then show "f + k + i \<notin> extent d 1" using page_word [OF that, of f] apart(1) by auto
  qed
  have "mem ?s4 (c + of_nat j) = mem s2 (c + of_nat j)" if "j < 32" for j
  proof -
    have "c + of_nat j \<in> extent c 1" using that by (intro small_offset_extent) simp
    then show ?thesis using drv_step_fields(12) [OF 4 kprot_live [OF s2(5)]] apart(2) by blast
  qed
  then have "file_item (mem ?s4) f c img ?e" using s2(7) ld [of 0] ld [of 4]
    unfolding file_item_def fitem_type_def fitem_ptr_def by simp
  then have "fat_open ?s4 d c img ?e" unfolding fat_open_def desc using d2 s2(4,5) fcd by simp
  moreover have "fat16_open s path FILE_MODE_READ = Some (d, ?s4)"
  proof -
    have "ffd_item (mem (poke32 s2 d f)) d \<noteq> 0" using s2(3) by (simp add: ffd_item_def load32_store32_same)
    then show ?thesis using al 1(4) get by (simp add: fat16_open_def)
  qed
  moreover have "kavail ?s4 + 3 = kavail s" using s2(6) 1(5) by (simp add: poke32_def)
  moreover have "q \<noteq> d \<and> q \<noteq> ffd_item (mem ?s4) d \<and> q \<noteq> c" if "(q, l) \<in> kallocs s" for q l
    unfolding desc using 1(2) 1(3) [OF that] s2(8) [rule_format, of q l] that by auto
  ultimately show ?thesis using step by blast
qed

section \<open>\<^verbatim>\<open>fopen\<close>\<close>

lemma path_split_single: "w \<noteq> [] \<Longrightarrow> 0x2F \<notin> set w \<Longrightarrow> path_split w = [w]"
proof -
  assume w: "w \<noteq> []" "0x2F \<notin> set w"
  then have t: "takeWhile (\<lambda>c. c \<noteq> 0x2F) w = w" by (auto simp: takeWhile_eq_all_conv)
  show ?thesis unfolding path_split.simps [of w] t using w(1) by (simp add: path_split.simps [of "[]"])
qed

lemma path_parse_single:
  assumes "kheap_wf s" "cstring (mem s) path (0x30 # 0x3A # 0x2F # w)" "w \<noteq> []" "0x2F \<notin> set w" "length w \<le> 105"
    and prot: "\<And>j. j \<le> length w + 3 \<Longrightarrow> kprot s (path + of_nat j)" and av: "4 \<le> kavail s"
  shows "\<exists>root q d s'. path_parse s path = Some (root, s') \<and> root \<noteq> 0 \<and> path_frame s s' \<and> kavail s' + 3 = kavail s \<and>
    drive_no (path_roots s' root) = 0 \<and> path_first (path_roots s' root) = q \<and> q \<noteq> 0 \<and>
    part (path_parts s' q) = d \<and> path_next (path_parts s' q) = 0 \<and> (d, 1) \<in> kallocs s' \<and> part_text (mem s') d w"
proof -
  have split: "path_split w = [w]" by (rule path_split_single [OF assms(3,4)])
  have dig: "isdigit 0x30" "todigit 0x30 = 0" by (simp_all add: isdigit_def todigit_def)
  have av': "2 * length (path_split w) + 2 \<le> kavail s" using av split by simp
  obtain root s' ps where p: "path_parse s path = Some (root, s')" "part_names ps = path_split w" "root_at s' root (todigit 0x30) ps"
    "path_frame s s'" "kavail s' + (2 * length ps + 1) = kavail s" "kallocs s' = kallocs s \<union> owned (set (root # part_blocks ps))"
    using path_parse_effect [OF assms(1,2) dig(1) assms(5) prot av'] by blast
  obtain q d where ps: "ps = [(q, d, w)]" using p(2) split by (cases ps) auto
  have "root \<noteq> 0" "drive_no (path_roots s' root) = 0" "path_first (path_roots s' root) = q" "q \<noteq> 0" "part (path_parts s' q) = d"
    "path_next (path_parts s' q) = 0" "part_text (mem s') d w"
    using p(3) dig(2) by (simp_all add: ps root_at_def)
  then show ?thesis using p(1,4,5,6) by (auto simp: ps)
qed

lemma first_cluster_img:
  assumes "\<And>j. j < 32 \<Longrightarrow> m (c + of_nat j) = img (e + j)"
  shows "fat16_get_first_cluster m c = of_nat (dir_cluster img e)"
proof -
  have "m (c + 20) = img (e + 20)" "m (c + 20 + 1) = img (e + 21)" "m (c + 26) = img (e + 26)" "m (c + 26 + 1) = img (e + 27)"
    using assms [of 20] assms [of 21] assms [of 26] assms [of 27] by (simp_all add: add.assoc)
  then show ?thesis
    by (simp add: fat16_get_first_cluster_def di_high_first_cluster_def di_low_first_cluster_def load16_def dir_cluster_def)
qed

text \<open>What \<^verbatim>\<open>fopen\<close> needs: the path \<^verbatim>\<open>0:/name\<close> in protected memory, a file of that name, free heap blocks and a free descriptor \<open>j\<close>.\<close>

definition can_open :: "'a file_state_scheme \<Rightarrow> (nat \<Rightarrow> u8) \<Rightarrow> nat \<Rightarrow> u32 \<Rightarrow> u8 list \<Rightarrow> nat \<Rightarrow> nat \<Rightarrow> bool" where
  "can_open s img k path w i j \<longleftrightarrow> cstring (mem s) path (0x30 # 0x3A # 0x2F # w) \<and> w \<noteq> [] \<and> 0x2F \<notin> set w \<and> length w \<le> 105 \<and>
     (\<forall>l\<le>length w + 3. kprot s (path + of_nat l)) \<and> root_file img k i w \<and> 32 * k \<le> root_bytes img \<and> 7 \<le> kavail s \<and>
     length (file_descriptors s) = 512 \<and> first_null (file_descriptors s) = Some j \<and> j < 511"

lemma file_update_view [simp]:
  "kallocs (s\<lparr>descriptors := d\<rparr>) = kallocs s" "kheap_wf (s\<lparr>descriptors := d\<rparr>) = kheap_wf s" "kregion (s\<lparr>descriptors := d\<rparr>) = kregion s"
  "kallocs (s\<lparr>file_descriptors := t\<rparr>) = kallocs s" "kheap_wf (s\<lparr>file_descriptors := t\<rparr>) = kheap_wf s"
  "kregion (s\<lparr>file_descriptors := t\<rparr>) = kregion s" "kavail (s\<lparr>descriptors := d\<rparr>) = kavail s"
  "kavail (s\<lparr>file_descriptors := t\<rparr>) = kavail s" "kfits (s\<lparr>descriptors := d\<rparr>) n = kfits s n" "kfits (s\<lparr>file_descriptors := t\<rparr>) n = kfits s n"
  "kspent s0 (s\<lparr>descriptors := d\<rparr>) = kspent s0 s" "kspent s0 (s\<lparr>file_descriptors := t\<rparr>) = kspent s0 s"
  "kprot (s\<lparr>descriptors := d\<rparr>) a = kprot s a" "kprot (s\<lparr>file_descriptors := t\<rparr>) a = kprot s a"
  by (simp_all add: kheap_view_defs kspent_def kprot_def)

text \<open>The allocations of an open file.\<close>

definition open_blocks :: "'a file_state_scheme \<Rightarrow> int \<Rightarrow> u32 \<Rightarrow> (u32 \<times> nat) set" where
  "open_blocks s fd c = (let p = file_get_descriptor s fd; d = private_data (descriptors s p)
     in {(c, 1), (ffd_item (mem s) d, 1), (d, 1), (p, 1)})"

text \<open>The file whose directory entry is at byte \<open>e\<close> of the disk is open under \<open>fd\<close>, at position 0; \<open>c\<close> is the copy of its entry.\<close>

definition opened :: "'a file_state_scheme \<Rightarrow> int \<Rightarrow> u32 \<Rightarrow> (nat \<Rightarrow> u8) \<Rightarrow> nat \<Rightarrow> bool" where
  "opened s fd c img e \<longleftrightarrow> 1 \<le> fd \<and>
     (let p = file_get_descriptor s fd; d = descriptors s p; f = private_data d
      in p \<noteq> 0 \<and> (p, 1) \<in> kallocs s \<and> p \<noteq> f \<and> p \<noteq> ffd_item (mem s) f \<and> p \<noteq> c \<and> fd_index d = fd \<and> fd_fs d = fat16_fs s \<and>
         fat_open s f c img e)"

lemma opened_keep:
  assumes "live_keep s s'" "file_descriptors s' = file_descriptors s" "descriptors s' = descriptors s" "opened s fd c img e"
  shows "opened s' fd c img e"
proof -
  have "file_get_descriptor s' fd = file_get_descriptor s fd" using assms(2) by (simp add: file_get_descriptor_def)
  moreover have "ffd_item (mem s') d = ffd_item (mem s) d" if "fat_open s d c img e" for d
    using that live_keep_load32 [OF assms(1), of d 0] by (simp add: ffd_item_def fat_open_def)
  ultimately show ?thesis using assms(3,4) fat_open_keep [OF assms(1)] live_keep_fields(7) [OF assms(1)] subsetD [OF live_keep_fields(10) [OF assms(1)]]
    by (simp add: opened_def Let_def)
qed

lemma open_blocks_keep:
  assumes "live_keep s s'" "file_descriptors s' = file_descriptors s" "descriptors s' = descriptors s" "opened s fd c img e"
  shows "open_blocks s' fd c = open_blocks s fd c"
proof -
  have "file_get_descriptor s' fd = file_get_descriptor s fd" using assms(2) by (simp add: file_get_descriptor_def)
  moreover have "ffd_item (mem s') d = ffd_item (mem s) d" if "fat_open s d c img e" for d
    using that live_keep_load32 [OF assms(1), of d 0] by (simp add: ffd_item_def fat_open_def)
  ultimately show ?thesis using assms(3,4) by (simp add: open_blocks_def opened_def Let_def)
qed

lemma opened_open_file:
  assumes "fs_ready s img n k" "opened s fd c img e" "cl ! 0 = dir_cluster img e"
  shows "open_file s fd c cl 0" "(c, 1) \<in> kallocs s"
proof -
  let ?d = "descriptors s (file_get_descriptor s fd)"
  have f: "fat_open s (private_data ?d) c img e" using assms(2) by (simp add: opened_def Let_def)
  then have c: "fitem_ptr (mem s) (ffd_item (mem s) (private_data ?d)) = c" "ffd_pos (mem s) (private_data ?d) = 0"
    "\<And>j. j < 32 \<Longrightarrow> mem s (c + of_nat j) = img (e + j)"
    by (simp_all only: fat_open_def file_item_def)
  show live: "(c, 1) \<in> kallocs s" using f by (simp add: fat_open_def)
  have "item_bytes c \<subseteq> extent c 1" by (auto simp: item_bytes_def extent_def)
  then have "entry_bytes s \<inter> item_bytes c = {}"
    using kz.allocs_region [OF fs_ready_wf [OF assms(1)] live] assms(1) unfolding fs_ready_def by blast
  moreover have "fat16_get_first_cluster (mem s) c = of_nat (cl ! 0)" unfolding assms(3) using c(3) by (intro first_cluster_img)
  ultimately show "open_file s fd c cl 0" using c(1,2) assms(2) by (simp add: open_file_def opened_def Let_def)
qed

lemma file_new_descriptor_run:
  assumes "kheap_wf s" "0 < kavail s" "first_null (file_descriptors s) = Some j"
  shows "\<exists>p s'. file_new_descriptor s = (0, p, s') \<and> p \<noteq> 0 \<and> live_keep s s' \<and> (p, 1) \<in> kallocs s' \<and> (\<forall>q k. (q, k) \<in> kallocs s \<longrightarrow> p \<noteq> q) \<and>
    file_descriptors s' = (file_descriptors s)[j := p] \<and> fd_index (descriptors s' p) = int j + 1 \<and> kavail s' + 1 = kavail s \<and>
    file_state.more s' = file_state.more s \<and> kspent s s'"
proof -
  obtain p s1 where al: "kzalloc s 16 = (p, s1)" by force
  note 1 = kzalloc_drv_page [OF assms(1,2) _ _ al, simplified]
  note f1 = drv_step_fields [OF 1(1)]
  have fields: "file_descriptors s1 = file_descriptors s" "descriptors s1 = descriptors s" "file_state.more s1 = file_state.more s"
    using file_fields_more [OF drv_frame_fields(10) [OF f1(13)]] by simp_all
  let ?d = "\<lparr>fd_index = int j + 1, fd_fs = 0, private_data = 0, fd_disk = 0\<rparr>"
  let ?s2 = "s1\<lparr>descriptors := (descriptors s1)(p := ?d), file_descriptors := (file_descriptors s1)[j := p]\<rparr>"
  have "live_keep s s1" by (rule live_keep_drv [OF 1(1) _ assms(1)]) simp_all
  moreover have "live_keep s1 ?s2" using 1(7) by (simp add: live_keep_def kspent_same)
  ultimately have "live_keep s ?s2" by (rule live_keep_trans)
  moreover have "file_new_descriptor s = (0, p, ?s2)" using assms(3) al by (simp add: file_new_descriptor_def)
  ultimately show ?thesis using 1(2,3,4,5) fields f1(14) by (intro exI [of _ p] exI [of _ ?s2]) simp
qed

lemma fopen_effect:
  assumes fs: "fs_ready s img n k" and op: "can_open s img k path w i j"
  shows "\<exists>s' item. fopen s path [0x72] = Some (int j + 1, s') \<and> opened s' (int j + 1) item img (512 * root_start img + 32 * i) \<and>
    live_keep s s' \<and> fs_ready s' img n k \<and> kavail s' + 7 = kavail s \<and> file_state.more s' = file_state.more s \<and> kspent s s' \<and> open_blocks s' (int j + 1) item \<inter> kallocs s = {} \<and>
    (file_descriptors s')[j := 0] = file_descriptors s"
proof -
  let ?e = "512 * root_start img + 32 * i"
  note o = op [unfolded can_open_def]
  note wf = fs_ready_wf [OF fs]
  obtain root q d s1 where p: "path_parse s path = Some (root, s1)" "root \<noteq> 0" "path_frame s s1" "kavail s1 + 3 = kavail s"
    "drive_no (path_roots s1 root) = 0" "path_first (path_roots s1 root) = q" "q \<noteq> 0"
    "part (path_parts s1 q) = d" "path_next (path_parts s1 q) = 0" "(d, 1) \<in> kallocs s1" "part_text (mem s1) d w"
    using path_parse_single [OF wf, of path w] o by fastforce
  have k1: "live_keep s s1" by (rule live_keep_path [OF p(3)])
  have fs1: "fs_ready s1 img n k" by (rule fs_ready_keep [OF k1 fs])
  have rest: "path_rest s1 = path_rest s" using p(3) by (simp add: path_frame_def)
  from arg_cong [OF rest, of file_descriptors] have tab1: "file_descriptors s1 = file_descriptors s" by (simp add: path_rest_def)
  from arg_cong [OF rest, of file_state.more] have more1: "file_state.more s1 = file_state.more s" by (simp add: path_rest_def)
  have "find_ctx s1 img n k (part (path_parts s1 q)) w" using fs1 p(8,10,11) o by (simp add: find_ctx_def)
  then obtain fd c s2 where s2: "fat16_open s1 q FILE_MODE_READ = Some (fd, s2)" "drv_step s1 s2 (name_local s1)" "kavail s2 + 3 = kavail s1"
    "fat_open s2 fd c img ?e" "\<forall>q l. (q, l) \<in> kallocs s1 \<longrightarrow> q \<noteq> fd \<and> q \<noteq> ffd_item (mem s2) fd \<and> q \<noteq> c"
    using fat16_open_root_file [of s1 img n k q w i] p(4,9) o by auto
  note f2 = drv_step_fields [OF s2(2)]
  have k2: "live_keep s1 s2"
    by (rule live_keep_drv [OF s2(2) _ fs_ready_wf [OF fs1]]) (use fs1 in \<open>simp_all add: fs_ready_def\<close>)
  have fs2: "fs_ready s2 img n k" by (rule fs_ready_keep [OF k2 fs1])
  have tab2: "file_descriptors s2 = file_descriptors s" "file_state.more s2 = file_state.more s"
    using file_fields_more [OF drv_frame_fields(10) [OF f2(13)]] tab1 more1 by simp_all
  have av2: "0 < kavail s2" using p(4) s2(3) o by simp
  obtain ds s3 where s3: "file_new_descriptor s2 = (0, ds, s3)" "ds \<noteq> 0" "live_keep s2 s3" "file_descriptors s3 = (file_descriptors s2)[j := ds]"
    "fd_index (descriptors s3 ds) = int j + 1" "kavail s3 + 1 = kavail s2" "file_state.more s3 = file_state.more s2"
    "(ds, 1) \<in> kallocs s3" "\<forall>q k. (q, k) \<in> kallocs s2 \<longrightarrow> ds \<noteq> q" "kspent s2 s3"
    using file_new_descriptor_run [OF fs_ready_wf [OF fs2] av2, of j] o tab2 by auto
  let ?new = "(descriptors s3 ds)\<lparr>fd_fs := disk_fs (the_disk s3), private_data := fd, fd_disk := disk_addr s1\<rparr>"
  let ?s4 = "s3\<lparr>descriptors := (descriptors s3)(ds := ?new)\<rparr>"
  have k4: "live_keep s2 ?s4" using s3(3) by (simp add: live_keep_def)
  have fs4: "fs_ready ?s4 img n k" by (rule fs_ready_keep [OF k4 fs2])
  have run: "fopen s path [0x72] = Some (int j + 1, ?s4)"
  proof -
    have "disk_get s1 0 = disk_addr s1" "disk_addr s1 \<noteq> 0" "disk_fs (the_disk s1) = fat16_fs s1" "fat16_fs s1 \<noteq> 0"
      using fs1 by (simp_all add: disk_get_def fs_ready_def)
    moreover have "file_get_mode_from_str [0x72] = FILE_MODE_READ" "FILE_MODE_READ \<noteq> FILE_MODE_INVALID"
      by (simp_all add: file_get_mode_from_str_def config_simps)
    ultimately show ?thesis unfolding fopen_def p(1) using p(2,5,6,7) s2(1) s3(1,5) by simp
  qed
  have "fat_open ?s4 fd c img ?e" by (rule fat_open_keep [OF k4 s2(4)])
  moreover have get: "file_get_descriptor ?s4 (int j + 1) = ds"
    using o s3(4) tab2 by (simp add: file_get_descriptor_def config_simps)
  moreover have "disk_fs (the_disk s3) = fat16_fs s3" using fs4 by (simp add: fs_ready_def)
  moreover have "ds \<noteq> fd" "ds \<noteq> ffd_item (mem s2) fd" "ds \<noteq> c" using s2(4) s3(9) by (auto simp: fat_open_def)
  moreover have "(fd, 1) \<in> kallocs s2" using s2(4) by (simp add: fat_open_def)
  then have item: "ffd_item (mem ?s4) fd = ffd_item (mem s2) fd" using live_keep_load32 [OF k4, of fd 0] by (simp add: ffd_item_def)
  ultimately have "opened ?s4 (int j + 1) c img ?e" using s3(2,5,8) by (simp add: opened_def)
  moreover have "live_keep s ?s4" by (rule live_keep_trans [OF live_keep_trans [OF k1 k2] k4])
  moreover have "kavail ?s4 + 7 = kavail s" using p(4) s2(3) s3(6) by simp
  moreover have "file_state.more ?s4 = file_state.more s" using s3(7) tab2(2) by simp
  moreover have "(q, l) \<notin> kallocs s" if "(q, l) \<in> open_blocks ?s4 (int j + 1) c" for q l
  proof
    assume a: "(q, l) \<in> kallocs s"
    have "(q, l) \<in> kallocs s1" "(q, l) \<in> kallocs s2" using subsetD [OF live_keep_fields(10) [OF k1] a] f2(9) by auto
    then have "q \<noteq> fd" "q \<noteq> ffd_item (mem s2) fd" "q \<noteq> c" "q \<noteq> ds" using s2(5) s3(9) by blast+
    then show False using that unfolding open_blocks_def get Let_def using item by auto
  qed
  then have "open_blocks ?s4 (int j + 1) c \<inter> kallocs s = {}" by fast
  moreover have "j < length (file_descriptors s)" "file_descriptors s ! j = 0" using o first_null_Some [of "file_descriptors s" j] by auto
  then have "(file_descriptors ?s4)[j := 0] = file_descriptors s" using s3(4) tab2(1) list_update_id [of "file_descriptors s" j] by simp
  moreover have "kspent s s1" using p(3) by (simp add: path_frame_def)
  then have "kspent s ?s4" using kspent_trans [OF kspent_trans [OF _ f2(14)] s3(10)] by simp
  ultimately show ?thesis using run fs4 by (intro exI [of _ ?s4] exI [of _ c] conjI)
qed

section \<open>\<^verbatim>\<open>fclose\<close>\<close>

lemma kfree_page:
  assumes "kheap_wf s" "(p, 1) \<in> kallocs s"
  shows "kheap_wf (kfree s p)" "kallocs (kfree s p) = kallocs s - {(p, 1)}" "kavail (kfree s p) = kavail s + 1"
    "kfits s n \<Longrightarrow> kfits (kfree s p) n"
  using kz.free_inv [OF assms] kz.free_allocs [OF assms] kz.free_avail [OF assms] kz.free_fits [OF assms] by simp_all

text \<open>\<^verbatim>\<open>fclose\<close> of an open file changes the heap and the table of descriptors only.\<close>

lemma fclose_opened:
  assumes "kheap_wf s" "opened s fd c img e"
  shows "\<exists>h s'. fclose s fd = Some (0, s') \<and> s' = s\<lparr>kernel_heap := h, file_descriptors := (file_descriptors s)[nat (fd - 1) := 0]\<rparr> \<and>
    kheap_wf s' \<and> kregion s' = kregion s \<and> kallocs s' = kallocs s - open_blocks s fd c \<and> kavail s' = kavail s + 4 \<and>
    (\<forall>n. kfits s n \<longrightarrow> kfits s' n)"
proof -
  define p where "p = file_get_descriptor s fd"
  define d where "d = private_data (descriptors s p)"
  define it where "it = ffd_item (mem s) d"
  have o: "(p, 1) \<in> kallocs s" "p \<noteq> 0" "p \<noteq> d" "p \<noteq> it" "p \<noteq> c" "fd_index (descriptors s p) = fd" "fd_fs (descriptors s p) = fat16_fs s"
    "fat_open s d c img e"
    using assms(2) by (simp_all add: opened_def Let_def p_def d_def it_def)
  note f = o(8) [unfolded fat_open_def file_item_def, folded it_def]
  have f': "(d, 1) \<in> kallocs s" "(it, 1) \<in> kallocs s" "(c, 1) \<in> kallocs s" "d \<noteq> it" "d \<noteq> c" "it \<noteq> c"
    "fitem_type (mem s) it = FAT_ITEM_TYPE_FILE" "fitem_ptr (mem s) it = c" using f by blast+
  let ?s1 = "kfree s c" let ?s2 = "kfree ?s1 it" let ?s3 = "kfree ?s2 d"
  let ?t = "(file_descriptors s)[nat (fd - 1) := 0]"
  let ?s4 = "kfree (?s3\<lparr>file_descriptors := ?t\<rparr>) p"
  note 1 = kfree_page [OF assms(1) f'(3)]
  have l2: "(it, 1) \<in> kallocs ?s1" using 1(2) f' by auto
  note 2 = kfree_page [OF 1(1) l2]
  have l3: "(d, 1) \<in> kallocs ?s2" using 1(2) 2(2) f' by auto
  note 3 = kfree_page [OF 2(1) l3]
  have l4: "(p, 1) \<in> kallocs (?s3\<lparr>file_descriptors := ?t\<rparr>)" using 1(2) 2(2) 3(2) o(1,3,4,5) by auto
  have w4: "kheap_wf (?s3\<lparr>file_descriptors := ?t\<rparr>)" using 3(1) by simp
  note 4 = kfree_page [OF w4 l4]
  have "fclose s fd = Some (0, ?s4)"
    using o(2,6,7) f'(7,8) by (simp add: fclose_def p_def [symmetric] d_def [symmetric] it_def [symmetric] fat16_close_def fat16_free_file_descriptor_def
        fat16_fat_item_free_def file_free_descriptor_def config_simps kfree_def)
  moreover have "?s4 = s\<lparr>kernel_heap := kernel_heap ?s4, file_descriptors := ?t\<rparr>" by (simp add: kfree_def)
  moreover have "kallocs ?s4 = kallocs s - open_blocks s fd c"
    unfolding open_blocks_def Let_def p_def [symmetric] d_def [symmetric] it_def [symmetric] using 1(2) 2(2) 3(2) 4(2) by auto
  moreover have "kavail ?s4 = kavail s + 4" using 1(3) 2(3) 3(3) 4(3) by simp
  moreover have "kfits ?s4 n" if "kfits s n" for n using 4(4) [OF _] 3(4) [OF 2(4) [OF 1(4) [OF that]]] by simp
  moreover have "kregion ?s4 = kregion s" by (simp add: kz.free_region)
  ultimately show ?thesis using 4(1) by blast
qed

text \<open>Closing what was opened since keeps what was live before.\<close>

lemma live_keep_close:
  assumes "live_keep s s1" "open_blocks s1 fd c \<inter> kallocs s = {}" "s2 = s1\<lparr>kernel_heap := h, file_descriptors := t\<rparr>"
    and "kheap_wf s2" "kregion s2 = kregion s1" "kallocs s2 = kallocs s1 - open_blocks s1 fd c"
  shows "live_keep s s2"
proof -
  note k = live_keep_fields [OF assms(1)]
  have sub: "kallocs s \<subseteq> kallocs s2" using k(10) assms(2,6) by blast
  have prot: "kprot s2 a" if "kprot s a" for a
    using that sub k(8) assms(5) unfolding kprot_def by blast
  have m: "mem s2 = mem s1" "disk_streams s2 = disk_streams s1" by (simp_all add: assms(3))
  have "\<forall>p k a. (p, k) \<in> kallocs s \<and> a \<in> extent p k \<longrightarrow> mem s1 a = mem s a" using k(13) by blast
  then show ?thesis unfolding live_keep_def m
    using k(1-9) k(12,15) assms(4,5) sub prot by (simp add: assms(3))
qed

text \<open>
  C31: \<^verbatim>\<open>fclose\<close> of a file that \<^verbatim>\<open>fopen\<close> has just opened returns 0 and gives back its descriptor and the four blocks of the open
  file; the file system stays ready and live memory keeps its contents. The three blocks of the parsed path are not given back.
\<close>

theorem fclose_after_fopen:
  assumes "fs_ready s img n k" "can_open s img k path w i j"
  shows "\<exists>fd s1 s2. fopen s path [0x72] = Some (fd, s1) \<and> fclose s1 fd = Some (0, s2) \<and> file_descriptors s2 = file_descriptors s \<and>
    fs_ready s2 img n k \<and> kallocs s \<subseteq> kallocs s2 \<and> kavail s2 + 3 = kavail s \<and>
    (\<forall>p k a. (p, k) \<in> kallocs s \<and> a \<in> extent p k \<longrightarrow> mem s2 a = mem s a)"
proof -
  obtain s1 c where 1: "fopen s path [0x72] = Some (int j + 1, s1)" "opened s1 (int j + 1) c img (512 * root_start img + 32 * i)"
    "live_keep s s1" "kavail s1 + 7 = kavail s" "open_blocks s1 (int j + 1) c \<inter> kallocs s = {}" "(file_descriptors s1)[j := 0] = file_descriptors s"
    using fopen_effect [OF assms] by blast
  obtain h s2 where 2: "fclose s1 (int j + 1) = Some (0, s2)"
    "s2 = s1\<lparr>kernel_heap := h, file_descriptors := (file_descriptors s1)[nat (int j + 1 - 1) := 0]\<rparr>" "kheap_wf s2" "kregion s2 = kregion s1"
    "kallocs s2 = kallocs s1 - open_blocks s1 (int j + 1) c" "kavail s2 = kavail s1 + 4"
    using fclose_opened [OF live_keep_fields(9) [OF 1(3)] 1(2)] by blast
  note k = live_keep_close [OF 1(3,5) 2(2-5)]
  have "file_descriptors s2 = file_descriptors s" using 2(2) 1(6) by simp
  moreover have "kavail s2 + 3 = kavail s" using 1(4) 2(6) by simp
  moreover have "\<forall>p k a. (p, k) \<in> kallocs s \<and> a \<in> extent p k \<longrightarrow> mem s2 a = mem s a" using live_keep_fields(13) [OF k] by blast
  ultimately show ?thesis using 1(1) 2(1) fs_ready_keep [OF k assms(1)] live_keep_fields(10) [OF k] by blast
qed

text \<open>
  C9: on a ready file system \<^verbatim>\<open>fopen\<close> of \<^verbatim>\<open>0:/name\<close> for reading returns the number of the first free descriptor and opens the file
  whose root directory entry has that name, in any mixture of case, at its first cluster and position 0; the
  file system stays ready and all live heap memory keeps its contents.
\<close>

theorem fopen_opens_root_file:
  assumes "fs_ready s img n k" "can_open s img k path w i j" "cl ! 0 = dir_cluster img (512 * root_start img + 32 * i)"
  shows "\<exists>s' item. fopen s path [0x72] = Some (int j + 1, s') \<and> open_file s' (int j + 1) item cl 0 \<and> fs_ready s' img n k \<and>
    (\<forall>p k a. (p, k) \<in> kallocs s \<and> a \<in> extent p k \<longrightarrow> mem s' a = mem s a)"
  using fopen_effect [OF assms(1,2)] opened_open_file(1) [OF _ _ assms(3)] live_keep_fields(13) by blast

section \<open>From the path to the bytes\<close>

text \<open>
  C7: opening a file of the root directory by its path and reading \<open>m\<close> blocks of \<open>t\<close> bytes into a buffer outside the kernel heap
  delivers the bytes of the cluster chain that starts at the cluster of its directory entry, as long as the blocks lie
  inside the chain and each starts at a cluster boundary or stays inside one cluster (\<open>read_fits\<close>); a block that runs over
  the end of a cluster it does not start in is not read from the chain. Files in sub-directories cannot be opened.
\<close>

theorem fopen_fread_delivers:
  assumes fs: "fs_ready s img n k" and op: "can_open s img k path w i j"
    and cl: "cluster_chain (volume_of s img n) cl" "cl \<noteq> []" "cl ! 0 = dir_cluster img (512 * root_start img + 32 * i)"
    and t: "0 < t" "0 < m" "m * t \<le> 512 * unat (img 13) * length cl" "m * t < 2 ^ 31" "\<forall>l<m. read_fits (volume_of s img n) (l * t) t"
    and buf: "out_bytes buf (m * t) \<inter> (kregion s \<union> entry_bytes s) = {}"
  shows "\<exists>fd s1 s2. fopen s path [0x72] = Some (fd, s1) \<and> fread s1 buf (of_nat t) (of_nat m) fd = Some (int m, s2) \<and>
    (\<forall>l<m * t. mem s2 (buf + of_nat l) = file_byte (volume_of s img n) cl l)"
proof -
  obtain s1 item where s1: "fopen s path [0x72] = Some (int j + 1, s1)" "open_file s1 (int j + 1) item cl 0" "(item, 1) \<in> kallocs s1"
    "live_keep s s1" "fs_ready s1 img n k"
    using fopen_effect [OF fs op] opened_open_file [OF _ _ cl(3)] by blast
  note k = s1(4) [unfolded live_keep_def]
  have p: "(fs_private (the_disk s), 1) \<in> kallocs s" using fs by (simp add: fs_ready_def mount_live_def Let_def)
  have v: "volume_of s1 img n = volume_of s img n" by (rule volume_of_keep [OF s1(4) fs])
  have wf: "kheap_wf s1" "(fs_private (the_disk s1), 1) \<in> kallocs s1" using k p by auto
  have "priv_bytes (fs_private (the_disk s1)) \<subseteq> kregion s" "item_bytes item \<subseteq> kregion s"
    using kz.allocs_region [OF wf] kz.allocs_region [OF wf(1) s1(3)] priv_extent [of "fs_private (the_disk s1)"] k
    by (auto simp: item_bytes_def extent_def)
  then have dis: "out_bytes buf (m * t) \<inter> (priv_bytes (fs_private (the_disk s1)) \<union> entry_bytes s1 \<union> item_bytes item) = {}"
    using buf k by auto
  have c0: "cl ! 0 < 2 ^ 31" unfolding cl(3) dir_cluster_def by (rule order_less_le_trans [OF unsigned_less]) simp
  have "mounted s1 (volume_of s img n)" using s1(5) v by (simp add: fs_ready_def)
  then obtain s2 where "fread s1 buf (of_nat t) (of_nat m) (int j + 1) = Some (int m, s2)"
    "\<forall>l<m * t. mem s2 (buf + of_nat l) = file_byte (volume_of s img n) cl (0 + l)"
    using fread_effect [OF _ cl(1,2) c0 s1(2) t(1,2) _ _ _ dis] t(3-5) by (auto simp: volume_of_def)
  then show ?thesis using s1(1) by auto
qed

text \<open>The witnesses boot the volume of \<open>Fat16_Mount\<close> and open \<^verbatim>\<open>0:/hi.txt\<close>.\<close>

abbreviation hi_txt :: "u8 list" where
  "hi_txt \<equiv> [0x68, 0x69, 0x2E, 0x74, 0x78, 0x74]"

lemma kfits_kavail:
  assumes "kheap_wf s" "kfits s n" "0 < n" "n < 2 ^ 19"
  shows "n \<le> kavail s"
proof -
  let ?sz = "of_nat (n * 4096) :: u32"
  have u: "unat ?sz = n * 4096" using assms(4) by (intro unat_of_nat_u32) simp
  have b: "blocks_for ?sz = n" unfolding blocks_for_def u by (rule div_nat_eqI) simp_all
  obtain p s' where al: "kzalloc s ?sz = (p, s')" by force
  show ?thesis using kz.malloc_avail [OF assms(1) _ _ _ al] u b assms(2-4) by simp
qed

lemma boot_img_name: "dir_name (boot_img c) 1536 = [0x48, 0x49, 0x2E, 0x54, 0x58, 0x54]"
  by (simp add: dir_name_def img_text_def upt_rec boot_img_def nth_append nth_Cons')

lemma boot_img_cluster: "dir_cluster (boot_img c) 1536 = 2"
  by (simp add: dir_cluster_def boot_img_def nth_append nth_Cons')

lemma boot_img_file: "root_file (boot_img c) 2 0 hi_txt"
  unfolding root_file_def boot_img_geometry Let_def
  by (simp add: boot_img_live boot_img_name name_match_def tolower_def boot_img_def nth_append nth_Cons')

lemma demo_after_boot:
  assumes d: "demo_machine s0 c N"
  shows "\<exists>s. Option.bind (fs_init s0) disk_search_and_init = Some s \<and> fs_ready s (boot_img c) (2 ^ 22 - 1) 2 \<and>
    can_open s (boot_img c) 2 0x2000 hi_txt 0 0 \<and> drv_locals s = drv_locals s0 \<and> entry_bytes s = {0x9100, 0x9101} \<and> kregion s = kregion s0 \<and>
    kfits s (unat N - 6) \<and> file_state.more s = file_state.more s0"
proof -
  note f = d [unfolded demo_machine_def]
  have "64 \<le> uint N" using f by blast
  then have "int 64 \<le> int (unat N)" by (simp only: uint_nat of_nat_numeral)
  then have N: "64 \<le> unat N" by (simp only: of_nat_le_iff)
  have r: "boot_ready s0 (boot_img c) (2 ^ 22 - 1) (blocks_for (of_nat (root_bytes (boot_img c))) + (unat N - 6))"
    by (rule demo_machine_ready [OF d]) (use N in \<open>simp add: boot_img_geometry blocks_for_def\<close>)
  obtain s where s: "Option.bind (fs_init s0) disk_search_and_init = Some s" "fs_ready s (boot_img c) (2 ^ 22 - 1) 2"
    "file_descriptors s = replicate 512 0" "kfits s (unat N - 6)" "kregion s = kregion s0" "drv_locals s = drv_locals s0" "\<And>a. kprot s0 a \<Longrightarrow> kprot s a"
    "\<And>a. kprot s0 a \<Longrightarrow> a \<notin> item_local s0 \<Longrightarrow> mem s a = mem s0 a" "file_state.more s = file_state.more s0" "stk_entry s = stk_entry s0"
    using disk_search_effect [OF r boot_img_root]
    by (auto simp: boot_img_def drv_locals_def)
  have u: "unat (0x2000 + of_nat l :: u32) = 0x2000 + l" if "l < 16" for l
    using unat_of_nat_u32 [of "0x2000 + l"] that by simp
  have prot: "kprot s0 (0x2000 + of_nat l)" if "l < 16" for l
    using demo_low [OF d, of "0x2000 + of_nat l"] u [OF that] that by (simp add: kprot_def)
  have mem: "mem s (0x2000 + of_nat l) = demo_boot_mem (0x2000 + of_nat l)" if "l < 16" for l
  proof -
    have "\<not> unat (0x2000 + of_nat l - 0x9000 :: u32) < 32" unfolding unat_sub_if' u [OF that] using that by simp
    then show ?thesis using s(8) [OF prot [OF that]] f by simp
  qed
  have "cstring (mem s) 0x2000 (0x30 # 0x3A # 0x2F # hi_txt)"
    using mem [of 0] mem [of 1] mem [of 2] mem [of 3] mem [of 4] mem [of 5] mem [of 6] mem [of 7] mem [of 8] mem [of 9]
    by (simp add: demo_boot_mem_def)
  moreover have "kprot s (0x2000 + of_nat l)" if "l \<le> length hi_txt + 3" for l using that by (intro s(7) prot) simp
  moreover have "kfits s 7" by (rule kz.fits_mono [OF s(4)]) (use N in simp)
  then have "7 \<le> kavail s" using kfits_kavail [OF fs_ready_wf [OF s(2)]] by simp
  moreover have "first_null (file_descriptors s) = Some 0" using s(3) by (simp add: numeral_eq_Suc)
  ultimately have "can_open s (boot_img c) 2 0x2000 hi_txt 0 0"
    using boot_img_file s(3) by (simp add: can_open_def boot_img_geometry)
  then show ?thesis using s(1,2,4,5,6,9,10) f by auto
qed

theorem fclose_after_fopen_witness:
  "\<exists>s fd s1 s2. Option.bind (fs_init demo_boot) disk_search_and_init = Some s \<and> fopen s 0x2000 [0x72] = Some (fd, s1) \<and>
    fclose s1 fd = Some (0, s2) \<and> file_descriptors s2 = file_descriptors s \<and> kavail s2 + 3 = kavail s"
proof -
  obtain s where s: "Option.bind (fs_init demo_boot) disk_search_and_init = Some s" "fs_ready s demo_boot_img (2 ^ 22 - 1) 2"
    "can_open s demo_boot_img 2 0x2000 hi_txt 0 0" using demo_after_boot [OF demo_boot_machine] by blast
  show ?thesis using s(1) fclose_after_fopen [OF s(2,3)] by blast
qed

theorem fopen_opens_root_file_witness:
  "\<exists>s s'. Option.bind (fs_init demo_boot) disk_search_and_init = Some s \<and> fopen s 0x2000 [0x72] = Some (1, s') \<and> file_get_descriptor s' 1 \<noteq> 0"
proof -
  obtain s where s: "Option.bind (fs_init demo_boot) disk_search_and_init = Some s" "fs_ready s demo_boot_img (2 ^ 22 - 1) 2"
    "can_open s demo_boot_img 2 0x2000 hi_txt 0 0" using demo_after_boot [OF demo_boot_machine] by blast
  have "[2] ! 0 = dir_cluster demo_boot_img (512 * root_start demo_boot_img + 32 * 0)" by (simp add: boot_img_geometry boot_img_cluster)
  from fopen_opens_root_file [OF s(2,3) this] obtain s' item where "fopen s 0x2000 [0x72] = Some (int 0 + 1, s')"
    "open_file s' (int 0 + 1) item [2] 0" by blast
  then show ?thesis using s(1) by (auto simp: open_file_def)
qed

theorem fopen_fread_delivers_witness:
  "\<exists>s fd s1 s2. Option.bind (fs_init demo_boot) disk_search_and_init = Some s \<and> fopen s 0x2000 [0x72] = Some (fd, s1) \<and>
    fread s1 0x3000 5 1 fd = Some (1, s2) \<and> map (\<lambda>l. mem s2 (0x3000 + of_nat l)) [0..<5] = [0x68, 0x65, 0x6C, 0x6C, 0x6F]"
proof -
  let ?n = "2 ^ 22 - 1 :: nat"
  obtain s where s: "Option.bind (fs_init demo_boot) disk_search_and_init = Some s" "fs_ready s demo_boot_img ?n 2"
    "can_open s demo_boot_img 2 0x2000 hi_txt 0 0" "entry_bytes s = {0x9100, 0x9101}" "kregion s = kregion demo_boot" using demo_after_boot [OF demo_boot_machine] by blast
  let ?v = "volume_of s demo_boot_img ?n"
  have v: "v_spc ?v = 1" "v_data ?v = 4" "v_reserved ?v = 1" "v_sectors ?v = ?n" "v_img ?v = demo_boot_img"
    by (simp_all add: volume_of_def boot_img_geometry) (simp_all add: boot_img_def img16_def)
  have cl: "cluster_chain ?v [2]" "[2] ! 0 = dir_cluster demo_boot_img (512 * root_start demo_boot_img + 32 * 0)"
    using v by (simp_all add: cluster_chain_def boot_img_geometry boot_img_cluster)
  have buf: "out_bytes 0x3000 (1 * 5) \<inter> (kregion s \<union> entry_bytes s) = {}"
  proof -
    have "unat a < 0x3100" if "unat (a - 0x3000) < 5" for a :: u32
      using that by (auto simp: unat_sub_if' unat_arith_simps split: if_splits)
    then have "a \<notin> kregion demo_boot \<and> a \<noteq> 0x9100 \<and> a \<noteq> 0x9101" if "unat (a - 0x3000) < 5" for a
      using that demo_low [OF demo_boot_machine, of a] by fastforce
    then show ?thesis using s(4,5) by auto
  qed
  have spc: "1 * 5 \<le> 512 * unat (demo_boot_img 13) * length [2 :: nat]" by (simp add: boot_img_def)
  have fit: "\<forall>l<1. read_fits ?v (l * 5) 5" using v by (simp add: read_fits_def)
  obtain fd s1 s2 where r: "fopen s 0x2000 [0x72] = Some (fd, s1)" "fread s1 0x3000 (of_nat 5) (of_nat 1) fd = Some (int 1, s2)"
    "\<And>l. l < 1 * 5 \<Longrightarrow> mem s2 (0x3000 + of_nat l) = file_byte ?v [2] l"
    using fopen_fread_delivers [OF s(2,3) cl(1) _ cl(2) _ _ spc _ fit buf] by auto
  have "file_byte ?v [2] l = demo_boot_img (2048 + l)" if "l < 5" for l unfolding file_byte_def Let_def v using that by simp
  then have "map (\<lambda>l. mem s2 (0x3000 + of_nat l)) [0..<5] = map (\<lambda>l. demo_boot_img (2048 + l)) [0..<5]" using r(3) by (intro map_cong) auto
  also have "\<dots> = [0x68, 0x65, 0x6C, 0x6C, 0x6F]" by (simp add: upt_rec boot_img_def)
  finally show ?thesis using s(1) r(1,2) by auto
qed

end
