(* ===== verification/Elf_Proofs.thy ===== *)
theory Elf_Proofs
  imports Elf_Model Fat16_Open
begin

unbundle bit_operations_syntax

text \<open>
  Loading executables: the address range that \<^verbatim>\<open>elf_process_pheaders\<close> computes, and \<^verbatim>\<open>elf_load\<close> from the path of the program
  to its image in memory. This joins the heap, the file layer, the FAT16 driver and the ELF loader.
\<close>

section \<open>The address range of a program\<close>

text \<open>The program headers with something to load, in the order of the file.\<close>

definition load_phdrs :: "memory \<Rightarrow> u32 \<Rightarrow> u32 list" where
  "load_phdrs m h = filter (\<lambda>p. p_type m p = PT_LOAD) (map (\<lambda>i. elf_program_header m h (of_nat i)) [0..<unat (e_phnum m h)])"

lemma elf_mem_pt_load [simp]: "elf_mem (elf_process_phdr_pt_load m ef p) = elf_mem ef"
  by (simp add: elf_process_phdr_pt_load_def Let_def)

lemma elf_process_pheaders_fold:
  "elf_process_pheaders m ef = foldl (elf_process_phdr_pt_load m) ef (load_phdrs m (elf_mem ef))"
proof -
  have "foldl (\<lambda>ef i. elf_process_pheader m ef (elf_program_header m (elf_mem ef) (of_nat i))) ef is =
    foldl (elf_process_phdr_pt_load m) ef
      (filter (\<lambda>p. p_type m p = PT_LOAD) (map (\<lambda>i. elf_program_header m (elf_mem ef) (of_nat i)) is))" for "is" :: "nat list"
    by (induction "is" arbitrary: ef) (simp_all add: elf_process_pheader_def)
  then show ?thesis by (simp add: elf_process_pheaders_def load_phdrs_def)
qed

text \<open>
  The range that covers the segments \<open>ps\<close> of the image at \<open>b\<close>: the lowest virtual address and the highest end, each with
  the place in the image that belongs to it.
\<close>

definition covers :: "memory \<Rightarrow> u32 \<Rightarrow> u32 list \<Rightarrow> elf_file \<Rightarrow> bool" where
  "covers m b ps ef \<longleftrightarrow> elf_mem ef = b \<and>
     (\<exists>p\<in>set ps. virt_base_addr ef = p_vaddr m p \<and> phys_base_addr ef = b + p_offset m p) \<and>
     (\<forall>p\<in>set ps. virt_base_addr ef \<le> p_vaddr m p) \<and>
     (\<exists>p\<in>set ps. virt_end_addr ef = p_vaddr m p + p_filesz m p \<and> phys_end_addr ef = b + p_offset m p + p_filesz m p) \<and>
     (\<forall>p\<in>set ps. p_vaddr m p + p_filesz m p \<le> virt_end_addr ef)"

abbreviation empty_elf :: "u32 \<Rightarrow> elf_file" where
  "empty_elf b \<equiv> \<lparr>elf_mem = b, virt_base_addr = 0, virt_end_addr = 0, phys_base_addr = 0, phys_end_addr = 0\<rparr>"

lemma covers_first: "covers m b [p] (elf_process_phdr_pt_load m (empty_elf b) p)"
  by (simp add: covers_def elf_process_phdr_pt_load_def Let_def)

lemma covers_step:
  assumes "covers m b ps ef" "\<forall>q\<in>set ps. p_vaddr m q \<noteq> 0"
  shows "covers m b (ps @ [p]) (elf_process_phdr_pt_load m ef p)"
proof -
  have nz: "virt_base_addr ef \<noteq> 0" using assms by (auto simp: covers_def)
  have "\<not> virt_end_addr ef \<le> e \<Longrightarrow> virt_end_addr ef \<noteq> 0" for e by auto
  with assms(1) nz show ?thesis
    unfolding covers_def elf_process_phdr_pt_load_def Let_def by (auto intro: order_trans)
qed

lemma covers_fold:
  assumes "ps \<noteq> []" "\<forall>p\<in>set ps. p_vaddr m p \<noteq> 0"
  shows "covers m b ps (foldl (elf_process_phdr_pt_load m) (empty_elf b) ps)"
  using assms
proof (induction ps rule: rev_induct)
  case (snoc p ps)
  then show ?case by (cases "ps = []") (auto simp: covers_first intro: covers_step)
qed simp

section \<open>The image of a file\<close>

text \<open>The bytes of a file seen as a memory that starts at address 0.\<close>

definition file_mem :: "volume \<Rightarrow> nat list \<Rightarrow> memory" where
  "file_mem v cl a = file_byte v cl (unat a)"

definition dir_size :: "(nat \<Rightarrow> u8) \<Rightarrow> nat \<Rightarrow> u32" where
  "dir_size img e = load32 (\<lambda>a. img (e + unat a)) 28"

text \<open>\<open>image_at m b sz fm\<close>: the \<open>sz\<close> bytes at \<open>b\<close> are those of the file.\<close>

definition image_at :: "memory \<Rightarrow> u32 \<Rightarrow> nat \<Rightarrow> memory \<Rightarrow> bool" where
  "image_at m b sz fm \<longleftrightarrow> (\<forall>k. unat k < sz \<longrightarrow> m (b + k) = fm k)"

lemma unat_plus_small:
  assumes "unat (k :: u32) + l < 2 ^ 32"
  shows "unat (k + of_nat l) = unat k + l"
proof -
  have "unat (of_nat l :: u32) = l" using assms by (intro unat_of_nat_u32) simp
  then show ?thesis using assms by (simp add: unat_word_ariths)
qed

lemma image_byte: "image_at m b sz fm \<Longrightarrow> unat k + l < sz \<Longrightarrow> sz < 2 ^ 32 \<Longrightarrow> m (b + (k + of_nat l)) = fm (k + of_nat l)"
  by (simp add: image_at_def unat_plus_small)

lemma image_load32:
  assumes "image_at m b sz fm" "unat k + 4 \<le> sz" "sz < 2 ^ 32"
  shows "load32 m (b + k) = load32 fm k"
proof -
  have "m (b + k) = fm k" "m (b + k + 1) = fm (k + 1)" "m (b + k + 2) = fm (k + 2)" "m (b + k + 3) = fm (k + 3)"
    using image_byte [OF assms(1) _ assms(3), of k 0] image_byte [OF assms(1) _ assms(3), of k 1]
      image_byte [OF assms(1) _ assms(3), of k 2] image_byte [OF assms(1) _ assms(3), of k 3] assms(2) by (simp_all add: add.assoc)
  then show ?thesis by (simp add: load32_def)
qed

lemma image_load16:
  assumes "image_at m b sz fm" "unat k + 2 \<le> sz" "sz < 2 ^ 32"
  shows "load16 m (b + k) = load16 fm k"
proof -
  have "m (b + k) = fm k" "m (b + k + 1) = fm (k + 1)"
    using image_byte [OF assms(1) _ assms(3), of k 0] image_byte [OF assms(1) _ assms(3), of k 1] assms(2) by (simp_all add: add.assoc)
  then show ?thesis by (simp add: load16_def)
qed

text \<open>A file with a complete header whose table of program headers lies inside the file.\<close>

definition elf_sized :: "memory \<Rightarrow> nat \<Rightarrow> bool" where
  "elf_sized fm sz \<longleftrightarrow> 52 \<le> sz \<and> sz < 2 ^ 31 \<and> unat (e_phoff fm 0) + 32 * unat (e_phnum fm 0) \<le> sz"

lemma image_header:
  assumes "image_at m b sz fm" "52 \<le> sz" "sz < 2 ^ 31"
  shows "e_phoff m b = e_phoff fm 0" "e_phnum m b = e_phnum fm 0" "e_entry m b = e_entry fm 0"
    "elf_validate_loaded m b = elf_validate_loaded fm 0"
proof -
  have sz: "sz < 2 ^ 32" using assms(3) by simp
  show ph: "e_phoff m b = e_phoff fm 0" "e_phnum m b = e_phnum fm 0" "e_entry m b = e_entry fm 0"
    using image_load32 [OF assms(1) _ sz, of 28] image_load32 [OF assms(1) _ sz, of 24] image_load16 [OF assms(1) _ sz, of 44] assms(2)
    by (simp_all add: e_phoff_def e_phnum_def e_entry_def)
  have "m b = fm 0" "m (b + 1) = fm 1" "m (b + 2) = fm 2" "m (b + 3) = fm 3" "m (b + 4) = fm 4" "m (b + 5) = fm 5"
    using image_byte [OF assms(1) _ sz, of 0 0] image_byte [OF assms(1) _ sz, of 0 1] image_byte [OF assms(1) _ sz, of 0 2]
      image_byte [OF assms(1) _ sz, of 0 3] image_byte [OF assms(1) _ sz, of 0 4] image_byte [OF assms(1) _ sz, of 0 5] assms(2) by simp_all
  then show "elf_validate_loaded m b = elf_validate_loaded fm 0"
    by (simp add: elf_validate_loaded_def elf_valid_signature_def elf_valid_class_def elf_valid_encoding_def elf_has_program_header_def
        ph(1) EI_CLASS_def EI_DATA_def)
qed

text \<open>The program headers are read from the image at \<open>b\<close> as from the file.\<close>

lemma image_phdr:
  assumes "image_at m b sz fm" "elf_sized fm sz" "e_phoff fm 0 \<noteq> 0" "i < unat (e_phnum fm 0)"
  shows "elf_program_header m b (of_nat i) = b + elf_program_header fm 0 (of_nat i)"
    and "\<And>k. unat k \<le> 28 \<Longrightarrow> load32 m (b + (elf_program_header fm 0 (of_nat i) + k)) = load32 fm (elf_program_header fm 0 (of_nat i) + k)"
proof -
  have sz: "52 \<le> sz" "sz < 2 ^ 31" "unat (e_phoff fm 0) + 32 * unat (e_phnum fm 0) \<le> sz" using assms(2) by (simp_all add: elf_sized_def)
  note h = image_header [OF assms(1) sz(1,2)]
  show "elf_program_header m b (of_nat i) = b + elf_program_header fm 0 (of_nat i)"
    using assms(3) h(1) by (simp add: elf_program_header_def elf_pheader_def add.assoc)
  have a: "elf_program_header fm 0 (of_nat i) = e_phoff fm 0 + of_nat (32 * i)" using assms(3) by (simp add: elf_program_header_def elf_pheader_def)
  fix k :: u32 assume k: "unat k \<le> 28"
  have i: "32 * Suc i \<le> 32 * unat (e_phnum fm 0)" using assms(4) by simp
  have "e_phoff fm 0 + of_nat (32 * i) + k = e_phoff fm 0 + of_nat (32 * i + unat k)" by (simp add: add.assoc)
  moreover have "unat (e_phoff fm 0 + of_nat (32 * i + unat k)) = unat (e_phoff fm 0) + (32 * i + unat k)"
    using i k sz by (intro unat_plus_small) simp
  ultimately have "unat (elf_program_header fm 0 (of_nat i) + k) + 4 \<le> sz" unfolding a using i k sz by (simp only: add.assoc) simp
  then show "load32 m (b + (elf_program_header fm 0 (of_nat i) + k)) = load32 fm (elf_program_header fm 0 (of_nat i) + k)"
    by (rule image_load32 [OF assms(1)]) (use sz in simp)
qed

lemma image_phdr_fields:
  assumes "image_at m b sz fm" "elf_sized fm sz" "e_phoff fm 0 \<noteq> 0" "i < unat (e_phnum fm 0)"
  defines "p \<equiv> elf_program_header fm 0 (of_nat i)"
  shows "p_type m (b + p) = p_type fm p" "p_offset m (b + p) = p_offset fm p" "p_vaddr m (b + p) = p_vaddr fm p"
    "p_filesz m (b + p) = p_filesz fm p" "p_memsz m (b + p) = p_memsz fm p" "p_flags m (b + p) = p_flags fm p"
proof -
  note l = image_phdr(2) [OF assms(1-4), folded p_def]
  show "p_type m (b + p) = p_type fm p" "p_offset m (b + p) = p_offset fm p" "p_vaddr m (b + p) = p_vaddr fm p"
    "p_filesz m (b + p) = p_filesz fm p" "p_memsz m (b + p) = p_memsz fm p" "p_flags m (b + p) = p_flags fm p"
    using l [of 0] l [of 4] l [of 8] l [of 16] l [of 20] l [of 24]
    by (simp_all add: p_type_def p_offset_def p_vaddr_def p_filesz_def p_memsz_def p_flags_def add.assoc)
qed

lemma image_load_phdrs:
  assumes "image_at m b sz fm" "elf_sized fm sz" "e_phoff fm 0 \<noteq> 0"
  shows "load_phdrs m b = map ((+) b) (load_phdrs fm 0)"
proof -
  let ?n = "unat (e_phnum fm 0)"
  have n: "e_phnum m b = e_phnum fm 0" using image_header(2) [OF assms(1)] assms(2) by (simp add: elf_sized_def)
  let ?ps = "map (\<lambda>i. elf_program_header fm 0 (of_nat i)) [0..<?n]"
  have "load_phdrs m b = filter (\<lambda>p. p_type m p = PT_LOAD) (map ((+) b) ?ps)"
    unfolding load_phdrs_def n using image_phdr(1) [OF assms] by (intro arg_cong [of _ _ "filter _"]) simp
  also have "\<dots> = map ((+) b) (filter (\<lambda>p. p_type m (b + p) = PT_LOAD) ?ps)" by (simp add: filter_map comp_def)
  also have "filter (\<lambda>p. p_type m (b + p) = PT_LOAD) ?ps = load_phdrs fm 0"
    unfolding load_phdrs_def using image_phdr_fields(1) [OF assms] by (intro filter_cong) auto
  finally show ?thesis .
qed

lemma load_phdrsE:
  assumes "p \<in> set (load_phdrs fm 0)"
  obtains i where "i < unat (e_phnum fm 0)" "p = elf_program_header fm 0 (of_nat i)"
  using assms by (auto simp: load_phdrs_def)

lemma covers_image:
  assumes "image_at m b sz fm" "elf_sized fm sz" "e_phoff fm 0 \<noteq> 0"
  shows "covers m b (map ((+) b) (load_phdrs fm 0)) ef = covers fm b (load_phdrs fm 0) ef"
proof -
  have "p_offset m (b + p) = p_offset fm p \<and> p_vaddr m (b + p) = p_vaddr fm p \<and> p_filesz m (b + p) = p_filesz fm p"
    if "p \<in> set (load_phdrs fm 0)" for p
    using that image_phdr_fields [OF assms] by (elim load_phdrsE) simp
  then show ?thesis by (simp add: covers_def)
qed

text \<open>The range of a loaded image, in terms of the file.\<close>

lemma elf_process_pheaders_image:
  assumes "image_at m b sz fm" "elf_sized fm sz" "e_phoff fm 0 \<noteq> 0" "load_phdrs fm 0 \<noteq> []" "\<forall>p\<in>set (load_phdrs fm 0). p_vaddr fm p \<noteq> 0"
  shows "covers fm b (load_phdrs fm 0) (elf_process_pheaders m (empty_elf b))"
proof -
  have "p_vaddr m (b + p) \<noteq> 0" if "p \<in> set (load_phdrs fm 0)" for p
    using that assms(5) image_phdr_fields(3) [OF assms(1-3)] by (metis load_phdrsE)
  then have "covers m b (map ((+) b) (load_phdrs fm 0)) (elf_process_pheaders m (empty_elf b))"
    unfolding elf_process_pheaders_fold elf_file.simps image_load_phdrs [OF assms(1-3)] using assms(4) by (intro covers_fold) auto
  then show ?thesis unfolding covers_image [OF assms(1-3)] .
qed

section \<open>\<^verbatim>\<open>elf_load\<close>\<close>

lemma fstat_opened:
  assumes "opened s fd c img e"
  shows "\<exists>fl. fstat s fd st = Some (0, \<lparr>stat_flags = fl, file_size = dir_size img e\<rparr>)"
proof -
  let ?d = "private_data (descriptors s (file_get_descriptor s fd))"
  have o: "fitem_type (mem s) (ffd_item (mem s) ?d) = FAT_ITEM_TYPE_FILE" "fitem_ptr (mem s) (ffd_item (mem s) ?d) = c"
    "\<And>j. j < 32 \<Longrightarrow> mem s (c + of_nat j) = img (e + j)"
    using assms by (auto simp: opened_def fat_open_def file_item_def Let_def)
  have "mem s (c + 28) = img (e + 28)" "mem s (c + 29) = img (e + 29)" "mem s (c + 30) = img (e + 30)" "mem s (c + 31) = img (e + 31)"
    using o(3) [of 28] o(3) [of 29] o(3) [of 30] o(3) [of 31] by simp_all
  then have "di_file_size (mem s) c = dir_size img e" by (simp add: di_file_size_def dir_size_def load32_def add.assoc)
  then show ?thesis using assms o(1,2) by (cases st) (simp add: opened_def fstat_def fat16_stat_def Let_def)
qed

text \<open>A step that also writes memory which was not protected before.\<close>

lemma live_keep_write:
  assumes "live_keep s s1" "drv_step s1 s2 (entry_bytes s1 \<union> B)" "\<And>a. kprot s a \<Longrightarrow> a \<notin> B"
    and "entry_bytes s \<inter> kregion s = {}" "kheap_wf s"
  shows "live_keep s s2"
proof -
  note 1 = live_keep_fields [OF assms(1)] and 2 = drv_step_fields [OF assms(2)]
  note r = drv_frame_fields [OF 2(13)]
  have e: "entry_bytes s1 = entry_bytes s" using 1(5) by simp
  show ?thesis unfolding live_keep_def
  proof (intro conjI allI impI)
    show "stream_disk (disk_streams s2 st) = stream_disk (disk_streams s st)" if "(st, k) \<in> kallocs s" for st k
      using 1(12) [OF that] 2(10) [OF subsetD [OF 1(10) that]] by simp
    show "mem s2 a = mem s a" if "(p, k) \<in> kallocs s \<and> a \<in> extent p k" for p k a
    proof -
      have p: "kprot s a" using that kprot_live by blast
      have "a \<notin> entry_bytes s \<union> B" using that assms(3) [OF p] assms(4) kz.allocs_region [OF assms(5), of p k] by blast
      then show ?thesis using that 1(13) [of p k a] 2(12) [OF 1(14) [OF p]] unfolding e by simp
    qed
    show "mem s2 a = mem s a" if "kprot s a" "a \<notin> drv_locals s" for a
      using that 1(14,15) [OF that(1)] 2(12) [of a] assms(3) [OF that(1)] name_local_locals(2) [of s] e by auto
    show "kprot s2 a" if "kprot s a" for a using 2(11) [OF 1(14) [OF that]] .
  qed (use 1(1-11) 2(1-9) r in \<open>simp_all add: order_trans [OF 1(10) 2(9)]\<close>)
qed

lemma elf_files_view [simp]:
  "kallocs (s\<lparr>elf_files := x\<rparr>) = kallocs s" "kheap_wf (s\<lparr>elf_files := x\<rparr>) = kheap_wf s" "kregion (s\<lparr>elf_files := x\<rparr>) = kregion s"
  "kavail (s\<lparr>elf_files := x\<rparr>) = kavail s" "kfits (s\<lparr>elf_files := x\<rparr>) n = kfits s n" "kspent s0 (s\<lparr>elf_files := x\<rparr>) = kspent s0 s"
  "kprot (s\<lparr>elf_files := x\<rparr>) a = kprot s a"
  by (simp_all add: kheap_view_defs kspent_def kprot_def)

lemma elf_files_live_keep [simp]: "live_keep s0 (s\<lparr>elf_files := x\<rparr>) = live_keep s0 s"
  by (simp add: live_keep_def)

lemma can_open_keep:
  assumes "live_keep s s'" "file_descriptors s' = file_descriptors s" "7 \<le> kavail s'" "can_open s img k path w i j"
    and "\<forall>l\<le>length w + 3. path + of_nat l \<notin> drv_locals s"
  shows "can_open s' img k path w i j"
proof -
  note o = assms(4) [unfolded can_open_def]
  have "mem s' (path + of_nat l) = mem s (path + of_nat l)" if "l \<le> length w + 3" for l
    using live_keep_fields(15) [OF assms(1)] o assms(5) that by blast
  then have "cstring (mem s') path (0x30 # 0x3A # 0x2F # w)"
    using o by (intro iffD2 [OF cstring_cong [of _ "mem s'" path "mem s"]]) auto
  then show ?thesis using o assms(2,3) live_keep_fields(14) [OF assms(1)] unfolding can_open_def by auto
qed

text \<open>
  What loading the program \<^verbatim>\<open>0:/name\<close> needs: a ready file system with that file, whose \<open>sz\<close> bytes are in the cluster chain
  \<open>cl\<close>, a free descriptor, and a path outside the local variables of the driver.
\<close>

definition can_load :: "'a file_state_scheme \<Rightarrow> (nat \<Rightarrow> u8) \<Rightarrow> nat \<Rightarrow> nat \<Rightarrow> u32 \<Rightarrow> u8 list \<Rightarrow> nat \<Rightarrow> nat \<Rightarrow> nat list \<Rightarrow> nat \<Rightarrow> bool" where
  "can_load s img n k path w i j cl sz \<longleftrightarrow> (let e = 512 * root_start img + 32 * i in
     fs_ready s img n k \<and> can_open s img k path w i j \<and> (\<forall>l\<le>length w + 3. path + of_nat l \<notin> drv_locals s) \<and>
     cluster_chain (volume_of s img n) cl \<and> cl \<noteq> [] \<and> cl ! 0 = dir_cluster img e \<and>
     dir_size img e = of_nat sz \<and> 0 < sz \<and> sz < 2 ^ 31 \<and> sz \<le> 512 * unat (img 13) * length cl)"

lemma can_load_keep:
  assumes "live_keep s s'" "file_descriptors s' = file_descriptors s" "7 \<le> kavail s'" "can_load s img n k path w i j cl sz"
  shows "can_load s' img n k path w i j cl sz"
proof -
  note c = assms(4) [unfolded can_load_def Let_def]
  have "fs_ready s img n k" using c by blast
  from fs_ready_keep [OF assms(1) this] volume_of_keep [OF assms(1) this] show ?thesis
    using c can_open_keep [OF assms(1-3)] live_keep_fields(11) [OF assms(1)] unfolding can_load_def Let_def by metis
qed

lemma elf_fields_more:
  "file_state.more s' = file_state.more s \<Longrightarrow> elf_files s' = elf_files s \<and> elf_state.more s' = elf_state.more s" for s :: "'a elf_state_scheme"
  by (cases s; cases s') simp

lemma read_step_more:
  "read_step s s' A \<Longrightarrow> file_descriptors s' = file_descriptors s \<and> descriptors s' = descriptors s \<and> file_state.more s' = file_state.more s"
  for s :: "'a file_state_scheme"
  unfolding read_step_def by (elim exE conjE) simp

lemma disjoint_mono: "A \<subseteq> A' \<Longrightarrow> B \<subseteq> B' \<Longrightarrow> A' \<inter> B' = {} \<Longrightarrow> A \<inter> B = {}"
  by blast

text \<open>Reading the whole of an open file into a new allocation.\<close>

lemma fread_image:
  assumes fs: "fs_ready s img n k" and op: "opened s fd c img e" and al: "kzalloc s (of_nat sz) = (b, s1)" "kfits s (blocks_for (of_nat sz))"
    and s2: "live_keep s s2" "mem s2 = mem s1" "file_descriptors s2 = file_descriptors s" "descriptors s2 = descriptors s" "kregion s2 = kregion s"
    and cl: "cluster_chain (volume_of s img n) cl" "cl \<noteq> []" "cl ! 0 = dir_cluster img e"
    and sz: "0 < sz" "sz < 2 ^ 31" "sz \<le> 512 * unat (img 13) * length cl"
  shows "\<exists>s3. fread s2 b (of_nat sz) 1 fd = Some (1, s3) \<and> live_keep s s3 \<and> opened s3 fd c img e \<and>
    image_at (mem s3) b sz (file_mem (volume_of s img n) cl) \<and> read_step s2 s3 (entry_bytes s2 \<union> out_bytes b sz)"
proof -
  let ?v = "volume_of s img n" and ?B = "blocks_for (of_nat sz)"
  have szb: "0 < unat (of_nat sz :: u32)" "unat (of_nat sz :: u32) \<le> 2 ^ 32 - 4096" using sz by simp_all
  have fit: "kfits s (?B + 0)" using al(2) by simp
  note 1 = kzalloc_drv [OF fs_ready_wf [OF fs] szb fit al(1)]
  note k2 = live_keep_fields [OF s2(1)]
  have fs2: "fs_ready s2 img n k" by (rule fs_ready_keep [OF s2(1) fs])
  have op2: "opened s2 fd c img e" by (rule opened_keep [OF s2(1,3,4) op])
  note o2 = opened_open_file [OF fs2 op2 cl(3)]
  have v2: "volume_of s2 img n = ?v" by (rule volume_of_keep [OF s2(1) fs])
  have sub: "out_bytes b sz \<subseteq> extent b ?B" by (rule out_bytes_extent) (use sz in simp)
  have live: "(fs_private (the_disk s), 1) \<in> kallocs s" "(c, 1) \<in> kallocs s"
    using fs op by (simp_all add: fs_ready_def mount_live_def opened_def fat_open_def Let_def)
  have it: "item_bytes c \<subseteq> extent c 1" by (auto simp: item_bytes_def extent_def)
  have "entry_bytes s \<inter> kregion s = {}" using fs by (simp add: fs_ready_def)
  then have "out_bytes b sz \<inter> entry_bytes s = {}" using order_trans [OF sub 1(7)] by blast
  moreover have "out_bytes b sz \<inter> priv_bytes (fs_private (the_disk s)) = {}"
    using disjoint_mono [OF sub priv_extent 1(8) [OF live(1)]] .
  moreover have "out_bytes b sz \<inter> item_bytes c = {}" using disjoint_mono [OF sub it 1(8) [OF live(2)]] .
  ultimately have dis: "out_bytes b (1 * sz) \<inter> (priv_bytes (fs_private (the_disk s2)) \<union> entry_bytes s2 \<union> item_bytes c) = {}"
    unfolding mult_1 k2(2,5) Int_Un_distrib by (simp only: Un_empty_right)
  have c0: "cl ! 0 < 2 ^ 31" unfolding cl(3) dir_cluster_def by (rule order_less_le_trans [OF unsigned_less]) simp
  have m2: "mounted s2 ?v" using fs2 v2 by (simp add: fs_ready_def)
  have fits: "\<forall>i<1. read_fits ?v (0 + i * sz) sz" by (simp add: read_fits_def)
  have spc: "0 + 1 * sz \<le> 512 * v_spc ?v * length cl" "0 + 1 * sz < 2 ^ 31" using sz by (simp_all add: volume_of_def)
  obtain s3 where s3: "fread s2 b (of_nat sz) (of_nat 1) fd = Some (int 1, s3)" "\<forall>j<1 * sz. mem s3 (b + of_nat j) = file_byte ?v cl (0 + j)"
    "read_step s2 s3 (entry_bytes s2 \<union> out_bytes b (1 * sz))"
    using fread_effect [OF m2 cl(1,2) c0 o2(1) sz(1) zero_less_one spc fits dis] by blast
  have "mem s3 (b + x) = file_mem ?v cl x" if "unat x < sz" for x using s3(2) [rule_format, of "unat x"] that by (simp add: file_mem_def)
  then have "image_at (mem s3) b sz (file_mem ?v cl)" by (simp add: image_at_def)
  moreover have step: "drv_step s2 s3 (entry_bytes s2 \<union> out_bytes b sz)" using drv_step_read(1) [OF k2(9) s3(3)] by simp
  have keep: "live_keep s s3"
  proof (rule live_keep_write [OF s2(1) step])
    show "a \<notin> out_bytes b sz" if "kprot s a" for a using 1(9) [OF that] sub by blast
  qed (use fs fs_ready_wf [OF fs] in \<open>simp_all add: fs_ready_def\<close>)
  moreover have "opened s3 fd c img e" using opened_keep [OF keep _ _ op] read_step_more [OF s3(3)] s2(3,4) by simp
  ultimately show ?thesis using s3(1,3) by auto
qed

text \<open>The state in which \<^verbatim>\<open>elf_load\<close> has read the file and is about to look at it.\<close>

definition image_read :: "'a elf_state_scheme \<Rightarrow> 'a elf_state_scheme \<Rightarrow> u32 \<Rightarrow> u32 \<Rightarrow> memory \<Rightarrow> nat \<Rightarrow> bool" where
  "image_read s s' ef b fm sz \<longleftrightarrow> live_keep s s' \<and> image_at (mem s') b sz fm \<and> ef \<noteq> 0 \<and> (ef, 1) \<in> kallocs s' \<and>
     (b, blocks_for (of_nat sz)) \<in> kallocs s' \<and> (\<forall>q l. (q, l) \<in> kallocs s \<longrightarrow> q \<noteq> ef \<and> q \<noteq> b) \<and> ef \<noteq> b \<and>
     elf_files s' = (elf_files s)(ef := empty_elf b) \<and> elf_state.more s' = elf_state.more s"

lemma elf_load_read:
  assumes load: "can_load s img n k path w i j cl sz" and fit: "kfits s (blocks_for (of_nat sz) + 8)"
  shows "\<exists>ef b c s'. elf_load s path = (let (r, s7) = elf_process_loaded s' ef in
      if r < 0 then Option.bind (fclose s7 (int j + 1)) (\<lambda>(_, s8). Some (r, 0, s8)) else Some (r, ef, s7)) \<and>
    image_read s s' ef b (file_mem (volume_of s img n) cl) sz \<and> kavail s' + (blocks_for (of_nat sz) + 8) = kavail s \<and>
    opened s' (int j + 1) c img (512 * root_start img + 32 * i) \<and> kspent s s' \<and> open_blocks s' (int j + 1) c \<inter> kallocs s = {} \<and>
    (file_descriptors s')[j := 0] = file_descriptors s"
proof -
  let ?e = "512 * root_start img + 32 * i" and ?B = "blocks_for (of_nat sz)"
  note l = load [unfolded can_load_def Let_def]
  have fs: "fs_ready s img n k" using l by blast
  note wf = fs_ready_wf [OF fs]
  have "kfits s 8" by (rule kz.fits_mono [OF fit]) simp
  then have av: "8 \<le> kavail s" using kfits_kavail [OF wf] by simp
  obtain ef s1 where al: "kzalloc s 132 = (ef, s1)" by force
  have av0: "0 < kavail s" using av by simp
  note 1 = kzalloc_drv_page [OF wf av0 _ _ al, simplified]
  note m1 = file_fields_more [OF drv_frame_fields(10) [OF drv_step_fields(13) [OF 1(1)]]]
  have k1: "live_keep s s1" by (rule live_keep_drv [OF 1(1) _ wf]) simp_all
  let ?s2 = "s1\<lparr>elf_files := (elf_files s1)(ef := empty_elf 0)\<rparr>"
  have k2: "live_keep s ?s2" using k1 by simp
  have "can_load ?s2 img n k path w i j cl sz" by (rule can_load_keep [OF k2 _ _ load]) (use m1 1(5) av in simp_all)
  note l2 = this [unfolded can_load_def Let_def]
  have o2: "fs_ready ?s2 img n k" "can_open ?s2 img k path w i j" using l2 by blast+
  obtain s3 c where s3: "fopen ?s2 path [0x72] = Some (int j + 1, s3)" "opened s3 (int j + 1) c img ?e" "live_keep ?s2 s3"
    "fs_ready s3 img n k" "kavail s3 + 7 = kavail ?s2" "file_state.more s3 = file_state.more ?s2" "kspent ?s2 s3"
    "open_blocks s3 (int j + 1) c \<inter> kallocs ?s2 = {}" "(file_descriptors s3)[j := 0] = file_descriptors ?s2"
    using fopen_effect [OF o2] by blast
  note e3 = elf_fields_more [OF s3(6)]
  have k3: "live_keep s s3" by (rule live_keep_trans [OF k2 s3(3)])
  obtain fl where st: "fstat s3 (int j + 1) \<lparr>stat_flags = 0, file_size = 0\<rparr> = Some (0, \<lparr>stat_flags = fl, file_size = of_nat sz\<rparr>)"
    using fstat_opened [OF s3(2)] l by metis
  obtain b s4 where al4: "kzalloc s3 (of_nat sz) = (b, s4)" by force
  have "kspent s ?s2" using drv_step_fields(14) [OF 1(1)] by simp
  from kspent_trans [OF this s3(7)] have sp3: "kspent s s3" .
  then have fit3: "kfits s3 (?B + 0)" using kspent_fits [of s s3 8 ?B] fit s3(5) 1(5) by simp
  have szb: "0 < unat (of_nat sz :: u32)" "unat (of_nat sz :: u32) \<le> 2 ^ 32 - 4096" using l by simp_all
  note 4 = kzalloc_drv [OF fs_ready_wf [OF s3(4)] szb fit3 al4]
  note m4 = file_fields_more [OF drv_frame_fields(10) [OF drv_step_fields(13) [OF 4(1)]]]
  note e4 = elf_fields_more [OF conjunct2 [OF conjunct2 [OF conjunct2 [OF m4]]]]
  let ?s5 = "s4\<lparr>elf_files := (elf_files s4)(ef := (elf_files s4 ef)\<lparr>elf_mem := b\<rparr>)\<rparr>"
  have k5: "live_keep s3 ?s5" using live_keep_drv [OF 4(1) _ fs_ready_wf [OF s3(4)]] by simp
  have v3: "volume_of s3 img n = volume_of s img n" by (rule volume_of_keep [OF k3 fs])
  obtain s6 where s6: "fread ?s5 b (of_nat sz) 1 (int j + 1) = Some (1, s6)" "live_keep s3 s6" "opened s6 (int j + 1) c img ?e"
    "image_at (mem s6) b sz (file_mem (volume_of s img n) cl)" "read_step ?s5 s6 (entry_bytes ?s5 \<union> out_bytes b sz)"
    using fread_image [OF s3(4,2) al4 _ k5, of cl] fit3 m4 l drv_step_fields(7) [OF 4(1)] by (auto simp: v3)
  note e6 = elf_fields_more [OF conjunct2 [OF conjunct2 [OF read_step_more [OF s6(5)]]]]
  have k6: "live_keep s s6" by (rule live_keep_trans [OF k3 s6(2)])
  have files: "elf_files s6 = (elf_files s)(ef := empty_elf b)" "elf_state.more s6 = elf_state.more s"
    using e6 e4 e3 elf_fields_more [OF conjunct2 [OF conjunct2 [OF conjunct2 [OF m1]]]] by auto
  have kal: "kallocs s6 = kallocs s4" using drv_step_read(2) [OF _ s6(5)] drv_step_fields(8) [OF 4(1)] by simp
  have ef3: "(ef, 1) \<in> kallocs s3" using live_keep_fields(10) [OF s3(3)] 1(2) by auto
  have fresh: "q \<noteq> ef \<and> q \<noteq> b" if "(q, l) \<in> kallocs s" for q l
    using 1(3) [OF that] 4(3) [OF subsetD [OF live_keep_fields(10) [OF k3] that]] by blast
  have "image_read s s6 ef b (file_mem (volume_of s img n) cl) sz"
    unfolding image_read_def kal using k6 s6(4) 1(4) ef3 4(2) 4(3) [OF ef3] fresh files by auto
  moreover have "kavail s6 = kavail s4" using s6(5) by (auto simp: read_step_def kheap_view_defs)
  then have "kavail s6 + (?B + 8) = kavail s"
    using kz.malloc_avail [OF fs_ready_wf [OF s3(4)] szb _ al4] fit3 s3(5) 1(5) by simp
  moreover have "elf_load s path = (let (r, s7) = elf_process_loaded s6 ef in
      if r < 0 then Option.bind (fclose s7 (int j + 1)) (\<lambda>(_, s8). Some (r, 0, s8)) else Some (r, ef, s7))"
    using s3(1) st s6(1) by (simp add: elf_load_def al al4 Let_def split_beta)
  moreover have "kspent s4 s6" by (rule kspent_same) (use s6(5) in \<open>auto simp: read_step_def\<close>)
  then have "kspent s s6" by (rule kspent_trans [OF kspent_trans [OF sp3 drv_step_fields(14) [OF 4(1)]]])
  moreover have tab: "file_descriptors s6 = file_descriptors s3" "descriptors s6 = descriptors s3"
    using read_step_more [OF s6(5)] m4 by simp_all
  then have "(file_descriptors s6)[j := 0] = file_descriptors s" using s3(9) m1 by simp
  moreover have "open_blocks s6 (int j + 1) c \<inter> kallocs s = {}"
    using s3(8) 1(2) open_blocks_keep [OF s6(2) tab s3(2)] by auto
  ultimately show ?thesis using s6(3) by blast
qed

text \<open>A file that \<^verbatim>\<open>elf_load\<close> accepts: a valid header, and segments with an address.\<close>

definition elf_program :: "memory \<Rightarrow> nat \<Rightarrow> bool" where
  "elf_program fm sz \<longleftrightarrow> elf_sized fm sz \<and> elf_validate_loaded fm 0 = 0 \<and> load_phdrs fm 0 \<noteq> [] \<and> (\<forall>p\<in>set (load_phdrs fm 0). p_vaddr fm p \<noteq> 0)"

lemma validate_phoff: "elf_validate_loaded fm h = 0 \<Longrightarrow> e_phoff fm h \<noteq> 0"
  by (simp add: elf_validate_loaded_def elf_has_program_header_def config_simps split: if_splits)

lemma validate_values: "elf_validate_loaded fm h = 0 \<or> elf_validate_loaded fm h = - EINVFMT" "EINVFMT > 0"
  by (simp_all add: elf_validate_loaded_def config_simps)

lemma elf_load_ok:
  assumes "can_load s img n k path w i j cl sz" "kfits s (blocks_for (of_nat sz) + 8)" "elf_program (file_mem (volume_of s img n) cl) sz"
  shows "\<exists>ef b s' ef'. elf_load s path = Some (0, ef, s'\<lparr>elf_files := (elf_files s')(ef := ef')\<rparr>) \<and>
    image_read s s' ef b (file_mem (volume_of s img n) cl) sz \<and> kavail s' + (blocks_for (of_nat sz) + 8) = kavail s \<and> kspent s s' \<and>
    covers (file_mem (volume_of s img n) cl) b (load_phdrs (file_mem (volume_of s img n) cl) 0) ef'"
proof -
  let ?fm = "file_mem (volume_of s img n) cl"
  note p = assms(3) [unfolded elf_program_def elf_sized_def]
  obtain ef b c s' where r: "elf_load s path = (let (r, s7) = elf_process_loaded s' ef in
      if r < 0 then Option.bind (fclose s7 (int j + 1)) (\<lambda>(_, s8). Some (r, 0, s8)) else Some (r, ef, s7))"
    "image_read s s' ef b ?fm sz" "kavail s' + (blocks_for (of_nat sz) + 8) = kavail s" "kspent s s'"
    using elf_load_read [OF assms(1,2)] by blast
  note im = r(2) [unfolded image_read_def]
  have h: "elf_validate_loaded (mem s') b = 0" using image_header(4) [of "mem s'" b sz ?fm] im p by simp
  have f: "elf_files s' ef = empty_elf b" using im by simp
  let ?ef = "elf_process_pheaders (mem s') (empty_elf b)"
  have "covers ?fm b (load_phdrs ?fm 0) ?ef"
    by (rule elf_process_pheaders_image [where sz = sz]) (use im assms(3) validate_phoff in \<open>simp_all add: elf_program_def\<close>)
  moreover have "elf_process_loaded s' ef = (0, s'\<lparr>elf_files := (elf_files s')(ef := ?ef)\<rparr>)"
    using h f by (simp add: elf_process_loaded_def elf_header_def)
  ultimately show ?thesis using r by (intro exI [of _ ef] exI [of _ b] exI [of _ s'] exI [of _ ?ef]) simp
qed

text \<open>
  C6: \<^verbatim>\<open>elf_load\<close> of a valid program on a ready file system returns 0 and an \<^verbatim>\<open>elf_file\<close> whose memory is a new allocation that
  holds the file byte for byte, whatever the clusters of the file are; its range is the lowest virtual address and
  the highest end of the segments to load. The file system stays ready and live memory keeps its contents.
\<close>

theorem elf_load_loads_program:
  assumes "can_load s img n k path w i j cl sz" "kfits s (blocks_for (of_nat sz) + 8)" "elf_program (file_mem (volume_of s img n) cl) sz"
  shows "\<exists>ef b s'. elf_load s path = Some (0, ef, s') \<and> ef \<noteq> 0 \<and> elf_memory s' ef = b \<and> image_at (mem s') b sz (file_mem (volume_of s img n) cl) \<and>
    (b, blocks_for (of_nat sz)) \<in> kallocs s' - kallocs s \<and>
    covers (file_mem (volume_of s img n) cl) b (load_phdrs (file_mem (volume_of s img n) cl) 0) (elf_files s' ef) \<and> fs_ready s' img n k \<and>
    (\<forall>p l a. (p, l) \<in> kallocs s \<and> a \<in> extent p l \<longrightarrow> mem s' a = mem s a)"
proof -
  let ?fm = "file_mem (volume_of s img n) cl"
  obtain ef b s' ef' where r: "elf_load s path = Some (0, ef, s'\<lparr>elf_files := (elf_files s')(ef := ef')\<rparr>)"
    "image_read s s' ef b ?fm sz" "covers ?fm b (load_phdrs ?fm 0) ef'"
    using elf_load_ok [OF assms] by blast
  let ?s = "s'\<lparr>elf_files := (elf_files s')(ef := ef')\<rparr>"
  note im = r(2) [unfolded image_read_def]
  have keep: "live_keep s ?s" using im by simp
  have fs: "fs_ready s img n k" using assms(1) by (simp add: can_load_def Let_def)
  have "elf_memory ?s ef = b" using r(3) by (simp add: elf_memory_def covers_def)
  moreover have "\<forall>p l a. (p, l) \<in> kallocs s \<and> a \<in> extent p l \<longrightarrow> mem ?s a = mem s a" using live_keep_fields(13) [OF keep] by blast
  moreover have "(b, blocks_for (of_nat sz)) \<in> kallocs ?s - kallocs s" using im by auto
  ultimately show ?thesis
    using r(1,3) im fs_ready_keep [OF keep fs] by (intro exI [of _ ef] exI [of _ b] exI [of _ ?s]) simp
qed

section \<open>A file that is not a program\<close>

text \<open>A file without the signature, or with a complete header that is not valid.\<close>

definition elf_rejected :: "memory \<Rightarrow> nat \<Rightarrow> bool" where
  "elf_rejected fm sz \<longleftrightarrow> 4 \<le> sz \<and> \<not> elf_valid_signature fm 0 \<or> 52 \<le> sz \<and> elf_validate_loaded fm 0 \<noteq> 0"

lemma image_rejected:
  assumes "image_at m b sz fm" "elf_rejected fm sz" "sz < 2 ^ 31"
  shows "elf_validate_loaded m b = - EINVFMT"
proof (cases "4 \<le> sz \<and> \<not> elf_valid_signature fm 0")
  case True
  have sz: "sz < 2 ^ 32" using assms(3) by simp
  have "m b = fm 0" "m (b + 1) = fm 1" "m (b + 2) = fm 2" "m (b + 3) = fm 3"
    using image_byte [OF assms(1) _ sz, of 0 0] image_byte [OF assms(1) _ sz, of 0 1] image_byte [OF assms(1) _ sz, of 0 2]
      image_byte [OF assms(1) _ sz, of 0 3] True by simp_all
  then have "\<not> elf_valid_signature m b" using True by (simp add: elf_valid_signature_def)
  then show ?thesis by (simp add: elf_validate_loaded_def)
next
  case False
  then show ?thesis using assms validate_values(1) [of fm 0] image_header(4) [OF assms(1) _ assms(3)] by (auto simp: elf_rejected_def)
qed

lemma elf_load_invalid:
  assumes "can_load s img n k path w i j cl sz" "kfits s (blocks_for (of_nat sz) + 8)" "elf_rejected (file_mem (volume_of s img n) cl) sz"
  shows "\<exists>s'. elf_load s path = Some (- EINVFMT, 0, s') \<and> live_keep s s' \<and> file_descriptors s' = file_descriptors s \<and>
    elf_state.more s' = elf_state.more s \<and> kavail s' + (blocks_for (of_nat sz) + 4) = kavail s \<and>
    (\<forall>n. kfits s (n + (blocks_for (of_nat sz) + 8)) \<longrightarrow> kfits s' n)"
proof -
  let ?fm = "file_mem (volume_of s img n) cl"
  obtain ef b c s1 where r: "elf_load s path = (let (r, s7) = elf_process_loaded s1 ef in
      if r < 0 then Option.bind (fclose s7 (int j + 1)) (\<lambda>(_, s8). Some (r, 0, s8)) else Some (r, ef, s7))"
    "image_read s s1 ef b ?fm sz" "kavail s1 + (blocks_for (of_nat sz) + 8) = kavail s" "kspent s s1"
    "opened s1 (int j + 1) c img (512 * root_start img + 32 * i)" "open_blocks s1 (int j + 1) c \<inter> kallocs s = {}"
    "(file_descriptors s1)[j := 0] = file_descriptors s"
    using elf_load_read [OF assms(1,2)] by blast
  note im = r(2) [unfolded image_read_def]
  have keep: "live_keep s s1" and more: "elf_state.more s1 = elf_state.more s" using im by simp_all
  have sz: "sz < 2 ^ 31" using assms(1) by (simp add: can_load_def Let_def)
  have "elf_validate_loaded (mem s1) b = - EINVFMT" by (rule image_rejected [OF _ assms(3) sz]) (use im in simp)
  then have run: "elf_process_loaded s1 ef = (- EINVFMT, s1)" using im validate_values(2) by (simp add: elf_process_loaded_def elf_header_def)
  obtain h s2 where 2: "fclose s1 (int j + 1) = Some (0, s2)"
    "s2 = s1\<lparr>kernel_heap := h, file_descriptors := (file_descriptors s1)[nat (int j + 1 - 1) := 0]\<rparr>" "kheap_wf s2" "kregion s2 = kregion s1"
    "kallocs s2 = kallocs s1 - open_blocks s1 (int j + 1) c" "kavail s2 = kavail s1 + 4" "\<forall>n. kfits s1 n \<longrightarrow> kfits s2 n"
    using fclose_opened [OF live_keep_fields(9) [OF keep] r(5)] by blast
  have "live_keep s s2" by (rule live_keep_close [OF keep r(6) 2(2-5)])
  moreover have "file_descriptors s2 = file_descriptors s" "elf_state.more s2 = elf_state.more s" using 2(2) r(7) more by simp_all
  moreover have "elf_load s path = Some (- EINVFMT, 0, s2)" using r(1) run 2(1) validate_values(2) by simp
  moreover have "kfits s2 n" if "kfits s (n + (blocks_for (of_nat sz) + 8))" for n using 2(7) kspent_fits [OF r(4,3) that] by blast
  moreover have "kavail s2 + (blocks_for (of_nat sz) + 4) = kavail s" using r(3) 2(6) by simp
  ultimately show ?thesis by blast
qed

text \<open>
  C32: \<^verbatim>\<open>elf_load\<close> of a file that is not a program returns \<^verbatim>\<open>-EINVFMT\<close> and closes the file again: no descriptor stays in use, the
  file system stays ready and live memory keeps its contents. The image, the \<^verbatim>\<open>elf_file\<close> and the parsed path stay allocated.
\<close>

theorem elf_load_rejects:
  assumes "can_load s img n k path w i j cl sz" "kfits s (blocks_for (of_nat sz) + 8)" "elf_rejected (file_mem (volume_of s img n) cl) sz"
  shows "\<exists>s'. elf_load s path = Some (- EINVFMT, 0, s') \<and> fs_ready s' img n k \<and> file_descriptors s' = file_descriptors s \<and>
    kavail s' + (blocks_for (of_nat sz) + 4) = kavail s \<and> (\<forall>p l a. (p, l) \<in> kallocs s \<and> a \<in> extent p l \<longrightarrow> mem s' a = mem s a)"
proof -
  have "fs_ready s img n k" using assms(1) by (simp add: can_load_def Let_def)
  then show ?thesis using elf_load_invalid [OF assms] fs_ready_keep [of s _ img n k] live_keep_fields(13) [of s] by blast
qed

section \<open>Concrete programs\<close>

lemma demo_file_mem:
  assumes "unat a < length c" "length c \<le> 256"
  shows "file_mem (volume_of s (boot_img c) n) [2] a = c ! unat a"
proof -
  have "v_spc (volume_of s (boot_img c) n) = 1" "v_data (volume_of s (boot_img c) n) = 4" "v_img (volume_of s (boot_img c) n) = boot_img c"
    by (simp_all add: volume_of_def boot_img_geometry) (simp add: boot_img_def)
  then show ?thesis using assms by (simp add: file_mem_def file_byte_def Let_def) (simp add: boot_img_def)
qed

lemma demo_can_load:
  assumes d: "demo_machine s0 c N" and len: "0 < length c" "length c < 256"
  shows "\<exists>s. Option.bind (fs_init s0) disk_search_and_init = Some s \<and> can_load s (boot_img c) (2 ^ 22 - 1) 2 0x2000 hi_txt 0 0 [2] (length c) \<and>
    kfits s (unat N - 6) \<and> kregion s = kregion s0 \<and> file_state.more s = file_state.more s0"
proof -
  let ?n = "2 ^ 22 - 1 :: nat"
  obtain s where s: "Option.bind (fs_init s0) disk_search_and_init = Some s" "fs_ready s (boot_img c) ?n 2"
    "can_open s (boot_img c) 2 0x2000 hi_txt 0 0" "drv_locals s = drv_locals s0" "kregion s = kregion s0"
    "kfits s (unat N - 6)" "file_state.more s = file_state.more s0" using demo_after_boot [OF d] by blast
  let ?v = "volume_of s (boot_img c) ?n"
  have v: "v_spc ?v = 1" "v_data ?v = 4" "v_reserved ?v = 1" "v_sectors ?v = ?n"
    by (simp_all add: volume_of_def boot_img_geometry) (simp_all add: boot_img_def img16_def)
  have cl: "cluster_chain ?v [2]" using v by (simp add: cluster_chain_def)
  have "boot_img c 1564 = of_nat (length c)" "boot_img c 1565 = 0" "boot_img c 1566 = 0" "boot_img c 1567 = 0"
    by (simp_all add: boot_img_def nth_append nth_Cons')
  moreover have "(ucast (of_nat (length c) :: u8) :: u32) = of_nat (length c)"
    using len(2) by (simp add: word_unat_eq_iff unsigned_ucast_eq unat_of_nat take_bit_nat_eq_self)
  ultimately have dsz: "dir_size (boot_img c) 1536 = of_nat (length c)" by (simp add: dir_size_def load32_def)
  have "0x2000 + of_nat l \<notin> drv_locals s" if "l \<le> 9" for l
  proof -
    have u: "unat (0x2000 + of_nat l :: u32) = 0x2000 + l" using unat_of_nat_u32 [of "0x2000 + l"] that by simp
    have "\<not> unat (0x2000 + of_nat l - 0x9000 :: u32) < 32" "\<not> unat (0x2000 + of_nat l - 0x9200 :: u32) < 108"
      unfolding unat_sub_if' u using that by simp_all
    moreover have "unat (0x2000 + of_nat l :: u32) \<noteq> unat (0x9100 :: u32)" "unat (0x2000 + of_nat l :: u32) \<noteq> unat (0x9101 :: u32)"
      unfolding u using that by simp_all
    then have "0x2000 + of_nat l \<noteq> (0x9100 :: u32)" "0x2000 + of_nat l \<noteq> (0x9101 :: u32)" by metis+
    ultimately show ?thesis using d s(4) by (simp add: drv_locals_def demo_machine_def)
  qed
  moreover have "unat (boot_img c 13) = 1" by (simp add: boot_img_def)
  ultimately have "can_load s (boot_img c) ?n 2 0x2000 hi_txt 0 0 [2] (length c)"
    using s(2,3) cl dsz len by (simp add: can_load_def boot_img_geometry boot_img_cluster)
  then show ?thesis using s(1,5,6,7) by blast
qed

text \<open>A program of 88 bytes with one segment at \<^verbatim>\<open>0x400000\<close> that holds the whole file; its code makes a system call in a loop.\<close>

definition demo_program :: "u8 list" where
  "demo_program = [0x7F, 0x45, 0x4C, 0x46, 1, 1, 1, 0, 0, 0, 0, 0, 0, 0, 0, 0,
     2, 0, 3, 0, 1, 0, 0, 0, 0x54, 0, 0x40, 0, 0x34, 0, 0, 0, 0, 0, 0, 0, 0, 0, 0, 0, 0x34, 0, 0x20, 0, 1, 0, 0, 0, 0, 0, 0, 0,
     1, 0, 0, 0, 0, 0, 0, 0, 0, 0, 0x40, 0, 0, 0, 0x40, 0, 0x58, 0, 0, 0, 0x58, 0, 0, 0, 5, 0, 0, 0, 0, 0x10, 0, 0,
     0xCD, 0x80, 0xEB, 0xFC]"

lemma demo_program_length: "length demo_program = 88"
  by (simp add: demo_program_def)

lemma demo_program_header:
  assumes "\<And>a. unat a < 88 \<Longrightarrow> fm a = demo_program ! unat a"
  shows "e_phoff fm 0 = 52" "e_phnum fm 0 = 1" "e_entry fm 0 = 0x400054" "elf_validate_loaded fm 0 = 0"
    "p_type fm 52 = 1" "p_offset fm 52 = 0" "p_vaddr fm 52 = 0x400000" "p_filesz fm 52 = 88" "p_memsz fm 52 = 88" "p_flags fm 52 = 5"
    "elf_program_header fm 0 0 = 52"
  by (simp_all add: e_phoff_def e_phnum_def e_entry_def load32_def load16_def assms demo_program_def p_type_def p_offset_def p_vaddr_def
      p_filesz_def p_memsz_def p_flags_def elf_program_header_def elf_pheader_def elf_validate_loaded_def elf_valid_signature_def
      elf_valid_class_def elf_valid_encoding_def elf_has_program_header_def config_simps)

lemma demo_program_phdrs:
  assumes "\<And>a. unat a < 88 \<Longrightarrow> fm a = demo_program ! unat a"
  shows "load_phdrs fm 0 = [52]" "elf_program fm 88"
proof -
  note h = demo_program_header [OF assms]
  show "load_phdrs fm 0 = [52]" by (simp add: load_phdrs_def h PT_LOAD_def)
  then show "elf_program fm 88" by (simp add: elf_program_def elf_sized_def h)
qed

definition demo_elf_boot :: "u8 list \<Rightarrow> elf_state" where
  "demo_elf_boot c = file_state.extend (demo_boot\<lparr>bus := demo_bus (boot_img c)\<rparr>) (elf_state.fields (\<lambda>_. empty_elf 0))"

lemma demo_elf_machine: "demo_machine (demo_elf_boot c) c 64"
  by (simp add: demo_machine_def demo_elf_boot_def demo_boot_def demo_opened_defs file_state.extend_def elf_state.fields_def)

theorem elf_load_loads_program_witness:
  "\<exists>s ef s'. Option.bind (fs_init (demo_elf_boot demo_program)) disk_search_and_init = Some s \<and> elf_load s 0x2000 = Some (0, ef, s') \<and>
    virt_base_addr (elf_files s' ef) = 0x400000 \<and> virt_end_addr (elf_files s' ef) = 0x400058 \<and> mem s' (elf_memory s' ef + 84) = 0xCD"
proof -
  obtain s where s: "Option.bind (fs_init (demo_elf_boot demo_program)) disk_search_and_init = Some s"
    "can_load s (boot_img demo_program) (2 ^ 22 - 1) 2 0x2000 hi_txt 0 0 [2] 88" "kfits s 58"
    using demo_can_load [OF demo_elf_machine [of demo_program]] by (auto simp: demo_program_length)
  let ?fm = "file_mem (volume_of s (boot_img demo_program) (2 ^ 22 - 1)) [2]"
  have fm: "?fm a = demo_program ! unat a" if "unat a < 88" for a using demo_file_mem [of a demo_program] that by (simp add: demo_program_length)
  note h = demo_program_header [OF fm] and ph = demo_program_phdrs [OF fm]
  have fit: "kfits s (blocks_for (of_nat 88) + 8)" by (rule kz.fits_mono [OF s(3)]) (simp add: blocks_for_def)
  obtain ef b s' where r: "elf_load s 0x2000 = Some (0, ef, s')" "elf_memory s' ef = b" "image_at (mem s') b 88 ?fm"
    "covers ?fm b (load_phdrs ?fm 0) (elf_files s' ef)"
    using elf_load_loads_program [OF s(2) fit ph(2)] by blast
  have "mem s' (elf_memory s' ef + 84) = ?fm 84" using r(2,3) by (simp add: image_at_def)
  moreover have "?fm 84 = 0xCD" using fm [of 84] by (simp add: demo_program_def)
  moreover have "virt_base_addr (elf_files s' ef) = 0x400000" "virt_end_addr (elf_files s' ef) = 0x400058"
    using r(4) ph(1) h(7,8) by (simp_all add: covers_def)
  ultimately show ?thesis using s(1) r(1) by (intro exI [of _ s] exI [of _ ef] exI [of _ s']) simp
qed

theorem elf_load_rejects_witness:
  "\<exists>s s'. Option.bind (fs_init (demo_elf_boot [0x68, 0x65, 0x6C, 0x6C, 0x6F])) disk_search_and_init = Some s \<and>
    elf_load s 0x2000 = Some (- EINVFMT, 0, s') \<and> file_descriptors s' = file_descriptors s"
proof -
  let ?c = "[0x68, 0x65, 0x6C, 0x6C, 0x6F] :: u8 list"
  obtain s where s: "Option.bind (fs_init (demo_elf_boot ?c)) disk_search_and_init = Some s"
    "can_load s demo_boot_img (2 ^ 22 - 1) 2 0x2000 hi_txt 0 0 [2] (length ?c)" "kfits s 58"
    using demo_can_load [OF demo_elf_machine [of ?c]] by auto
  let ?fm = "file_mem (volume_of s demo_boot_img (2 ^ 22 - 1)) [2]"
  have fit: "kfits s (blocks_for (of_nat (length ?c)) + 8)" by (rule kz.fits_mono [OF s(3)]) (simp add: blocks_for_def)
  have "?fm 0 = 0x68" using demo_file_mem [of 0 ?c] by simp
  then have "elf_rejected ?fm (length ?c)" by (simp add: elf_rejected_def elf_valid_signature_def)
  then show ?thesis using s(1) elf_load_rejects [OF s(2) fit] by blast
qed

end
