(* ===== verification/Task_Model.thy ===== *)
theory Task_Model
  imports Elf_Model
begin

unbundle bit_operations_syntax

text \<open>
  \<^verbatim>\<open>kernel/task/task.c\<close>, the structures of \<^verbatim>\<open>task.h\<close>, \<^verbatim>\<open>process.h\<close> and \<^verbatim>\<open>idt.h\<close>, and \<^verbatim>\<open>kernel_page\<close> of \<^verbatim>\<open>kernel.c\<close>: tasks, their list and
  the switch between them.

  Tasks and processes are records in stores indexed by their address. The union of \<^verbatim>\<open>struct process\<close> is
  one field, \<open>image\<close>. An access through the page directory of a task (the stack of the task, the strings
  it passes) is translated by that directory; the kernel's own directory is the identity map, so
  every other access uses the address as it is.

  \<^verbatim>\<open>task_return\<close> (\<^verbatim>\<open>task.asm\<close>) leaves the kernel: it loads the registers of a task, all but the flags, and
  continues in user mode. The flags are those that the kernel has at the \<^verbatim>\<open>pushf\<close>, with interrupts enabled; the saved ones are
  not used. \<open>flags_reg\<close> is what \<^verbatim>\<open>pushf\<close> reads: no code of the kernel looks at it, and every entry into the kernel may
  leave another value. A function that may end this way returns an \<open>outcome\<close>.
\<close>

section \<open>Definitions\<close>

definition KERNEL_CODE_SEG :: u16 where [config_simps]: "KERNEL_CODE_SEG = 0x08"
definition KERNEL_DATA_SEG :: u16 where [config_simps]: "KERNEL_DATA_SEG = 0x10"
definition USER_DATA_SEG :: u16 where [config_simps]: "USER_DATA_SEG = 0x23"
definition USER_CODE_SEG :: u16 where [config_simps]: "USER_CODE_SEG = 0x1B"
definition ENKI_MAX_PGM_ALLOCATIONS :: nat where [config_simps]: "ENKI_MAX_PGM_ALLOCATIONS = 1024"
definition ENKI_MAX_PROCESSES :: nat where [config_simps]: "ENKI_MAX_PROCESSES = 12"
definition ENKI_USER_PGM_STACK_SIZE :: u32 where [config_simps]: "ENKI_USER_PGM_STACK_SIZE = 1024 * 16"
definition ENKI_PGM_VIRT_STACK_ADDR_START :: u32 where [config_simps]: "ENKI_PGM_VIRT_STACK_ADDR_START = 0x3FF000"
definition ENKI_PGM_VIRT_STACK_ADDR_END :: u32 where
  [config_simps]: "ENKI_PGM_VIRT_STACK_ADDR_END = ENKI_PGM_VIRT_STACK_ADDR_START - ENKI_USER_PGM_STACK_SIZE"
definition ENKI_KEYBOARD_BUFFER_SIZE :: nat where [config_simps]: "ENKI_KEYBOARD_BUFFER_SIZE = 1024"
definition PROCESS_FILE_TYPE_ELF :: u8 where [config_simps]: "PROCESS_FILE_TYPE_ELF = 0"
definition PROCESS_FILE_TYPE_BIN :: u8 where [config_simps]: "PROCESS_FILE_TYPE_BIN = 1"

record registers =
  edi :: u32
  esi :: u32
  ebp :: u32
  ebx :: u32
  edx :: u32
  ecx :: u32
  eax :: u32
  ip :: u32
  cs :: u32
  eflags :: u32
  esp :: u32
  ss :: u32

text \<open>The frame has the same registers; its reserved word is not read.\<close>

type_synonym interrupt_frame = registers

record task =
  page_dir :: u32
  regs :: registers
  task_next :: u32
  task_prev :: u32
  task_process :: u32

record process_allocation =
  alloc_ptr :: u32
  alloc_size :: u32

record keyboard_buffer =
  kbuf :: "u8 list"
  ktail :: int
  khead :: int

record process_args =
  argc :: int
  argv :: u32

record process =
  proc_id :: u16
  proc_file_name :: "u8 list"
  file_type :: u8
  proc_task :: u32
  allocations :: "process_allocation list"
  image :: u32
  proc_stack :: u32
  proc_size :: u32
  keyboard :: keyboard_buffer
  args :: process_args

record task_state = elf_state +
  tasks :: "u32 \<Rightarrow> task"
  procs :: "u32 \<Rightarrow> process"
  task_current :: u32
  task_head :: u32
  task_tail :: u32
  kernel_page_dir :: u32
  flags_reg :: u32

datatype 'v outcome = Returned 'v | User_mode registers

definition zero_registers :: registers where
  "zero_registers = \<lparr>edi = 0, esi = 0, ebp = 0, ebx = 0, edx = 0, ecx = 0, eax = 0, ip = 0, cs = 0, eflags = 0, esp = 0, ss = 0\<rparr>"

definition zero_task :: task where
  "zero_task = \<lparr>page_dir = 0, regs = zero_registers, task_next = 0, task_prev = 0, task_process = 0\<rparr>"

definition kernel_registers :: "'a task_state_scheme \<Rightarrow> 'a task_state_scheme" where
  "kernel_registers s = s\<lparr>data_seg := 0x10\<rparr>"

definition user_registers :: "'a task_state_scheme \<Rightarrow> 'a task_state_scheme" where
  "user_registers s = s\<lparr>data_seg := 0x23\<rparr>"

definition kernel_page :: "'a task_state_scheme \<Rightarrow> 'a task_state_scheme" where
  "kernel_page s = paging_switch (kernel_registers s) (kernel_page_dir s)"

definition task_return :: "'a task_state_scheme \<Rightarrow> registers \<Rightarrow> 'v outcome \<times> 'a task_state_scheme" where
  "task_return s r = (User_mode (r\<lparr>eflags := flags_reg s OR 0x200\<rparr>), s\<lparr>data_seg := ucast (ss r)\<rparr>)"

definition task_get_current :: "'a task_state_scheme \<Rightarrow> u32" where
  "task_get_current s = task_current s"

definition task_get_next :: "'a task_state_scheme \<Rightarrow> u32" where
  "task_get_next s =
     (if task_next (tasks s (task_current s)) = 0 then task_head s else task_next (tasks s (task_current s)))"

definition task_list_remove :: "'a task_state_scheme \<Rightarrow> u32 \<Rightarrow> 'a task_state_scheme" where
  "task_list_remove s task =
     (let pr = task_prev (tasks s task);
          s1 = (if pr \<noteq> 0
                then s\<lparr>tasks := (tasks s)(pr := (tasks s pr)\<lparr>task_next := task_next (tasks s task)\<rparr>)\<rparr> else s)
      in if task = task_head s1 then s1\<lparr>task_head := task_next (tasks s1 task)\<rparr>
         else if task = task_tail s1 then s1\<lparr>task_tail := task_prev (tasks s1 task)\<rparr>
         else if task = task_current s1 then s1\<lparr>task_current := task_get_next s1\<rparr>
         else s1)"

definition task_free :: "'a task_state_scheme \<Rightarrow> u32 \<Rightarrow> int \<times> 'a task_state_scheme" where
  "task_free s task =
     (let s1 = paging_free s (page_dir (tasks s task));
          s2 = task_list_remove s1 task
      in (0, kfree s2 task))"

definition task_init :: "'a task_state_scheme \<Rightarrow> u32 \<Rightarrow> u32 \<Rightarrow> int \<times> 'a task_state_scheme" where
  "task_init s task proc =
     (let s1 = s\<lparr>tasks := (tasks s)(task := zero_task)\<rparr>;
          (pd, s2) = paging_new s1 (ucast (PAGING_IS_PRESENT OR PAGING_ACCESS_FROM_ALL));
          s3 = s2\<lparr>tasks := (tasks s2)(task := (tasks s2 task)\<lparr>page_dir := pd\<rparr>)\<rparr>
      in if page_dir (tasks s3 task) = 0 then (- EIO, s3)
         else
           let entry_ip = (if file_type (procs s3 proc) = PROCESS_FILE_TYPE_ELF
                           then e_entry (mem s3) (elf_header s3 (image (procs s3 proc))) else ENKI_PGM_VIRT_ADDR);
               t = tasks s3 task;
               t' = t\<lparr>regs := (regs t)\<lparr>ip := entry_ip, ss := ucast USER_DATA_SEG, cs := ucast USER_CODE_SEG,
                        esp := ENKI_PGM_VIRT_STACK_ADDR_START\<rparr>, task_process := proc\<rparr>
           in (0, s3\<lparr>tasks := (tasks s3)(task := t')\<rparr>))"

definition task_new :: "'a task_state_scheme \<Rightarrow> u32 \<Rightarrow> u32 \<times> 'a task_state_scheme" where
  "task_new s proc =
     (let (task, s1) = kzalloc s 64
      in if task = 0 then (0, s1)
         else
           let (r, s2) = task_init (s1\<lparr>tasks := (tasks s1)(task := zero_task)\<rparr>) task proc
           in if r \<noteq> 0 then (0, snd (task_free s2 task))
              else
                let s3 = (if task_head s2 = 0 then s2\<lparr>task_head := task, task_current := task\<rparr>
                          else
                            let s' = s2\<lparr>tasks := (tasks s2)(task_tail s2 := (tasks s2 (task_tail s2))\<lparr>task_next := task\<rparr>)\<rparr>
                            in s'\<lparr>tasks := (tasks s')(task := (tasks s' task)\<lparr>task_prev := task_tail s'\<rparr>)\<rparr>)
                in (task, s3\<lparr>task_tail := task\<rparr>))"

definition task_switch :: "'a task_state_scheme \<Rightarrow> u32 \<Rightarrow> 'a task_state_scheme" where
  "task_switch s task = paging_switch (s\<lparr>task_current := task\<rparr>) (page_dir (tasks s task))"

definition task_page :: "'a task_state_scheme \<Rightarrow> 'a task_state_scheme" where
  "task_page s = task_switch (user_registers s) (task_current s)"

definition task_page_to :: "'a task_state_scheme \<Rightarrow> u32 \<Rightarrow> 'a task_state_scheme" where
  "task_page_to s task = paging_switch (user_registers s) (page_dir (tasks s task))"

definition task_run_first :: "'a task_state_scheme \<Rightarrow> (unit outcome \<times> 'a task_state_scheme) option" where
  "task_run_first s =
     (if task_current s = 0 then None
      else
        let s1 = task_switch s (task_head s)
        in Some (task_return s1 (regs (tasks s1 (task_head s1)))))"

definition task_save_state :: "'a task_state_scheme \<Rightarrow> u32 \<Rightarrow> interrupt_frame \<Rightarrow> 'a task_state_scheme" where
  "task_save_state s task frame =
     (let r = (regs (tasks s task))\<lparr>ip := ip frame, cs := cs frame, eflags := eflags frame, esp := esp frame, ss := ss frame,
                eax := eax frame, ebp := ebp frame, ebx := ebx frame, ecx := ecx frame, edi := edi frame, edx := edx frame,
                esi := esi frame\<rparr>
      in s\<lparr>tasks := (tasks s)(task := (tasks s task)\<lparr>regs := r\<rparr>)\<rparr>)"

definition task_current_save_state :: "'a task_state_scheme \<Rightarrow> interrupt_frame \<Rightarrow> 'a task_state_scheme option" where
  "task_current_save_state s frame =
     (if task_current s = 0 then None else Some (task_save_state s (task_current s) frame))"

text \<open>
  \<^verbatim>\<open>strncpy\<close> run while another page directory is loaded: both addresses are translated by it. The present bit of an entry is not
  looked at: where it is clear the processor raises a page fault inside the kernel, which is not modelled.
\<close>

function vstrncpy_loop :: "u32 \<Rightarrow> u32 \<Rightarrow> u32 \<Rightarrow> int \<Rightarrow> nat \<Rightarrow> memory \<Rightarrow> memory" where
  "vstrncpy_loop dir dst src n i m =
     (let c = m (paging_get_phys_addr m dir (src + of_nat i));
          d = paging_get_phys_addr m dir (dst + of_nat i)
      in if int i < n - 1 \<and> c \<noteq> 0 then vstrncpy_loop dir dst src n (i + 1) (m(d := c)) else m(d := 0))"
  by pat_completeness auto
termination
  by (relation "measure (\<lambda>(dir, dst, src, n, i, m). nat (n - int i))") auto

declare vstrncpy_loop.simps [simp del]

definition copy_str_from_task :: "'a task_state_scheme \<Rightarrow> u32 \<Rightarrow> u32 \<Rightarrow> u32 \<Rightarrow> int \<Rightarrow> int \<times> 'a task_state_scheme" where
  "copy_str_from_task s task virt_addr phys_addr max_len =
     (if max_len \<ge> uint PAGING_PAGE_SIZE then (- EINVARG, s)
      else
        let (tmp, s1) = kzalloc s (word_of_int max_len)
        in if tmp = 0 then (- ENOMEM, s1)
           else
             let pd = page_dir (tasks s1 task);
                 task_dir = dir_entries (mem s1) pd;
                 old_entry = paging_get (mem s1) task_dir tmp;
                 m2 = snd (paging_map pd tmp tmp (PAGING_IS_WRITEABLE OR PAGING_IS_PRESENT OR PAGING_ACCESS_FROM_ALL) (mem s1));
                 s3 = paging_switch (s1\<lparr>mem := m2\<rparr>) pd;
                 s4 = s3\<lparr>mem := vstrncpy_loop (page_reg s3) tmp virt_addr max_len 0 (mem s3)\<rparr>;
                 s5 = kernel_page s4;
                 (r, m6) = paging_set task_dir tmp old_entry (mem s5)
             in if r < 0 then (- EIO, kfree (s5\<lparr>mem := m6\<rparr>) tmp)
                else (0, s5\<lparr>mem := strncpy phys_addr tmp max_len m6\<rparr>))"

text \<open>A word of the stack of the task, each byte read through the directory of the task.\<close>

definition vload32 :: "'a task_state_scheme \<Rightarrow> u32 \<Rightarrow> u32" where
  "vload32 s a = load32 (\<lambda>i. mem s (paging_get_phys_addr (mem s) (page_reg s) (a + i))) 0"

definition task_get_stack_item :: "'a task_state_scheme \<Rightarrow> u32 \<Rightarrow> u32 \<Rightarrow> u32 \<times> 'a task_state_scheme" where
  "task_get_stack_item s task idx =
     (let sp = esp (regs (tasks s task));
          s1 = task_page_to s task
      in (vload32 s1 (sp + 4 * idx), kernel_page s1))"

definition task_virt_to_phys_addr :: "'a task_state_scheme \<Rightarrow> u32 \<Rightarrow> u32 \<Rightarrow> u32" where
  "task_virt_to_phys_addr s task virt_addr =
     paging_get_phys_addr (mem s) (dir_entries (mem s) (page_dir (tasks s task))) virt_addr"

definition task_switch_next :: "'a task_state_scheme \<Rightarrow> ('v outcome \<times> 'a task_state_scheme) option" where
  "task_switch_next s =
     (let nxt = task_get_next s
      in if nxt = 0 then None
         else
           let s1 = task_switch s nxt
           in Some (task_return s1 (regs (tasks s1 nxt))))"

end
