(* ===== verification/Process_Model.thy ===== *)
theory Process_Model
  imports Task_Model
begin

unbundle bit_operations_syntax

text \<open>
  \<^verbatim>\<open>kernel/task/process.c\<close>: loading, memory and termination of processes.

  Terminating the last process spawns a new shell, and a failed load terminates the half-loaded
  process, so \<^verbatim>\<open>process_terminate\<close> and \<^verbatim>\<open>process_load_slot\<close> call each other. The operations on that cycle take the
  function for \<^verbatim>\<open>process_terminate\<close> as the argument \<open>term\<close>, and \<open>process_terminate\<close> itself is defined with a
  depth: the number of terminations that may be nested. With depth 0 there is no result.

  The out-parameter \<^verbatim>\<open>proc\<close> of the load functions is returned, 0 when it is left alone.
\<close>

section \<open>Definitions\<close>

record proc_state = task_state +
  process_current :: u32
  processes :: "u32 list"
  shell_path :: u32

definition zero_process :: process where
  "zero_process = \<lparr>proc_id = 0, proc_file_name = [], file_type = 0, proc_task = 0,
     allocations = replicate ENKI_MAX_PGM_ALLOCATIONS \<lparr>alloc_ptr = 0, alloc_size = 0\<rparr>, image = 0, proc_stack = 0, proc_size = 0,
     keyboard = \<lparr>kbuf = replicate ENKI_KEYBOARD_BUFFER_SIZE 0, ktail = 0, khead = 0\<rparr>, args = \<lparr>argc = 0, argv = 0\<rparr>\<rparr>"

abbreviation upd_proc :: "'a proc_state_scheme \<Rightarrow> u32 \<Rightarrow> (process \<Rightarrow> process) \<Rightarrow> 'a proc_state_scheme" where
  "upd_proc s p f \<equiv> s\<lparr>procs := (procs s)(p := f (procs s p))\<rparr>"

definition process_init :: "'a proc_state_scheme \<Rightarrow> u32 \<Rightarrow> 'a proc_state_scheme" where
  "process_init s proc = upd_proc s proc (\<lambda>_. zero_process)"

definition process_get_current :: "'a proc_state_scheme \<Rightarrow> u32" where
  "process_get_current s = process_current s"

definition process_get :: "'a proc_state_scheme \<Rightarrow> int \<Rightarrow> u32" where
  "process_get s id_no = (if id_no < 0 \<or> id_no \<ge> int ENKI_MAX_PROCESSES then 0 else processes s ! nat id_no)"

definition process_switch :: "'a proc_state_scheme \<Rightarrow> u32 \<Rightarrow> 'a proc_state_scheme" where
  "process_switch s proc = s\<lparr>process_current := proc\<rparr>"

definition process_load_elf :: "'a proc_state_scheme \<Rightarrow> u32 \<Rightarrow> u32 \<Rightarrow> (int \<times> 'a proc_state_scheme) option" where
  "process_load_elf s file_name proc =
     do {
       (r, ef, s1) \<leftarrow> elf_load s file_name;
       if r < 0 then Some (r, s1)
       else Some (r, upd_proc s1 proc (\<lambda>p. p\<lparr>file_type := PROCESS_FILE_TYPE_ELF, image := ef\<rparr>))
     }"

definition process_load_bin :: "'a proc_state_scheme \<Rightarrow> u32 \<Rightarrow> u32 \<Rightarrow> (int \<times> 'a proc_state_scheme) option" where
  "process_load_bin s file_name proc =
     do {
       (fd, s1) \<leftarrow> fopen s file_name [0x72];
       if fd = 0 then Some (- EIO, s1)
       else do {
         (r, stat) \<leftarrow> fstat s1 fd \<lparr>stat_flags = 0, file_size = 0\<rparr>;
         if r \<noteq> 0 then do {
           (_, s2) \<leftarrow> fclose s1 fd;
           Some (r, s2)
         }
         else do {
           let (pgm_data, s2) = kzalloc s1 (file_size stat);
           if pgm_data = 0 then do {
             (_, s3) \<leftarrow> fclose s2 fd;
             Some (- ENOMEM, s3)
           }
           else do {
             (r', s3) \<leftarrow> fread s2 pgm_data (file_size stat) 1 fd;
             if r' \<noteq> 1 then do {
               (_, s4) \<leftarrow> fclose (kfree s3 pgm_data) fd;
               Some (- EIO, s4)
             }
             else Some (0, upd_proc s3 proc (\<lambda>p. p\<lparr>file_type := PROCESS_FILE_TYPE_BIN, image := pgm_data, proc_size := file_size stat\<rparr>))
           }
         }
       }
     }"

definition process_load_data :: "'a proc_state_scheme \<Rightarrow> u32 \<Rightarrow> u32 \<Rightarrow> (int \<times> 'a proc_state_scheme) option" where
  "process_load_data s file_name proc =
     do {
       (r, s1) \<leftarrow> process_load_elf s file_name proc;
       if r = - EINVFMT then process_load_bin s1 file_name proc else Some (r, s1)
     }"

abbreviation user_rw :: u32 where
  "user_rw \<equiv> PAGING_IS_PRESENT OR PAGING_ACCESS_FROM_ALL OR PAGING_IS_WRITEABLE"

definition process_map_bin :: "'a proc_state_scheme \<Rightarrow> u32 \<Rightarrow> int \<times> 'a proc_state_scheme" where
  "process_map_bin s proc =
     (let p = procs s proc;
          (_, m) = paging_map_to (page_dir (tasks s (proc_task p))) ENKI_PGM_VIRT_ADDR (image p)
                     (paging_align_address (image p + proc_size p)) user_rw (mem s)
      in (0, s\<lparr>mem := m\<rparr>))"

text \<open>The loop over the program headers; \<open>n\<close> headers are left, the next one is number \<open>i\<close>.\<close>

primrec process_map_phdrs :: "nat \<Rightarrow> 'a proc_state_scheme \<Rightarrow> u32 \<Rightarrow> u32 \<Rightarrow> u32 \<Rightarrow> u32 \<Rightarrow> int \<Rightarrow> int \<times> 'a proc_state_scheme" where
  "process_map_phdrs 0 s proc ef phdrs i result = (result, s)"
| "process_map_phdrs (Suc n) s proc ef phdrs i result =
     (let phdr = phdrs + 32 * i;
          flags = (PAGING_IS_PRESENT OR PAGING_ACCESS_FROM_ALL) OR (if p_flags (mem s) phdr AND PF_W \<noteq> 0 then PAGING_IS_WRITEABLE else 0);
          phys = elf_phdr_phys_addr s ef phdr;
          virt_base = paging_align_to_lower (p_vaddr (mem s) phdr);
          phys_base = paging_align_to_lower phys;
          phys_end = paging_align_address (phys + p_memsz (mem s) phdr);
          (r, m) = paging_map_to (page_dir (tasks s (proc_task (procs s proc)))) virt_base phys_base phys_end flags (mem s);
          s1 = s\<lparr>mem := m\<rparr>
      in if r < 0 then (r, s1) else process_map_phdrs n s1 proc ef phdrs (i + 1) r)"

definition process_map_elf :: "'a proc_state_scheme \<Rightarrow> u32 \<Rightarrow> int \<times> 'a proc_state_scheme" where
  "process_map_elf s proc =
     (let ef = image (procs s proc);
          header = elf_header s ef;
          phdrs = elf_pheader (mem s) header
      in process_map_phdrs (unat (e_phnum (mem s) header)) s proc ef phdrs 0 0)"

definition process_map_memory :: "'a proc_state_scheme \<Rightarrow> u32 \<Rightarrow> (int \<times> 'a proc_state_scheme) option" where
  "process_map_memory s proc =
     (let ft = file_type (procs s proc)
      in do {
        (r, s1) \<leftarrow> (if ft = PROCESS_FILE_TYPE_BIN then Some (process_map_bin s proc)
                    else if ft = PROCESS_FILE_TYPE_ELF then Some (process_map_elf s proc)
                    else None);
        if r < 0 then Some (r, s1)
        else
          let p = procs s1 proc;
              phys_end = paging_align_address (proc_stack p + ENKI_USER_PGM_STACK_SIZE);
              (_, m) = paging_map_to (page_dir (tasks s1 (proc_task p))) ENKI_PGM_VIRT_STACK_ADDR_END (proc_stack p) phys_end
                         user_rw (mem s1)
          in Some (r, s1\<lparr>mem := m\<rparr>)
      })"

definition process_get_free_slot :: "'a proc_state_scheme \<Rightarrow> int" where
  "process_get_free_slot s = (case first_null (processes s) of Some i \<Rightarrow> int i | None \<Rightarrow> - EISTKN)"

text \<open>The characters \<^verbatim>\<open>strncpy\<close> copies into the name of a process: at most \<open>n\<close>, up to the terminator.\<close>

primrec bounded_string :: "memory \<Rightarrow> nat \<Rightarrow> u32 \<Rightarrow> u8 list" where
  "bounded_string m 0 p = []"
| "bounded_string m (Suc n) p = (if m p = 0 then [] else m p # bounded_string m n (p + 1))"

definition process_load_slot ::
    "('a proc_state_scheme \<Rightarrow> u32 \<Rightarrow> (int \<times> 'a proc_state_scheme) option) \<Rightarrow>
     'a proc_state_scheme \<Rightarrow> u32 \<Rightarrow> int \<Rightarrow> (int \<times> u32 \<times> 'a proc_state_scheme) option" where
  "process_load_slot term s file_name proc_slot =
     (if process_get s proc_slot \<noteq> 0 then Some (- EISTKN, 0, s)
      else
        let (load_proc, s1) = kzalloc s 9360
        in if load_proc = 0 then Some (- ENOMEM, 0, s1)
           else do {
             let s2 = process_init s1 load_proc;
             (r, s3) \<leftarrow> process_load_data s2 file_name load_proc;
             if r < 0 then do {
               (_, s4) \<leftarrow> term s3 load_proc;
               Some (r, 0, s4)
             }
             else do {
               let (stk, s4) = kzalloc s3 ENKI_USER_PGM_STACK_SIZE;
               if stk = 0 then do {
                 (_, s5) \<leftarrow> term s4 load_proc;
                 Some (- ENOMEM, 0, s5)
               }
               else do {
                 let s5 = upd_proc s4 load_proc (\<lambda>p. p\<lparr>proc_stack := stk, proc_file_name := bounded_string (mem s4) 107 file_name,
                            proc_id := word_of_int proc_slot\<rparr>);
                 let (task, s6) = task_new s5 load_proc;
                 if task = 0 then do {
                   (_, s7) \<leftarrow> term s6 load_proc;
                   Some (- ENOMEM, 0, s7)
                 }
                 else do {
                   let s7 = upd_proc s6 load_proc (\<lambda>p. p\<lparr>proc_task := task\<rparr>);
                   (r', s8) \<leftarrow> process_map_memory s7 load_proc;
                   if r' < 0 then Some (r', 0, s8)
                   else Some (r', load_proc, s8\<lparr>processes := (processes s8)[nat proc_slot := load_proc]\<rparr>)
                 }
               }
             }
           })"

definition process_load ::
    "('a proc_state_scheme \<Rightarrow> u32 \<Rightarrow> (int \<times> 'a proc_state_scheme) option) \<Rightarrow>
     'a proc_state_scheme \<Rightarrow> u32 \<Rightarrow> (int \<times> u32 \<times> 'a proc_state_scheme) option" where
  "process_load term s file_name =
     (let slot = process_get_free_slot s
      in if slot < 0 then Some (- EISTKN, 0, s) else process_load_slot term s file_name slot)"

definition process_load_switch ::
    "('a proc_state_scheme \<Rightarrow> u32 \<Rightarrow> (int \<times> 'a proc_state_scheme) option) \<Rightarrow>
     'a proc_state_scheme \<Rightarrow> u32 \<Rightarrow> (int \<times> u32 \<times> 'a proc_state_scheme) option" where
  "process_load_switch term s file_name =
     do {
       (err, proc, s1) \<leftarrow> process_load term s file_name;
       Some (err, proc, if err = 0 then process_switch s1 proc else s1)
     }"

text \<open>The index of the first allocation of a process at an address.\<close>

fun find_alloc :: "process_allocation list \<Rightarrow> u32 \<Rightarrow> nat option" where
  "find_alloc [] p = None"
| "find_alloc (a # as) p = (if alloc_ptr a = p then Some 0 else map_option Suc (find_alloc as p))"

definition process_find_free_alloc :: "process \<Rightarrow> int" where
  "process_find_free_alloc p = (case find_alloc (allocations p) 0 of Some i \<Rightarrow> int i | None \<Rightarrow> - ENOMEM)"

definition process_malloc :: "'a proc_state_scheme \<Rightarrow> u32 \<Rightarrow> u32 \<Rightarrow> u32 \<times> 'a proc_state_scheme" where
  "process_malloc s proc sz =
     (let (ptr, s1) = kzalloc s sz
      in if ptr = 0 then (0, s1)
         else
           let idx = process_find_free_alloc (procs s1 proc)
           in if idx < 0 then (0, kfree s1 ptr)
              else
                let phys_end = paging_align_address (ptr + sz);
                    (r, m) = paging_map_to (page_dir (tasks s1 (proc_task (procs s1 proc)))) ptr ptr phys_end user_rw (mem s1);
                    s2 = s1\<lparr>mem := m\<rparr>
                in if r < 0 then (0, kfree s2 ptr)
                   else (ptr, upd_proc s2 proc (\<lambda>p. p\<lparr>allocations := (allocations p)[nat idx := \<lparr>alloc_ptr = ptr, alloc_size = sz\<rparr>]\<rparr>)))"

definition process_owns_ptr :: "process \<Rightarrow> u32 \<Rightarrow> bool" where
  "process_owns_ptr p ptr \<longleftrightarrow> find_alloc (allocations p) ptr \<noteq> None"

definition process_allocation_drop :: "process \<Rightarrow> u32 \<Rightarrow> process" where
  "process_allocation_drop p ptr =
     p\<lparr>allocations := map (\<lambda>a. if alloc_ptr a = ptr then \<lparr>alloc_ptr = 0, alloc_size = 0\<rparr> else a) (allocations p)\<rparr>"

definition process_get_allocation :: "process \<Rightarrow> u32 \<Rightarrow> nat option" where
  "process_get_allocation p addr = find_alloc (allocations p) addr"

definition process_free :: "'a proc_state_scheme \<Rightarrow> u32 \<Rightarrow> u32 \<Rightarrow> 'a proc_state_scheme" where
  "process_free s proc to_free =
     (case process_get_allocation (procs s proc) to_free of
        None \<Rightarrow> s
      | Some i \<Rightarrow>
          let a = allocations (procs s proc) ! i;
              phys_end = paging_align_address (alloc_ptr a + alloc_size a);
              (r, m) = paging_map_to (page_dir (tasks s (proc_task (procs s proc)))) (alloc_ptr a) (alloc_ptr a) phys_end 0x00 (mem s);
              s1 = s\<lparr>mem := m\<rparr>
          in if r < 0 then s1 else kfree (upd_proc s1 proc (\<lambda>p. process_allocation_drop p to_free)) to_free)"

definition process_get_args :: "process \<Rightarrow> int \<times> u32" where
  "process_get_args p = (argc (args p), argv (args p))"

text \<open>\<^verbatim>\<open>struct cmd_arg\<close> is 512 characters and the pointer to the next argument.\<close>

definition cmd_arg_next :: "memory \<Rightarrow> u32 \<Rightarrow> u32" where
  "cmd_arg_next m p = load32 m (p + 512)"

partial_function (option) count_cmd_args :: "memory \<Rightarrow> u32 \<Rightarrow> int \<Rightarrow> int option" where
  "count_cmd_args m arg i = (if arg \<noteq> 0 then count_cmd_args m (cmd_arg_next m arg) (i + 1) else Some i)"

definition process_count_cmd_args :: "memory \<Rightarrow> u32 \<Rightarrow> int option" where
  "process_count_cmd_args m root_arg = count_cmd_args m root_arg 0"

partial_function (option) inject_loop :: "'a proc_state_scheme \<Rightarrow> u32 \<Rightarrow> u32 \<Rightarrow> u32 \<Rightarrow> u32 \<Rightarrow> (int \<times> 'a proc_state_scheme) option" where
  "inject_loop s proc current av i =
     (if current \<noteq> 0 then
        (let (s_arg, s1) = process_malloc s proc 512
         in if s_arg = 0 then Some (- ENOMEM, s1)
            else
              let m1 = strncpy s_arg current 512 (mem s1);
                  m2 = store32 m1 (av + 4 * i) s_arg
              in inject_loop (s1\<lparr>mem := m2\<rparr>) proc (cmd_arg_next m2 current) av (i + 1))
      else Some (0, s))"

definition process_inject_args :: "'a proc_state_scheme \<Rightarrow> u32 \<Rightarrow> u32 \<Rightarrow> (int \<times> 'a proc_state_scheme) option" where
  "process_inject_args s proc root_arg =
     do {
       n \<leftarrow> process_count_cmd_args (mem s) root_arg;
       if n = 0 then Some (- EIO, s)
       else
         let (av, s1) = process_malloc s proc (word_of_int (n * 4))
         in if av = 0 then Some (- ENOMEM, s1)
            else do {
              (r, s2) \<leftarrow> inject_loop s1 proc root_arg av 0;
              if r < 0 then Some (r, s2)
              else Some (0, upd_proc s2 proc (\<lambda>p. p\<lparr>args := \<lparr>argc = n, argv = av\<rparr>\<rparr>))
            }
     }"

definition process_free_allocations :: "'a proc_state_scheme \<Rightarrow> u32 \<Rightarrow> int \<times> 'a proc_state_scheme" where
  "process_free_allocations s proc =
     (0, foldl (\<lambda>s i. process_free s proc (alloc_ptr (allocations (procs s proc) ! i))) s [0..<ENKI_MAX_PGM_ALLOCATIONS])"

definition process_free_bin_data :: "'a proc_state_scheme \<Rightarrow> u32 \<Rightarrow> int \<times> 'a proc_state_scheme" where
  "process_free_bin_data s proc = (0, kfree s (image (procs s proc)))"

definition process_free_elf_data :: "'a proc_state_scheme \<Rightarrow> u32 \<Rightarrow> int \<times> 'a proc_state_scheme" where
  "process_free_elf_data s proc = (0, elf_close s (image (procs s proc)))"

definition process_free_pgm_data :: "'a proc_state_scheme \<Rightarrow> u32 \<Rightarrow> int \<times> 'a proc_state_scheme" where
  "process_free_pgm_data s proc =
     (let ft = file_type (procs s proc)
      in if ft = PROCESS_FILE_TYPE_BIN then process_free_bin_data s proc
         else if ft = PROCESS_FILE_TYPE_ELF then process_free_elf_data s proc
         else (- EINVARG, s))"

definition process_new_shell ::
    "('a proc_state_scheme \<Rightarrow> u32 \<Rightarrow> (int \<times> 'a proc_state_scheme) option) \<Rightarrow>
     'a proc_state_scheme \<Rightarrow> (u32 \<times> 'a proc_state_scheme) option" where
  "process_new_shell term s =
     do {
       (r, proc, s1) \<leftarrow> process_load_switch term s (shell_path s);
       if r \<noteq> 0 then None else Some (proc, s1)
     }"

fun first_process :: "u32 list \<Rightarrow> u32" where
  "first_process [] = 0"
| "first_process (p # ps) = (if p \<noteq> 0 then p else first_process ps)"

definition process_switch_to_any ::
    "('a proc_state_scheme \<Rightarrow> u32 \<Rightarrow> (int \<times> 'a proc_state_scheme) option) \<Rightarrow>
     'a proc_state_scheme \<Rightarrow> 'a proc_state_scheme option" where
  "process_switch_to_any term s =
     (let p = first_process (processes s)
      in if p \<noteq> 0 then Some (process_switch s p)
         else do {
           (_, s1) \<leftarrow> process_new_shell term s;
           Some s1
         })"

definition process_unlink ::
    "('a proc_state_scheme \<Rightarrow> u32 \<Rightarrow> (int \<times> 'a proc_state_scheme) option) \<Rightarrow>
     'a proc_state_scheme \<Rightarrow> u32 \<Rightarrow> 'a proc_state_scheme option" where
  "process_unlink term s proc =
     (let s1 = s\<lparr>processes := (processes s)[unat (proc_id (procs s proc)) := 0]\<rparr>
      in if process_current s1 = proc then process_switch_to_any term s1 else Some s1)"

primrec process_terminate :: "nat \<Rightarrow> 'a proc_state_scheme \<Rightarrow> u32 \<Rightarrow> (int \<times> 'a proc_state_scheme) option" where
  "process_terminate 0 s proc = None"
| "process_terminate (Suc depth) s proc =
     (let (r, s1) = process_free_allocations s proc
      in if r < 0 then Some (r, s1)
         else
           let (r', s2) = process_free_pgm_data s1 proc
           in if r' < 0 then Some (r', s2)
              else
                let s3 = kfree s2 (proc_stack (procs s2 proc));
                    (r'', s4) = task_free s3 (proc_task (procs s3 proc))
                in if r'' < 0 then Some (r'', s4)
                   else do {
                     s5 \<leftarrow> process_unlink (process_terminate depth) s4 proc;
                     Some (0, s5)
                   })"

section \<open>A concrete state\<close>

text \<open>
  The state the witnesses start from: the demo disk and heap, empty tables, one task at \<^verbatim>\<open>0x01000000\<close> that
  runs one process at \<^verbatim>\<open>0x01001000\<close>.
\<close>

definition demo_task :: task where
  "demo_task = \<lparr>page_dir = 0x01003000, regs = zero_registers, task_next = 0, task_prev = 0, task_process = 0x01001000\<rparr>"

definition demo_fat :: fat_state where
  "demo_fat = disk_state.extend (demo_disk demo_img) (fat_state.fields 0x9000 0x9100 0x9200 0x9300)"

definition demo_file :: file_state where
  "demo_file = fat_state.extend demo_fat
     (file_state.fields (replicate 12 0) (replicate 512 0) (\<lambda>_. \<lparr>fd_index = 0, fd_fs = 0, private_data = 0, fd_disk = 0\<rparr>))"

definition demo_elf :: elf_state where
  "demo_elf = file_state.extend demo_file
     (elf_state.fields (\<lambda>_. \<lparr>elf_mem = 0, virt_base_addr = 0, virt_end_addr = 0, phys_base_addr = 0, phys_end_addr = 0\<rparr>))"

definition demo_tasks :: task_state where
  "demo_tasks = elf_state.extend demo_elf
     (task_state.fields (\<lambda>a. if a = 0x01000000 then demo_task else zero_task) (\<lambda>_. zero_process) 0x01000000 0x01000000 0x01000000 0x01002000 0x46)"

definition demo_proc :: proc_state where
  "demo_proc = task_state.extend demo_tasks (proc_state.fields 0x01001000 (0x01001000 # replicate 11 0) 0x9400)"

lemmas demo_defs = demo_proc_def demo_tasks_def demo_elf_def demo_file_def demo_fat_def demo_disk_def
  disk_state.extend_def fat_state.extend_def file_state.extend_def elf_state.extend_def task_state.extend_def proc_state.extend_def
  fat_state.fields_def file_state.fields_def elf_state.fields_def task_state.fields_def proc_state.fields_def

end
