(* ===== verification/Idt_Model.thy ===== *)
theory Idt_Model
  imports Process_Model
begin

unbundle bit_operations_syntax

text \<open>
  \<^verbatim>\<open>kernel/kernel/idt.c\<close> and \<^verbatim>\<open>idt.h\<close>: the interrupt descriptor table and the table of callbacks. The entry that handles
  an interrupt (\<^verbatim>\<open>interrupt_handler\<close>) calls the keyboard driver and is in \<open>Kernel_Model\<close>.

  The callback table holds function pointers; the kernel stores three functions in it, the
  constructors of \<open>int_callback\<close>. The stubs of \<^verbatim>\<open>idt.asm\<close> and the addresses of the C functions are parameters of the
  state: \<open>interrupt_ptr_table\<close>, \<open>idt_zero_addr\<close>, \<open>syscall_wrapper_addr\<close> and \<open>idt_entries_addr\<close>.
\<close>

section \<open>Definitions\<close>

definition ENKI_TOTAL_INTERRUPTS :: nat where [config_simps]: "ENKI_TOTAL_INTERRUPTS = 512"

record idt_entry =
  base_low :: u16
  selector :: u16
  idt_reserved :: u8
  idt_flags :: u8
  base_high :: u16

record idtr_ptr =
  idtr_limit :: u16
  idtr_base :: u32

datatype int_callback = Idt_handle_exception | Idt_clock | Ps2_handle_interrupt

record idt_state = proc_state +
  idt_entries :: "idt_entry list"
  idtr :: idtr_ptr
  idt_register :: idtr_ptr
  int_callbacks :: "int_callback option list"
  interrupt_ptr_table :: "u32 list"
  idt_zero_addr :: u32
  syscall_wrapper_addr :: u32
  idt_entries_addr :: u32
  idt_zero_msg :: u32

definition zero_idt_entry :: idt_entry where
  "zero_idt_entry = \<lparr>base_low = 0, selector = 0, idt_reserved = 0, idt_flags = 0, base_high = 0\<rparr>"

definition no_interrupt_handler :: "'a idt_state_scheme \<Rightarrow> 'a idt_state_scheme" where
  "no_interrupt_handler s = outb s 0x20 0x20"

definition idt_zero :: "'a idt_state_scheme \<Rightarrow> 'a idt_state_scheme option" where
  "idt_zero s = tty_writestr s (idt_zero_msg s)"

definition idt_set :: "'a idt_state_scheme \<Rightarrow> nat \<Rightarrow> u32 \<Rightarrow> 'a idt_state_scheme" where
  "idt_set s i addr =
     s\<lparr>idt_entries := (idt_entries s)[i :=
        \<lparr>base_low = ucast (addr AND 0x0000FFFF), selector = KERNEL_CODE_SEG, idt_reserved = 0x00, idt_flags = 0xEE,
         base_high = ucast (drop_bit 16 addr)\<rparr>]\<rparr>"

definition idt_register_int_callback :: "'a idt_state_scheme \<Rightarrow> int \<Rightarrow> int_callback \<Rightarrow> int \<times> 'a idt_state_scheme" where
  "idt_register_int_callback s interrupt callback =
     (if interrupt < 0 \<or> interrupt \<ge> int ENKI_TOTAL_INTERRUPTS then (- EINVARG, s)
      else (0, s\<lparr>int_callbacks := (int_callbacks s)[nat interrupt := Some callback]\<rparr>))"

definition idt_load :: "'a idt_state_scheme \<Rightarrow> 'a idt_state_scheme" where
  "idt_load s = s\<lparr>idt_register := idtr s\<rparr>"

text \<open>The table has 512 entries of 8 bytes.\<close>

definition idt_init :: "'a idt_state_scheme \<Rightarrow> 'a idt_state_scheme" where
  "idt_init s =
     (let s1 = s\<lparr>idt_entries := replicate ENKI_TOTAL_INTERRUPTS zero_idt_entry,
                 idtr := \<lparr>idtr_limit = of_nat (8 * ENKI_TOTAL_INTERRUPTS - 1), idtr_base = idt_entries_addr s\<rparr>\<rparr>;
          s2 = foldl (\<lambda>s i. idt_set s i (interrupt_ptr_table s ! i)) s1 [0..<ENKI_TOTAL_INTERRUPTS];
          s3 = idt_set s2 0x0 (idt_zero_addr s2);
          s4 = idt_set s3 0x80 (syscall_wrapper_addr s3);
          s5 = foldl (\<lambda>s i. snd (idt_register_int_callback s i Idt_handle_exception)) s4 [0..0x1F];
          s6 = snd (idt_register_int_callback s5 0x20 Idt_clock)
      in idt_load s6)"

section \<open>Lemmas\<close>

text \<open>The address of the handler that the processor reads from an entry.\<close>

definition gate_target :: "idt_entry \<Rightarrow> u32" where
  "gate_target e = ucast (base_low e) OR push_bit 16 (ucast (base_high e))"

definition user_gate :: "idt_entry \<Rightarrow> bool" where
  "user_gate e \<longleftrightarrow> selector e = KERNEL_CODE_SEG \<and> idt_reserved e = 0 \<and> idt_flags e = 0xEE"

lemma halves_join: "ucast (ucast (a AND 0xFFFF) :: u16) OR push_bit 16 (ucast (ucast (drop_bit 16 a) :: u16)) = (a :: u32)"
proof -
  have eq: "(0xFFFF :: u32) = mask 16" by (simp add: mask_eq_exp_minus_1)
  show ?thesis unfolding eq
  proof (rule bit_word_eqI)
    fix n assume n: "n < LENGTH(32)"
    show "bit ((ucast (ucast (a AND mask 16) :: u16) :: u32) OR push_bit 16 (ucast (ucast (drop_bit 16 a) :: u16))) n = bit a n"
      using n by (cases "16 \<le> n") (auto simp: bit_or_iff bit_and_iff bit_mask_iff bit_push_bit_iff bit_unsigned_iff bit_drop_bit_eq)
  qed
qed

lemma idt_set_entries:
  "length (idt_entries (idt_set s i a)) = length (idt_entries s)"
  "j < length (idt_entries s) \<Longrightarrow> i \<noteq> j \<Longrightarrow> idt_entries (idt_set s i a) ! j = idt_entries s ! j"
  "i < length (idt_entries s) \<Longrightarrow> gate_target (idt_entries (idt_set s i a) ! i) = a \<and> user_gate (idt_entries (idt_set s i a) ! i)"
  by (simp_all add: idt_set_def gate_target_def user_gate_def halves_join)

lemma idt_set_keeps [simp]:
  "interrupt_ptr_table (idt_set s i a) = interrupt_ptr_table s" "int_callbacks (idt_set s i a) = int_callbacks s"
  "idt_zero_addr (idt_set s i a) = idt_zero_addr s" "syscall_wrapper_addr (idt_set s i a) = syscall_wrapper_addr s"
  "idtr (idt_set s i a) = idtr s"
  by (simp_all add: idt_set_def)

lemma idt_register_keeps [simp]:
  "idt_entries (snd (idt_register_int_callback s i c)) = idt_entries s"
  "idtr (snd (idt_register_int_callback s i c)) = idtr s"
  by (simp_all add: idt_register_int_callback_def)

lemma set_stubs:
  fixes n :: nat and s :: "'a idt_state_scheme"
  assumes "n \<le> length (idt_entries s)"
  defines "s' \<equiv> foldl (\<lambda>s i. idt_set s i (interrupt_ptr_table s ! i)) s [0..<n]"
  shows "length (idt_entries s') = length (idt_entries s) \<and> interrupt_ptr_table s' = interrupt_ptr_table s \<and>
    int_callbacks s' = int_callbacks s \<and> idt_zero_addr s' = idt_zero_addr s \<and> syscall_wrapper_addr s' = syscall_wrapper_addr s \<and>
    idtr s' = idtr s \<and>
    (\<forall>j<n. gate_target (idt_entries s' ! j) = interrupt_ptr_table s ! j \<and> user_gate (idt_entries s' ! j))"
  using assms(1) unfolding s'_def
proof (induction n)
  case (Suc n)
  then show ?case by (auto simp: idt_set_entries less_Suc_eq)
qed simp

lemma register_exceptions:
  fixes n :: nat and s :: "'a idt_state_scheme"
  assumes "length (int_callbacks s) = 512" "n \<le> 512"
  defines "s' \<equiv> foldl (\<lambda>s i. snd (idt_register_int_callback s i Idt_handle_exception)) s (map int [0..<n])"
  shows "length (int_callbacks s') = 512 \<and> idt_entries s' = idt_entries s \<and> idtr s' = idtr s \<and>
    (\<forall>j<512. int_callbacks s' ! j = (if j < n then Some Idt_handle_exception else int_callbacks s ! j))"
  using assms(1,2) unfolding s'_def
proof (induction n)
  case (Suc n)
  then show ?case by (auto simp: idt_register_int_callback_def config_simps nth_list_update)
qed simp

text \<open>\<^verbatim>\<open>idt_init\<close> changes the tables of the interrupts only.\<close>

definition idt_like :: "'a idt_state_scheme \<Rightarrow> 'a idt_state_scheme \<Rightarrow> bool" where
  "idt_like s s' \<longleftrightarrow> (\<exists>e cb x y. s' = s\<lparr>idt_entries := e, int_callbacks := cb, idtr := x, idt_register := y\<rparr>)"

lemma idt_likeI: "idt_like s (s\<lparr>idt_entries := e, int_callbacks := cb, idtr := x, idt_register := y\<rparr>)"
  by (auto simp: idt_like_def)

lemma idt_like_refl [simp]: "idt_like s s"
  using idt_likeI [of s "idt_register s" "idtr s" "int_callbacks s" "idt_entries s"] by simp

lemma idt_like_trans: "idt_like s s1 \<Longrightarrow> idt_like s1 s2 \<Longrightarrow> idt_like s s2"
  unfolding idt_like_def by (elim exE) (simp, blast)

lemma idt_like_steps:
  "idt_like s (idt_set s i a)" "idt_like s (snd (idt_register_int_callback s n c))" "idt_like s (idt_load s)"
  using idt_likeI [of s "idt_register s" "idtr s" "int_callbacks s"] idt_likeI [of s "idt_register s" "idtr s" _ "idt_entries s"]
    idt_likeI [of s _ "idtr s" "int_callbacks s" "idt_entries s"]
  by (simp_all add: idt_set_def idt_register_int_callback_def idt_load_def)

lemma idt_like_foldl: "(\<And>s x. idt_like s (f s x)) \<Longrightarrow> idt_like s (foldl f s xs)"
proof (induction xs arbitrary: s)
  case (Cons x xs)
  then show ?case using idt_like_trans [of s "f s x"] by simp
qed simp

lemma idt_init_like: "idt_like s (idt_init s)"
proof -
  have "idt_like s (s\<lparr>idt_entries := e, idtr := x\<rparr>)" for e x
    using idt_likeI [of s "idt_register s" x "int_callbacks s" e] by simp
  then show ?thesis unfolding idt_init_def Let_def
    by (intro idt_like_trans [OF _ idt_like_steps(3)] idt_like_trans [OF _ idt_like_steps(2)] idt_like_trans [OF _ idt_like_foldl]
        idt_like_trans [OF _ idt_like_steps(1)] idt_like_steps)
qed

lemma idt_init_table:
  assumes "length (int_callbacks s) = 512"
  shows "idt_register (idt_init s) = \<lparr>idtr_limit = 4095, idtr_base = idt_entries_addr s\<rparr> \<and>
    length (idt_entries (idt_init s)) = 512 \<and>
    (\<forall>i<512. user_gate (idt_entries (idt_init s) ! i) \<and>
       gate_target (idt_entries (idt_init s) ! i) =
         (if i = 0 then idt_zero_addr s else if i = 0x80 then syscall_wrapper_addr s else interrupt_ptr_table s ! i)) \<and>
    (\<forall>i<512. int_callbacks (idt_init s) ! i =
       (if i < 0x20 then Some Idt_handle_exception else if i = 0x20 then Some Idt_clock else int_callbacks s ! i))"
proof -
  define s1 where "s1 = s\<lparr>idt_entries := replicate 512 zero_idt_entry, idtr := \<lparr>idtr_limit = 4095, idtr_base = idt_entries_addr s\<rparr>\<rparr>"
  define s2 where "s2 = foldl (\<lambda>s i. idt_set s i (interrupt_ptr_table s ! i)) s1 [0..<512]"
  define s4 where "s4 = idt_set (idt_set s2 0 (idt_zero_addr s2)) 0x80 (syscall_wrapper_addr (idt_set s2 0 (idt_zero_addr s2)))"
  define s5 where "s5 = foldl (\<lambda>s i. snd (idt_register_int_callback s i Idt_handle_exception)) s4 (map int [0..<32])"
  have two: "[0..0x1F] = map int [0..<32]" by (simp add: upto_rec1 upt_rec)
  have init: "idt_init s = idt_load (snd (idt_register_int_callback s5 0x20 Idt_clock))"
    unfolding idt_init_def s1_def s2_def s4_def s5_def by (simp only: Let_def two config_simps) simp
  note f2 = set_stubs [of 512 s1, folded s2_def]
  have e2: "length (idt_entries s2) = 512" using f2 by (simp add: s1_def)
  have f5: "length (int_callbacks s5) = 512 \<and> idt_entries s5 = idt_entries s4 \<and> idtr s5 = idtr s4 \<and>
    (\<forall>j<512. int_callbacks s5 ! j = (if j < 32 then Some Idt_handle_exception else int_callbacks s4 ! j))"
    unfolding s5_def using f2 assms by (intro register_exceptions) (simp_all add: s4_def s1_def)
  have s4: "user_gate (idt_entries s4 ! i) \<and> gate_target (idt_entries s4 ! i) =
      (if i = 0 then idt_zero_addr s else if i = 0x80 then syscall_wrapper_addr s else interrupt_ptr_table s ! i)" if "i < 512" for i
    using f2 e2 that unfolding s4_def by (cases "i = 0"; cases "i = 0x80") (simp_all add: idt_set_entries s1_def)
  have "length (idt_entries s4) = 512" using e2 by (simp add: s4_def idt_set_entries)
  moreover have "idtr s4 = idtr s1" "int_callbacks s4 = int_callbacks s" using f2 by (simp_all add: s4_def s1_def)
  ultimately show ?thesis
    using f5 s4 unfolding init by (auto simp: idt_load_def idt_register_int_callback_def config_simps nth_list_update s1_def)
qed

lemma idt_init_length: "length (int_callbacks (idt_init s)) = length (int_callbacks s)"
proof -
  have e: "length (int_callbacks (snd (idt_register_int_callback s i c))) = length (int_callbacks s)" for s :: "'a idt_state_scheme" and i c
    by (simp add: idt_register_int_callback_def)
  have f: "length (int_callbacks (foldl (\<lambda>s i. snd (idt_register_int_callback s i c)) s xs)) = length (int_callbacks s)" for s :: "'a idt_state_scheme" and c xs
    by (induction xs arbitrary: s) (simp_all add: e)
  have g: "int_callbacks (foldl (\<lambda>s i. idt_set s i (interrupt_ptr_table s ! i)) s xs) = int_callbacks s" for s :: "'a idt_state_scheme" and xs
    by (induction xs arbitrary: s) simp_all
  show ?thesis unfolding idt_init_def Let_def by (simp add: idt_load_def e f g)
qed

section \<open>Properties\<close>

text \<open>
  after \<^verbatim>\<open>idt_init\<close> the loaded descriptor names the whole table of 512 entries; gate 0 leads to
  \<^verbatim>\<open>idt_zero\<close>, gate 0x80 to the system call wrapper and every other gate to its stub, all of them ring-3
  gates of the kernel code segment; interrupts 0 to 0x1F are handled as exceptions and 0x20 as the
  clock, and every other callback is left as it was.
\<close>

theorem idt_init_gates:
  assumes "length (int_callbacks s) = 512"
  shows "idt_register (idt_init s) = \<lparr>idtr_limit = 4095, idtr_base = idt_entries_addr s\<rparr> \<and>
    length (idt_entries (idt_init s)) = 512 \<and>
    (\<forall>i<512. user_gate (idt_entries (idt_init s) ! i) \<and>
       gate_target (idt_entries (idt_init s) ! i) =
         (if i = 0 then idt_zero_addr s else if i = 0x80 then syscall_wrapper_addr s else interrupt_ptr_table s ! i)) \<and>
    (\<forall>i<512. int_callbacks (idt_init s) ! i =
       (if i < 0x20 then Some Idt_handle_exception else if i = 0x20 then Some Idt_clock else int_callbacks s ! i))"
  using idt_init_table [OF assms] .

definition demo_idt :: idt_state where
  "demo_idt = proc_state.extend demo_proc
     (idt_state.fields [] \<lparr>idtr_limit = 0, idtr_base = 0\<rparr> \<lparr>idtr_limit = 0, idtr_base = 0\<rparr> (replicate 512 None) (replicate 512 0x00107000)
        0x00108000 0x00109000 0x0010A000 0x0010B000)"

lemmas demo_idt_defs = demo_idt_def proc_state.extend_def idt_state.fields_def

theorem idt_init_gates_witness:
  "gate_target (idt_entries (idt_init demo_idt) ! 0x80) = 0x00109000 \<and> int_callbacks (idt_init demo_idt) ! 0x20 = Some Idt_clock"
proof -
  have "length (int_callbacks demo_idt) = 512" by (simp add: demo_idt_defs)
  from idt_init_gates [OF this] show ?thesis by (simp add: demo_idt_defs)
qed

end
