(* ===== verification/Fifo_Interface.thy ===== *)
theory Fifo_Interface
  imports Main
begin

text \<open>
  The contract of a bounded first-in-first-out buffer: \<open>queue\<close> is the list of elements waiting, \<open>ok\<close> the
  well-formedness of the buffer, \<open>good\<close> the elements that may be stored and \<open>cap\<close> the number of
  elements it holds. The keyboard buffer of a process is one.
\<close>

locale fifo_buffer =
  fixes ok :: "'b \<Rightarrow> bool"
    and queue :: "'b \<Rightarrow> 'e list"
    and push :: "'e \<Rightarrow> 'b \<Rightarrow> 'b"
    and pop :: "'b \<Rightarrow> 'e option \<times> 'b"
    and good :: "'e \<Rightarrow> bool"
    and cap :: nat
  assumes queue_bound: "ok b \<Longrightarrow> length (queue b) \<le> cap"
    and push_ok: "ok b \<Longrightarrow> good x \<Longrightarrow> length (queue b) < cap \<Longrightarrow> ok (push x b)"
    and push_queue: "ok b \<Longrightarrow> good x \<Longrightarrow> length (queue b) < cap \<Longrightarrow> queue (push x b) = queue b @ [x]"
    and pop_ok: "ok b \<Longrightarrow> ok (snd (pop b))"
    and pop_empty: "ok b \<Longrightarrow> queue b = [] \<Longrightarrow> fst (pop b) = None \<and> snd (pop b) = b"
    and pop_head: "ok b \<Longrightarrow> queue b = x # xs \<Longrightarrow> fst (pop b) = Some x \<and> queue (snd (pop b)) = xs"
begin

primrec pop_n :: "nat \<Rightarrow> 'b \<Rightarrow> 'e list \<times> 'b" where
  "pop_n 0 b = ([], b)"
| "pop_n (Suc n) b =
     (case pop b of (None, b1) \<Rightarrow> ([], b1) | (Some x, b1) \<Rightarrow> (case pop_n n b1 of (xs, b2) \<Rightarrow> (x # xs, b2)))"

lemma push_all:
  "ok b \<Longrightarrow> list_all good xs \<Longrightarrow> length (queue b) + length xs \<le> cap \<Longrightarrow>
   ok (fold push xs b) \<and> queue (fold push xs b) = queue b @ xs"
  by (induction xs arbitrary: b) (simp_all add: push_ok push_queue)

lemma pop_all: "ok b \<Longrightarrow> fst (pop_n n b) = take n (queue b) \<and> ok (snd (pop_n n b)) \<and> queue (snd (pop_n n b)) = drop n (queue b)"
proof (induction n arbitrary: b)
  case (Suc n)
  show ?case
  proof (cases "queue b")
    case Nil
    then show ?thesis using pop_empty [OF Suc.prems] Suc.prems by (simp add: split_beta split: option.split)
  next
    case (Cons x xs)
    then have "fst (pop b) = Some x" "queue (snd (pop b)) = xs" "ok (snd (pop b))"
      using pop_head [OF Suc.prems] pop_ok [OF Suc.prems] by simp_all
    then show ?thesis using Suc.IH [of "snd (pop b)"] Cons by (simp add: split_beta)
  qed
qed simp

lemma first_in_first_out:
  assumes "ok b" "queue b = []" "list_all good xs" "length xs \<le> cap"
  shows "fst (pop_n (length xs) (fold push xs b)) = xs"
  using push_all [OF assms(1,3)] pop_all [of "fold push xs b" "length xs"] assms(2,4) by simp

end

end
