(* ===== verification/Keyboard_Model.thy ===== *)
theory Keyboard_Model
  imports Idt_Model Fifo_Interface
begin

unbundle bit_operations_syntax

text \<open>
  \<^verbatim>\<open>kernel/drivers/keyboard/keyboard.c\<close> and \<^verbatim>\<open>ps2.c\<close>: the list of keyboards, the keyboard buffer of a process and the PS/2
  driver. Keyboards are records in a store indexed by their address; \<open>ps2_keyboard\<close> is the address of the only
  one. The field \<^verbatim>\<open>init\<close> is a function pointer, null or \<^verbatim>\<open>ps2_keyboard_init\<close>. The text of a keyboard's name is never read.

  The lemmas show that the buffer of a process is a first-in-first-out buffer of 1024 characters.
\<close>

section \<open>Definitions\<close>

definition KEYBOARD_CAPSLOCK_OFF :: int where [config_simps]: "KEYBOARD_CAPSLOCK_OFF = 0"
definition KEYBOARD_CAPSLOCK_ON :: int where [config_simps]: "KEYBOARD_CAPSLOCK_ON = 1"
definition PS2_CMD_PORT :: u16 where [config_simps]: "PS2_CMD_PORT = 0x64"
definition PS2_DATA_PORT :: u16 where [config_simps]: "PS2_DATA_PORT = 0x60"
definition PS2_CMD_EN_FIRST_PORT :: u8 where [config_simps]: "PS2_CMD_EN_FIRST_PORT = 0xAE"
definition PS2_KEY_RELEASED :: u8 where [config_simps]: "PS2_KEY_RELEASED = 0x80"
definition ISR_KBD_INTERRUPT :: int where [config_simps]: "ISR_KBD_INTERRUPT = 0x21"
definition PS2_CAPSLOCK :: u8 where [config_simps]: "PS2_CAPSLOCK = 0x3A"

datatype keyboard_init_fn = No_init | Ps2_keyboard_init

record keyboard_dev =
  capslock :: int
  kbd_next :: u32
  kbd_init :: keyboard_init_fn

record kbd_state = idt_state +
  keyboards :: "u32 \<Rightarrow> keyboard_dev"
  keyboard_head :: u32
  keyboard_tail :: u32
  ps2_keyboard :: u32

abbreviation upd_kbd :: "'a kbd_state_scheme \<Rightarrow> u32 \<Rightarrow> (keyboard_dev \<Rightarrow> keyboard_dev) \<Rightarrow> 'a kbd_state_scheme" where
  "upd_kbd s k f \<equiv> s\<lparr>keyboards := (keyboards s)(k := f (keyboards s k))\<rparr>"

definition keyboard_get_capslock :: "'a kbd_state_scheme \<Rightarrow> u32 \<Rightarrow> int" where
  "keyboard_get_capslock s kbd = capslock (keyboards s kbd)"

definition keyboard_set_capslock :: "'a kbd_state_scheme \<Rightarrow> u32 \<Rightarrow> int \<Rightarrow> 'a kbd_state_scheme" where
  "keyboard_set_capslock s kbd state = upd_kbd s kbd (\<lambda>k. k\<lparr>capslock := state\<rparr>)"

text \<open>
  The operands of \<^verbatim>\<open>%\<close> are converted to \<^verbatim>\<open>size_t\<close>. Head and tail count up without bound here; a C \<^verbatim>\<open>int\<close> would wrap after
  \<^verbatim>\<open>2^31\<close> keys, which leaves the index as it is because 1024 divides \<^verbatim>\<open>2^32\<close>.
\<close>

definition kbuf_index :: "int \<Rightarrow> nat" where
  "kbuf_index i = unat (word_of_int i mod 1024 :: u32)"

definition keyboard_get_tail_idx :: "keyboard_buffer \<Rightarrow> nat" where
  "keyboard_get_tail_idx kb = kbuf_index (ktail kb)"

definition kbuf_backspace :: "keyboard_buffer \<Rightarrow> keyboard_buffer" where
  "kbuf_backspace kb = (let kb1 = kb\<lparr>ktail := ktail kb - 1\<rparr> in kb1\<lparr>kbuf := (kbuf kb1)[keyboard_get_tail_idx kb1 := 0x00]\<rparr>)"

definition kbuf_push :: "u8 \<Rightarrow> keyboard_buffer \<Rightarrow> keyboard_buffer" where
  "kbuf_push c kb = kb\<lparr>kbuf := (kbuf kb)[keyboard_get_tail_idx kb := c], ktail := ktail kb + 1\<rparr>"

definition kbuf_pop :: "keyboard_buffer \<Rightarrow> u8 \<times> keyboard_buffer" where
  "kbuf_pop kb =
     (let idx = kbuf_index (khead kb);
          c = kbuf kb ! idx
      in if c = 0x00 then (0, kb) else (c, kb\<lparr>kbuf := (kbuf kb)[idx := 0], khead := khead kb + 1\<rparr>))"

definition keyboard_backspace :: "'a kbd_state_scheme \<Rightarrow> u32 \<Rightarrow> 'a kbd_state_scheme" where
  "keyboard_backspace s proc = upd_proc s proc (\<lambda>p. p\<lparr>keyboard := kbuf_backspace (keyboard p)\<rparr>)"

definition keyboard_push :: "'a kbd_state_scheme \<Rightarrow> u8 \<Rightarrow> 'a kbd_state_scheme" where
  "keyboard_push s c =
     (let proc = process_get_current s
      in if proc = 0 \<or> c = 0x00 then s else upd_proc s proc (\<lambda>p. p\<lparr>keyboard := kbuf_push c (keyboard p)\<rparr>))"

definition keyboard_pop :: "'a kbd_state_scheme \<Rightarrow> u8 \<times> 'a kbd_state_scheme" where
  "keyboard_pop s =
     (if task_get_current s = 0 then (0, s)
      else
        let proc = task_process (tasks s (task_get_current s));
            (c, kb) = kbuf_pop (keyboard (procs s proc))
        in (c, upd_proc s proc (\<lambda>p. p\<lparr>keyboard := kb\<rparr>)))"

definition ps2_keyboard_init :: "'a kbd_state_scheme \<Rightarrow> int \<times> 'a kbd_state_scheme" where
  "ps2_keyboard_init s =
     (let (_, s1) = idt_register_int_callback s ISR_KBD_INTERRUPT Ps2_handle_interrupt;
          s2 = keyboard_set_capslock s1 (ps2_keyboard s1) KEYBOARD_CAPSLOCK_OFF
      in (0, outb s2 PS2_CMD_PORT PS2_CMD_EN_FIRST_PORT))"

definition ps2_init :: "'a kbd_state_scheme \<Rightarrow> u32" where
  "ps2_init s = ps2_keyboard s"

definition keyboard_insert :: "'a kbd_state_scheme \<Rightarrow> u32 \<Rightarrow> int \<times> 'a kbd_state_scheme" where
  "keyboard_insert s kbd =
     (if kbd_init (keyboards s kbd) = No_init then (- EINVARG, s)
      else
        let s1 = (if keyboard_tail s \<noteq> 0 then (upd_kbd s (keyboard_tail s) (\<lambda>k. k\<lparr>kbd_next := kbd\<rparr>))\<lparr>keyboard_tail := kbd\<rparr>
                  else s\<lparr>keyboard_head := kbd, keyboard_tail := kbd\<rparr>)
        in ps2_keyboard_init s1)"

definition keyboard_init :: "'a kbd_state_scheme \<Rightarrow> 'a kbd_state_scheme" where
  "keyboard_init s = snd (keyboard_insert s (ps2_init s))"

definition scan_set_1 :: "u8 list" where
  "scan_set_1 =
     [0x00, 0x1B,
      0x31, 0x32, 0x33, 0x34, 0x35, 0x36, 0x37, 0x38, 0x39, 0x30, 0x2D, 0x3D, 0x08, 0x09,
      0x51, 0x57, 0x45, 0x52, 0x54, 0x59, 0x55, 0x49, 0x4F, 0x50, 0x5B, 0x5D, 0x0D, 0x00,
      0x41, 0x53, 0x44, 0x46, 0x47, 0x48, 0x4A, 0x4B, 0x4C, 0x3B, 0x27, 0x60, 0x00, 0x5C,
      0x5A, 0x58, 0x43, 0x56, 0x42, 0x4E, 0x4D, 0x2C, 0x2E, 0x2F, 0x00, 0x2A,
      0x00, 0x20, 0x00, 0x00, 0x00, 0x00, 0x00, 0x00, 0x00, 0x00, 0x00, 0x00, 0x00,
      0x37, 0x38, 0x39, 0x2D, 0x34, 0x35, 0x36, 0x2B, 0x31, 0x32, 0x33, 0x30, 0x2E]"

text \<open>A read behind the end of the table has no defined value.\<close>

definition ps2_scan_to_char :: "'a kbd_state_scheme \<Rightarrow> u8 \<Rightarrow> u8 option" where
  "ps2_scan_to_char s sc =
     (if unat sc > length scan_set_1 then Some 0
      else if unat sc \<ge> length scan_set_1 then None
      else
        let c = scan_set_1 ! unat sc
        in Some (if keyboard_get_capslock s (ps2_keyboard s) = KEYBOARD_CAPSLOCK_OFF \<and> sint c \<ge> 65 \<and> sint c \<le> 90 then c + 32 else c))"

definition ps2_handle_interrupt :: "'a kbd_state_scheme \<Rightarrow> 'a kbd_state_scheme option" where
  "ps2_handle_interrupt s =
     (let s1 = kernel_page s;
          (sc, s2) = inpb s1 PS2_DATA_PORT;
          (_, s3) = inpb s2 PS2_DATA_PORT
      in if sc AND PS2_KEY_RELEASED \<noteq> 0 then Some s3
         else
           let s4 = (if sc = PS2_CAPSLOCK
                     then keyboard_set_capslock s3 (ps2_keyboard s3)
                            (if keyboard_get_capslock s3 (ps2_keyboard s3) = KEYBOARD_CAPSLOCK_ON then KEYBOARD_CAPSLOCK_OFF
                             else KEYBOARD_CAPSLOCK_ON)
                     else s3)
           in map_option (\<lambda>c. task_page (if c \<noteq> 0 then keyboard_push s4 c else s4)) (ps2_scan_to_char s4 sc))"

section \<open>The buffer of a process as a first-in-first-out buffer\<close>

text \<open>The slot of the character number \<open>i\<close> behind the head.\<close>

definition kslot :: "int \<Rightarrow> nat \<Rightarrow> nat" where
  "kslot h i = nat ((h + int i) mod 1024)"

definition kbuf_ok :: "keyboard_buffer \<Rightarrow> bool" where
  "kbuf_ok kb \<longleftrightarrow> length (kbuf kb) = 1024 \<and> 0 \<le> khead kb \<and> khead kb \<le> ktail kb \<and> ktail kb \<le> khead kb + 1024 \<and>
     (\<forall>i<1024. kbuf kb ! kslot (khead kb) i \<noteq> 0 \<longleftrightarrow> i < nat (ktail kb - khead kb))"

definition kbuf_queue :: "keyboard_buffer \<Rightarrow> u8 list" where
  "kbuf_queue kb = map (\<lambda>i. kbuf kb ! kslot (khead kb) i) [0..<nat (ktail kb - khead kb)]"

definition kbuf_pop_opt :: "keyboard_buffer \<Rightarrow> u8 option \<times> keyboard_buffer" where
  "kbuf_pop_opt kb = (case kbuf_pop kb of (c, kb') \<Rightarrow> (if c = 0 then None else Some c, kb'))"

lemma kbuf_index: "0 \<le> i \<Longrightarrow> kbuf_index i = kslot i 0"
proof -
  assume "0 \<le> i"
  have "i mod 2 ^ 32 mod 1024 = i mod 1024" by (rule mod_mod_cancel) simp
  then have "nat (i mod 2 ^ 32) mod 1024 = nat (i mod 1024)"
    using nat_mod_distrib [of "i mod 2 ^ 32" 1024] by simp
  moreover have "unat (word_of_int i :: u32) = nat (i mod 2 ^ 32)"
    unfolding unat_eq_nat_uint uint_word_of_int by simp
  ultimately show ?thesis by (simp add: kbuf_index_def kslot_def unat_mod_distrib)
qed

lemma kbuf_index_less: "kbuf_index i < 1024"
  by (simp add: kbuf_index_def unat_mod_distrib)

lemma kslot_less [simp]: "kslot h i < 1024"
  by (simp add: kslot_def nat_less_iff)

lemma kslot_inj: "i < 1024 \<Longrightarrow> j < 1024 \<Longrightarrow> kslot h i = kslot h j \<longleftrightarrow> i = j"
proof
  assume ij: "i < 1024" "j < 1024" "kslot h i = kslot h j"
  then have "(h + int i) mod 1024 = (h + int j) mod 1024" by (simp add: kslot_def eq_nat_nat_iff)
  then have "1024 dvd int i - int j" by (simp add: mod_eq_dvd_iff)
  then obtain k where "int i - int j = 1024 * k" by (elim dvdE)
  moreover from this have "k = 0" using ij(1,2) by linarith
  ultimately show "i = j" by simp
qed simp

lemma kslot_shift: "kslot (h + int k) i = kslot h (k + i)"
  by (simp add: kslot_def add.assoc)

lemma kslot_wrap: "kslot h 1024 = kslot h 0"
  by (simp add: kslot_def)

lemma kbuf_tail_index: "kbuf_ok kb \<Longrightarrow> kbuf_index (ktail kb) = kslot (khead kb) (nat (ktail kb - khead kb))"
  using kslot_shift [of "khead kb" "nat (ktail kb - khead kb)" 0] by (simp add: kbuf_index kbuf_ok_def)

lemma kbuf_head_index: "kbuf_ok kb \<Longrightarrow> kbuf_index (khead kb) = kslot (khead kb) 0"
  by (simp add: kbuf_index kbuf_ok_def)

lemma kbuf_queue_length: "length (kbuf_queue kb) = nat (ktail kb - khead kb)"
  by (simp add: kbuf_queue_def)

lemma kbuf_push_ok:
  assumes "kbuf_ok kb" "c \<noteq> 0" "length (kbuf_queue kb) < 1024"
  shows "kbuf_ok (kbuf_push c kb) \<and> kbuf_queue (kbuf_push c kb) = kbuf_queue kb @ [c]"
proof -
  define n where "n = nat (ktail kb - khead kb)"
  have n: "n < 1024" "ktail kb = khead kb + int n" using assms by (auto simp: n_def kbuf_queue_length kbuf_ok_def)
  have p: "kbuf_push c kb = kb\<lparr>kbuf := (kbuf kb)[kslot (khead kb) n := c], ktail := ktail kb + 1\<rparr>"
    using kbuf_tail_index [OF assms(1)] by (simp add: kbuf_push_def keyboard_get_tail_idx_def n_def)
  have nth: "(kbuf kb)[kslot (khead kb) n := c] ! kslot (khead kb) i = (if i = n then c else kbuf kb ! kslot (khead kb) i)" if "i < 1024" for i
    using that n(1) kslot_inj [of n i "khead kb"] assms(1) by (auto simp: kbuf_ok_def nth_list_update)
  have "nat (khead kb + int n + 1 - khead kb) = Suc n" by simp
  then show ?thesis
    using assms(1,2) n nth unfolding p by (auto simp: kbuf_ok_def kbuf_queue_def less_Suc_eq)
qed

lemma kbuf_pop_cons:
  assumes "kbuf_ok kb" "kbuf_queue kb = x # xs"
  shows "fst (kbuf_pop kb) = x \<and> x \<noteq> 0 \<and> kbuf_ok (snd (kbuf_pop kb)) \<and> kbuf_queue (snd (kbuf_pop kb)) = xs"
proof -
  define n where "n = length xs"
  have n: "nat (ktail kb - khead kb) = Suc n" using assms(2) by (simp add: n_def flip: kbuf_queue_length)
  then have tl: "ktail kb = khead kb + 1 + int n" "n < 1024" using assms(1) by (auto simp: kbuf_ok_def)
  have x: "x = kbuf kb ! kslot (khead kb) 0" and xs: "xs = map (\<lambda>i. kbuf kb ! kslot (khead kb) (Suc i)) [0..<n]"
    using assms(2) by (simp_all add: kbuf_queue_def n upt_conv_Cons map_Suc_upt [symmetric] comp_def del: upt_Suc map_Suc_upt)
  have "x \<noteq> 0" using assms(1) n by (simp add: kbuf_ok_def x)
  then have p: "kbuf_pop kb = (x, kb\<lparr>kbuf := (kbuf kb)[kslot (khead kb) 0 := 0], khead := khead kb + 1\<rparr>)"
    by (simp add: kbuf_pop_def kbuf_head_index [OF assms(1)] x Let_def)
  have nth: "(kbuf kb)[kslot (khead kb) 0 := 0] ! kslot (khead kb + 1) i =
      (if i = 1023 then 0 else kbuf kb ! kslot (khead kb) (Suc i))" if "i < 1024" for i
    using that kslot_inj [of 0 "Suc i" "khead kb"] kslot_shift [of "khead kb" 1 i] kslot_wrap [of "khead kb"] assms(1)
    by (auto simp: kbuf_ok_def nth_list_update)
  have len: "nat (khead kb + 1 + int n - (khead kb + 1)) = n" by simp
  show ?thesis using assms(1) \<open>x \<noteq> 0\<close> tl nth n unfolding p by (auto simp: kbuf_ok_def kbuf_queue_def len xs)
qed

lemma kbuf_pop_nil:
  assumes "kbuf_ok kb" "kbuf_queue kb = []"
  shows "kbuf_pop kb = (0, kb)"
proof -
  have "kbuf kb ! kslot (khead kb) 0 = 0" using assms by (auto simp: kbuf_ok_def kbuf_queue_def)
  then show ?thesis using kbuf_head_index [OF assms(1)] by (simp add: kbuf_pop_def)
qed

lemma kbuf_backspace_ok:
  assumes "kbuf_ok kb" "kbuf_queue kb \<noteq> []"
  shows "kbuf_ok (kbuf_backspace kb) \<and> kbuf_queue (kbuf_backspace kb) = butlast (kbuf_queue kb)"
proof -
  define n where "n = nat (ktail kb - khead kb) - 1"
  have n: "nat (ktail kb - khead kb) = Suc n" "ktail kb = khead kb + int n + 1" "n < 1024"
    using assms by (auto simp: n_def kbuf_ok_def kbuf_queue_def)
  have "kbuf_index (ktail kb - 1) = kslot (khead kb) n"
    using kslot_shift [of "khead kb" n 0] n(2) assms(1) by (simp add: kbuf_index kbuf_ok_def)
  then have p: "kbuf_backspace kb = kb\<lparr>kbuf := (kbuf kb)[kslot (khead kb) n := 0], ktail := ktail kb - 1\<rparr>"
    by (simp add: kbuf_backspace_def keyboard_get_tail_idx_def Let_def)
  have nth: "(kbuf kb)[kslot (khead kb) n := 0] ! kslot (khead kb) i = (if i = n then 0 else kbuf kb ! kslot (khead kb) i)" if "i < 1024" for i
    using that n(3) kslot_inj [of n i "khead kb"] assms(1) by (auto simp: kbuf_ok_def nth_list_update)
  show ?thesis using assms(1) n nth unfolding p by (auto simp: kbuf_ok_def kbuf_queue_def butlast_append less_Suc_eq)
qed

interpretation kq: fifo_buffer kbuf_ok kbuf_queue kbuf_push kbuf_pop_opt "\<lambda>c. c \<noteq> 0" 1024
proof
  fix b assume ok: "kbuf_ok b"
  show "length (kbuf_queue b) \<le> 1024" using ok by (auto simp: kbuf_queue_length kbuf_ok_def)
  show "fst (kbuf_pop_opt b) = None \<and> snd (kbuf_pop_opt b) = b" if "kbuf_queue b = []"
    using kbuf_pop_nil [OF ok that] by (simp add: kbuf_pop_opt_def)
  then show "kbuf_ok (snd (kbuf_pop_opt b))"
    using kbuf_pop_cons [OF ok] ok by (cases "kbuf_queue b") (auto simp: kbuf_pop_opt_def split_beta)
qed (use kbuf_push_ok kbuf_pop_cons in \<open>auto simp: kbuf_pop_opt_def split_beta\<close>)

section \<open>The operations on the state\<close>

primrec pop_keys :: "nat \<Rightarrow> 'a kbd_state_scheme \<Rightarrow> u8 list \<times> 'a kbd_state_scheme" where
  "pop_keys 0 s = ([], s)"
| "pop_keys (Suc n) s =
     (let (c, s1) = keyboard_pop s in if c = 0 then ([], s1) else let (cs, s2) = pop_keys n s1 in (c # cs, s2))"

text \<open>The process \<open>proc\<close> is the current one and runs in the current task.\<close>

definition has_focus :: "'a kbd_state_scheme \<Rightarrow> u32 \<Rightarrow> bool" where
  "has_focus s proc \<longleftrightarrow> process_current s = proc \<and> proc \<noteq> 0 \<and> task_current s \<noteq> 0 \<and> task_process (tasks s (task_current s)) = proc"

abbreviation keys_of :: "'a kbd_state_scheme \<Rightarrow> u32 \<Rightarrow> keyboard_buffer" where
  "keys_of s proc \<equiv> keyboard (procs s proc)"

lemma keyboard_push_keys:
  assumes "has_focus s proc" "c \<noteq> 0"
  shows "has_focus (keyboard_push s c) proc" "keys_of (keyboard_push s c) proc = kbuf_push c (keys_of s proc)"
  using assms by (simp_all add: has_focus_def keyboard_push_def process_get_current_def)

lemma keyboard_pop_keys:
  assumes "has_focus s proc"
  shows "has_focus (snd (keyboard_pop s)) proc" "keys_of (snd (keyboard_pop s)) proc = snd (kbuf_pop (keys_of s proc))"
    "fst (keyboard_pop s) = fst (kbuf_pop (keys_of s proc))"
  using assms by (auto simp: has_focus_def keyboard_pop_def task_get_current_def split_beta Let_def)

lemma push_keys:
  "has_focus s proc \<Longrightarrow> list_all (\<lambda>c. c \<noteq> 0) xs \<Longrightarrow>
   has_focus (fold (\<lambda>c s. keyboard_push s c) xs s) proc \<and>
   keys_of (fold (\<lambda>c s. keyboard_push s c) xs s) proc = fold kbuf_push xs (keys_of s proc)"
  by (induction xs arbitrary: s) (simp_all add: keyboard_push_keys)

lemma pop_keys_pop_n: "has_focus s proc \<Longrightarrow> fst (pop_keys n s) = fst (kq.pop_n n (keys_of s proc))"
  by (induction n arbitrary: s) (auto simp: keyboard_pop_keys kbuf_pop_opt_def split_beta Let_def)

lemma paging_switch_keeps [simp]:
  "procs (paging_switch s d) = procs s" "process_current (paging_switch s d) = process_current s"
  "keyboards (paging_switch s d) = keyboards s" "ps2_keyboard (paging_switch s d) = ps2_keyboard s"
  "bus (paging_switch s d) = bus s" "io_trace (paging_switch s d) = io_trace s"
  by (simp_all add: paging_switch_def)

text \<open>What the driver pushes for a scan code, the capslock state as it is after the key.\<close>

definition scan_char :: "int \<Rightarrow> u8 \<Rightarrow> u8" where
  "scan_char caps sc =
     (let c = scan_set_1 ! unat sc in if caps = KEYBOARD_CAPSLOCK_OFF \<and> 65 \<le> sint c \<and> sint c \<le> 90 then c + 32 else c)"

lemma ps2_scan_char: "unat sc < 82 \<Longrightarrow> ps2_scan_to_char s sc = Some (scan_char (capslock (keyboards s (ps2_keyboard s))) sc)"
  by (simp add: ps2_scan_to_char_def scan_char_def scan_set_1_def keyboard_get_capslock_def Let_def)

lemma low_code_not_released: "unat (sc :: u8) < 82 \<Longrightarrow> sc AND PS2_KEY_RELEASED = 0"
proof -
  assume "unat sc < 82"
  then have "sc AND mask 7 = sc" by (intro less_mask_eq) (simp add: word_less_nat_alt)
  then have "sc AND 0x80 = sc AND (mask 7 AND 0x80)" by (metis and.assoc)
  then show ?thesis by (simp add: config_simps mask_numeral)
qed

lemma kernel_page_keeps [simp]:
  "procs (kernel_page s) = procs s" "process_current (kernel_page s) = process_current s" "tasks (kernel_page s) = tasks s"
  "task_current (kernel_page s) = task_current s" "mem (kernel_page s) = mem s"
  "keyboards (kernel_page s) = keyboards s" "ps2_keyboard (kernel_page s) = ps2_keyboard s"
  "bus (kernel_page s) = bus s" "io_trace (kernel_page s) = io_trace s"
  by (simp_all add: kernel_page_def kernel_registers_def paging_switch_def)

definition demo_kbd :: "u16 \<Rightarrow> kbd_state" where
  "demo_kbd sc = (idt_state.extend demo_idt
     (kbd_state.fields (\<lambda>_. \<lparr>capslock = 0, kbd_next = 0, kbd_init = Ps2_keyboard_init\<rparr>) 0 0 0x0010C000))\<lparr>bus := \<lambda>_ _. sc\<rparr>"

lemmas demo_kbd_defs = demo_kbd_def idt_state.extend_def kbd_state.fields_def demo_idt_defs demo_defs

lemma demo_kbd_focus: "has_focus (demo_kbd sc) 0x01001000"
  by (simp add: has_focus_def demo_kbd_defs demo_task_def)

lemma zero_process_keys: "kbuf_ok (keyboard zero_process)" "kbuf_queue (keyboard zero_process) = []"
  by (simp_all add: zero_process_def kbuf_ok_def kbuf_queue_def config_simps)

lemma demo_kbd_procs: "procs (demo_kbd sc) = (\<lambda>_. zero_process)"
  by (simp add: demo_kbd_defs)

lemmas demo_keys = demo_kbd_focus zero_process_keys demo_kbd_procs

section \<open>Properties\<close>

text \<open>
  C23: the keyboard buffer is first in, first out: characters pushed for the process in focus, as long
  as no more than 1024 wait, are popped by its task in the order in which they were typed, after
  those that were waiting before, and none is lost.
\<close>

theorem keyboard_fifo:
  assumes "has_focus s proc" "kbuf_ok (keys_of s proc)" "list_all (\<lambda>c. c \<noteq> 0) xs"
    and "length (kbuf_queue (keys_of s proc)) + length xs \<le> 1024"
  shows "fst (pop_keys 1024 (fold (\<lambda>c s. keyboard_push s c) xs s)) = kbuf_queue (keys_of s proc) @ xs"
proof -
  let ?s = "fold (\<lambda>c s. keyboard_push s c) xs s"
  have keys: "has_focus ?s proc" "keys_of ?s proc = fold kbuf_push xs (keys_of s proc)" using push_keys [OF assms(1,3)] by simp_all
  have "kbuf_ok (keys_of ?s proc)" "kbuf_queue (keys_of ?s proc) = kbuf_queue (keys_of s proc) @ xs"
    using kq.push_all [OF assms(2,3,4)] keys(2) by simp_all
  then show ?thesis using pop_keys_pop_n [OF keys(1)] kq.pop_all [of "keys_of ?s proc" 1024] assms(4) by simp
qed

theorem keyboard_fifo_witness:
  "fst (pop_keys 1024 (fold (\<lambda>c s. keyboard_push s c) [0x68, 0x69] (demo_kbd 0))) = [0x68, 0x69]"
  using keyboard_fifo [OF demo_kbd_focus, of 0 "[0x68, 0x69]"] by (simp add: demo_keys)

text \<open>
  A character typed while 1024 others wait overwrites the oldest of them and is the first to be
  popped, and the count of waiting characters leaves the bound.
\<close>

theorem keyboard_overflow_overwrites:
  assumes "has_focus s proc" "kbuf_ok (keys_of s proc)" "length (kbuf_queue (keys_of s proc)) = 1024" "c \<noteq> 0"
  shows "fst (keyboard_pop (keyboard_push s c)) = c \<and> \<not> kbuf_ok (keys_of (keyboard_push s c) proc)"
proof -
  let ?kb = "keys_of s proc"
  have tl: "ktail ?kb = khead ?kb + 1024" using assms(2,3) by (auto simp: kbuf_ok_def kbuf_queue_length)
  have h: "0 \<le> khead ?kb" using assms(2) by (simp add: kbuf_ok_def)
  have "kbuf_index (ktail ?kb) = kbuf_index (khead ?kb)"
    using tl h kslot_shift [of "khead ?kb" 1024 0] kslot_wrap by (simp add: kbuf_index)
  then have "fst (kbuf_pop (kbuf_push c ?kb)) = c"
    using assms(2,4) kbuf_index_less [of "khead ?kb"] by (simp add: kbuf_push_def kbuf_pop_def keyboard_get_tail_idx_def kbuf_ok_def)
  moreover have "\<not> kbuf_ok (kbuf_push c ?kb)" using tl by (simp add: kbuf_ok_def kbuf_push_def)
  ultimately show ?thesis using keyboard_push_keys [OF assms(1,4)] keyboard_pop_keys by metis
qed

lemma demo_kbd_full:
  defines "s \<equiv> fold (\<lambda>c s. keyboard_push s c) (replicate 1024 0x61) (demo_kbd 0)"
  shows "has_focus s 0x01001000" "kbuf_ok (keys_of s 0x01001000)" "length (kbuf_queue (keys_of s 0x01001000)) = 1024"
proof -
  have xs: "list_all (\<lambda>c. c \<noteq> 0) (replicate 1024 (0x61 :: u8))" by (simp add: list_all_iff)
  note k = push_keys [OF demo_kbd_focus [of 0] xs, folded s_def]
  then show "has_focus s 0x01001000" by simp
  show "kbuf_ok (keys_of s 0x01001000)" "length (kbuf_queue (keys_of s 0x01001000)) = 1024"
    using k kq.push_all [OF zero_process_keys(1) xs] by (simp_all add: demo_keys)
qed

theorem keyboard_overflow_overwrites_witness:
  "fst (keyboard_pop (keyboard_push (fold (\<lambda>c s. keyboard_push s c) (replicate 1024 0x61) (demo_kbd 0)) 0x62)) = 0x62"
  using keyboard_overflow_overwrites [where c = "0x62", OF demo_kbd_full] by simp

text \<open>
  pressing a key with a character appends that character to the buffer of the process in focus,
  in lower case while capslock is off, and returns on the page directory of the current task.
\<close>

theorem ps2_key_press_queues:
  assumes "has_focus s proc" "kbuf_ok (keys_of s proc)" "length (kbuf_queue (keys_of s proc)) < 1024"
    and "sc = ucast (bus s (io_trace s) PS2_DATA_PORT)" "unat sc < 82" "sc \<noteq> PS2_CAPSLOCK"
    and "c = scan_char (capslock (keyboards s (ps2_keyboard s))) sc" "c \<noteq> 0"
  shows "\<exists>s'. ps2_handle_interrupt s = Some s' \<and> kbuf_queue (keys_of s' proc) = kbuf_queue (keys_of s proc) @ [c] \<and>
    kbuf_ok (keys_of s' proc) \<and> page_reg s' = dir_entries (mem s) (page_dir (tasks s (task_current s))) \<and> data_seg s' = USER_DATA_SEG"
proof -
  define s3 where "s3 = snd (inpb (snd (inpb (kernel_page s) PS2_DATA_PORT)) PS2_DATA_PORT)"
  have s3: "procs s3 = procs s" "process_current s3 = process_current s" "tasks s3 = tasks s" "task_current s3 = task_current s"
    "keyboards s3 = keyboards s" "ps2_keyboard s3 = ps2_keyboard s" "mem s3 = mem s"
    by (simp_all add: s3_def inpb_def)
  have focus: "has_focus s3 proc" using assms(1) by (simp add: has_focus_def s3)
  have "fst (inpb (kernel_page s) PS2_DATA_PORT) = sc" by (simp add: inpb_def assms(4))
  then have run: "ps2_handle_interrupt s = Some (task_page (keyboard_push s3 c))"
    using assms(6-8) low_code_not_released [OF assms(5)] ps2_scan_char [OF assms(5), of s3]
    by (simp add: ps2_handle_interrupt_def s3_def [symmetric] split_beta Let_def s3(5,6))
  have "keys_of (task_page (keyboard_push s3 c)) proc = kbuf_push c (keys_of s proc)"
    using keyboard_push_keys(2) [OF focus assms(8)] by (simp add: task_page_def task_switch_def user_registers_def s3(1))
  moreover have "page_reg (task_page (keyboard_push s3 c)) = dir_entries (mem s) (page_dir (tasks s (task_current s)))"
    "data_seg (task_page (keyboard_push s3 c)) = USER_DATA_SEG"
    by (simp_all add: task_page_def task_switch_def user_registers_def paging_switch_def keyboard_push_def s3 config_simps Let_def)
  ultimately show ?thesis using run kbuf_push_ok [OF assms(2,8,3)] by simp
qed

theorem ps2_key_press_queues_witness:
  "\<exists>s'. ps2_handle_interrupt (demo_kbd 0x1E) = Some s' \<and> kbuf_queue (keys_of s' 0x01001000) = [0x61]"
proof -
  have "capslock (keyboards (demo_kbd 0x1E) (ps2_keyboard (demo_kbd 0x1E))) = 0" "bus (demo_kbd 0x1E) = (\<lambda>_ _. 0x1E)"
    by (simp_all add: demo_kbd_defs)
  moreover have "scan_char 0 0x1E = 0x61" by (simp add: scan_char_def scan_set_1_def config_simps)
  ultimately show ?thesis
    using ps2_key_press_queues [OF demo_kbd_focus, of "0x1E" "0x1E" "0x61"] by (auto simp: demo_keys config_simps)
qed

text \<open>
  The interrupt handler has a defined result for every scan code but 82, for which it reads the byte
  behind the end of the table.
\<close>

theorem ps2_scan_code_out_of_bounds:
  "ps2_handle_interrupt s = None \<longleftrightarrow> (ucast (bus s (io_trace s) PS2_DATA_PORT) :: u8) = 82"
proof -
  define sc :: u8 where "sc = ucast (bus s (io_trace s) PS2_DATA_PORT)"
  have sc: "fst (inpb (kernel_page s) PS2_DATA_PORT) = sc" by (simp add: inpb_def sc_def)
  have len: "length scan_set_1 = 82" by (simp add: scan_set_1_def)
  have "ps2_scan_to_char t sc = None \<longleftrightarrow> sc = 82" for t :: "'a kbd_state_scheme"
    unfolding ps2_scan_to_char_def len by (auto simp: Let_def word_unat_eq_iff)
  then have "ps2_handle_interrupt s = None \<longleftrightarrow> sc AND PS2_KEY_RELEASED = 0 \<and> sc = 82"
    by (simp add: ps2_handle_interrupt_def sc split_beta Let_def)
  moreover have "sc = 82 \<Longrightarrow> sc AND PS2_KEY_RELEASED = 0" by (simp add: PS2_KEY_RELEASED_def)
  ultimately show ?thesis unfolding sc_def by blast
qed

end
