(* ===== verification/Gdt_Model.thy ===== *)
theory Gdt_Model
  imports Enki_Prelude
begin

unbundle bit_operations_syntax

text \<open>
  \<^verbatim>\<open>kernel/kernel/gdt.c\<close> and \<^verbatim>\<open>gdt.h\<close>: encoding segment descriptors. A descriptor is written byte by byte to the
  memory at \<^verbatim>\<open>target\<close>; the call of \<^verbatim>\<open>panic\<close> does not return.

  The lemmas read the bytes back the way the processor does: 32 bits of base, the access byte, and a
  20-bit limit that the granularity bit scales to pages.
\<close>

section \<open>Definitions\<close>

definition ENKI_TOTAL_GDT_SEGMENTS :: nat where [config_simps]: "ENKI_TOTAL_GDT_SEGMENTS = 6"

record gdt_structured =
  gbase :: u32
  glimit :: u32
  gtype :: u8

definition encode_gdt_entry :: "memory \<Rightarrow> u32 \<Rightarrow> gdt_structured \<Rightarrow> memory option" where
  "encode_gdt_entry m target src =
     (if glimit src > 65536 \<and> glimit src AND 0xFFF \<noteq> 0xFFF then None
      else
        let m1 = m(target + 6 := 0x40);
            (lim, m2) = (if glimit src > 65536 then (drop_bit 12 (glimit src), m1(target + 6 := 0xC0)) else (glimit src, m1));
            m3 = m2(target := ucast (lim AND 0xFF), target + 1 := ucast (drop_bit 8 lim AND 0xFF));
            m4 = m3(target + 6 := m3 (target + 6) OR ucast (drop_bit 16 lim AND 0x0F));
            m5 = m4(target + 2 := ucast (gbase src AND 0xFF),
                    target + 3 := ucast (drop_bit 8 (gbase src) AND 0xFF),
                    target + 4 := ucast (drop_bit 16 (gbase src) AND 0xFF),
                    target + 7 := ucast (drop_bit 24 (gbase src) AND 0xFF))
        in Some (m5(target + 5 := gtype src)))"

text \<open>The loop of \<^verbatim>\<open>gdt_unstructure\<close> over the entries; a descriptor has 8 bytes.\<close>

fun gdt_unstructure :: "memory \<Rightarrow> u32 \<Rightarrow> gdt_structured list \<Rightarrow> memory option" where
  "gdt_unstructure m gdt [] = Some m"
| "gdt_unstructure m gdt (e # es) = Option.bind (encode_gdt_entry m gdt e) (\<lambda>m1. gdt_unstructure m1 (gdt + 8) es)"

text \<open>The table of \<^verbatim>\<open>kernel.c\<close>; the task state segment is at \<open>tss_addr\<close> and has 100 bytes.\<close>

definition kernel_gdt :: "u32 \<Rightarrow> gdt_structured list" where
  "kernel_gdt tss_addr =
     [\<lparr>gbase = 0, glimit = 0, gtype = 0\<rparr>,
      \<lparr>gbase = 0, glimit = 0xFFFFFFFF, gtype = 0x9A\<rparr>,
      \<lparr>gbase = 0, glimit = 0xFFFFFFFF, gtype = 0x92\<rparr>,
      \<lparr>gbase = 0, glimit = 0xFFFFFFFF, gtype = 0xF8\<rparr>,
      \<lparr>gbase = 0, glimit = 0xFFFFFFFF, gtype = 0xF2\<rparr>,
      \<lparr>gbase = tss_addr, glimit = 100, gtype = 0xE9\<rparr>]"

section \<open>Reading a descriptor\<close>

definition desc_base :: "memory \<Rightarrow> u32 \<Rightarrow> u32" where
  "desc_base m a = ucast (m (a + 2)) OR push_bit 8 (ucast (m (a + 3))) OR push_bit 16 (ucast (m (a + 4))) OR
     push_bit 24 (ucast (m (a + 7)))"

definition desc_raw_limit :: "memory \<Rightarrow> u32 \<Rightarrow> u32" where
  "desc_raw_limit m a = ucast (m a) OR push_bit 8 (ucast (m (a + 1))) OR push_bit 16 (ucast (m (a + 6) AND 0x0F))"

definition desc_limit :: "memory \<Rightarrow> u32 \<Rightarrow> u32" where
  "desc_limit m a =
     (if bit (m (a + 6)) 7 then push_bit 12 (desc_raw_limit m a) OR 0xFFF else desc_raw_limit m a)"

definition desc_32bit :: "memory \<Rightarrow> u32 \<Rightarrow> bool" where
  "desc_32bit m a \<longleftrightarrow> bit (m (a + 6)) 6"

definition desc_describes :: "memory \<Rightarrow> u32 \<Rightarrow> gdt_structured \<Rightarrow> bool" where
  "desc_describes m a d \<longleftrightarrow> desc_base m a = gbase d \<and> desc_limit m a = glimit d \<and> m (a + 5) = gtype d \<and> desc_32bit m a"

definition gdt_encodable :: "gdt_structured \<Rightarrow> bool" where
  "gdt_encodable d \<longleftrightarrow> glimit d \<le> 65536 \<or> glimit d AND 0xFFF = 0xFFF"

lemma ucast_mask8: "ucast (w AND 0xFF :: u32) = (ucast w :: u8)"
proof -
  have eq: "(0xFF :: u32) = mask 8" by (simp add: mask_eq_exp_minus_1)
  show ?thesis unfolding eq by (rule bit_word_eqI) (simp add: bit_unsigned_iff bit_and_iff bit_mask_iff)
qed

lemma nibble_mask: "(0xF :: 'a::len word) = mask 4" "(0xFFF :: 'a word) = mask 12"
  by (simp_all add: mask_eq_exp_minus_1)

text \<open>The 20-bit limit that is split over two bytes and a nibble.\<close>

lemma limit_join:
  fixes v :: u32
  shows "ucast (ucast v :: u8) OR push_bit 8 (ucast (ucast (drop_bit 8 v) :: u8)) OR
   push_bit 16 (ucast (ucast (drop_bit 16 v) AND 0xF :: u8)) = v AND mask 20"
  unfolding nibble_mask
proof (rule bit_word_eqI)
  fix n assume n: "n < LENGTH(32)"
  show "bit ((ucast (ucast v :: u8) :: u32) OR push_bit 8 (ucast (ucast (drop_bit 8 v) :: u8)) OR
     push_bit 16 (ucast (ucast (drop_bit 16 v) AND mask 4 :: u8))) n = bit (v AND mask 20) n"
  proof (cases "16 \<le> n")
    case True
    with n show ?thesis
      by (auto simp: bit_or_iff bit_and_iff bit_mask_iff bit_push_bit_iff bit_unsigned_iff bit_drop_bit_eq)
  next
    case False
    with n show ?thesis
      by (cases "8 \<le> n") (auto simp: bit_or_iff bit_and_iff bit_mask_iff bit_push_bit_iff bit_unsigned_iff bit_drop_bit_eq)
  qed
qed

lemma page_limit_join:
  fixes v :: u32
  assumes "v AND 0xFFF = 0xFFF"
  shows "push_bit 12 (drop_bit 12 v AND mask 20) OR 0xFFF = v"
proof (rule bit_word_eqI)
  fix n assume n: "n < LENGTH(32)"
  have "bit (v AND mask 12) n = bit (mask 12 :: u32) n" using assms by (simp add: nibble_mask)
  then show "bit (push_bit 12 (drop_bit 12 v AND mask 20) OR 0xFFF) n = bit v n" using n
    unfolding nibble_mask
    by (cases "12 \<le> n") (auto simp: bit_or_iff bit_and_iff bit_mask_iff bit_push_bit_iff bit_drop_bit_eq)
qed

lemma flag_nibble:
  fixes x :: u8
  shows "(0x40 OR (x AND 0xF)) AND 0xF = x AND 0xF" "(0xC0 OR (x AND 0xF)) AND 0xF = x AND 0xF"
    "bit (0x40 OR (x AND 0xF)) 6" "\<not> bit (0x40 OR (x AND 0xF)) 7"
    "bit (0xC0 OR (x AND 0xF)) 6" "bit (0xC0 OR (x AND 0xF)) 7"
  by (simp_all add: bit_or_iff bit_and_iff bit.conj_disj_distrib2 and.assoc)

lemma drop_mask20: "(v :: u32) \<le> 65536 \<Longrightarrow> v AND mask 20 = v"
  by (rule less_mask_eq) (simp add: word_less_def word_le_def)

lemma and_255_u8 [simp]: "(x :: u8) AND 255 = x"
proof -
  have "(255 :: u8) = - 1" by simp
  then show ?thesis by (simp only: and.right_neutral)
qed

lemma encode_bytes:
  assumes "encode_gdt_entry m a d = Some m'"
  defines "big \<equiv> glimit d > 65536"
  defines "lim \<equiv> (if big then drop_bit 12 (glimit d) else glimit d)"
  shows "m' a = ucast lim" "m' (a + 1) = ucast (drop_bit 8 lim)" "m' (a + 2) = ucast (gbase d)"
    "m' (a + 3) = ucast (drop_bit 8 (gbase d))" "m' (a + 4) = ucast (drop_bit 16 (gbase d))" "m' (a + 5) = gtype d"
    "m' (a + 6) = (if big then 0xC0 else 0x40) OR (ucast (drop_bit 16 lim) AND 0xF)" "m' (a + 7) = ucast (drop_bit 24 (gbase d))"
  using assms(1)
  by (auto simp: encode_gdt_entry_def big_def lim_def Let_def unsigned_and_eq split: if_splits)

lemma encode_frame: "encode_gdt_entry m a d = Some m' \<Longrightarrow> 8 \<le> b - a \<Longrightarrow> m' b = m b"
  by (auto simp: encode_gdt_entry_def Let_def word_le_nat_alt split: if_splits)

lemma encode_some: "encode_gdt_entry m a d \<noteq> None \<longleftrightarrow> gdt_encodable d"
  by (auto simp: encode_gdt_entry_def gdt_encodable_def Let_def split_beta)

lemma encode_describes:
  assumes "encode_gdt_entry m a d = Some m'"
  shows "desc_describes m' a d"
proof -
  note b = encode_bytes [OF assms]
  have "gdt_encodable d" using encode_some [of m a d] assms by simp
  moreover have "desc_raw_limit m' a = (if glimit d > 65536 then drop_bit 12 (glimit d) else glimit d) AND mask 20"
    unfolding limit_join [symmetric] by (simp add: desc_raw_limit_def b flag_nibble)
  ultimately have "desc_limit m' a = glimit d"
    by (auto simp: desc_limit_def b flag_nibble gdt_encodable_def page_limit_join drop_mask20 not_less simp del: push_bit_and)
  moreover have "desc_base m' a = gbase d" by (simp add: desc_base_def b bytes_of_word32)
  ultimately show ?thesis by (simp add: desc_describes_def desc_32bit_def b flag_nibble)
qed

lemma desc_describes_cong:
  "(\<And>b. b - a < 8 \<Longrightarrow> m' b = m b) \<Longrightarrow> desc_describes m' a d = desc_describes m a d"
  by (simp add: desc_describes_def desc_base_def desc_limit_def desc_raw_limit_def desc_32bit_def)

lemma unat_minus_8: "unat (x - 8 :: u32) = (if 8 \<le> unat x then unat x - 8 else unat x + 2 ^ 32 - 8)"
  by (simp add: unat_sub_if')

lemma unstructure_describes:
  "gdt_unstructure m g ds = Some m' \<Longrightarrow> 8 * length ds < 2 ^ 32 \<Longrightarrow>
   (\<forall>i<length ds. desc_describes m' (g + 8 * of_nat i) (ds ! i)) \<and> (\<forall>b. 8 * length ds \<le> unat (b - g) \<longrightarrow> m' b = m b)"
proof (induction ds arbitrary: m g)
  case Nil
  then show ?case by simp
next
  case (Cons d ds)
  then obtain m1 where e: "encode_gdt_entry m g d = Some m1" and u: "gdt_unstructure m1 (g + 8) ds = Some m'"
    by (cases "encode_gdt_entry m g d") auto
  have ih: "\<forall>i<length ds. desc_describes m' (g + 8 + 8 * of_nat i) (ds ! i)"
    "\<forall>b. 8 * length ds \<le> unat (b - (g + 8)) \<longrightarrow> m' b = m1 b"
    using Cons.IH [OF u] Cons.prems(2) by simp_all
  have low: "m' b = m1 b" if "b - g < 8" for b
  proof -
    have "unat (b - g) < 8" using that by (simp add: word_less_nat_alt)
    then have "unat (b - (g + 8)) = unat (b - g) + 2 ^ 32 - 8" using unat_minus_8 [of "b - g"] by (simp add: diff_diff_eq)
    then show ?thesis using ih(2) Cons.prems(2) by simp
  qed
  have "desc_describes m' g d" using desc_describes_cong [of g m' m1 d] low encode_describes [OF e] by blast
  moreover have "m' b = m b" if "8 * length (d # ds) \<le> unat (b - g)" for b
  proof -
    have "unat (b - (g + 8)) = unat (b - g) - 8" using unat_minus_8 [of "b - g"] that by (simp add: diff_diff_eq)
    then have "m' b = m1 b" using ih(2) that by simp
    moreover have "8 \<le> b - g" using that by (simp add: word_le_nat_alt)
    ultimately show ?thesis using encode_frame [OF e] by simp
  qed
  ultimately show ?case using ih(1) by (auto simp: less_Suc_eq_0_disj algebra_simps)
qed

section \<open>Properties\<close>

text \<open>
  C40: \<^verbatim>\<open>encode_gdt_entry\<close> panics exactly on a limit above 65536 that is not a whole number of pages.
  Otherwise the eight bytes it writes decode to the base, the limit in bytes, the type and a 32-bit
  segment, and no other byte changes.
\<close>

theorem gdt_entry_roundtrip:
  "case encode_gdt_entry m target d of
     None \<Rightarrow> glimit d > 65536 \<and> glimit d AND 0xFFF \<noteq> 0xFFF
   | Some m' \<Rightarrow> gdt_encodable d \<and> desc_describes m' target d \<and> (\<forall>b. b - target < 8 \<or> m' b = m b)"
proof (cases "encode_gdt_entry m target d")
  case None
  then show ?thesis using encode_some [of m target d] by (auto simp: gdt_encodable_def not_le)
next
  case (Some m')
  then show ?thesis
    using encode_some [of m target d] encode_describes [OF Some] encode_frame [OF Some] by (auto simp: not_less [symmetric])
qed

text \<open>
  \<^verbatim>\<open>gdt_unstructure\<close> on the table of \<^verbatim>\<open>kernel_main\<close> does not panic, and the six descriptors it writes are those of
  the table: flat kernel and user segments and the task state segment at its address.
\<close>

theorem kernel_gdt_loads:
  "\<exists>m'. gdt_unstructure m gdt (kernel_gdt tss_addr) = Some m' \<and>
    list_all (\<lambda>i. desc_describes m' (gdt + 8 * of_nat i) (kernel_gdt tss_addr ! i)) [0..<ENKI_TOTAL_GDT_SEGMENTS] \<and>
    (\<forall>b. b - gdt < 48 \<or> m' b = m b)"
proof -
  have *: "\<exists>m'. gdt_unstructure m g ds = Some m'" if "list_all gdt_encodable ds" for m g ds
    using that
  proof (induction ds arbitrary: m g)
    case (Cons d ds)
    then show ?case using encode_some [of m g d] by auto
  qed simp
  have len: "length (kernel_gdt tss_addr) = 6" by (simp add: kernel_gdt_def)
  have "list_all gdt_encodable (kernel_gdt tss_addr)" by (simp add: kernel_gdt_def gdt_encodable_def)
  from * [OF this] obtain m' where m': "gdt_unstructure m gdt (kernel_gdt tss_addr) = Some m'" by blast
  have d: "\<forall>i<6. desc_describes m' (gdt + 8 * of_nat i) (kernel_gdt tss_addr ! i)" "\<forall>b. 48 \<le> unat (b - gdt) \<longrightarrow> m' b = m b"
    using unstructure_describes [OF m'] len by simp_all
  have "b - gdt < 48 \<or> m' b = m b" for b using d(2) by (cases "48 \<le> unat (b - gdt)") (auto simp: word_less_nat_alt)
  then show ?thesis using m' d(1) by (auto simp: list_all_iff config_simps)
qed

end
