(* ===== verification/Syscall_Model.thy ===== *)
theory Syscall_Model
  imports Keyboard_Model Gdt_Model
begin

unbundle bit_operations_syntax

text \<open>
  \<^verbatim>\<open>kernel/kernel/syscall.c\<close>, the dispatch of interrupts in \<^verbatim>\<open>idt.c\<close> and \<^verbatim>\<open>kernel.c\<close>: system calls, exceptions, the clock and the
  start of the kernel.

  A function pointer of the table of system calls is one of the nine functions, the constructors of
  \<open>syscall_fn\<close>. The local arrays of the system calls (\<^verbatim>\<open>kernel_buffer\<close>, \<^verbatim>\<open>file_name\<close>, \<^verbatim>\<open>path\<close>, \<^verbatim>\<open>arg\<close>) lie at addresses that are
  fields of the state, as do the string literals that are passed by address. A literal that is
  only copied is written out. The argument \<open>term\<close> is the function for \<^verbatim>\<open>process_terminate\<close>, as in \<open>Process_Model\<close>.

  A handler either returns to its assembly stub, which resumes the interrupted program, or enters user
  mode through \<^verbatim>\<open>task_return\<close> and does not return.
\<close>

section \<open>Definitions\<close>

definition ENKI_MAX_SYSCALLS :: nat where [config_simps]: "ENKI_MAX_SYSCALLS = 256"

datatype syscall_fn = Syscall_1_print | Syscall_2_getkey | Syscall_3_putchar | Syscall_4_malloc | Syscall_5_free
  | Syscall_6_proc_start | Syscall_7_system | Syscall_8_pgm_args | Syscall_9_exit

primrec syscall_number :: "syscall_fn \<Rightarrow> int" where
  "syscall_number Syscall_1_print = 1"
| "syscall_number Syscall_2_getkey = 2"
| "syscall_number Syscall_3_putchar = 3"
| "syscall_number Syscall_4_malloc = 4"
| "syscall_number Syscall_5_free = 5"
| "syscall_number Syscall_6_proc_start = 6"
| "syscall_number Syscall_7_system = 7"
| "syscall_number Syscall_8_pgm_args = 8"
| "syscall_number Syscall_9_exit = 9"

record kernel_state = kbd_state +
  syscalls :: "syscall_fn option list"
  stk_print :: u32
  stk_file_name :: u32
  stk_path :: u32
  stk_cmd :: u32
  gdt_real :: u32
  tss_addr :: u32
  gdt_register :: "u32 \<times> u16"
  task_register :: u16
  paging_enabled :: bool
  boot_msg :: u32
  repeat_path :: u32

type_synonym 'a terminator = "'a kernel_state_scheme \<Rightarrow> u32 \<Rightarrow> (int \<times> 'a kernel_state_scheme) option"

text \<open>\<^verbatim>\<open>strcpy\<close> from a string literal: its characters and the terminator.\<close>

primrec put_string :: "u32 \<Rightarrow> u8 list \<Rightarrow> memory \<Rightarrow> memory" where
  "put_string p [] m = m(p := 0)"
| "put_string p (x # xs) m = put_string (p + 1) xs (m(p := x))"

definition drive_prefix :: "u8 list" where
  "drive_prefix = [0x30, 0x3A, 0x2F]"

definition syscall_1_print :: "'a kernel_state_scheme \<Rightarrow> (u32 outcome \<times> 'a kernel_state_scheme) option" where
  "syscall_1_print s =
     (let (user_buffer, s1) = task_get_stack_item s (task_get_current s) 0;
          (_, s2) = copy_str_from_task s1 (task_get_current s1) user_buffer (stk_print s1) 1024
      in do {
        s3 \<leftarrow> tty_writestr s2 (stk_print s2);
        Some (Returned 0, s3)
      })"

definition syscall_2_getkey :: "'a kernel_state_scheme \<Rightarrow> (u32 outcome \<times> 'a kernel_state_scheme) option" where
  "syscall_2_getkey s = (let (c, s1) = keyboard_pop s in Some (Returned (scast c), s1))"

definition syscall_3_putchar :: "'a kernel_state_scheme \<Rightarrow> (u32 outcome \<times> 'a kernel_state_scheme) option" where
  "syscall_3_putchar s =
     (let (c, s1) = task_get_stack_item s (task_get_current s) 0
      in Some (Returned 0, tty_writechar s1 (ucast c) 15))"

definition syscall_4_malloc :: "'a kernel_state_scheme \<Rightarrow> (u32 outcome \<times> 'a kernel_state_scheme) option" where
  "syscall_4_malloc s =
     (let task = task_get_current s;
          (sz, s1) = task_get_stack_item s task 0;
          (p, s2) = process_malloc s1 (task_process (tasks s1 task)) sz
      in Some (Returned p, s2))"

definition syscall_5_free :: "'a kernel_state_scheme \<Rightarrow> (u32 outcome \<times> 'a kernel_state_scheme) option" where
  "syscall_5_free s =
     (let task = task_get_current s;
          (to_free, s1) = task_get_stack_item s task 0
      in Some (Returned 0, process_free s1 (task_process (tasks s1 task)) to_free))"

text \<open>The end of the system calls that start a process: its task is switched to and entered.\<close>

definition enter_process :: "'a kernel_state_scheme \<Rightarrow> u32 \<Rightarrow> 'v outcome \<times> 'a kernel_state_scheme" where
  "enter_process s proc =
     (let s1 = task_switch s (proc_task (procs s proc))
      in task_return s1 (regs (tasks s1 (proc_task (procs s1 proc)))))"

definition syscall_6_proc_start :: "'a terminator \<Rightarrow> 'a kernel_state_scheme \<Rightarrow> (u32 outcome \<times> 'a kernel_state_scheme) option" where
  "syscall_6_proc_start term s =
     (let task = task_get_current s;
          (file_name_user, s1) = task_get_stack_item s task 0;
          (r, s2) = copy_str_from_task s1 task file_name_user (stk_file_name s1) ENKI_MAX_PATH
      in if r < 0 then Some (Returned (word_of_int r), s2)
         else do {
           let m3 = put_string (stk_path s2) drive_prefix (mem s2);
           m4 \<leftarrow> strcpy (stk_path s2 + 3) (stk_file_name s2) m3;
           (r', proc, s5) \<leftarrow> process_load_switch term (s2\<lparr>mem := m4\<rparr>) (stk_path s2);
           if r' < 0 then Some (Returned (word_of_int r'), s5) else Some (enter_process s5 proc)
         })"

definition syscall_7_system :: "'a terminator \<Rightarrow> 'a kernel_state_scheme \<Rightarrow> (u32 outcome \<times> 'a kernel_state_scheme) option" where
  "syscall_7_system term s =
     (let task = task_get_current s;
          (item, s1) = task_get_stack_item s task 0;
          root_cmd = task_virt_to_phys_addr s1 task item
      in if root_cmd = 0 then Some (Returned (word_of_int (- EINVARG)), s1)
         else do {
           len \<leftarrow> strlen (mem s1) root_cmd;
           if len = 0 then Some (Returned (word_of_int (- EINVARG)), s1)
           else do {
             let m2 = put_string (stk_path s1) drive_prefix (mem s1);
             let m3 = strncpy (stk_path s1 + 3) root_cmd ENKI_MAX_PATH m2;
             (r, proc, s4) \<leftarrow> process_load_switch term (s1\<lparr>mem := m3\<rparr>) (stk_path s1);
             if r < 0 then Some (Returned (word_of_int r), s4)
             else do {
               (r', s5) \<leftarrow> process_inject_args s4 proc root_cmd;
               if r' < 0 then Some (Returned (word_of_int r'), s5) else Some (enter_process s5 proc)
             }
           }
         })"

definition syscall_8_pgm_args :: "'a kernel_state_scheme \<Rightarrow> (u32 outcome \<times> 'a kernel_state_scheme) option" where
  "syscall_8_pgm_args s =
     (let task = task_get_current s;
          proc = task_process (tasks s task);
          (item, s1) = task_get_stack_item s task 0;
          args = task_virt_to_phys_addr s1 task item;
          (ac, av) = process_get_args (procs s1 proc)
      in Some (Returned 0, s1\<lparr>mem := store32 (store32 (mem s1) args (word_of_int ac)) (args + 4) av\<rparr>))"

definition syscall_9_exit :: "'a terminator \<Rightarrow> 'a kernel_state_scheme \<Rightarrow> (u32 outcome \<times> 'a kernel_state_scheme) option" where
  "syscall_9_exit term s =
     do {
       (_, s1) \<leftarrow> term s (task_process (tasks s (task_get_current s)));
       task_switch_next s1
     }"

primrec run_syscall :: "'a terminator \<Rightarrow> syscall_fn \<Rightarrow> 'a kernel_state_scheme \<Rightarrow> (u32 outcome \<times> 'a kernel_state_scheme) option" where
  "run_syscall term Syscall_1_print s = syscall_1_print s"
| "run_syscall term Syscall_2_getkey s = syscall_2_getkey s"
| "run_syscall term Syscall_3_putchar s = syscall_3_putchar s"
| "run_syscall term Syscall_4_malloc s = syscall_4_malloc s"
| "run_syscall term Syscall_5_free s = syscall_5_free s"
| "run_syscall term Syscall_6_proc_start s = syscall_6_proc_start term s"
| "run_syscall term Syscall_7_system s = syscall_7_system term s"
| "run_syscall term Syscall_8_pgm_args s = syscall_8_pgm_args s"
| "run_syscall term Syscall_9_exit s = syscall_9_exit term s"

definition syscall_register :: "'a kernel_state_scheme \<Rightarrow> int \<Rightarrow> syscall_fn \<Rightarrow> 'a kernel_state_scheme option" where
  "syscall_register s idx fn =
     (if idx < 0 \<or> idx \<ge> int ENKI_MAX_SYSCALLS then None
      else if syscalls s ! nat idx \<noteq> None then None
      else Some (s\<lparr>syscalls := (syscalls s)[nat idx := Some fn]\<rparr>))"

definition syscall_invoke :: "'a terminator \<Rightarrow> 'a kernel_state_scheme \<Rightarrow> int \<Rightarrow> (u32 outcome \<times> 'a kernel_state_scheme) option" where
  "syscall_invoke term s idx =
     (if idx < 0 \<or> idx \<ge> int ENKI_MAX_SYSCALLS then Some (Returned 0, s)
      else case syscalls s ! nat idx of None \<Rightarrow> Some (Returned 0, s) | Some fn \<Rightarrow> run_syscall term fn s)"

definition syscall_handler ::
    "'a terminator \<Rightarrow> 'a kernel_state_scheme \<Rightarrow> int \<Rightarrow> interrupt_frame \<Rightarrow> (u32 outcome \<times> 'a kernel_state_scheme) option" where
  "syscall_handler term s idx frame =
     do {
       s1 \<leftarrow> task_current_save_state (kernel_page s) frame;
       (out, s2) \<leftarrow> syscall_invoke term s1 idx;
       Some (case out of Returned v \<Rightarrow> (Returned v, task_page s2) | User_mode r \<Rightarrow> (User_mode r, s2))
     }"

definition syscall_register_all :: "'a kernel_state_scheme \<Rightarrow> 'a kernel_state_scheme option" where
  "syscall_register_all s =
     do {
       s1 \<leftarrow> syscall_register s (syscall_number Syscall_1_print) Syscall_1_print;
       s2 \<leftarrow> syscall_register s1 (syscall_number Syscall_2_getkey) Syscall_2_getkey;
       s3 \<leftarrow> syscall_register s2 (syscall_number Syscall_3_putchar) Syscall_3_putchar;
       s4 \<leftarrow> syscall_register s3 (syscall_number Syscall_4_malloc) Syscall_4_malloc;
       s5 \<leftarrow> syscall_register s4 (syscall_number Syscall_5_free) Syscall_5_free;
       s6 \<leftarrow> syscall_register s5 (syscall_number Syscall_6_proc_start) Syscall_6_proc_start;
       s7 \<leftarrow> syscall_register s6 (syscall_number Syscall_7_system) Syscall_7_system;
       s8 \<leftarrow> syscall_register s7 (syscall_number Syscall_8_pgm_args) Syscall_8_pgm_args;
       syscall_register s8 (syscall_number Syscall_9_exit) Syscall_9_exit
     }"

definition idt_handle_exception :: "'a terminator \<Rightarrow> 'a kernel_state_scheme \<Rightarrow> (unit outcome \<times> 'a kernel_state_scheme) option" where
  "idt_handle_exception term s =
     do {
       (_, s1) \<leftarrow> term s (task_process (tasks s (task_get_current s)));
       task_switch_next s1
     }"

definition idt_clock :: "'a kernel_state_scheme \<Rightarrow> (unit outcome \<times> 'a kernel_state_scheme) option" where
  "idt_clock s = task_switch_next (outb s 0x20 0x20)"

primrec run_callback :: "'a terminator \<Rightarrow> int_callback \<Rightarrow> 'a kernel_state_scheme \<Rightarrow> (unit outcome \<times> 'a kernel_state_scheme) option" where
  "run_callback term Idt_handle_exception s = idt_handle_exception term s"
| "run_callback term Idt_clock s = idt_clock s"
| "run_callback term Ps2_handle_interrupt s = map_option (\<lambda>s'. (Returned (), s')) (ps2_handle_interrupt s)"

text \<open>The stubs pass interrupt numbers below 512; there is no defined result for another index.\<close>

definition interrupt_handler ::
    "'a terminator \<Rightarrow> 'a kernel_state_scheme \<Rightarrow> int \<Rightarrow> interrupt_frame \<Rightarrow> (unit outcome \<times> 'a kernel_state_scheme) option" where
  "interrupt_handler term s interrupt frame =
     (if interrupt < 0 \<or> interrupt \<ge> int ENKI_TOTAL_INTERRUPTS then None
      else
        let s1 = kernel_page s
        in case int_callbacks s1 ! nat interrupt of
             None \<Rightarrow> Some (Returned (), outb (task_page s1) 0x20 0x20)
           | Some cb \<Rightarrow> do {
               s2 \<leftarrow> task_current_save_state s1 frame;
               (out, s3) \<leftarrow> run_callback term cb s2;
               Some (case out of Returned _ \<Rightarrow> (Returned (), outb (task_page s3) 0x20 0x20) | User_mode r \<Rightarrow> (User_mode r, s3))
             })"

text \<open>
  \<^verbatim>\<open>gdt_load\<close>, \<^verbatim>\<open>tss_load\<close> and \<^verbatim>\<open>enable_paging\<close> are assembly routines that load a register of the processor.
\<close>

definition gdt_load :: "'a kernel_state_scheme \<Rightarrow> u32 \<Rightarrow> u16 \<Rightarrow> 'a kernel_state_scheme" where
  "gdt_load s gdt sz = s\<lparr>gdt_register := (gdt, sz)\<rparr>"

definition tss_load :: "'a kernel_state_scheme \<Rightarrow> u16 \<Rightarrow> 'a kernel_state_scheme" where
  "tss_load s tss_offset = s\<lparr>task_register := tss_offset\<rparr>"

definition enable_paging :: "'a kernel_state_scheme \<Rightarrow> 'a kernel_state_scheme" where
  "enable_paging s = s\<lparr>paging_enabled := True\<rparr>"

definition test_multitask :: "'a terminator \<Rightarrow> 'a kernel_state_scheme \<Rightarrow> 'a kernel_state_scheme option" where
  "test_multitask term s =
     do {
       (r, proc, s1) \<leftarrow> process_load_switch term s (repeat_path s);
       if r \<noteq> 0 then None
       else do {
         let s2 = s1\<lparr>mem := store32 (put_string (stk_cmd s1) [0x58] (mem s1)) (stk_cmd s1 + 512) 0\<rparr>;
         (_, s3) \<leftarrow> process_inject_args s2 proc (stk_cmd s2);
         (r', proc', s4) \<leftarrow> process_load_switch term s3 (repeat_path s3);
         if r' \<noteq> 0 then None
         else do {
           let s5 = s4\<lparr>mem := store32 (put_string (stk_cmd s4) [0x41] (mem s4)) (stk_cmd s4 + 512) 0\<rparr>;
           (_, s6) \<leftarrow> process_inject_args s5 proc' (stk_cmd s5);
           Some s6
         }
       }
     }"

text \<open>The task state segment has \<^verbatim>\<open>esp0\<close> at offset 4 and \<^verbatim>\<open>ss0\<close> at offset 8.\<close>

definition kernel_init_tss :: "'a kernel_state_scheme \<Rightarrow> 'a kernel_state_scheme" where
  "kernel_init_tss s =
     (let m1 = memset (tss_addr s) 0x00 100 (mem s);
          m2 = store32 m1 (tss_addr s + 4) 0x600000;
          m3 = store32 m2 (tss_addr s + 8) (ucast KERNEL_DATA_SEG)
      in tss_load (s\<lparr>mem := m3\<rparr>) 0x28)"

definition kernel_init_paging :: "'a kernel_state_scheme \<Rightarrow> 'a kernel_state_scheme" where
  "kernel_init_paging s =
     (let (pd, s1) = paging_new s (ucast (PAGING_IS_WRITEABLE OR PAGING_IS_PRESENT OR PAGING_ACCESS_FROM_ALL));
          s2 = paging_switch (s1\<lparr>kernel_page_dir := pd\<rparr>) pd
      in enable_paging s2)"

definition kernel_main :: "'a terminator \<Rightarrow> 'a kernel_state_scheme \<Rightarrow> (unit outcome \<times> 'a kernel_state_scheme) option" where
  "kernel_main term s =
     do {
       s1 \<leftarrow> tty_writestr (cursor_disable (tty_init s)) (boot_msg s);
       m2 \<leftarrow> gdt_unstructure (memset (gdt_real s1) 0x00 48 (mem s1)) (gdt_real s1) (kernel_gdt (tss_addr s1));
       let s2 = gdt_load (s1\<lparr>mem := m2\<rparr>) (gdt_real s1) 48;
       s3 \<leftarrow> kheap_init s2;
       s4 \<leftarrow> fs_init s3;
       s5 \<leftarrow> disk_search_and_init s4;
       let s6 = kernel_init_paging (kernel_init_tss (idt_init s5));
       s7 \<leftarrow> syscall_register_all s6;
       (_, s8) \<leftarrow> process_new_shell term (keyboard_init s7);
       task_run_first s8
     }"

end
