(* ===== verification/Process_Proofs.thy ===== *)
theory Process_Proofs
  imports Process_Model
begin

unbundle bit_operations_syntax

text \<open>
  The memory of a process: \<^verbatim>\<open>process_malloc\<close> and \<^verbatim>\<open>process_free\<close> keep the heap, the page directory and the allocation table of
  the process consistent with each other.
\<close>

text \<open>An allocation changes only the heap and the memory.\<close>

lemma kzalloc_more: "kzalloc s sz = (p, s') \<Longrightarrow> kheap_state.more s' = kheap_state.more s"
  by (auto simp: kzalloc_def kmalloc_def Let_def split: prod.splits if_splits)

lemma task_fields_more:
  assumes "kheap_state.more (s' :: 'a task_state_scheme) = kheap_state.more s"
  shows "tasks s' = tasks s" "procs s' = procs s" "task_head s' = task_head s" "task_tail s' = task_tail s"
    "task_current s' = task_current s" "elf_files s' = elf_files s"
  using assms by (cases s; cases s'; simp)+

section \<open>A directory seen in two memories\<close>

lemma dir_same:
  assumes wf: "page_dir_wf m dir" and same: "\<forall>q\<in>dir_pages m dir. \<forall>a\<in>extent q 1. m' a = m a"
  shows "dir_entries m' dir = dir_entries m dir" "\<And>i. i < 1024 \<Longrightarrow> pd_table m' (dir_entries m dir) i = pd_table m (dir_entries m dir) i"
    "\<And>w. 4096 dvd unat w \<Longrightarrow> paging_get m' (dir_entries m dir) w = paging_get m (dir_entries m dir) w"
    "page_dir_wf m' dir" "dir_pages m' dir = dir_pages m dir"
proof -
  let ?d = "dir_entries m dir"
  have al: "4096 dvd unat dir" "4096 dvd unat ?d" using wf by (simp_all add: page_dir_wf_def pd_wf_def)
  have pages: "dir \<in> dir_pages m dir" "?d \<in> dir_pages m dir" "\<And>i. i < 1024 \<Longrightarrow> pd_table m ?d i \<in> dir_pages m dir" by (auto simp: dir_pages_def)
  have "load32 m' (dir + 4 * of_nat 0) = load32 m (dir + 4 * of_nat 0)" using al(1) bspec [OF same pages(1)] by (intro load32_extent_cong) simp_all
  then show e: "dir_entries m' dir = ?d" by (simp add: dir_entries_def)
  show t: "pd_table m' ?d i = pd_table m ?d i" if "i < 1024" for i
    using load32_extent_cong [OF al(2) that bspec [OF bspec [OF same pages(2)]]] by (simp add: pd_table_def)
  show "paging_get m' ?d w = paging_get m ?d w" if "4096 dvd unat w" for w
    using load32_extent_cong [OF pd_table_aligned pte_bound bspec [OF bspec [OF same pages(3) [OF pde_bound]]]] t [OF pde_bound]
    by (simp add: paging_get_slot [OF that])
  have "inj_on (pd_table m' ?d) {..<1024} = inj_on (pd_table m ?d) {..<1024}" by (rule inj_on_cong) (simp add: t)
  then show "page_dir_wf m' dir" using wf t by (simp add: page_dir_wf_def pd_wf_def e)
  show "dir_pages m' dir = dir_pages m dir" using t by (auto simp: dir_pages_def e)
qed

text \<open>Memory that neither an allocation nor a change of the directory touches.\<close>

definition apart :: "'a paging_state_scheme \<Rightarrow> u32 \<Rightarrow> u32 \<Rightarrow> bool" where
  "apart s dir a \<longleftrightarrow> kprot s a \<and> (\<forall>q\<in>dir_pages (mem s) dir. a \<notin> extent q 1)"

lemma live_apart:
  assumes "dir_owned s dir" "(p, k) \<in> kallocs s" "p \<notin> dir_pages (mem s) dir" "a \<in> extent p k"
  shows "apart s dir a"
proof -
  have "a \<notin> extent q 1" if "q \<in> dir_pages (mem s) dir" for q
  proof -
    have "(q, 1) \<in> kallocs s" "kheap_wf s" "q \<noteq> p" using assms(1,3) that by (auto simp: dir_owned_def)
    then show ?thesis using kz.allocs_disjoint [of s q 1 p k] assms(2,4) by blast
  qed
  then show ?thesis using assms(2,4) by (auto simp: apart_def kprot_def)
qed

lemma phys_addr_cong:
  "paging_get m' d (paging_align_to_lower a) = paging_get m d (paging_align_to_lower a) \<Longrightarrow> paging_get_phys_addr m' d a = paging_get_phys_addr m d a"
  by (simp add: paging_get_phys_addr_def Let_def)

lemma lower_aligned: "4096 dvd unat (paging_align_to_lower a)"
  using aligned_sub_mod [of a] by (simp add: paging_align_to_lower_def config_simps)

lemma lower_other_page:
  assumes "a \<notin> extent p 1"
  shows "paging_align_to_lower a \<noteq> p"
proof
  assume "paging_align_to_lower a = p"
  then have "a - a mod 4096 = p" by (simp add: paging_align_to_lower_def config_simps)
  then have "a - p = a mod 4096" by auto
  then have "unat (a - p) < 4096" by (simp add: unat_mod)
  then show False using assms by (simp add: extent_def)
qed

section \<open>Mapping a block onto itself\<close>

lemma paging_map_to_frame:
  assumes "page_dir_wf m dir" "4096 dvd unat v" "4096 dvd unat p" "4096 dvd unat e" "p \<le> e" "unat (e - p) < 2 ^ 31"
    and "paging_map_to dir v p e flags m = (r, m')"
  shows "r = 0" "page_dir_wf m' dir" "dir_entries m' dir = dir_entries m dir" "dir_pages m' dir = dir_pages m dir"
    "\<And>w. 4096 dvd unat w \<Longrightarrow> paging_get m' (dir_entries m dir) w =
       (if w - v < e - p then (p + (w - v)) OR flags else paging_get m (dir_entries m dir) w)"
    "\<And>a. (\<And>q. q \<in> dir_pages m dir \<Longrightarrow> a \<notin> extent q 1) \<Longrightarrow> m' a = m a"
proof -
  have d: "4096 dvd unat (e - p)" using assms(3-5) by (simp add: unat_sub dvd_diff_nat)
  have n: "nat (c_div (sint (e - p)) 4096) = unat (e - p) div 4096"
  proof -
    have "sint (e - p) = int (unat (e - p))" using assms(6) by (subst sint_u32_small) (simp_all add: uint_nat del: of_nat_unat)
    then show ?thesis by (simp add: zdiv_int [symmetric] del: of_nat_unat)
  qed
  have run: "paging_map_range_loop (unat (e - p) div 4096) dir v p flags 0 m = (r, m')"
    using assms(2-4,7) leD [OF assms(5)] n by (simp add: paging_map_to_def paging_map_range_def config_simps mod_page_iff [symmetric])
  have le: "unat (e - p) div 4096 \<le> 2 ^ 20" using assms(6) by simp
  note eff = paging_map_range_loop_effect [OF assms(1-3) le run]
  show "r = 0" "page_dir_wf m' dir" "dir_entries m' dir = dir_entries m dir" using eff by simp_all
  then show "dir_pages m' dir = dir_pages m dir" using eff by (auto simp: dir_pages_def)
  have "unat (w - v) < 4096 * (unat (e - p) div 4096) \<longleftrightarrow> w - v < e - p" for w
    using d by (simp add: word_less_nat_alt)
  then show "paging_get m' (dir_entries m dir) w = (if w - v < e - p then (p + (w - v)) OR flags else paging_get m (dir_entries m dir) w)"
    if "4096 dvd unat w" for w using eff that by simp
  show "m' a = m a" if "\<And>q. q \<in> dir_pages m dir \<Longrightarrow> a \<notin> extent q 1" for a
    using eff that by (auto simp: dir_pages_def)
qed

text \<open>The end of the pages of a block.\<close>

lemma align_block_end:
  assumes "4096 dvd unat p" "0 < unat sz" "unat p + 4096 * blocks_for sz < 2 ^ 32"
  shows "unat (paging_align_address (p + sz)) = unat p + 4096 * blocks_for sz"
proof -
  obtain q where q: "unat p = 4096 * q" using assms(1) by (auto elim: dvdE)
  define k where "k = unat sz div 4096"
  define r where "r = unat sz mod 4096"
  have sz: "unat sz = 4096 * k + r" and r: "r < 4096" by (simp_all add: k_def r_def)
  have b: "blocks_for sz = (if r = 0 then k else k + 1)"
  proof -
    have "(4096 * k + r + 4095) div 4096 = (if r = 0 then k else k + 1)" using r by (intro div_nat_eqI) auto
    then show ?thesis by (simp add: blocks_for_def sz)
  qed
  have u: "unat (p + sz) = 4096 * (q + k) + r" using q sz assms(3) b r by (subst unat_add_lem [THEN iffD1]) (auto split: if_splits)
  have "(4096 * (q + k) + r) mod 4096 = r" using r by (metis mod_less mod_mult_self4 mult.commute)
  then have m: "unat ((p + sz) mod 4096) = r" unfolding unat_mod u by simp
  show ?thesis
  proof (cases "r = 0")
    case True
    then have "(p + sz) mod 4096 = 0" using m by (simp add: unat_eq_0)
    then show ?thesis using u True b q by (simp add: paging_align_address_def config_simps)
  next
    case False
    then have nz: "(p + sz) mod 4096 \<noteq> 0" using m by (metis unsigned_0)
    have "p + sz + 4096 - (p + sz) mod 4096 = of_nat (4096 * (q + k + 1))"
    proof -
      have w: "x = of_nat (unat x)" for x :: u32 by simp
      have "p + sz = of_nat (4096 * (q + k) + r)" using w [of "p + sz"] unfolding u .
      moreover have "(p + sz) mod 4096 = of_nat r" using w [of "(p + sz) mod 4096"] unfolding m .
      ultimately show ?thesis by simp
    qed
    moreover have "unat (of_nat (4096 * (q + k + 1)) :: u32) = 4096 * (q + k + 1)"
      using assms(3) q b False by (intro unat_of_nat_u32) simp
    ultimately show ?thesis using nz b False q by (simp add: paging_align_address_def config_simps del: of_nat_mult of_nat_add)
  qed
qed

lemma identity_translate:
  assumes "4096 dvd unat p" "off < len" "flags < 4096"
    and "\<And>w. 4096 dvd unat w \<Longrightarrow> w - p < len \<Longrightarrow> paging_get m d w = w OR flags"
  shows "paging_get_phys_addr m d (p + off) = p + off"
proof -
  let ?lo = "off - off mod 4096"
  have low: "paging_align_to_lower (p + off) = p + ?lo"
    using mod_page_add [OF assms(1), of off] by (simp add: paging_align_to_lower_def config_simps)
  have al: "4096 dvd unat (p + ?lo)" by (rule aligned_add [OF assms(1) aligned_sub_mod])
  have "?lo < len" using sub_mod_le [of off] assms(2) by simp
  then have "paging_get m d (p + ?lo) = (p + ?lo) OR flags" using assms(4) [OF al] by simp
  then show ?thesis using page_mask_or [OF al assms(3)] by (simp add: paging_get_phys_addr_def low)
qed

section \<open>The heap of a process\<close>

abbreviation proc_dir :: "'a proc_state_scheme \<Rightarrow> u32 \<Rightarrow> u32" where
  "proc_dir s proc \<equiv> page_dir (tasks s (proc_task (procs s proc)))"

text \<open>
  Every entry of the allocation table is empty or a live block of the heap, no block is entered twice, none is
  a page of the directory, and the directory is in live blocks. The heap lies in the lower half of memory.
\<close>

definition table_ok :: "(u32 \<times> nat) set \<Rightarrow> u32 set \<Rightarrow> process_allocation list \<Rightarrow> bool" where
  "table_ok live pages as \<longleftrightarrow>
     (\<forall>i<length as. if alloc_ptr (as ! i) = 0 then alloc_size (as ! i) = 0
        else 0 < alloc_size (as ! i) \<and> (alloc_ptr (as ! i), blocks_for (alloc_size (as ! i))) \<in> live \<and> alloc_ptr (as ! i) \<notin> pages) \<and>
     (\<forall>i<length as. \<forall>j<length as. alloc_ptr (as ! i) = alloc_ptr (as ! j) \<and> alloc_ptr (as ! i) \<noteq> 0 \<longrightarrow> i = j)"

definition proc_heap_ok :: "'a proc_state_scheme \<Rightarrow> u32 \<Rightarrow> bool" where
  "proc_heap_ok s proc \<longleftrightarrow> dir_owned s (proc_dir s proc) \<and> (\<forall>a\<in>kregion s. unat a < 2 ^ 31) \<and>
     table_ok (kallocs s) (dir_pages (mem s) (proc_dir s proc)) (allocations (procs s proc))"

lemma find_alloc_Some: "find_alloc as p = Some i \<Longrightarrow> i < length as \<and> alloc_ptr (as ! i) = p"
  by (induction as arbitrary: i) (auto split: if_splits)

lemma find_alloc_None: "find_alloc as p = None \<longleftrightarrow> (\<forall>a\<in>set as. alloc_ptr a \<noteq> p)"
  by (induction as) auto

text \<open>A block of the heap, its end and its pages.\<close>

lemma heap_block_end:
  assumes "kheap_wf s" "\<forall>a\<in>kregion s. unat a < 2 ^ 31" "(p, blocks_for sz) \<in> kallocs s" "0 < sz"
  defines "e \<equiv> paging_align_address (p + sz)"
  shows "4096 dvd unat p" "4096 dvd unat e" "p \<le> e" "unat (e - p) = 4096 * blocks_for sz" "unat (e - p) < 2 ^ 31" "sz \<le> e - p"
proof -
  let ?k = "blocks_for sz"
  note ad = kz.allocs_addr [OF assms(1,3)]
  have reg: "extent p ?k \<subseteq> kregion s" by (rule kz.allocs_region [OF assms(1,3)])
  have iv: "a \<in> extent p ?k \<longleftrightarrow> unat p \<le> unat a \<and> unat a < unat p + ?k * 4096" for a
    using ad by (intro extent_interval) simp
  have "unat p + ?k * 4096 \<le> 2 ^ 31"
  proof -
    have "0 < ?k * 4096" using ad by simp
    then have l: "unat p + ?k * 4096 - 1 < 2 ^ 32" using ad by linarith
    then have "of_nat (unat p + ?k * 4096 - 1) \<in> extent p ?k" unfolding iv using ad by (simp only: unat_of_nat_u32) auto
    then have "unat (of_nat (unat p + ?k * 4096 - 1) :: u32) < 2 ^ 31" using reg assms(2) by blast
    then show ?thesis using l ad by (simp only: unat_of_nat_u32)
  qed
  then have top: "unat p + 4096 * ?k \<le> 2 ^ 31" by (simp add: mult.commute)
  have e: "unat e = unat p + 4096 * ?k"
    unfolding e_def using ad assms(4) top by (intro align_block_end) (auto simp: word_less_nat_alt)
  show "4096 dvd unat p" using ad by simp
  then show "4096 dvd unat e" unfolding e by simp
  show le: "p \<le> e" by (simp add: word_le_nat_alt e)
  show d: "unat (e - p) = 4096 * ?k" using le by (simp add: unat_sub e)
  have "0 < unat p" using ad by (simp add: unat_gt_0)
  then show "unat (e - p) < 2 ^ 31" using d top by simp
  show "sz \<le> e - p" unfolding word_le_nat_alt d using div_mult_mod_eq [of "unat sz + 4095" 4096] mod_less_divisor [of 4096 "unat sz + 4095"]
    by (simp add: blocks_for_def)
qed

text \<open>Allocating beside a directory leaves the directory as it is.\<close>

lemma kzalloc_keeps_dir:
  assumes own: "dir_owned s dir" and al: "0 < unat sz" "unat sz \<le> 2 ^ 32 - 4096" "kfits s (blocks_for sz)" "kzalloc s sz = (p, s1)"
  shows "dir_owned s1 dir" "dir_pages (mem s1) dir = dir_pages (mem s) dir" "p \<notin> dir_pages (mem s) dir"
    "dir_entries (mem s1) dir = dir_entries (mem s) dir"
    "\<And>w. 4096 dvd unat w \<Longrightarrow> paging_get (mem s1) (dir_entries (mem s) dir) w = paging_get (mem s) (dir_entries (mem s) dir) w"
proof -
  have wf: "kheap_wf s" and pd: "page_dir_wf (mem s) dir" and live: "\<And>q. q \<in> dir_pages (mem s) dir \<Longrightarrow> (q, 1) \<in> kallocs s"
    using own by (simp_all add: dir_owned_def)
  have "\<forall>q\<in>dir_pages (mem s) dir. \<forall>a\<in>extent q 1. mem s1 a = mem s a" using kzalloc_keeps_live [OF wf al] live by blast
  note ds = dir_same [OF pd this]
  show "dir_pages (mem s1) dir = dir_pages (mem s) dir" "dir_entries (mem s1) dir = dir_entries (mem s) dir" by (fact ds(5), fact ds(1))
  show "paging_get (mem s1) (dir_entries (mem s) dir) w = paging_get (mem s) (dir_entries (mem s) dir) w" if "4096 dvd unat w" for w by (rule ds(3) [OF that])
  show "dir_owned s1 dir" using own kz.malloc_inv [OF wf al] kz.malloc_allocs [OF wf al] ds(1,4,5) by (simp add: dir_owned_def)
  show "p \<notin> dir_pages (mem s) dir" using live kz.malloc_new [OF wf al, of 1] by blast
qed

text \<open>Mapping a block of the heap onto itself with some flags.\<close>

lemma map_block:
  assumes own: "dir_owned s dir" and reg: "\<forall>a\<in>kregion s. unat a < 2 ^ 31" and live: "(p, blocks_for sz) \<in> kallocs s" "0 < sz"
    and out: "p \<notin> dir_pages (mem s) dir" and map: "paging_map_to dir p p (paging_align_address (p + sz)) flags (mem s) = (r, m)"
  shows "r = 0" "dir_owned (s\<lparr>mem := m\<rparr>) dir" "dir_pages m dir = dir_pages (mem s) dir"
    "\<And>w. 4096 dvd unat w \<Longrightarrow> w - p < sz \<Longrightarrow> paging_get m (dir_entries m dir) w = w OR flags"
    "\<And>q k a. (q, k) \<in> kallocs s \<Longrightarrow> q \<notin> dir_pages (mem s) dir \<Longrightarrow> a \<in> extent q k \<Longrightarrow> m a = mem s a"
    "dir_entries m dir = dir_entries (mem s) dir" "\<And>a. apart s dir a \<Longrightarrow> m a = mem s a"
    "\<And>w. 4096 dvd unat w \<Longrightarrow> w \<notin> extent p (blocks_for sz) \<Longrightarrow> paging_get m (dir_entries m dir) w = paging_get (mem s) (dir_entries (mem s) dir) w"
proof -
  have wf: "kheap_wf s" and pd: "page_dir_wf (mem s) dir" and pages: "\<And>q. q \<in> dir_pages (mem s) dir \<Longrightarrow> (q, 1) \<in> kallocs s"
    using own by (simp_all add: dir_owned_def)
  note b = heap_block_end [OF wf reg live]
  note eff = paging_map_to_frame [OF pd b(1,1,2,3,5) map]
  show "r = 0" by (rule eff(1))
  show "dir_entries m dir = dir_entries (mem s) dir" by (rule eff(3))
  show "m a = mem s a" if "apart s dir a" for a by (rule eff(6)) (use that in \<open>simp add: apart_def\<close>)
  show "paging_get m (dir_entries m dir) w = paging_get (mem s) (dir_entries (mem s) dir) w" if "4096 dvd unat w" "w \<notin> extent p (blocks_for sz)" for w
    using eff(5) [OF that(1)] that(2) b(4) by (simp add: extent_def word_less_nat_alt eff(3) mult.commute)
  show "dir_pages m dir = dir_pages (mem s) dir" by (rule eff(4))
  then show "dir_owned (s\<lparr>mem := m\<rparr>) dir" using own eff(2,3) by (simp add: dir_owned_def)
  show "paging_get m (dir_entries m dir) w = w OR flags" if "4096 dvd unat w" "w - p < sz" for w
  proof -
    have "w - p < paging_align_address (p + sz) - p" using that(2) b(6) by (rule less_le_trans)
    then show ?thesis using eff(5) [OF that(1)] eff(3) by simp
  qed
  show "m a = mem s a" if "(q, k) \<in> kallocs s" "q \<notin> dir_pages (mem s) dir" "a \<in> extent q k" for q k a
  proof (rule eff(6))
    fix x assume x: "x \<in> dir_pages (mem s) dir"
    then have "x \<noteq> q" using that(2) by blast
    then show "a \<notin> extent x 1" using kz.allocs_disjoint [OF wf pages [OF x] that(1)] that(3) by blast
  qed
qed

lemma table_ok_insert:
  assumes "table_ok live pages as" "find_alloc as 0 = Some i" "0 < sz" "p \<noteq> 0" "p \<notin> pages" "\<And>k. (p, k) \<notin> live"
  shows "table_ok (insert (p, blocks_for sz) live) pages (as[i := \<lparr>alloc_ptr = p, alloc_size = sz\<rparr>])"
proof -
  have new: "alloc_ptr (as ! j) \<noteq> p" if "j < length as" for j
    using assms(1,4,6) that unfolding table_ok_def by (metis (no_types))
  have i: "i < length as" using find_alloc_Some [OF assms(2)] by simp
  let ?as = "as[i := \<lparr>alloc_ptr = p, alloc_size = sz\<rparr>]"
  have nth: "?as ! j = (if j = i then \<lparr>alloc_ptr = p, alloc_size = sz\<rparr> else as ! j)" if "j < length as" for j
    using that by (simp add: nth_list_update)
  show ?thesis unfolding table_ok_def length_list_update
  proof (intro conjI allI impI)
    fix j assume j: "j < length as"
    show "if alloc_ptr (?as ! j) = 0 then alloc_size (?as ! j) = 0
        else 0 < alloc_size (?as ! j) \<and> (alloc_ptr (?as ! j), blocks_for (alloc_size (?as ! j))) \<in> insert (p, blocks_for sz) live \<and>
          alloc_ptr (?as ! j) \<notin> pages"
      using assms(1,3-5) j nth [OF j] unfolding table_ok_def by (cases "j = i") auto
  next
    fix j k assume "j < length as" "k < length as" "alloc_ptr (?as ! j) = alloc_ptr (?as ! k) \<and> alloc_ptr (?as ! j) \<noteq> 0"
    then show "j = k" using assms(1) new nth unfolding table_ok_def by (metis process_allocation.select_convs(1))
  qed
qed

lemma table_ok_drop:
  assumes "table_ok live pages as" "p \<noteq> 0"
  shows "table_ok (live - {(p, k)}) pages (map (\<lambda>a. if alloc_ptr a = p then \<lparr>alloc_ptr = 0, alloc_size = 0\<rparr> else a) as)"
  using assms unfolding table_ok_def by (simp; blast)

text \<open>What \<^verbatim>\<open>process_malloc\<close> does when it succeeds.\<close>

lemma process_malloc_effect:
  assumes "proc_heap_ok s proc" "find_alloc (allocations (procs s proc)) 0 = Some i" "0 < sz" "unat sz \<le> 2 ^ 32 - 4096"
    and "kfits s (blocks_for sz)" "process_malloc s proc sz = (ptr, s')"
  shows "ptr \<noteq> 0 \<and> (\<forall>k. (ptr, k) \<notin> kallocs s) \<and> kallocs s' = insert (ptr, blocks_for sz) (kallocs s) \<and>
    proc_heap_ok s' proc \<and> process_owns_ptr (procs s' proc) ptr \<and>
    (\<forall>a. a - ptr < sz \<longrightarrow> mem s' a = 0 \<and> paging_get_phys_addr (mem s') (dir_entries (mem s') (proc_dir s' proc)) a = a) \<and>
    (\<forall>w. paging_is_aligned w \<and> w - ptr < sz \<longrightarrow> paging_get (mem s') (dir_entries (mem s') (proc_dir s' proc)) w = w OR 7) \<and>
    (\<forall>q k a. (q, k) \<in> kallocs s \<and> q \<notin> dir_pages (mem s) (proc_dir s proc) \<and> a \<in> extent q k \<longrightarrow> mem s' a = mem s a) \<and>
    allocations (procs s' proc) = (allocations (procs s proc))[i := \<lparr>alloc_ptr = ptr, alloc_size = sz\<rparr>] \<and>
    ptr \<notin> dir_pages (mem s) (proc_dir s proc) \<and> proc_dir s' proc = proc_dir s proc \<and>
    dir_pages (mem s') (proc_dir s proc) = dir_pages (mem s) (proc_dir s proc) \<and> kavail s' + blocks_for sz = kavail s \<and>
    (\<forall>w. paging_is_aligned w \<and> w \<notin> extent ptr (blocks_for sz) \<longrightarrow> paging_get (mem s') (dir_entries (mem s') (proc_dir s proc)) w =
       paging_get (mem s) (dir_entries (mem s) (proc_dir s proc)) w) \<and>
    (\<forall>a. apart s (proc_dir s proc) a \<longrightarrow> mem s' a = mem s a \<and> a \<notin> extent ptr (blocks_for sz) \<and> apart s' (proc_dir s proc) a)"
proof -
  let ?d = "proc_dir s proc"
  obtain p s1 where al: "kzalloc s sz = (p, s1)" by force
  have own: "dir_owned s ?d" and reg: "\<forall>a\<in>kregion s. unat a < 2 ^ 31"
    and tab: "table_ok (kallocs s) (dir_pages (mem s) ?d) (allocations (procs s proc))" using assms(1) by (simp_all add: proc_heap_ok_def)
  have wf: "kheap_wf s" using own by (simp add: dir_owned_def)
  have sz: "0 < unat sz" using assms(3) by (simp add: word_less_nat_alt)
  note pre = wf sz assms(4,5) al
  have wf1: "kheap_wf s1" and al1: "kallocs s1 = insert (p, blocks_for sz) (kallocs s)"
    using kz.malloc_inv [OF pre] kz.malloc_allocs [OF pre] by simp_all
  then have p: "p \<noteq> 0" "4096 dvd unat p" using kz.allocs_addr [OF wf1, of p "blocks_for sz"] by simp_all
  note dir1 = kzalloc_keeps_dir [OF own sz assms(4,5) al]
  have same: "tasks s1 = tasks s" "procs s1 = procs s" using task_fields_more [OF kzalloc_more [OF al]] by simp_all
  obtain r m where map: "paging_map_to ?d p p (paging_align_address (p + sz)) 7 (mem s1) = (r, m)" by force
  have reg1: "\<forall>a\<in>kregion s1. unat a < 2 ^ 31" using reg kz.malloc_region [OF al] by simp
  have live1: "(p, blocks_for sz) \<in> kallocs s1" "p \<notin> dir_pages (mem s1) ?d" using al1 dir1 by simp_all
  note mb = map_block [OF dir1(1) reg1 live1(1) assms(3) live1(2) map]
  have run: "ptr = p" "s' = upd_proc (s1\<lparr>mem := m\<rparr>) proc (\<lambda>q. q\<lparr>allocations := (allocations q)[i := \<lparr>alloc_ptr = p, alloc_size = sz\<rparr>]\<rparr>)"
    using assms(2,6) al p(1) map mb(1) same by (auto simp: process_malloc_def process_find_free_alloc_def config_simps)
  have dir: "proc_dir s' proc = ?d" using same by (simp add: run(2))
  have mem': "mem s' = m" and al': "kallocs s' = kallocs s1" and reg': "kregion s' = kregion s1" and own': "dir_owned s' ?d"
    using mb(2) by (simp_all add: run(2) dir_owned_def kheap_view_defs)
  have new: "\<forall>k. (p, k) \<notin> kallocs s" using kz.malloc_new [OF pre] by blast
  have "table_ok (kallocs s') (dir_pages m ?d) ((allocations (procs s proc))[i := \<lparr>alloc_ptr = p, alloc_size = sz\<rparr>])"
    unfolding al' al1 mb(3) dir1(2) using table_ok_insert [OF tab assms(2,3) p(1) dir1(3)] new by blast
  then have ok: "proc_heap_ok s' proc" using own' reg1 by (simp add: proc_heap_ok_def dir mem' reg') (simp add: run(2) same)
  have owns: "process_owns_ptr (procs s' proc) p"
  proof -
    have "\<lparr>alloc_ptr = p, alloc_size = sz\<rparr> \<in> set ((allocations (procs s proc))[i := \<lparr>alloc_ptr = p, alloc_size = sz\<rparr>])"
      using find_alloc_Some [OF assms(2)] by (simp add: set_update_memI)
    then show ?thesis unfolding process_owns_ptr_def find_alloc_None
      by (auto simp: run(2) same intro!: bexI [of _ "\<lparr>alloc_ptr = p, alloc_size = sz\<rparr>"])
  qed
  have zero: "m a = 0" if "a - p < sz" for a
  proof -
    have "m a = mem s1 a" using mb(5) [OF live1 in_extent_blocks_for [OF that]] .
    then show ?thesis using kzalloc_mem [OF al] p(1) that by simp
  qed
  have tr: "paging_get_phys_addr m (dir_entries m ?d) a = a" if "a - p < sz" for a
    using identity_translate [OF p(2) that, of 7 m "dir_entries m ?d"] mb(4) by simp
  have keep: "m a = mem s a" if "(q, k) \<in> kallocs s" "q \<notin> dir_pages (mem s) ?d" "a \<in> extent q k" for q k a
    using mb(5) [of q k a] kzalloc_keeps_live [OF pre that(1,3)] that al1 dir1(2) by simp
  have as: "allocations (procs s' proc) = (allocations (procs s proc))[i := \<lparr>alloc_ptr = p, alloc_size = sz\<rparr>]" by (simp add: run(2) same)
  have other: "paging_get m (dir_entries m ?d) w = paging_get (mem s) (dir_entries (mem s) ?d) w" if "4096 dvd unat w" "w \<notin> extent p (blocks_for sz)" for w
    using mb(8) [OF that] dir1(4) dir1(5) [OF that(1)] by simp
  have av: "kavail s' + blocks_for sz = kavail s" using kz.malloc_avail [OF pre] by (simp add: run(2) kheap_view_defs)
  have pages: "dir_pages m ?d = dir_pages (mem s) ?d" using mb(3) dir1(2) by simp
  have apart: "m a = mem s a \<and> a \<notin> extent p (blocks_for sz) \<and> apart s' ?d a" if "apart s ?d a" for a
  proof -
    have k: "kprot s a" using that by (simp add: apart_def)
    have o: "a \<notin> extent p (blocks_for sz)" "kprot s1 a" using kz.protected_malloc [OF pre, of a] k by (simp_all add: kprot_def)
    then have a1: "apart s1 ?d a" using that dir1(2) by (simp add: apart_def)
    have "mem s1 a = mem s a" using kzalloc_mem [OF al, of a] in_extent_blocks_for [of a p sz] o(1) by auto
    then show ?thesis using mb(7) [OF a1] o a1 dir1(2) pages al' reg' mem' by (simp add: apart_def kprot_def)
  qed
  show ?thesis
    unfolding dir mem' run(1) aligned_iff
    using apart p(1) new al' al1 ok owns zero tr mb(4) keep as dir1(3) pages av other by blast
qed

text \<open>
  C13: a process whose heap is consistent and whose table has a free entry gets from \<^verbatim>\<open>process_malloc\<close> a block that no one
  else has: it is zero, the process sees it at its own address with user and write access, the table records it, and
  the heap of the process is consistent again. Live blocks outside the page directory keep their contents.
\<close>

theorem process_malloc_grants:
  assumes "proc_heap_ok s proc" "find_alloc (allocations (procs s proc)) 0 = Some i" "0 < sz" "unat sz \<le> 2 ^ 32 - 4096"
    and "kfits s (blocks_for sz)" "process_malloc s proc sz = (ptr, s')"
  shows "ptr \<noteq> 0 \<and> (\<forall>k. (ptr, k) \<notin> kallocs s) \<and> kallocs s' = insert (ptr, blocks_for sz) (kallocs s) \<and>
    proc_heap_ok s' proc \<and> process_owns_ptr (procs s' proc) ptr \<and>
    (\<forall>a. a - ptr < sz \<longrightarrow> mem s' a = 0 \<and> paging_get_phys_addr (mem s') (dir_entries (mem s') (proc_dir s' proc)) a = a) \<and>
    (\<forall>w. paging_is_aligned w \<and> w - ptr < sz \<longrightarrow> paging_get (mem s') (dir_entries (mem s') (proc_dir s' proc)) w = w OR 7) \<and>
    (\<forall>q k a. (q, k) \<in> kallocs s \<and> q \<notin> dir_pages (mem s) (proc_dir s proc) \<and> a \<in> extent q k \<longrightarrow> mem s' a = mem s a)"
  using process_malloc_effect [OF assms] by blast

text \<open>Releasing an entry of the table.\<close>

lemma process_free_effect:
  assumes ok: "proc_heap_ok s proc" and find: "find_alloc (allocations (procs s proc)) ptr = Some i" and nz: "ptr \<noteq> 0"
  defines "sz \<equiv> alloc_size (allocations (procs s proc) ! i)" and "s' \<equiv> process_free s proc ptr"
  shows "kallocs s' = kallocs s - {(ptr, blocks_for sz)}" "proc_heap_ok s' proc" "kavail s' = kavail s + blocks_for sz"
    "allocations (procs s' proc) = map (\<lambda>a. if alloc_ptr a = ptr then \<lparr>alloc_ptr = 0, alloc_size = 0\<rparr> else a) (allocations (procs s proc))"
    "\<And>w. 4096 dvd unat w \<Longrightarrow> w - ptr < sz \<Longrightarrow> paging_get (mem s') (dir_entries (mem s') (proc_dir s' proc)) w = w"
proof -
  let ?d = "proc_dir s proc" and ?as = "allocations (procs s proc)"
  have own: "dir_owned s ?d" and reg: "\<forall>a\<in>kregion s. unat a < 2 ^ 31"
    and tab: "table_ok (kallocs s) (dir_pages (mem s) ?d) ?as" using ok by (simp_all add: proc_heap_ok_def)
  have wf: "kheap_wf s" using own by (simp add: dir_owned_def)
  have i: "i < length ?as" "alloc_ptr (?as ! i) = ptr" using find_alloc_Some [OF find] by simp_all
  then have e: "0 < sz" "(ptr, blocks_for sz) \<in> kallocs s" "ptr \<notin> dir_pages (mem s) ?d"
    using tab nz unfolding table_ok_def sz_def by metis+
  obtain r m where map: "paging_map_to ?d ptr ptr (paging_align_address (ptr + sz)) 0 (mem s) = (r, m)" by force
  note mb = map_block [OF own reg e(2,1,3) map]
  define s1 where "s1 = s\<lparr>mem := m, procs := (procs s)(proc := process_allocation_drop (procs s proc) ptr)\<rparr>"
  have run: "s' = kfree s1 ptr"
    using find i map mb(1) by (simp add: s'_def s1_def process_free_def process_get_allocation_def sz_def)
  have view1: "kheap_wf s1" "kallocs s1 = kallocs s" "kavail s1 = kavail s" "kregion s1 = kregion s" "mem s1 = m"
    using wf by (simp_all add: s1_def kheap_view_defs)
  have e1: "(ptr, blocks_for sz) \<in> kallocs s1" using e(2) view1(2) by simp
  show al: "kallocs s' = kallocs s - {(ptr, blocks_for sz)}" using kz.free_allocs [OF view1(1) e1] view1(2) run by simp
  show "kavail s' = kavail s + blocks_for sz" using kz.free_avail [OF view1(1) e1] view1(3) run by simp
  have f: "tasks s' = tasks s" "procs s' = (procs s)(proc := process_allocation_drop (procs s proc) ptr)" "mem s' = m"
    by (simp_all add: run s1_def kfree_def)
  then have dir: "proc_dir s' proc = ?d" by (simp add: process_allocation_drop_def)
  show as: "allocations (procs s' proc) = map (\<lambda>a. if alloc_ptr a = ptr then \<lparr>alloc_ptr = 0, alloc_size = 0\<rparr> else a) ?as"
    by (simp add: f process_allocation_drop_def)
  have "dir_owned s' ?d"
    using mb(2) e(3) kz.free_inv [OF view1(1) e1] al mb(3) by (auto simp: dir_owned_def f(3) run [symmetric])
  then show "proc_heap_ok s' proc"
    using reg table_ok_drop [OF tab nz, of "blocks_for sz"] kz.free_region [of s1 ptr] view1(4)
    unfolding proc_heap_ok_def dir as al f(3) mb(3) run [symmetric] by simp
  show "paging_get (mem s') (dir_entries (mem s') (proc_dir s' proc)) w = w" if "4096 dvd unat w" "w - ptr < sz" for w
    using mb(4) [OF that] by (simp add: f(3) dir)
qed

text \<open>
  C20: \<^verbatim>\<open>process_free\<close> of a pointer other than the null pointer that is not in the table of the process does nothing. Of a block
  in the table it releases exactly that block: it leaves the heap and the table, its pages are not present any more in the page
  directory of the process, every other entry of the table stays, and the heap of the process stays consistent. The null pointer is
  excluded: it matches an empty slot of the table and is passed on to \<^verbatim>\<open>kfree\<close>.
\<close>

theorem process_free_releases_block:
  assumes "proc_heap_ok s proc" "ptr \<noteq> 0" "s' = process_free s proc ptr"
  shows "case find_alloc (allocations (procs s proc)) ptr of
      None \<Rightarrow> s' = s
    | Some i \<Rightarrow>
        let sz = alloc_size (allocations (procs s proc) ! i)
        in kallocs s' = kallocs s - {(ptr, blocks_for sz)} \<and> kavail s' = kavail s + blocks_for sz \<and> proc_heap_ok s' proc \<and>
           \<not> process_owns_ptr (procs s' proc) ptr \<and>
           (\<forall>j<length (allocations (procs s proc)). j \<noteq> i \<longrightarrow> allocations (procs s' proc) ! j = allocations (procs s proc) ! j) \<and>
           (\<forall>w. paging_is_aligned w \<and> w - ptr < sz \<longrightarrow> paging_get (mem s') (dir_entries (mem s') (proc_dir s' proc)) w AND PAGING_IS_PRESENT = 0)"
proof (cases "find_alloc (allocations (procs s proc)) ptr")
  case None
  then show ?thesis using assms(3) by (simp add: process_free_def process_get_allocation_def)
next
  case (Some i)
  note eff = process_free_effect [OF assms(1) Some assms(2), folded assms(3)]
  have "alloc_ptr (allocations (procs s proc) ! j) \<noteq> ptr" if "j < length (allocations (procs s proc))" "j \<noteq> i" for j
    using assms(1,2) find_alloc_Some [OF Some] that unfolding proc_heap_ok_def table_ok_def by metis
  then have "\<forall>j<length (allocations (procs s proc)). j \<noteq> i \<longrightarrow> allocations (procs s' proc) ! j = allocations (procs s proc) ! j"
    by (simp add: eff(4))
  moreover have "\<not> process_owns_ptr (procs s' proc) ptr"
    using assms(2) by (auto simp: process_owns_ptr_def find_alloc_None eff(4))
  moreover have "w AND PAGING_IS_PRESENT = 0" if "4096 dvd unat w" for w :: u32
  proof -
    have "take_bit 12 w = 0" using that by (simp add: take_bit_page)
    then have "\<not> bit w 0" by (metis bit_take_bit_iff bit_0_eq bot_apply bot_bool_def zero_less_numeral)
    then show ?thesis by (auto simp: config_simps and_one_eq odd_iff_mod_2_eq_one bit_0)
  qed
  ultimately show ?thesis using eff(1,2,3,5) Some by (simp add: Let_def aligned_iff)
qed

text \<open>A process with a new page directory in a heap of 2048 blocks, for the witnesses.\<close>

lemma paging_new_dir_region: "kregion (paging_new_dir i ents offset flags s) = kregion s"
proof (induction i ents offset flags s rule: paging_new_dir.induct)
  case (1 i ents offset flags s)
  show ?case
  proof (cases "i < unat PAGING_TOTAL_ENTRIES_PER_TABLE")
    case True
    obtain e s1 where al: "kzalloc s (4 * PAGING_TOTAL_ENTRIES_PER_TABLE) = (e, s1)" by force
    show ?thesis
      using "1.IH" [OF True al [symmetric] refl refl refl] kz.malloc_region [OF al] True
      by (subst paging_new_dir.simps) (simp add: al Let_def)
  qed (subst paging_new_dir.simps, simp)
qed

lemma paging_new_region: "kregion (snd (paging_new s flags)) = kregion s"
proof -
  have "kregion (snd (kzalloc s sz)) = kregion s" for s :: "'a paging_state_scheme" and sz
    by (rule kz.malloc_region [OF prod.collapse [symmetric]])
  then show ?thesis by (simp add: paging_new_def paging_new_dir_region Let_def split_beta)
qed

definition demo_owner :: proc_state where
  "demo_owner = (let (dir, s1) = paging_new (demo_proc\<lparr>kernel_heap := demo_heap 2048\<rparr>) 7
     in s1\<lparr>tasks := (\<lambda>_. zero_task\<lparr>page_dir := dir\<rparr>), procs := (\<lambda>_. zero_process)\<rparr>)"

lemma demo_owner_ok: "proc_heap_ok demo_owner 0x01001000" "kfits demo_owner 1"
  "allocations (procs demo_owner 0x01001000) = replicate 1024 \<lparr>alloc_ptr = 0, alloc_size = 0\<rparr>"
  "kavail demo_owner = 1022" "kregion demo_owner = heap_region (demo_heap 2048)"
proof -
  let ?s = "demo_proc\<lparr>kernel_heap := demo_heap 2048\<rparr>"
  obtain dir s1 where new: "paging_new ?s 7 = (dir, s1)" by force
  have "free_blocks (demo_heap 2048) = {0 ..< 2048}" by (auto simp: demo_heap_def heap_get_entry_type_def config_simps)
  then have ready: "kheap_wf ?s" "kavail ?s = 2048" by (simp_all add: kheap_view_defs heap_avail_def demo_heap_wf)
  then have eff: "dir_owned s1 dir" "kavail s1 + 1026 = kavail ?s" using paging_new_effect [OF _ _ new] by simp_all
  have reg: "kregion s1 = kregion ?s" using paging_new_region [of ?s 7] new by simp
  have s: "demo_owner = s1\<lparr>tasks := (\<lambda>_. zero_task\<lparr>page_dir := dir\<rparr>), procs := (\<lambda>_. zero_process)\<rparr>" by (simp add: demo_owner_def new)
  show as: "allocations (procs demo_owner 0x01001000) = replicate 1024 \<lparr>alloc_ptr = 0, alloc_size = 0\<rparr>"
    by (simp add: s zero_process_def config_simps)
  have "kfits s1 1" using kz.avail_fits [of s1] eff ready(2) by (simp add: dir_owned_def)
  then show "kfits demo_owner 1" by (simp add: s kheap_view_defs)
  show "kavail demo_owner = 1022" using eff(2) ready(2) by (simp add: s kheap_view_defs)
  show "kregion demo_owner = heap_region (demo_heap 2048)" using reg by (simp add: s kheap_view_defs)
  have "dir_owned demo_owner dir" using eff(1) by (simp add: s dir_owned_def kheap_view_defs)
  moreover have "proc_dir demo_owner 0x01001000 = dir" by (simp add: s)
  moreover have "\<forall>a\<in>kregion demo_owner. unat a < 2 ^ 31"
  proof -
    have "kregion demo_owner = kregion ?s" using reg by (simp add: s kheap_view_defs)
    then have "int (unat a) < int (2 ^ 31)" if "a \<in> kregion demo_owner" for a
      using that by (simp add: kregion_def heap_region_def demo_heap_def config_simps)
    then show ?thesis by (simp only: of_nat_less_iff) blast
  qed
  ultimately show "proc_heap_ok demo_owner 0x01001000" by (simp add: proc_heap_ok_def as table_ok_def)
qed

lemma demo_owner_table:
  "allocations (procs demo_owner 0x01001000) = \<lparr>alloc_ptr = 0, alloc_size = 0\<rparr> # replicate 1023 \<lparr>alloc_ptr = 0, alloc_size = 0\<rparr>"
proof -
  have n: "(1024 :: nat) = Suc 1023" by simp
  show ?thesis unfolding demo_owner_ok(3) by (subst n) (rule replicate_Suc)
qed

lemma demo_owner_slot: "find_alloc (allocations (procs demo_owner 0x01001000)) 0 = Some 0"
  by (simp add: demo_owner_table)

theorem process_malloc_grants_witness:
  "\<exists>ptr s'. process_malloc demo_owner 0x01001000 100 = (ptr, s') \<and> ptr \<noteq> 0 \<and> process_owns_ptr (procs s' 0x01001000) ptr \<and> mem s' (ptr + 99) = 0"
proof -
  obtain ptr s' where run: "process_malloc demo_owner 0x01001000 100 = (ptr, s')" by force
  show ?thesis using process_malloc_grants [OF demo_owner_ok(1) demo_owner_slot _ _ _ run] demo_owner_ok(2) run
    by (auto simp: blocks_for_def)
qed

theorem process_free_releases_block_witness:
  "\<exists>ptr s'. process_malloc demo_owner 0x01001000 100 = (ptr, s') \<and> kavail (process_free s' 0x01001000 ptr) = kavail s' + 1"
proof -
  obtain ptr s' where run: "process_malloc demo_owner 0x01001000 100 = (ptr, s')" by force
  have eff: "proc_heap_ok s' 0x01001000" "ptr \<noteq> 0"
    "allocations (procs s' 0x01001000) = (allocations (procs demo_owner 0x01001000))[0 := \<lparr>alloc_ptr = ptr, alloc_size = 100\<rparr>]"
    using process_malloc_effect [OF demo_owner_ok(1) demo_owner_slot _ _ _ run] demo_owner_ok(2) by (simp_all add: blocks_for_def)
  have as: "allocations (procs s' 0x01001000) = \<lparr>alloc_ptr = ptr, alloc_size = 100\<rparr> # replicate 1023 \<lparr>alloc_ptr = 0, alloc_size = 0\<rparr>"
    using eff(3) by (simp add: demo_owner_table)
  show ?thesis
    using process_free_releases_block [OF eff(1,2) refl] run by (auto simp: as Let_def blocks_for_def)
qed

end
