(* ===== verification/Sched_Proofs.thy ===== *)
theory Sched_Proofs
  imports Syscall_Model Process_Proofs
begin

unbundle bit_operations_syntax

text \<open>
  The list of tasks and the clock. \<open>task_list\<close> reads the doubly linked list as a list of addresses. The
  lemmas show that a new task is appended, that every clock interrupt saves the interrupted task and
  resumes the next one, so that every task runs again within one round, and what removing a task
  does to the links.
\<close>

section \<open>The list of tasks\<close>

definition next_link :: "u32 list \<Rightarrow> nat \<Rightarrow> u32" where
  "next_link ts i = (if Suc i < length ts then ts ! Suc i else 0)"

definition prev_link :: "u32 list \<Rightarrow> nat \<Rightarrow> u32" where
  "prev_link ts i = (if i = 0 then 0 else ts ! (i - 1))"

text \<open>The forward chain from \<^verbatim>\<open>task_head\<close>, and the whole list with its backward links and its tail.\<close>

definition task_chain :: "'a task_state_scheme \<Rightarrow> u32 list \<Rightarrow> bool" where
  "task_chain s ts \<longleftrightarrow> distinct ts \<and> 0 \<notin> set ts \<and> task_head s = (case ts of [] \<Rightarrow> 0 | t # _ \<Rightarrow> t) \<and>
     (\<forall>i<length ts. task_next (tasks s (ts ! i)) = next_link ts i)"

definition task_list :: "'a task_state_scheme \<Rightarrow> u32 list \<Rightarrow> bool" where
  "task_list s ts \<longleftrightarrow> task_chain s ts \<and> (\<forall>i<length ts. task_prev (tasks s (ts ! i)) = prev_link ts i) \<and>
     (ts \<noteq> [] \<longrightarrow> task_tail s = last ts)"

lemma task_chain_cong:
  assumes "task_head s' = task_head s" "\<And>t. t \<in> set ts \<Longrightarrow> task_next (tasks s' t) = task_next (tasks s t)"
  shows "task_chain s' ts = task_chain s ts"
  using assms by (simp add: task_chain_def)

lemma task_list_cong:
  assumes "task_head s' = task_head s" "task_tail s' = task_tail s"
    "\<And>t. t \<in> set ts \<Longrightarrow> task_next (tasks s' t) = task_next (tasks s t) \<and> task_prev (tasks s' t) = task_prev (tasks s t)"
  shows "task_list s' ts = task_list s ts"
  using assms task_chain_cong [of s' s ts] by (auto simp: task_list_def)

lemma task_chain_nonnull: "task_chain s ts \<Longrightarrow> j < length ts \<Longrightarrow> ts ! j \<noteq> 0"
  by (metis task_chain_def nth_mem)

lemma task_get_next_robin:
  assumes "task_chain s ts" "i < length ts" "task_current s = ts ! i"
  shows "task_get_next s = ts ! (Suc i mod length ts)"
proof -
  note nz = task_chain_nonnull [OF assms(1)]
  have nx: "task_next (tasks s (ts ! i)) = next_link ts i" using assms(1,2) by (simp add: task_chain_def)
  show ?thesis
  proof (cases "Suc i < length ts")
    case True
    then show ?thesis using nz [OF True] nx assms(3) by (simp add: task_get_next_def next_link_def)
  next
    case False
    then have "Suc i = length ts" using assms(2) by simp
    moreover from this have "ts \<noteq> []" by auto
    ultimately show ?thesis using nx assms by (cases ts) (auto simp: task_get_next_def next_link_def task_chain_def)
  qed
qed

section \<open>The clock\<close>

lemma save_all_registers:
  "(r\<lparr>ip := ip f, cs := cs f, eflags := eflags f, esp := esp f, ss := ss f, eax := eax f, ebp := ebp f, ebx := ebx f,
     ecx := ecx f, edi := edi f, edx := edx f, esi := esi f\<rparr> :: registers) = f"
  by (cases f) simp

text \<open>Switching saves the interrupted task and resumes the next of the list.\<close>

definition clock_ready :: "'a kernel_state_scheme \<Rightarrow> u32 list \<Rightarrow> bool" where
  "clock_ready s ts \<longleftrightarrow> task_chain s ts \<and> int_callbacks s ! 0x20 = Some Idt_clock"

lemma clock_tick:
  fixes frame :: registers
  assumes "clock_ready s ts" "i < length ts" "task_current s = ts ! i"
  defines "t \<equiv> ts ! (Suc i mod length ts)"
  defines "saved \<equiv> (tasks s)(ts ! i := (tasks s (ts ! i))\<lparr>regs := frame\<rparr>)"
  defines "rg \<equiv> (regs (saved t))\<lparr>eflags := flags_reg s OR 0x200\<rparr>"
  shows "\<exists>s'. interrupt_handler term s 0x20 frame = Some (User_mode rg, s') \<and> clock_ready s' ts \<and>
    task_current s' = t \<and> tasks s' = saved \<and> page_reg s' = dir_entries (mem s) (page_dir (tasks s t)) \<and> mem s' = mem s"
proof -
  define s2 where "s2 = task_save_state (kernel_page s) (ts ! i) frame"
  define s3 where "s3 = outb s2 0x20 0x20"
  have nz: "ts ! j \<noteq> 0" if "j < length ts" for j using that assms(1) task_chain_nonnull by (auto simp: clock_ready_def)
  have n: "0 < length ts" "Suc i mod length ts < length ts" using assms(2) mod_less_divisor [of "length ts" "Suc i"] by linarith+
  have s3: "tasks s3 = saved" "task_head s3 = task_head s" "task_current s3 = ts ! i" "int_callbacks s3 = int_callbacks s" "mem s3 = mem s"
    "flags_reg s3 = flags_reg s"
    using assms(3)
    by (simp_all add: s3_def s2_def saved_def outb_def task_save_state_def save_all_registers kernel_page_def kernel_registers_def paging_switch_def)
  have chain: "task_chain s3 ts"
    using assms(1) task_chain_cong [of s3 s ts] s3 by (simp add: clock_ready_def saved_def)
  have nxt: "task_get_next s3 = t" using task_get_next_robin [OF chain assms(2) s3(3)] by (simp add: t_def)
  define s4 where "s4 = task_switch s3 t"
  have "task_switch_next s3 = Some (User_mode rg, s4\<lparr>data_seg := ucast (ss (regs (saved t)))\<rparr>)"
    using nxt nz [OF n(2)] by (simp add: task_switch_next_def t_def [symmetric] s4_def rg_def task_return_def task_switch_def paging_switch_def s3)
  then have run: "run_callback term Idt_clock s2 = Some (User_mode rg, s4\<lparr>data_seg := ucast (ss (regs (saved t)))\<rparr>)"
    by (simp add: idt_clock_def s3_def)
  have "task_current_save_state (kernel_page s) frame = Some s2"
    using assms(3) nz [OF assms(2)] by (simp add: task_current_save_state_def s2_def)
  moreover have "int_callbacks (kernel_page s) ! 0x20 = Some Idt_clock"
    using assms(1) by (simp add: clock_ready_def kernel_page_def kernel_registers_def paging_switch_def)
  ultimately have "interrupt_handler term s 0x20 frame =
      Some (User_mode rg, s4\<lparr>data_seg := ucast (ss (regs (saved t)))\<rparr>)"
    using run by (simp add: interrupt_handler_def config_simps Let_def)
  moreover have "clock_ready (s4\<lparr>data_seg := d\<rparr>) ts" for d
    using chain assms(1) task_chain_cong [of "s4\<lparr>data_seg := d\<rparr>" s3 ts]
    by (simp add: clock_ready_def s4_def task_switch_def paging_switch_def s3)
  moreover have "page_dir (saved t) = page_dir (tasks s t)" by (simp add: saved_def)
  ultimately show ?thesis by (simp add: s4_def task_switch_def paging_switch_def s3)
qed

section \<open>New tasks\<close>

text \<open>The allocator and the construction of a page directory leave the variables of the kernel alone.\<close>

lemma paging_new_dir_more: "kheap_state.more (paging_new_dir i ents offset flags s) = kheap_state.more s"
proof (induction i ents offset flags s rule: paging_new_dir.induct)
  case (1 i ents offset flags s)
  show ?case
  proof (cases "i < unat PAGING_TOTAL_ENTRIES_PER_TABLE")
    case True
    obtain e s1 where al: "kzalloc s (4 * PAGING_TOTAL_ENTRIES_PER_TABLE) = (e, s1)" by force
    show ?thesis
      using "1.IH" [OF True al [symmetric] refl refl refl] kzalloc_more [OF al] True
      by (subst paging_new_dir.simps) (simp add: al Let_def)
  qed (subst paging_new_dir.simps, simp)
qed

lemma kzalloc_snd_more [simp]: "kheap_state.more (snd (kzalloc s sz)) = kheap_state.more s"
  by (rule kzalloc_more [OF prod.collapse [symmetric]])

lemma paging_new_more: "kheap_state.more (snd (paging_new s flags)) = kheap_state.more s"
  by (simp add: paging_new_def paging_new_dir_more Let_def split_beta)

text \<open>The task that \<^verbatim>\<open>task_new\<close> builds, before it is linked.\<close>

lemma task_init_builds:
  assumes "kheap_wf s" "1026 \<le> kavail s" "task_init s t proc = (r, s')"
  shows "r = 0 \<and> (\<exists>rg. tasks s' = (tasks s)(t := \<lparr>page_dir = page_dir (tasks s' t), regs = rg, task_next = 0, task_prev = 0,
      task_process = proc\<rparr>) \<and> esp rg = ENKI_PGM_VIRT_STACK_ADDR_START \<and> cs rg = ucast USER_CODE_SEG \<and> ss rg = ucast USER_DATA_SEG) \<and>
    page_dir_wf (mem s') (page_dir (tasks s' t)) \<and> task_head s' = task_head s \<and> task_tail s' = task_tail s \<and>
    task_current s' = task_current s"
proof -
  define s1 where "s1 = s\<lparr>tasks := (tasks s)(t := zero_task)\<rparr>"
  define fl :: u8 where "fl = ucast (PAGING_IS_PRESENT OR PAGING_ACCESS_FROM_ALL)"
  obtain pd s2 where new: "paging_new s1 fl = (pd, s2)" by force
  have hp: "kheap_wf s1" "1026 \<le> kavail s1" using assms(1,2) by (simp_all add: s1_def kheap_view_defs)
  have eff: "pd \<noteq> 0" "page_dir_wf (mem s2) pd" using paging_new_effect(1,2) [OF hp new] by (simp_all add: dir_owned_def)
  have "kheap_state.more s2 = kheap_state.more s1" using paging_new_more [of s1 fl] new by simp
  note f = task_fields_more [OF this]
  show ?thesis
    using assms(3) eff unfolding task_init_def Let_def s1_def [symmetric] fl_def [symmetric] new prod.case
    by (auto simp: f s1_def zero_task_def)
qed

lemma task_new_appends_list:
  assumes "kheap_wf s" "1027 \<le> kavail s" "task_list s ts" "\<forall>u\<in>set ts. (u, 1) \<in> kallocs s" "task_new s proc = (t, s')"
  shows "t \<noteq> 0 \<and> t \<notin> set ts \<and> task_list s' (ts @ [t]) \<and> task_current s' = (if ts = [] then t else task_current s) \<and>
    task_process (tasks s' t) = proc \<and> esp (regs (tasks s' t)) = ENKI_PGM_VIRT_STACK_ADDR_START \<and>
    cs (regs (tasks s' t)) = ucast USER_CODE_SEG \<and> ss (regs (tasks s' t)) = ucast USER_DATA_SEG \<and> page_dir_wf (mem s') (page_dir (tasks s' t)) \<and>
    (\<forall>u. u \<noteq> t \<longrightarrow> tasks s' u = (if ts \<noteq> [] \<and> u = last ts then (tasks s u)\<lparr>task_next := t\<rparr> else tasks s u))"
proof -
  obtain p s1 where al: "kzalloc s 64 = (p, s1)" by force
  have pg: "kheap_wf s1" "p \<noteq> 0" "kavail s1 + 1 = kavail s" "\<And>q k. (q, k) \<in> kallocs s \<Longrightarrow> p \<noteq> q"
    using kzalloc_page [OF assms(1) _ _ _ al] assms(2) by simp_all
  note f1 = task_fields_more [OF kzalloc_more [OF al]]
  define s2 where "s2 = s1\<lparr>tasks := (tasks s1)(p := zero_task)\<rparr>"
  obtain r s3 where init: "task_init s2 p proc = (r, s3)" by force
  define pd where "pd = page_dir (tasks s3 p)"
  have "kheap_wf s2" "1026 \<le> kavail s2" using pg assms(2) by (simp_all add: s2_def kheap_view_defs)
  from task_init_builds [OF this init] obtain rg where r: "r = 0"
    and tk: "tasks s3 = (tasks s)(p := \<lparr>page_dir = pd, regs = rg, task_next = 0, task_prev = 0, task_process = proc\<rparr>)"
    and wf: "page_dir_wf (mem s3) pd"
    and rg: "esp rg = ENKI_PGM_VIRT_STACK_ADDR_START" "cs rg = ucast USER_CODE_SEG" "ss rg = ucast USER_DATA_SEG"
    and hd3: "task_head s3 = task_head s" "task_tail s3 = task_tail s" "task_current s3 = task_current s"
    by (auto simp: s2_def f1 pd_def)
  have fresh: "p \<notin> set ts" using assms(4) pg(4) by blast
  have run: "task_new s proc = (p, (if task_head s3 = 0 then s3\<lparr>task_head := p, task_current := p\<rparr>
      else let s' = s3\<lparr>tasks := (tasks s3)(task_tail s3 := (tasks s3 (task_tail s3))\<lparr>task_next := p\<rparr>)\<rparr>
           in s'\<lparr>tasks := (tasks s')(p := (tasks s' p)\<lparr>task_prev := task_tail s'\<rparr>)\<rparr>)\<lparr>task_tail := p\<rparr>)"
    unfolding task_new_def Let_def al prod.case s2_def [symmetric] init using pg(2) r by simp
  have t: "t = p" using run assms(5) by simp
  show ?thesis
  proof (cases "ts = []")
    case True
    then have "task_head s = 0" using assms(3) by (simp add: task_list_def task_chain_def)
    then show ?thesis
      using run assms(5) True pg(2) wf fresh t rg
      by (auto simp: hd3 tk task_list_def task_chain_def next_link_def prev_link_def)
  next
    case False
    have hd: "task_head s \<noteq> 0" "task_tail s = last ts" "task_tail s \<in> set ts" "p \<noteq> task_tail s"
      using False assms(3) fresh task_chain_nonnull [of s ts 0] by (cases ts; auto simp: task_list_def task_chain_def)+
    have s': "tasks s' = (tasks s)(last ts := (tasks s (last ts))\<lparr>task_next := p\<rparr>,
        p := \<lparr>page_dir = pd, regs = rg, task_next = 0, task_prev = last ts, task_process = proc\<rparr>)"
      "task_head s' = task_head s" "task_tail s' = p" "task_current s' = task_current s" "mem s' = mem s3"
      using run assms(5) hd by (auto simp: hd3 tk Let_def fun_upd_twist)
    have links: "task_next (tasks s' (ts ! i)) = next_link (ts @ [p]) i \<and> task_prev (tasks s' (ts ! i)) = prev_link (ts @ [p]) i"
      if "i < length ts" for i
    proof -
      have "ts ! i = last ts \<longleftrightarrow> i = length ts - 1"
        using that False assms(3) nth_eq_iff_index_eq [of ts i "length ts - 1"] by (auto simp: task_list_def task_chain_def last_conv_nth)
      moreover have "ts ! i \<noteq> p" using fresh that by auto
      moreover have "task_next (tasks s (ts ! i)) = next_link ts i" "task_prev (tasks s (ts ! i)) = prev_link ts i"
        using assms(3) that by (simp_all add: task_list_def task_chain_def)
      ultimately show ?thesis using that by (auto simp: s' next_link_def prev_link_def nth_append)
    qed
    have "task_list s' (ts @ [p])"
      unfolding task_list_def task_chain_def
    proof (intro conjI allI impI)
      show "distinct (ts @ [p])" "0 \<notin> set (ts @ [p])" using assms(3) fresh pg(2) by (auto simp: task_list_def task_chain_def)
      show "task_head s' = (case ts @ [p] of [] \<Rightarrow> 0 | t # _ \<Rightarrow> t)"
        using assms(3) False s'(2) by (cases ts) (simp_all add: task_list_def task_chain_def)
      show "task_tail s' = last (ts @ [p])" using s' by simp
      fix i assume "i < length (ts @ [p])"
      then consider "i < length ts" | "i = length ts" by fastforce
      then show "task_next (tasks s' ((ts @ [p]) ! i)) = next_link (ts @ [p]) i"
        "task_prev (tasks s' ((ts @ [p]) ! i)) = prev_link (ts @ [p]) i"
        using links False by (cases; auto simp: nth_append s' next_link_def prev_link_def last_conv_nth)+
    qed
    then show ?thesis using fresh t pg(2) wf False s' rg by (auto simp: hd(4))
  qed
qed

section \<open>Removing a task\<close>

lemma remove_tasks:
  "tasks (task_list_remove s t) =
    (let pr = task_prev (tasks s t)
     in if pr \<noteq> 0 then (tasks s)(pr := (tasks s pr)\<lparr>task_next := task_next (tasks s t)\<rparr>) else tasks s)"
  unfolding task_list_remove_def Let_def by (simp only: if_distrib [of tasks]) simp

lemma remove_keeps_prev: "task_prev (tasks (task_list_remove s t) u) = task_prev (tasks s u)"
  unfolding remove_tasks Let_def fun_upd_def by (simp only: if_distrib [of task_prev] if_distribR) simp

lemma remove_from_chain:
  assumes "task_list s (xs @ t # ys)"
  shows "task_chain (task_list_remove s t) (xs @ ys)"
proof -
  let ?ts = "xs @ t # ys" and ?s = "task_list_remove s t"
  have d: "distinct ?ts" "0 \<notin> set ?ts" and hd: "task_head s = hd ?ts" using assms by (cases xs; auto simp: task_list_def task_chain_def)+
  have nx: "task_next (tasks s (?ts ! i)) = next_link ?ts i" "task_prev (tasks s (?ts ! i)) = prev_link ?ts i" if "i < length ?ts" for i
    using assms that by (simp_all add: task_list_def task_chain_def)
  have t: "task_next (tasks s t) = (case ys of [] \<Rightarrow> 0 | y # _ \<Rightarrow> y)" "task_prev (tasks s t) = (if xs = [] then 0 else last xs)"
    using nx [of "length xs"] by (cases ys; cases xs rule: rev_cases; simp add: next_link_def prev_link_def nth_append)+
  have lx: "last xs \<noteq> 0" "last xs \<noteq> t" "last xs \<notin> set ys" if "xs \<noteq> []"
  proof -
    have "last xs \<in> set xs" using that by simp
    then show "last xs \<noteq> 0" "last xs \<noteq> t" "last xs \<notin> set ys" using d by (auto simp del: last_in_set)
  qed
  have nxt: "task_next (tasks ?s u) = (if xs \<noteq> [] \<and> u = last xs then task_next (tasks s t) else task_next (tasks s u))" for u
    using t(2) lx by (cases "xs = []") (auto simp: task_list_remove_def Let_def)
  have "task_head ?s = (if xs = [] then task_next (tasks s t) else hd xs)"
    using t(2) lx hd d by (cases xs) (auto simp: task_list_remove_def Let_def)
  then have "task_head ?s = (case xs @ ys of [] \<Rightarrow> 0 | u # _ \<Rightarrow> u)" using t(1) by (cases xs) simp_all
  moreover have "task_next (tasks ?s ((xs @ ys) ! i)) = next_link (xs @ ys) i" if i: "i < length (xs @ ys)" for i
  proof (cases "i < length xs")
    case True
    then have "xs ! i = last xs \<longleftrightarrow> i = length xs - 1"
      using d(1) nth_eq_iff_index_eq [of xs i "length xs - 1"] last_conv_nth [of xs] by (cases xs) simp_all
    moreover have "task_next (tasks s (xs ! i)) = next_link ?ts i" using nx [of i] True by (simp add: nth_append)
    ultimately show ?thesis using True nxt [of "xs ! i"] t(1) by (cases ys) (auto simp: next_link_def nth_append)
  next
    case False
    define j where "j = i - length xs"
    have j: "i = length xs + j" "j < length ys" using False i by (simp_all add: j_def)
    then have "ys ! j \<noteq> last xs" if "xs \<noteq> []" using lx(3) [OF that] by (metis nth_mem)
    moreover have "task_next (tasks s (ys ! j)) = next_link ?ts (Suc i)" using nx [of "Suc i"] j by (simp add: nth_append)
    ultimately show ?thesis using j nxt [of "ys ! j"] by (auto simp: next_link_def nth_append)
  qed
  ultimately show ?thesis using d by (simp add: task_chain_def)
qed

text \<open>The link back to a removed task stays, so removing the next task as well misses its predecessor.\<close>

lemma remove_neighbours:
  assumes "task_list s (xs @ a # b # c # ys)"
  shows "task_next (tasks (task_list_remove (task_list_remove s b) c) a) = c"
proof -
  let ?ts = "xs @ a # b # c # ys"
  have d: "distinct ?ts" "0 \<notin> set ?ts" using assms by (simp_all add: task_list_def task_chain_def)
  have links: "task_next (tasks s (?ts ! i)) = next_link ?ts i" "task_prev (tasks s (?ts ! i)) = prev_link ?ts i" if "i < length ?ts" for i
    using assms that by (simp_all add: task_list_def task_chain_def)
  have b: "task_prev (tasks s b) = a" "task_next (tasks s b) = c"
    using links [of "Suc (length xs)"] by (simp_all add: next_link_def prev_link_def nth_append)
  have c: "task_prev (tasks s c) = b"
    using links [of "Suc (Suc (length xs))"] by (simp add: prev_link_def nth_append)
  let ?s = "task_list_remove s b"
  have s1: "task_next (tasks ?s a) = c" "task_prev (tasks ?s c) = b"
    using b c d by (auto simp: task_list_remove_def Let_def)
  then show ?thesis using d by (auto simp: task_list_remove_def [of ?s] Let_def)
qed

section \<open>Properties\<close>

definition demo_kernel :: kernel_state where
  "demo_kernel = (kbd_state.extend (demo_kbd 0)
      (kernel_state.fields (replicate 256 None) 0x9500 0x9A00 0x9B00 0x9C00 0xA000 0xA100 (0, 0) 0 False 0xA200 0xA300))
     \<lparr>tasks := (\<lambda>a. if a = 0x01000000 then zero_task\<lparr>page_dir := 0x01010000, task_next := 0x01001000\<rparr>
                 else if a = 0x01001000 then zero_task\<lparr>page_dir := 0x01020000, task_next := 0x01002000, task_prev := 0x01000000\<rparr>
                 else if a = 0x01002000 then zero_task\<lparr>page_dir := 0x01030000, task_prev := 0x01001000\<rparr> else zero_task),
      task_head := 0x01000000, task_tail := 0x01002000, task_current := 0x01000000,
      int_callbacks := (replicate 512 None)[0x20 := Some Idt_clock]\<rparr>"

abbreviation demo_ts :: "u32 list" where
  "demo_ts \<equiv> [0x01000000, 0x01001000, 0x01002000]"

lemma demo_kernel_tasks: "task_list demo_kernel demo_ts" "clock_ready demo_kernel demo_ts" "task_current demo_kernel = 0x01000000"
proof -
  show list: "task_list demo_kernel demo_ts"
    by (auto simp: task_list_def task_chain_def demo_kernel_def zero_task_def next_link_def prev_link_def less_Suc_eq)
  show "task_current demo_kernel = 0x01000000" by (simp add: demo_kernel_def)
  have "int_callbacks demo_kernel ! 0x20 = Some Idt_clock" by (simp add: demo_kernel_def)
  then show "clock_ready demo_kernel demo_ts" using list by (simp add: clock_ready_def task_list_def)
qed

text \<open>
  C27: a clock interrupt stores the registers of the interrupted task, its flags included, changes no other task, and resumes
  the next task of the list with its own page directory and its own saved registers but for the flags: \<^verbatim>\<open>task_return\<close> hands over
  the flags that the kernel has at that moment with interrupts enabled, so the saved flags of the task are lost. After
  the last task it is the first one's turn.
\<close>

theorem clock_interrupt_switches:
  assumes "clock_ready s ts" "i < length ts" "task_current s = ts ! i" "t = ts ! (Suc i mod length ts)"
    and "saved = (tasks s)(ts ! i := (tasks s (ts ! i))\<lparr>regs := frame\<rparr>)"
  shows "\<exists>s'. interrupt_handler term s 0x20 frame = Some (User_mode ((regs (saved t))\<lparr>eflags := flags_reg s OR 0x200\<rparr>), s') \<and>
    task_current s' = t \<and> tasks s' = saved \<and> page_reg s' = dir_entries (mem s) (page_dir (tasks s t)) \<and> mem s' = mem s \<and> clock_ready s' ts"
  using clock_tick [OF assms(1-3), of "term" frame] unfolding assms(4,5) by blast

theorem clock_interrupt_switches_witness:
  "\<exists>s'. interrupt_handler (process_terminate 1) demo_kernel 0x20 (zero_registers\<lparr>eax := 7\<rparr>) = Some (User_mode (zero_registers\<lparr>eflags := 0x246\<rparr>), s') \<and>
    task_current s' = 0x01001000 \<and> eax (regs (tasks s' 0x01000000)) = 7"
proof -
  have "flags_reg demo_kernel = 0x46" "regs (tasks demo_kernel 0x01001000) = zero_registers"
    by (simp_all add: demo_kernel_def kbd_state.extend_def kernel_state.fields_def demo_kbd_defs zero_task_def)
  then show ?thesis
    using clock_interrupt_switches [OF demo_kernel_tasks(2), of 0 "0x01001000" _ "zero_registers\<lparr>eax := 7\<rparr>" "process_terminate 1"]
      demo_kernel_tasks(3) by fastforce
qed

text \<open>
  C28: with 1027 free blocks \<^verbatim>\<open>task_new\<close> returns a task that is none of the tasks of the list and
  appends it: the doubly linked list holds the old tasks in their order and then the new one, which
  belongs to the process, has the user segments and the top of the user stack in its registers and a well-formed page
  directory of its own. Of the other tasks only the old tail changes, in its link to the new task; the current task stays the
  current one unless the list was empty.
\<close>

theorem task_new_appends:
  assumes "kheap_wf s" "1027 \<le> kavail s" "task_list s ts" "\<forall>u\<in>set ts. (u, 1) \<in> kallocs s" "task_new s proc = (t, s')"
  shows "t \<noteq> 0 \<and> t \<notin> set ts \<and> task_list s' (ts @ [t]) \<and> task_current s' = (if ts = [] then t else task_current s) \<and>
    task_process (tasks s' t) = proc \<and> esp (regs (tasks s' t)) = ENKI_PGM_VIRT_STACK_ADDR_START \<and>
    cs (regs (tasks s' t)) = ucast USER_CODE_SEG \<and> ss (regs (tasks s' t)) = ucast USER_DATA_SEG \<and> page_dir_wf (mem s') (page_dir (tasks s' t)) \<and>
    (\<forall>u. u \<noteq> t \<longrightarrow> tasks s' u = (if ts \<noteq> [] \<and> u = last ts then (tasks s u)\<lparr>task_next := t\<rparr> else tasks s u))"
  using task_new_appends_list [OF assms] .

definition demo_boot :: task_state where
  "demo_boot = demo_tasks\<lparr>kernel_heap := demo_heap 2048, task_head := 0, task_tail := 0, task_current := 0\<rparr>"

text \<open>A kernel with one task on the list, in a block of the heap.\<close>

definition demo_boot_two :: "u32 \<times> task_state" where
  "demo_boot_two = (let (p, s) = kzalloc demo_boot 64 in (p, s\<lparr>tasks := (\<lambda>_. zero_task), task_head := p, task_tail := p, task_current := p\<rparr>))"

lemma demo_boot_two_ok:
  assumes "demo_boot_two = (p, s)"
  shows "kheap_wf s" "1027 \<le> kavail s" "task_list s [p]" "(p, 1) \<in> kallocs s" "task_current s = p" "tasks s u = zero_task"
proof -
  obtain q s1 where al: "kzalloc demo_boot 64 = (q, s1)" by force
  have "free_blocks (demo_heap 2048) = {0 ..< 2048}" by (auto simp: demo_heap_def heap_get_entry_type_def config_simps)
  then have hp: "kheap_wf demo_boot" "kavail demo_boot = 2048" by (simp_all add: demo_boot_def kheap_view_defs heap_avail_def demo_heap_wf)
  have pg: "kheap_wf s1" "q \<noteq> 0" "kavail s1 + 1 = kavail demo_boot" "(q, 1) \<in> kallocs s1"
    using kzalloc_page [OF hp(1) _ _ _ al] hp(2) by simp_all
  have s: "p = q" "s = s1\<lparr>tasks := (\<lambda>_. zero_task), task_head := q, task_tail := q, task_current := q\<rparr>"
    using assms al by (auto simp: demo_boot_two_def)
  show "kheap_wf s" "1027 \<le> kavail s" "(p, 1) \<in> kallocs s" "task_current s = p" "tasks s u = zero_task"
    using pg hp(2) by (simp_all add: s kheap_view_defs)
  show "task_list s [p]" using pg(2) by (simp add: s task_list_def task_chain_def next_link_def prev_link_def zero_task_def)
qed

theorem task_new_appends_witness:
  "\<exists>p s t s'. demo_boot_two = (p, s) \<and> task_new s 0x01001000 = (t, s') \<and> task_list s' [p, t] \<and> t \<noteq> p \<and> task_current s' = p \<and>
    tasks s' p = zero_task\<lparr>task_next := t\<rparr> \<and> task_process (tasks s' t) = 0x01001000"
proof -
  obtain p s where b: "demo_boot_two = (p, s)" by force
  note ok = demo_boot_two_ok [OF b]
  obtain t s' where n: "task_new s 0x01001000 = (t, s')" by force
  from task_new_appends [OF ok(1-3) _ n] ok(4-6) have "t \<noteq> p \<and> task_list s' [p, t] \<and> task_current s' = p \<and>
      tasks s' p = zero_task\<lparr>task_next := t\<rparr> \<and> task_process (tasks s' t) = 0x01001000" by auto
  then show ?thesis using b n by blast
qed

text \<open>
  removing a task from a consistent list leaves the forward chain of the other tasks, in their
  order. The link back from the next task is not repaired: when the next task is removed too, the
  task before both still leads to it, although it is freed.
\<close>

theorem task_remove_chain_and_stale_link:
  assumes "task_list s (xs @ a # b # c # ys)"
  shows "task_chain (task_list_remove s b) (xs @ a # c # ys) \<and> task_prev (tasks (task_list_remove s b) c) = b \<and>
    task_next (tasks (task_list_remove (task_list_remove s b) c) a) = c"
proof -
  have "task_prev (tasks s ((xs @ a # b # c # ys) ! Suc (Suc (length xs)))) = prev_link (xs @ a # b # c # ys) (Suc (Suc (length xs)))"
    using assms unfolding task_list_def by simp
  then have "task_prev (tasks s c) = b" by (simp add: prev_link_def nth_append)
  then have "task_prev (tasks (task_list_remove s b) c) = b" by (simp only: remove_keeps_prev)
  then show ?thesis using remove_from_chain [of s "xs @ [a]" b "c # ys"] remove_neighbours [OF assms] assms by simp
qed

theorem task_remove_chain_and_stale_link_witness:
  "task_chain (task_list_remove demo_kernel 0x01001000) [0x01000000, 0x01002000] \<and>
   task_next (tasks (task_list_remove (task_list_remove demo_kernel 0x01001000) 0x01002000) 0x01000000) = 0x01002000"
  using task_remove_chain_and_stale_link [of demo_kernel "[]" "0x01000000" "0x01001000" "0x01002000" "[]"] demo_kernel_tasks(1) by simp

end
