(* ===== verification/Process_Load.thy ===== *)
theory Process_Load
  imports Elf_Proofs Sched_Proofs
begin

unbundle bit_operations_syntax

text \<open>
  Loading a process: \<^verbatim>\<open>process_map_elf\<close> and \<^verbatim>\<open>process_map_bin\<close> make the image of the program visible at its virtual
  addresses, and \<^verbatim>\<open>process_load_slot\<close> builds the whole process from the path of a program.
\<close>

section \<open>Segments\<close>

lemma align_lower_add: "4096 dvd unat b \<Longrightarrow> paging_align_to_lower (b + x) = b + paging_align_to_lower x"
  by (simp add: paging_align_to_lower_def mod_page_add config_simps)

lemma align_address_add: "4096 dvd unat b \<Longrightarrow> paging_align_address (b + x) = b + paging_align_address x"
  by (simp add: paging_align_address_def mod_page_add config_simps)

lemma lower_unat: "unat (paging_align_to_lower x) = unat x - unat x mod 4096" "4096 dvd unat (paging_align_to_lower x)"
proof -
  show u: "unat (paging_align_to_lower x) = unat x - unat x mod 4096"
    by (simp add: paging_align_to_lower_def config_simps unat_sub word_le_nat_alt unat_mod)
  show "4096 dvd unat (paging_align_to_lower x)" unfolding u by simp
qed

lemma align_unat:
  assumes "unat x < 2 ^ 31"
  shows "unat x \<le> unat (paging_align_address x)" "unat (paging_align_address x) < unat x + 4096" "4096 dvd unat (paging_align_address x)"
proof -
  let ?r = "unat x mod 4096"
  have m: "unat (x mod 4096) = ?r" "?r < 4096" "?r \<le> unat x" by (simp_all add: unat_mod)
  have "unat (x + 4096 - x mod 4096) = unat x + 4096 - ?r"
    using assms m by (simp add: unat_sub_if' unat_word_ariths)
  moreover have "x mod 4096 = 0 \<longleftrightarrow> ?r = 0" using m(1) by (simp add: word_unat_eq_iff)
  ultimately have a: "unat (paging_align_address x) = (if ?r = 0 then unat x else unat x + 4096 - ?r)"
    by (simp add: paging_align_address_def config_simps)
  have "4096 dvd unat x + 4096 - ?r"
  proof -
    have "unat x + 4096 - ?r = (unat x - ?r) + 4096" using m by simp
    then show ?thesis by (simp only: dvd_add_triv_right_iff dvd_minus_mod)
  qed
  then show "4096 dvd unat (paging_align_address x)" by (auto simp: a)
  show "unat x \<le> unat (paging_align_address x)" "unat (paging_align_address x) < unat x + 4096" using m by (auto simp: a)
qed

text \<open>The pages \<^verbatim>\<open>process_map_elf\<close> maps for the program header at \<open>p\<close>, and what it maps them to.\<close>

definition seg_len :: "memory \<Rightarrow> u32 \<Rightarrow> u32" where
  "seg_len fm p = paging_align_address (p_offset fm p + p_memsz fm p) - paging_align_to_lower (p_offset fm p)"

definition seg_flags :: "memory \<Rightarrow> u32 \<Rightarrow> u32" where
  "seg_flags fm p = (PAGING_IS_PRESENT OR PAGING_ACCESS_FROM_ALL) OR (if p_flags fm p AND PF_W \<noteq> 0 then PAGING_IS_WRITEABLE else 0)"

definition seg_maps :: "memory \<Rightarrow> u32 \<Rightarrow> u32 \<Rightarrow> bool" where
  "seg_maps fm p w \<longleftrightarrow> w - paging_align_to_lower (p_vaddr fm p) < seg_len fm p"

definition seg_page :: "memory \<Rightarrow> u32 \<Rightarrow> u32 \<Rightarrow> u32 \<Rightarrow> u32" where
  "seg_page fm b p w = (b + paging_align_to_lower (p_offset fm p) + (w - paging_align_to_lower (p_vaddr fm p))) OR seg_flags fm p"

definition seg_small :: "memory \<Rightarrow> u32 \<Rightarrow> bool" where
  "seg_small fm p \<longleftrightarrow> unat (p_offset fm p) + unat (p_memsz fm p) < 2 ^ 30"

lemma seg_range:
  assumes "4096 dvd unat b" "unat b < 2 ^ 31" "seg_small fm p"
  defines "lo \<equiv> paging_align_to_lower (b + p_offset fm p)" and "hi \<equiv> paging_align_address (b + p_offset fm p + p_memsz fm p)"
  shows "lo = b + paging_align_to_lower (p_offset fm p)" "hi - lo = seg_len fm p" "4096 dvd unat lo" "4096 dvd unat hi" "lo \<le> hi"
    "unat (seg_len fm p) < 2 ^ 31"
proof -
  let ?o = "p_offset fm p" and ?e = "p_offset fm p + p_memsz fm p"
  have e: "unat ?e = unat ?o + unat (p_memsz fm p)" using assms(3) by (simp add: seg_small_def unat_word_ariths)
  then have e2: "unat ?e < 2 ^ 30" using assms(3) by (simp add: seg_small_def)
  show lo: "lo = b + paging_align_to_lower ?o" unfolding lo_def by (rule align_lower_add [OF assms(1)])
  have hi: "hi = b + paging_align_address ?e" unfolding hi_def add.assoc by (rule align_address_add [OF assms(1)])
  show "hi - lo = seg_len fm p" unfolding hi lo seg_len_def by simp
  have e31: "unat ?e < 2 ^ 31" using e2 by simp
  note a = align_unat [OF e31]
  have l: "unat (paging_align_to_lower ?o) \<le> unat ?o" by (simp add: lower_unat)
  have le: "unat (paging_align_to_lower ?o) \<le> unat (paging_align_address ?e)" using a(1) l e by linarith
  have ub: "unat (b + paging_align_address ?e) = unat b + unat (paging_align_address ?e)"
    "unat (b + paging_align_to_lower ?o) = unat b + unat (paging_align_to_lower ?o)"
    using assms(2) a(2) e2 le by (simp_all add: unat_word_ariths)
  show "4096 dvd unat lo" "4096 dvd unat hi"
    unfolding lo hi ub using assms(1) lower_unat(2) a(3) by (simp_all only: dvd_add)
  show "lo \<le> hi" unfolding word_le_nat_alt lo hi ub using le by simp
  have "unat (seg_len fm p) = unat (paging_align_address ?e) - unat (paging_align_to_lower ?o)"
    unfolding seg_len_def using le by (simp add: unat_sub word_le_nat_alt)
  then show "unat (seg_len fm p) < 2 ^ 31" using a(2) e2 by simp
qed

text \<open>Mapping writes the tables of the directory only.\<close>

definition mapped :: "'a paging_state_scheme \<Rightarrow> u32 \<Rightarrow> memory \<Rightarrow> (u32 \<Rightarrow> u32) \<Rightarrow> bool" where
  "mapped s dir m f \<longleftrightarrow> dir_owned (s\<lparr>mem := m\<rparr>) dir \<and> dir_pages m dir = dir_pages (mem s) dir \<and>
     (\<forall>w. 4096 dvd unat w \<longrightarrow> paging_get m (dir_entries m dir) w = f w) \<and>
     (\<forall>q k a. (q, k) \<in> kallocs s \<and> q \<notin> dir_pages (mem s) dir \<and> a \<in> extent q k \<longrightarrow> m a = mem s a)"

lemma map_range:
  assumes own: "dir_owned s dir" and al: "4096 dvd unat v" "4096 dvd unat p" "4096 dvd unat e" "p \<le> e" "unat (e - p) < 2 ^ 31"
    and map: "paging_map_to dir v p e flags (mem s) = (r, m)"
  shows "r = 0" "mapped s dir m (\<lambda>w. if w - v < e - p then (p + (w - v)) OR flags else paging_get (mem s) (dir_entries (mem s) dir) w)"
proof -
  have wf: "kheap_wf s" and pd: "page_dir_wf (mem s) dir" and pages: "\<And>q. q \<in> dir_pages (mem s) dir \<Longrightarrow> (q, 1) \<in> kallocs s"
    using own by (simp_all add: dir_owned_def)
  note eff = paging_map_to_frame [OF pd al map]
  show "r = 0" by (rule eff(1))
  have "m a = mem s a" if "(q, k) \<in> kallocs s" "q \<notin> dir_pages (mem s) dir" "a \<in> extent q k" for q k a
  proof (rule eff(6))
    fix x assume x: "x \<in> dir_pages (mem s) dir"
    then have "x \<noteq> q" using that(2) by blast
    then show "a \<notin> extent x 1" using kz.allocs_disjoint [OF wf pages [OF x] that(1)] that(3) by blast
  qed
  then have "\<forall>q k a. (q, k) \<in> kallocs s \<and> q \<notin> dir_pages (mem s) dir \<and> a \<in> extent q k \<longrightarrow> m a = mem s a" by blast
  moreover have "dir_owned (s\<lparr>mem := m\<rparr>) dir" using own eff(2,3,4) by (simp add: dir_owned_def)
  ultimately show "mapped s dir m (\<lambda>w. if w - v < e - p then (p + (w - v)) OR flags else paging_get (mem s) (dir_entries (mem s) dir) w)"
    unfolding mapped_def using eff(3,4,5) by simp
qed

lemma mapped_live: "mapped s dir m f \<Longrightarrow> (q, k) \<in> kallocs s \<Longrightarrow> q \<notin> dir_pages (mem s) dir \<Longrightarrow> a \<in> extent q k \<Longrightarrow> m a = mem s a"
  unfolding mapped_def by blast

lemma mapped_trans:
  assumes "mapped s dir m f" "mapped (s\<lparr>mem := m\<rparr>) dir m' g"
  shows "mapped s dir m' g"
  using assms unfolding mapped_def by simp

lemma mapped_cong: "mapped s dir m f \<Longrightarrow> (\<And>w. 4096 dvd unat w \<Longrightarrow> f w = g w) \<Longrightarrow> mapped s dir m g"
  unfolding mapped_def by simp

lemma mapped_id: "dir_owned s dir \<Longrightarrow> mapped s dir (mem s) (paging_get (mem s) (dir_entries (mem s) dir))"
  by (simp add: mapped_def)

text \<open>The page tables after the headers \<open>ps\<close>: the last header that covers a page decides.\<close>

definition seg_view :: "memory \<Rightarrow> u32 \<Rightarrow> u32 list \<Rightarrow> u32 \<Rightarrow> u32 \<Rightarrow> u32" where
  "seg_view fm b ps w x = foldl (\<lambda>x p. if seg_maps fm p w then seg_page fm b p w else x) x ps"

abbreviation phdr :: "memory \<Rightarrow> nat \<Rightarrow> u32" where
  "phdr fm i \<equiv> elf_program_header fm 0 (of_nat i)"

text \<open>The image at \<open>b\<close> is in a live allocation that is not a page of the directory.\<close>

definition map_ctx :: "'a proc_state_scheme \<Rightarrow> u32 \<Rightarrow> u32 \<Rightarrow> u32 \<Rightarrow> nat \<Rightarrow> memory \<Rightarrow> bool" where
  "map_ctx s dir ef b sz fm \<longleftrightarrow> dir_owned s dir \<and> (b, blocks_for (of_nat sz)) \<in> kallocs s \<and> b \<notin> dir_pages (mem s) dir \<and>
     image_at (mem s) b sz fm \<and> unat b < 2 ^ 31 \<and> elf_mem (elf_files s ef) = b"

lemma image_at_cong:
  assumes "image_at m b sz fm" "\<And>a. a \<in> extent b (blocks_for (of_nat sz)) \<Longrightarrow> m' a = m a" "sz < 2 ^ 32"
  shows "image_at m' b sz fm"
proof -
  have "b + k \<in> extent b (blocks_for (of_nat sz))" if "unat k < sz" for k
    using subsetD [OF out_bytes_extent [OF assms(3), of b], of "b + k"] that by simp
  then show ?thesis using assms(1,2) by (simp add: image_at_def)
qed

lemma map_ctx_mapped:
  assumes "map_ctx s dir ef b sz fm" "mapped s dir m f" "sz < 2 ^ 32"
  shows "map_ctx (s\<lparr>mem := m\<rparr>) dir ef b sz fm"
proof -
  note c = assms(1) [unfolded map_ctx_def]
  have b: "(b, blocks_for (of_nat sz)) \<in> kallocs s" "b \<notin> dir_pages (mem s) dir" "image_at (mem s) b sz fm" using c by simp_all
  have "image_at m b sz fm" by (rule image_at_cong [OF b(3) mapped_live [OF assms(2) b(1,2)] assms(3)])
  then show ?thesis using c assms(2) by (simp add: map_ctx_def mapped_def)
qed

lemma map_segment:
  assumes ctx: "map_ctx s dir ef b sz fm" and sz: "elf_sized fm sz" "e_phoff fm 0 \<noteq> 0" "i < unat (e_phnum fm 0)" "seg_small fm (phdr fm i)"
    and dir: "page_dir (tasks s (proc_task (procs s proc))) = dir"
  shows "\<exists>m. process_map_phdrs (Suc n) s proc ef (b + e_phoff fm 0) (of_nat i) r0 = process_map_phdrs n (s\<lparr>mem := m\<rparr>) proc ef (b + e_phoff fm 0) (of_nat (Suc i)) 0 \<and>
    mapped s dir m (\<lambda>w. if seg_maps fm (phdr fm i) w then seg_page fm b (phdr fm i) w else paging_get (mem s) (dir_entries (mem s) dir) w)"
proof -
  let ?p = "phdr fm i" and ?m = "mem s"
  note c = ctx [unfolded map_ctx_def]
  have im: "image_at ?m b sz fm" and own: "dir_owned s dir" and lb: "unat b < 2 ^ 31" "elf_mem (elf_files s ef) = b" using c by simp_all
  have al: "4096 dvd unat b" using kz.allocs_addr [of s b "blocks_for (of_nat sz)"] c by (simp add: dir_owned_def)
  have p: "b + e_phoff fm 0 + 32 * of_nat i = b + ?p" using sz(2) by (simp add: elf_program_header_def elf_pheader_def add.assoc)
  note f = image_phdr_fields [OF im sz(1-3)]
  note r = seg_range [OF al lb(1) sz(4)]
  obtain r1 m where map: "paging_map_to dir (paging_align_to_lower (p_vaddr fm ?p)) (paging_align_to_lower (b + p_offset fm ?p))
      (paging_align_address (b + p_offset fm ?p + p_memsz fm ?p)) (seg_flags fm ?p) ?m = (r1, m)" by force
  have len: "unat (paging_align_address (b + p_offset fm ?p + p_memsz fm ?p) - paging_align_to_lower (b + p_offset fm ?p)) < 2 ^ 31" using r(2,6) by simp
  note mr = map_range [OF own lower_unat(2) r(3,4,5) len map]
  have fl: "seg_flags ?m (b + ?p) = seg_flags fm ?p" by (simp add: seg_flags_def f)
  have one: "of_nat i + 1 = (of_nat (Suc i) :: u32)" by simp
  have "process_map_phdrs (Suc n) s proc ef (b + e_phoff fm 0) (of_nat i) r0 = process_map_phdrs n (s\<lparr>mem := m\<rparr>) proc ef (b + e_phoff fm 0) (of_nat (Suc i)) 0"
    unfolding process_map_phdrs.simps Let_def p f elf_phdr_phys_addr_def elf_memory_def lb(2) dir seg_flags_def [symmetric]
    unfolding seg_flags_def [of ?m, symmetric] fl map prod.case mr(1) one by simp
  moreover have "mapped s dir m (\<lambda>w. if seg_maps fm ?p w then seg_page fm b ?p w else paging_get ?m (dir_entries ?m dir) w)"
    by (rule mapped_cong [OF mr(2)]) (simp only: r(2) [unfolded r(1)] r(1) seg_maps_def seg_page_def)
  ultimately show ?thesis by blast
qed

lemma process_map_phdrs_effect:
  assumes "map_ctx s dir ef b sz fm" "elf_sized fm sz" "e_phoff fm 0 \<noteq> 0" "i + n \<le> unat (e_phnum fm 0)"
    "\<And>j. j < unat (e_phnum fm 0) \<Longrightarrow> seg_small fm (phdr fm j)" "page_dir (tasks s (proc_task (procs s proc))) = dir"
  shows "\<exists>m. process_map_phdrs n s proc ef (b + e_phoff fm 0) (of_nat i) 0 = (0, s\<lparr>mem := m\<rparr>) \<and>
    mapped s dir m (\<lambda>w. seg_view fm b (map (phdr fm) [i..<i + n]) w (paging_get (mem s) (dir_entries (mem s) dir) w))"
  using assms
proof (induction n arbitrary: s i)
  case 0
  then show ?case using mapped_id [of s dir] by (auto simp: map_ctx_def seg_view_def intro!: exI [of _ "mem s"])
next
  case (Suc n)
  have i: "i < unat (e_phnum fm 0)" and sz: "sz < 2 ^ 32" using Suc.prems(2,4) by (simp_all add: elf_sized_def)
  obtain m where m: "process_map_phdrs (Suc n) s proc ef (b + e_phoff fm 0) (of_nat i) 0 =
      process_map_phdrs n (s\<lparr>mem := m\<rparr>) proc ef (b + e_phoff fm 0) (of_nat (Suc i)) 0"
    "mapped s dir m (\<lambda>w. if seg_maps fm (phdr fm i) w then seg_page fm b (phdr fm i) w else paging_get (mem s) (dir_entries (mem s) dir) w)"
    using map_segment [OF Suc.prems(1-3) i Suc.prems(5) [OF i] Suc.prems(6)] by blast
  let ?s = "s\<lparr>mem := m\<rparr>"
  obtain m' where m': "process_map_phdrs n ?s proc ef (b + e_phoff fm 0) (of_nat (Suc i)) 0 = (0, ?s\<lparr>mem := m'\<rparr>)"
    "mapped ?s dir m' (\<lambda>w. seg_view fm b (map (phdr fm) [Suc i..<Suc i + n]) w (paging_get (mem ?s) (dir_entries (mem ?s) dir) w))"
    using Suc.IH [OF map_ctx_mapped [OF Suc.prems(1) m(2) sz] Suc.prems(2,3) _ Suc.prems(5), of "Suc i"] Suc.prems(4,6) by auto
  have "mapped s dir m' (\<lambda>w. seg_view fm b (map (phdr fm) [i..<i + Suc n]) w (paging_get (mem s) (dir_entries (mem s) dir) w))"
  proof (rule mapped_cong [OF mapped_trans [OF m(2) m'(2)]])
    fix w :: u32 assume w: "4096 dvd unat w"
    have get: "paging_get m (dir_entries m dir) w = (if seg_maps fm (phdr fm i) w then seg_page fm b (phdr fm i) w
        else paging_get (mem s) (dir_entries (mem s) dir) w)" using m(2) w by (simp add: mapped_def)
    have up: "[i..<i + Suc n] = i # [Suc i..<Suc i + n]" by (simp add: upt_conv_Cons)
    show "seg_view fm b (map (phdr fm) [Suc i..<Suc i + n]) w (paging_get (mem ?s) (dir_entries (mem ?s) dir) w) =
        seg_view fm b (map (phdr fm) [i..<i + Suc n]) w (paging_get (mem s) (dir_entries (mem s) dir) w)"
      unfolding up seg_view_def by (simp add: get)
  qed
  then show ?case using m(1) m'(1) by auto
qed

section \<open>The memory of a process\<close>

abbreviation phdrs_of :: "memory \<Rightarrow> u32 list" where
  "phdrs_of fm \<equiv> map (phdr fm) [0..<unat (e_phnum fm 0)]"

text \<open>The stack is mapped below \<^verbatim>\<open>ENKI_PGM_VIRT_STACK_ADDR_START\<close>; it is mapped last and decides over a segment there.\<close>

definition with_stack :: "u32 \<Rightarrow> (u32 \<Rightarrow> u32) \<Rightarrow> u32 \<Rightarrow> u32" where
  "with_stack stk f w = (if w - 0x3FB000 < 0x4000 then (stk + (w - 0x3FB000)) OR 7 else f w)"

lemma stack_end:
  assumes "(stk, 4) \<in> kallocs s" "kheap_wf s" "\<forall>a\<in>kregion s. unat a < 2 ^ 31"
  shows "4096 dvd unat stk" "stk \<le> stk + 0x4000" "paging_align_address (stk + 0x4000) = stk + 0x4000" "4096 dvd unat (stk + 0x4000)"
proof -
  have b: "blocks_for 0x4000 = 4" by (simp add: blocks_for_def)
  note h = heap_block_end [OF assms(2,3), of stk "0x4000", unfolded b, OF assms(1)]
  show al: "4096 dvd unat stk" by (rule h(1)) simp
  then show e: "paging_align_address (stk + 0x4000) = stk + 0x4000"
    by (simp add: paging_align_address_def config_simps mod_page_add)
  show "stk \<le> stk + 0x4000" "4096 dvd unat (stk + 0x4000)" using h(2,3) unfolding e by simp_all
qed

lemma map_stack:
  assumes "dir_owned s dir" "(stk, 4) \<in> kallocs s" "\<forall>a\<in>kregion s. unat a < 2 ^ 31"
    and "paging_map_to dir ENKI_PGM_VIRT_STACK_ADDR_END stk (paging_align_address (stk + ENKI_USER_PGM_STACK_SIZE)) user_rw (mem s) = (r, m)"
  shows "mapped s dir m (with_stack stk (paging_get (mem s) (dir_entries (mem s) dir)))"
proof -
  have wf: "kheap_wf s" using assms(1) by (simp add: dir_owned_def)
  note e = stack_end [OF assms(2) wf assms(3)]
  have c: "ENKI_PGM_VIRT_STACK_ADDR_END = 0x3FB000" "ENKI_USER_PGM_STACK_SIZE = 0x4000" "user_rw = 7" by (simp_all add: config_simps)
  have "mapped s dir m (\<lambda>w. if w - 0x3FB000 < stk + 0x4000 - stk then (stk + (w - 0x3FB000)) OR 7 else paging_get (mem s) (dir_entries (mem s) dir) w)"
    using map_range(2) [OF assms(1) _ e(1,4,2), of "0x3FB000" 7 r m] assms(4) unfolding c e(3) by (simp add: dvd_def)
  then show ?thesis by (rule mapped_cong) (simp add: with_stack_def)
qed

lemma process_map_elf_effect:
  assumes ctx: "map_ctx s dir (image (procs s proc)) b sz fm" and sz: "elf_sized fm sz" "e_phoff fm 0 \<noteq> 0"
    and small: "\<And>j. j < unat (e_phnum fm 0) \<Longrightarrow> seg_small fm (phdr fm j)" and dir: "proc_dir s proc = dir"
  shows "\<exists>m. process_map_elf s proc = (0, s\<lparr>mem := m\<rparr>) \<and>
    mapped s dir m (\<lambda>w. seg_view fm b (phdrs_of fm) w (paging_get (mem s) (dir_entries (mem s) dir) w))"
proof -
  note c = ctx [unfolded map_ctx_def]
  have h: "elf_header s (image (procs s proc)) = b" using c by (simp add: elf_header_def)
  have im: "image_at (mem s) b sz fm" "52 \<le> sz" "sz < 2 ^ 31" using c sz(1) by (simp_all add: elf_sized_def)
  note i = image_header [OF im]
  have "process_map_elf s proc = process_map_phdrs (unat (e_phnum fm 0)) s proc (image (procs s proc)) (b + e_phoff fm 0) (of_nat 0) 0"
    using sz(2) by (simp add: process_map_elf_def h i elf_pheader_def)
  then show ?thesis using process_map_phdrs_effect [OF ctx sz _ small dir, of 0 "unat (e_phnum fm 0)"] by simp
qed

lemma process_map_memory_elf:
  assumes ctx: "map_ctx s dir (image (procs s proc)) b sz fm" and sz: "elf_sized fm sz" "e_phoff fm 0 \<noteq> 0"
    and small: "\<And>j. j < unat (e_phnum fm 0) \<Longrightarrow> seg_small fm (phdr fm j)" and dir: "proc_dir s proc = dir"
    and ft: "file_type (procs s proc) = PROCESS_FILE_TYPE_ELF" and stk: "(proc_stack (procs s proc), 4) \<in> kallocs s" "\<forall>a\<in>kregion s. unat a < 2 ^ 31"
  shows "\<exists>m. process_map_memory s proc = Some (0, s\<lparr>mem := m\<rparr>) \<and>
    mapped s dir m (with_stack (proc_stack (procs s proc)) (\<lambda>w. seg_view fm b (phdrs_of fm) w (paging_get (mem s) (dir_entries (mem s) dir) w)))"
proof -
  obtain m where m: "process_map_elf s proc = (0, s\<lparr>mem := m\<rparr>)"
    "mapped s dir m (\<lambda>w. seg_view fm b (phdrs_of fm) w (paging_get (mem s) (dir_entries (mem s) dir) w))"
    using process_map_elf_effect [OF ctx sz small dir] by blast
  let ?stk = "proc_stack (procs s proc)" and ?s = "s\<lparr>mem := m\<rparr>"
  obtain r m' where map: "paging_map_to dir ENKI_PGM_VIRT_STACK_ADDR_END ?stk (paging_align_address (?stk + ENKI_USER_PGM_STACK_SIZE)) user_rw (mem ?s) = (r, m')"
    by force
  have own: "dir_owned ?s dir" using m(2) by (simp add: mapped_def)
  have ms: "mapped ?s dir m' (with_stack ?stk (paging_get (mem ?s) (dir_entries (mem ?s) dir)))"
    by (rule map_stack [OF own _ _ map]) (use stk in simp_all)
  have "PROCESS_FILE_TYPE_ELF \<noteq> PROCESS_FILE_TYPE_BIN" by (simp add: config_simps)
  then have "process_map_memory s proc = Some (0, ?s\<lparr>mem := m'\<rparr>)"
    using ft m(1) map dir by (simp add: process_map_memory_def)
  moreover have "mapped s dir m' (with_stack ?stk (\<lambda>w. seg_view fm b (phdrs_of fm) w (paging_get (mem s) (dir_entries (mem s) dir) w)))"
    by (rule mapped_cong [OF mapped_trans [OF m(2) ms]]) (use m(2) in \<open>simp add: with_stack_def mapped_def\<close>)
  ultimately show ?thesis by auto
qed

section \<open>What the program sees\<close>

text \<open>The byte of the program header at \<open>p\<close> with the number \<open>off\<close>, when the header decides over its page.\<close>

definition seg_ok :: "memory \<Rightarrow> nat \<Rightarrow> u32 \<Rightarrow> bool" where
  "seg_ok fm sz p \<longleftrightarrow> p_filesz fm p \<le> p_memsz fm p \<and> unat (p_offset fm p) + unat (p_filesz fm p) \<le> sz \<and>
     p_offset fm p mod 4096 = p_vaddr fm p mod 4096 \<and> 0x400000 \<le> p_vaddr fm p \<and> unat (p_vaddr fm p) + unat (p_filesz fm p) \<le> 2 ^ 32"

lemma seg_offset:
  assumes "seg_small fm p" "p_filesz fm p \<le> p_memsz fm p" "p_offset fm p mod 4096 = p_vaddr fm p mod 4096" "off < p_filesz fm p"
  defines "x \<equiv> p_vaddr fm p mod 4096 + off"
  shows "paging_align_to_lower (p_vaddr fm p + off) = paging_align_to_lower (p_vaddr fm p) + (x - x mod 4096)"
    "x - x mod 4096 < seg_len fm p" "p_offset fm p + off = paging_align_to_lower (p_offset fm p) + x"
proof -
  let ?v = "p_vaddr fm p" and ?o = "p_offset fm p"
  have vx: "?v + off = paging_align_to_lower ?v + x" unfolding x_def by (simp add: paging_align_to_lower_def config_simps)
  show "paging_align_to_lower (?v + off) = paging_align_to_lower ?v + (x - x mod 4096)"
    unfolding vx align_lower_add [OF lower_unat(2)] by (simp add: paging_align_to_lower_def config_simps)
  show ox: "?o + off = paging_align_to_lower ?o + x" unfolding x_def assms(3) [symmetric] by (simp add: paging_align_to_lower_def config_simps)
  have sm: "unat ?o + unat (p_memsz fm p) < 2 ^ 30" using assms(1) by (simp add: seg_small_def)
  have off: "unat off < unat (p_memsz fm p)" using assms(2,4) by (simp add: word_less_nat_alt word_le_nat_alt)
  let ?e = "?o + p_memsz fm p"
  have e: "unat ?e = unat ?o + unat (p_memsz fm p)" using sm by (simp add: unat_word_ariths)
  have e31: "unat ?e < 2 ^ 31" using e sm by simp
  note a = align_unat [OF e31]
  have m: "unat ?o mod 4096 \<le> unat ?o" "unat ?o mod 4096 < 4096" by simp_all
  have l: "unat (paging_align_to_lower ?o) = unat ?o - unat ?o mod 4096" by (rule lower_unat)
  have "unat (seg_len fm p) = unat (paging_align_address ?e) - unat (paging_align_to_lower ?o)"
    unfolding seg_len_def using a(1) e l by (simp add: unat_sub word_le_nat_alt)
  then have len: "unat ?o mod 4096 + unat (p_memsz fm p) \<le> unat (seg_len fm p)" using a(1) e l m(1) by linarith
  have "unat (?v mod 4096) = unat ?o mod 4096" using arg_cong [OF assms(3), of unat] by (simp add: unat_mod)
  then have "unat x = unat ?o mod 4096 + unat off" unfolding x_def using m off sm by (simp add: unat_word_ariths)
  then have "x < seg_len fm p" using len off by (simp add: word_less_nat_alt)
  then show "x - x mod 4096 < seg_len fm p" using sub_mod_le [of x] by (rule order_le_less_trans [rotated])
qed

lemma seg_flags_small: "seg_flags fm p < 4096"
  by (simp add: seg_flags_def config_simps)

lemma seg_translate:
  assumes "seg_small fm p" "p_filesz fm p \<le> p_memsz fm p" "p_offset fm p mod 4096 = p_vaddr fm p mod 4096" "off < p_filesz fm p" "4096 dvd unat b"
    and "paging_get m d (paging_align_to_lower (p_vaddr fm p + off)) = seg_page fm b p (paging_align_to_lower (p_vaddr fm p + off))"
  shows "paging_get_phys_addr m d (p_vaddr fm p + off) = b + (p_offset fm p + off)"
proof -
  define x where "x = p_vaddr fm p mod 4096 + off"
  note s = seg_offset [OF assms(1-4), folded x_def]
  let ?lv = "paging_align_to_lower (p_vaddr fm p)" and ?lo = "paging_align_to_lower (p_offset fm p)"
  have al: "4096 dvd unat (b + ?lo + (x - x mod 4096))" by (rule aligned_add [OF aligned_add [OF assms(5) lower_unat(2)] aligned_sub_mod])
  have v: "p_vaddr fm p + off = ?lv + x" unfolding x_def by (simp add: paging_align_to_lower_def config_simps)
  have "paging_get m d (?lv + (x - x mod 4096)) = (b + ?lo + (x - x mod 4096)) OR seg_flags fm p"
    using assms(6) unfolding s(1) by (simp add: seg_page_def)
  then have "paging_get m d (?lv + (x - x mod 4096)) AND 0xFFFFF000 = b + ?lo + (x - x mod 4096)"
    using page_mask_or [OF al seg_flags_small] by simp
  moreover have "paging_align_to_lower (?lv + x) = ?lv + (x - x mod 4096)" using s(1) unfolding v .
  ultimately show ?thesis unfolding paging_get_phys_addr_def Let_def s(3) v by simp
qed

lemma seg_view_last:
  assumes "ps = xs @ p # ys" "seg_maps fm p w" "\<And>q. q \<in> set ys \<Longrightarrow> \<not> seg_maps fm q w"
  shows "seg_view fm b ps w x = seg_page fm b p w"
proof -
  have "seg_view fm b ys w z = z" for z using assms(3) by (induction ys arbitrary: z) (simp_all add: seg_view_def)
  then show ?thesis using assms(1,2) by (simp add: seg_view_def)
qed

text \<open>
  A program whose segments lie in the file, are at or above the address of programs, have the same place in a page
  as in the file, and share no page with a header after them.
\<close>

definition seg_top :: "memory \<Rightarrow> u32 \<Rightarrow> nat" where
  "seg_top fm p = unat (paging_align_to_lower (p_vaddr fm p)) + unat (seg_len fm p)"

definition seg_apart :: "memory \<Rightarrow> u32 \<Rightarrow> u32 \<Rightarrow> bool" where
  "seg_apart fm p q \<longleftrightarrow> seg_top fm p \<le> unat (paging_align_to_lower (p_vaddr fm q)) \<or> seg_top fm q \<le> unat (paging_align_to_lower (p_vaddr fm p))"

definition elf_layout :: "memory \<Rightarrow> nat \<Rightarrow> bool" where
  "elf_layout fm sz \<longleftrightarrow> (\<forall>i<unat (e_phnum fm 0). seg_small fm (phdr fm i) \<and> seg_top fm (phdr fm i) \<le> 2 ^ 32 \<and>
     (p_type fm (phdr fm i) = PT_LOAD \<longrightarrow> seg_ok fm sz (phdr fm i) \<and>
        (\<forall>j<unat (e_phnum fm 0). i < j \<longrightarrow> seg_apart fm (phdr fm i) (phdr fm j))))"

lemma seg_maps_interval:
  assumes "seg_maps fm p w" "seg_top fm p \<le> 2 ^ 32"
  shows "unat (paging_align_to_lower (p_vaddr fm p)) \<le> unat w" "unat w < seg_top fm p"
  using assms by (auto simp: seg_maps_def seg_top_def word_less_nat_alt unat_sub_if' split: if_splits)

lemma program_byte:
  assumes lay: "elf_layout fm sz" and p: "p \<in> set (load_phdrs fm 0)" and off: "off < p_filesz fm p" and b: "4096 dvd unat b"
    and get: "\<And>w. 4096 dvd unat w \<Longrightarrow> paging_get m d w = with_stack stk (\<lambda>w. seg_view fm b (phdrs_of fm) w (f w)) w"
  shows "paging_get_phys_addr m d (p_vaddr fm p + off) = b + (p_offset fm p + off)" "unat (p_offset fm p + off) < sz"
proof -
  let ?n = "unat (e_phnum fm 0)"
  obtain i where i: "i < ?n" "p = phdr fm i" "p_type fm p = PT_LOAD" using p by (auto simp: load_phdrs_def)
  have l: "seg_small fm p" "seg_top fm p \<le> 2 ^ 32" "seg_ok fm sz p" using lay i by (simp_all add: elf_layout_def)
  have ap: "seg_apart fm p (phdr fm j)" "seg_top fm (phdr fm j) \<le> 2 ^ 32" if "i < j" "j < ?n" for j
    using lay i that by (simp_all add: elf_layout_def)
  note ok = l(3) [unfolded seg_ok_def]
  let ?w = "paging_align_to_lower (p_vaddr fm p + off)"
  define x where "x = p_vaddr fm p mod 4096 + off"
  have ok': "p_filesz fm p \<le> p_memsz fm p" "p_offset fm p mod 4096 = p_vaddr fm p mod 4096" using ok by blast+
  note s = seg_offset [OF l(1) ok' off, folded x_def]
  have maps: "seg_maps fm p ?w" unfolding seg_maps_def s(1) using s(2) by simp
  note iv = seg_maps_interval [OF maps l(2)]
  have "\<not> seg_maps fm q ?w" if q: "q \<in> set (map (phdr fm) [Suc i..<?n])" for q
  proof
    assume m: "seg_maps fm q ?w"
    obtain j where "j \<in> set [Suc i..<?n]" and qj: "q = phdr fm j" using q unfolding set_map by blast
    then have j: "i < j" "j < ?n" "q = phdr fm j" by simp_all
    note jv = seg_maps_interval [OF m [unfolded j(3)] ap(2) [OF j(1,2)]]
    show False using ap(1) [OF j(1,2)] iv jv unfolding seg_apart_def by linarith
  qed
  moreover have "phdrs_of fm = map (phdr fm) [0..<i] @ p # map (phdr fm) [Suc i..<?n]"
    using i upt_add_eq_append [of 0 i "?n - i"] by (simp add: upt_conv_Cons)
  ultimately have view: "seg_view fm b (phdrs_of fm) ?w (f ?w) = seg_page fm b p ?w" by (intro seg_view_last [OF _ maps]) auto
  have "0x400000 \<le> unat (p_vaddr fm p)" using ok by (simp add: word_le_nat_alt)
  then have "0x400000 \<le> unat (paging_align_to_lower (p_vaddr fm p))"
  proof -
    assume a: "0x400000 \<le> unat (p_vaddr fm p)"
    have "unat (p_vaddr fm p) - unat (p_vaddr fm p) mod 4096 = 4096 * (unat (p_vaddr fm p) div 4096)" by (simp add: minus_mod_eq_mult_div)
    moreover have "0x400 \<le> unat (p_vaddr fm p) div 4096" using div_le_mono [OF a, of 4096] by simp
    ultimately show ?thesis unfolding lower_unat(1) by simp
  qed
  then have "0x400000 \<le> unat ?w" using iv(1) by linarith
  then have "\<not> ?w - 0x3FB000 < 0x4000" by (simp add: word_less_nat_alt unat_sub_if')
  then have "paging_get m d ?w = seg_page fm b p ?w" using get [OF lower_unat(2)] view by (simp add: with_stack_def)
  then show "paging_get_phys_addr m d (p_vaddr fm p + off) = b + (p_offset fm p + off)" by (rule seg_translate [OF l(1) ok' off b])
  show "unat (p_offset fm p + off) < sz"
    using ok off l(1) by (simp add: word_less_nat_alt seg_small_def unat_word_ariths word_le_nat_alt)
qed

section \<open>A task for the process\<close>

lemma range_translate:
  assumes "4096 dvd unat v" "4096 dvd unat p" "off < len" "flags < 4096"
    and "\<And>w. 4096 dvd unat w \<Longrightarrow> w - v < len \<Longrightarrow> paging_get m d w = (p + (w - v)) OR flags"
  shows "paging_get_phys_addr m d (v + off) = p + off"
proof -
  let ?lo = "off - off mod 4096"
  have low: "paging_align_to_lower (v + off) = v + ?lo"
    using mod_page_add [OF assms(1), of off] by (simp add: paging_align_to_lower_def config_simps)
  have al: "4096 dvd unat (v + ?lo)" "4096 dvd unat (p + ?lo)" by (rule aligned_add [OF assms(1) aligned_sub_mod], rule aligned_add [OF assms(2) aligned_sub_mod])
  have "?lo < len" using sub_mod_le [of off] assms(3) by simp
  then have "paging_get m d (v + ?lo) = (p + ?lo) OR flags" using assms(5) [OF al(1)] by simp
  then show ?thesis using page_mask_or [OF al(2) assms(4)] by (simp add: paging_get_phys_addr_def low)
qed

lemma task_update_view [simp]:
  "kallocs (s\<lparr>tasks := x\<rparr>) = kallocs s" "kheap_wf (s\<lparr>tasks := x\<rparr>) = kheap_wf s" "kregion (s\<lparr>tasks := x\<rparr>) = kregion s" "kavail (s\<lparr>tasks := x\<rparr>) = kavail s"
  "kallocs (s\<lparr>procs := y\<rparr>) = kallocs s" "kheap_wf (s\<lparr>procs := y\<rparr>) = kheap_wf s" "kregion (s\<lparr>procs := y\<rparr>) = kregion s" "kavail (s\<lparr>procs := y\<rparr>) = kavail s"
  "kfits (s\<lparr>procs := y\<rparr>) n = kfits s n" "kprot (s\<lparr>procs := y\<rparr>) a = kprot s a" "dir_owned (s\<lparr>tasks := x\<rparr>) d = dir_owned s d"
  "dir_owned (s\<lparr>procs := y\<rparr>) d = dir_owned s d"
  by (simp_all add: kheap_view_defs kprot_def dir_owned_def)

lemma procs_live_keep [simp]: "live_keep s0 (s\<lparr>procs := y\<rparr>) = live_keep s0 s"
  by (simp add: live_keep_def)

lemma more_fields:
  assumes "kheap_state.more (s' :: 'a task_state_scheme) = kheap_state.more s"
  shows "tasks s' = tasks s" "procs s' = procs s" "elf_files s' = elf_files s" "task_state.more s' = task_state.more s"
  using assms by (cases s; cases s'; simp)+

text \<open>\<^verbatim>\<open>task_new\<close> changes the heap, the memory and the tasks.\<close>

lemma task_new_effect:
  assumes "kheap_wf s" "1027 \<le> kavail s" "task_new s proc = (t, s')"
  defines "d \<equiv> page_dir (tasks s' t)"
  shows "t \<noteq> 0" "dir_owned s' d" "kallocs s \<subseteq> kallocs s'" "\<And>q k. q \<in> dir_pages (mem s') d \<Longrightarrow> (q, k) \<notin> kallocs s"
    "\<And>w. 4096 dvd unat w \<Longrightarrow> paging_get (mem s') (dir_entries (mem s') d) w = w OR 5"
    "\<And>q k a. (q, k) \<in> kallocs s \<Longrightarrow> a \<in> extent q k \<Longrightarrow> mem s' a = mem s a"
    "procs s' = procs s" "elf_files s' = elf_files s" "kregion s' = kregion s" "task_state.more s' = task_state.more s"
    "esp (regs (tasks s' t)) = ENKI_PGM_VIRT_STACK_ADDR_START" "ss (regs (tasks s' t)) = ucast USER_DATA_SEG"
    "ip (regs (tasks s' t)) = (if file_type (procs s proc) = PROCESS_FILE_TYPE_ELF
       then e_entry (mem s') (elf_mem (elf_files s (image (procs s proc)))) else ENKI_PGM_VIRT_ADDR)"
proof -
  obtain p s1 where al: "kzalloc s 64 = (p, s1)" by force
  have av: "0 < kavail s" using assms(2) by simp
  note pg = kzalloc_page [OF assms(1) av _ _ al, simplified]
  note f1 = more_fields [OF kzalloc_more [OF al]]
  let ?s2 = "s1\<lparr>tasks := (tasks s1)(p := zero_task)\<rparr>"
  have fl: "ucast (PAGING_IS_PRESENT OR PAGING_ACCESS_FROM_ALL) = (5 :: u8)" by (simp add: config_simps)
  obtain pd s3 where new: "paging_new ?s2 5 = (pd, s3)" by force
  have hp: "kheap_wf ?s2" "1026 \<le> kavail ?s2" using pg(1,5) assms(2) by simp_all
  note pn = paging_new_effect [OF hp new]
  have "kheap_state.more s3 = kheap_state.more ?s2" using paging_new_more [of ?s2 5] new by simp
  note f3 = more_fields [OF this]
  have r3: "kregion s3 = kregion s" using paging_new_region [of ?s2 5] new kz.malloc_region [OF al] by simp
  let ?rg = "zero_registers\<lparr>ip := if file_type (procs s proc) = PROCESS_FILE_TYPE_ELF then e_entry (mem s3) (elf_mem (elf_files s (image (procs s proc))))
      else ENKI_PGM_VIRT_ADDR, ss := ucast USER_DATA_SEG, cs := ucast USER_CODE_SEG, esp := ENKI_PGM_VIRT_STACK_ADDR_START\<rparr>"
  let ?t = "zero_task\<lparr>page_dir := pd, regs := ?rg, task_process := proc\<rparr>"
  have init: "task_init ?s2 p proc = (0, s3\<lparr>tasks := (tasks s3)(p := ?t)\<rparr>)"
    using new pn(2) by (simp add: task_init_def fl f3 f1 elf_header_def zero_task_def Let_def)
  have run: "t = p" "\<exists>tk h c. s' = s3\<lparr>tasks := tk, task_head := h, task_current := c, task_tail := p\<rparr> \<and> regs (tk p) = ?rg \<and> page_dir (tk p) = pd"
  proof -
    let ?s4 = "s3\<lparr>tasks := (tasks s3)(p := ?t)\<rparr>"
    have eq: "task_new s proc = (p, (if task_head ?s4 = 0 then ?s4\<lparr>task_head := p, task_current := p\<rparr>
      else let s' = ?s4\<lparr>tasks := (tasks ?s4)(task_tail ?s4 := (tasks ?s4 (task_tail ?s4))\<lparr>task_next := p\<rparr>)\<rparr>
           in s'\<lparr>tasks := (tasks s')(p := (tasks s' p)\<lparr>task_prev := task_tail s'\<rparr>)\<rparr>)\<lparr>task_tail := p\<rparr>)"
      unfolding task_new_def Let_def al prod.case init using pg(3) by simp
    show "t = p" using eq assms(3) by simp
    show "\<exists>tk h c. s' = s3\<lparr>tasks := tk, task_head := h, task_current := c, task_tail := p\<rparr> \<and> regs (tk p) = ?rg \<and> page_dir (tk p) = pd"
    proof (cases "task_head ?s4 = 0")
      case True
      then have "s' = s3\<lparr>tasks := (tasks s3)(p := ?t), task_head := p, task_current := p, task_tail := p\<rparr>" using eq assms(3) by simp
      then show ?thesis by (intro exI [of _ "(tasks s3)(p := ?t)"] exI [of _ p] conjI) simp_all
    next
      case False
      let ?tk = "(tasks ?s4)(task_tail s3 := (tasks ?s4 (task_tail s3))\<lparr>task_next := p\<rparr>)"
      have "s' = s3\<lparr>tasks := ?tk(p := (?tk p)\<lparr>task_prev := task_tail s3\<rparr>), task_head := task_head s3, task_current := task_current s3, task_tail := p\<rparr>"
        using eq False assms(3) by (simp add: Let_def)
      then show ?thesis
        by (intro exI [of _ "?tk(p := (?tk p)\<lparr>task_prev := task_tail s3\<rparr>)"] exI [of _ "task_head s3"] exI [of _ "task_current s3"] conjI) simp_all
    qed
  qed
  obtain tk h c where s': "s' = s3\<lparr>tasks := tk, task_head := h, task_current := c, task_tail := p\<rparr>" "regs (tk p) = ?rg" "page_dir (tk p) = pd"
    using run(2) by blast
  have d: "d = pd" by (simp add: d_def run(1) s')
  have v: "mem s' = mem s3" "kallocs s' = kallocs s3" "kheap_wf s' = kheap_wf s3" "kregion s' = kregion s3" by (simp_all add: s'(1) kheap_view_defs)
  show "t \<noteq> 0" using run(1) pg(3) by simp
  show "dir_owned s' d" using pn(1) by (simp add: d dir_owned_def v)
  have sub: "kallocs s \<subseteq> kallocs ?s2" using pg(2) by auto
  then show "kallocs s \<subseteq> kallocs s'" using pn(4) v by auto
  show "(q, k) \<notin> kallocs s" if "q \<in> dir_pages (mem s') d" for q k using pn(5) [of q k] that sub unfolding v d by blast
  show "paging_get (mem s') (dir_entries (mem s') d) w = w OR 5" if "4096 dvd unat w" for w using pn(6) [OF that] by (simp add: v d)
  show "mem s' a = mem s a" if "(q, k) \<in> kallocs s" "a \<in> extent q k" for q k a
    using pn(7) [of q k a] subsetD [OF sub that(1)] that pg(8) [of a] pg(6) [OF that(1)] by (auto simp: v)
  show "procs s' = procs s" "elf_files s' = elf_files s" "task_state.more s' = task_state.more s" using f3 f1 by (simp_all add: s'(1))
  show "kregion s' = kregion s" using r3 v by simp
  show "esp (regs (tasks s' t)) = ENKI_PGM_VIRT_STACK_ADDR_START" "ss (regs (tasks s' t)) = ucast USER_DATA_SEG" by (simp_all add: run(1) s')
  show "ip (regs (tasks s' t)) = (if file_type (procs s proc) = PROCESS_FILE_TYPE_ELF
       then e_entry (mem s') (elf_mem (elf_files s (image (procs s proc)))) else ENKI_PGM_VIRT_ADDR)" by (simp add: run(1) s' v)
qed

section \<open>The whole of a load\<close>

lemma elf_more_fields:
  assumes "elf_state.more (s' :: 'a proc_state_scheme) = elf_state.more s"
  shows "tasks s' = tasks s" "procs s' = procs s" "task_state.more s' = task_state.more s" "task_head s' = task_head s"
    "task_tail s' = task_tail s" "task_current s' = task_current s" "kernel_page_dir s' = kernel_page_dir s"
  using assms by (cases s; cases s'; simp)+

lemma kheap_elf_more: "kheap_state.more s' = kheap_state.more s \<Longrightarrow> elf_state.more s' = elf_state.more s" for s :: "'a proc_state_scheme"
  by (cases s; cases s') simp

lemma task_more_fields:
  "task_state.more s' = task_state.more s \<Longrightarrow> proc_state.more s' = proc_state.more s \<and> processes s' = processes s \<and> shell_path s' = shell_path s"
  for s :: "'a proc_state_scheme"
  by (cases s; cases s') simp

lemma procs_more: "elf_state.more s' = elf_state.more s \<Longrightarrow> elf_state.more (s'\<lparr>elf_files := g, procs := f\<rparr>) = elf_state.more (s\<lparr>procs := f\<rparr>)" for s :: "'a proc_state_scheme"
  by (cases s; cases s') simp

text \<open>The process with the file in memory: \<open>ef\<close> is its \<^verbatim>\<open>elf_file\<close> and \<open>b\<close> the image.\<close>

definition data_loaded :: "'a proc_state_scheme \<Rightarrow> 'a proc_state_scheme \<Rightarrow> u32 \<Rightarrow> u32 \<Rightarrow> u32 \<Rightarrow> memory \<Rightarrow> nat \<Rightarrow> bool" where
  "data_loaded s s' proc ef b fm sz \<longleftrightarrow> live_keep s s' \<and> kfits s' 1031 \<and> image_at (mem s') b sz fm \<and> (b, blocks_for (of_nat sz)) \<in> kallocs s' \<and>
     elf_mem (elf_files s' ef) = b \<and>
     elf_state.more s' = elf_state.more (s\<lparr>procs := (procs s)(proc := zero_process\<lparr>file_type := PROCESS_FILE_TYPE_ELF, image := ef\<rparr>)\<rparr>)"

lemma process_load_data_elf:
  assumes load: "can_load s img n k path w i j cl sz" and fit: "kfits s (blocks_for (of_nat sz) + 1042)"
    and prog: "elf_program (file_mem (volume_of s img n) cl) sz" and al: "kzalloc s 9360 = (proc, s1)"
  shows "\<exists>ef b s'. process_load_data (process_init s1 proc) path proc = Some (0, s') \<and>
    data_loaded s s' proc ef b (file_mem (volume_of s img n) cl) sz"
proof -
  let ?fm = "file_mem (volume_of s img n) cl" and ?B = "blocks_for (of_nat sz)"
  have fs: "fs_ready s img n k" using load by (simp add: can_load_def Let_def)
  note wf = fs_ready_wf [OF fs]
  have b3: "blocks_for 9360 = 3" by (simp add: blocks_for_def)
  have fit3: "kfits s (blocks_for 9360 + (?B + 1039))" using fit unfolding b3 by (simp add: add.commute)
  note 1 = kzalloc_drv [OF wf _ _ fit3 al, simplified]
  have k1: "live_keep s s1" by (rule live_keep_drv [OF 1(1) _ wf]) simp_all
  note m1 = more_fields [OF kzalloc_more [OF al]]
  have d1: "file_descriptors s1 = file_descriptors s" using file_fields_more [OF drv_frame_fields(10) [OF drv_step_fields(13) [OF 1(1)]]] by simp
  let ?s2 = "process_init s1 proc"
  have k2: "live_keep s ?s2" and f2: "kfits ?s2 (?B + 1039)" using k1 1(5) by (simp_all add: process_init_def)
  have wf2: "kheap_wf ?s2" using live_keep_fields(9) [OF k2] .
  have "kfits ?s2 7" by (rule kz.fits_mono [OF f2]) simp
  then have av: "7 \<le> kavail ?s2" using kfits_kavail [OF wf2] by simp
  have load2: "can_load ?s2 img n k path w i j cl sz" by (rule can_load_keep [OF k2 _ av load]) (simp add: process_init_def d1)
  have v2: "volume_of ?s2 img n = volume_of s img n" by (rule volume_of_keep [OF k2 fs])
  have f8: "kfits ?s2 (?B + 8)" by (rule kz.fits_mono [OF f2]) simp
  obtain ef b s' ef' where r: "elf_load ?s2 path = Some (0, ef, s'\<lparr>elf_files := (elf_files s')(ef := ef')\<rparr>)"
    "image_read ?s2 s' ef b ?fm sz" "kavail s' + (?B + 8) = kavail ?s2" "kspent ?s2 s'" "covers ?fm b (load_phdrs ?fm 0) ef'"
    using elf_load_ok [OF load2 f8, unfolded v2, OF prog] by blast
  note im = r(2) [unfolded image_read_def]
  let ?s3 = "upd_proc (s'\<lparr>elf_files := (elf_files s')(ef := ef')\<rparr>) proc (\<lambda>p. p\<lparr>file_type := PROCESS_FILE_TYPE_ELF, image := ef\<rparr>)"
  have "process_load_data ?s2 path proc = Some (0, ?s3)"
    using r(1) by (simp add: process_load_data_def process_load_elf_def config_simps)
  moreover have "kfits s' 1031" using kspent_fits [OF r(4,3), of 1031] f2 by (simp add: add.commute add.left_commute)
  moreover have "live_keep s s'" using live_keep_trans [OF k2] im by blast
  moreover have "elf_mem ef' = b" using r(5) by (simp add: covers_def)
  moreover have "elf_state.more ?s3 = elf_state.more (s\<lparr>procs := (procs s)(proc := zero_process\<lparr>file_type := PROCESS_FILE_TYPE_ELF, image := ef\<rparr>)\<rparr>)"
  proof -
    have "elf_state.more s1 = elf_state.more s" by (rule kheap_elf_more [OF kzalloc_more [OF al]])
    moreover have e: "elf_state.more s' = elf_state.more ?s2" using im by blast
    ultimately show ?thesis
      using procs_more [OF e] procs_more [of s1 s _ "elf_files s1"] elf_more_fields(2) [OF e] m1(2) by (simp add: process_init_def)
  qed
  ultimately show ?thesis using im
    by (intro exI [of _ ef] exI [of _ b] exI [of _ ?s3]) (simp add: data_loaded_def process_init_def)
qed

text \<open>
  The state \<open>s'\<close> in which the process has its stack and its task, before its memory is mapped: \<open>ts\<close> are the tasks there
  were in \<open>s\<close>. What was live in \<open>s\<close> is not part of the new page directory.
\<close>

definition proc_built :: "'a proc_state_scheme \<Rightarrow> 'a proc_state_scheme \<Rightarrow> u32 \<Rightarrow> u32 \<Rightarrow> u32 \<Rightarrow> u32 \<Rightarrow> memory \<Rightarrow> nat \<Rightarrow> bool" where
  "proc_built s s' proc task stk b fm sz \<longleftrightarrow> (let dir = page_dir (tasks s' task) in
     map_ctx s' dir (image (procs s' proc)) b sz fm \<and> proc_task (procs s' proc) = task \<and> proc_stack (procs s' proc) = stk \<and>
     file_type (procs s' proc) = PROCESS_FILE_TYPE_ELF \<and> task \<noteq> 0 \<and> stk \<noteq> 0 \<and> kregion s' = kregion s \<and>
     (stk, 4) \<in> kallocs s' \<and> stk \<notin> dir_pages (mem s') dir \<and> (\<forall>off<0x4000. mem s' (stk + off) = 0) \<and>
     (\<forall>q l. (q, l) \<in> kallocs s \<longrightarrow> (q, l) \<in> kallocs s' \<and> q \<notin> dir_pages (mem s') dir) \<and>
     (\<forall>q l a. (q, l) \<in> kallocs s \<and> a \<in> extent q l \<longrightarrow> mem s' a = mem s a) \<and>
     (\<forall>w. 4096 dvd unat w \<longrightarrow> paging_get (mem s') (dir_entries (mem s') dir) w = w OR 5) \<and>
     ip (regs (tasks s' task)) = e_entry fm 0 \<and> esp (regs (tasks s' task)) = ENKI_PGM_VIRT_STACK_ADDR_START \<and>
     ss (regs (tasks s' task)) = ucast USER_DATA_SEG \<and> task_state.more s' = task_state.more s)"

text \<open>The task of the process goes to the end of the list of tasks.\<close>

definition task_added :: "'a task_state_scheme \<Rightarrow> 'a task_state_scheme \<Rightarrow> u32 list \<Rightarrow> u32 \<Rightarrow> u32 \<Rightarrow> bool" where
  "task_added s s' ts task proc \<longleftrightarrow> task \<notin> set ts \<and> task_list s' (ts @ [task]) \<and> task_current s' = (if ts = [] then task else task_current s) \<and>
     task_process (tasks s' task) = proc \<and>
     (\<forall>u. u \<noteq> task \<longrightarrow> tasks s' u = (if ts \<noteq> [] \<and> u = last ts then (tasks s u)\<lparr>task_next := task\<rparr> else tasks s u))"

lemma process_build:
  assumes dl: "data_loaded s s3 proc ef b fm sz" and prog: "elf_program fm sz" and reg: "\<forall>a\<in>kregion s. unat a < 2 ^ 31"
    and stk: "kzalloc s3 ENKI_USER_PGM_STACK_SIZE = (stk, s4)"
    and s5: "s5 = upd_proc s4 proc f" "file_type (f (procs s3 proc)) = PROCESS_FILE_TYPE_ELF" "image (f (procs s3 proc)) = ef"
      "proc_stack (f (procs s3 proc)) = stk"
    and new: "task_new s5 proc = (task, s6)" and ts: "task_list s ts" "\<forall>u\<in>set ts. (u, 1) \<in> kallocs s"
  defines "s7 \<equiv> upd_proc s6 proc (\<lambda>p. p\<lparr>proc_task := task\<rparr>)"
  shows "proc_built s s7 proc task stk b fm sz" "task_added s s7 ts task proc" "procs s7 proc = (f (procs s3 proc))\<lparr>proc_task := task\<rparr>"
proof -
  note d = dl [unfolded data_loaded_def]
  note k = live_keep_fields [OF conjunct1 [OF d]]
  let ?B = "blocks_for (of_nat sz)" and ?dir = "page_dir (tasks s6 task)"
  have sz: "52 \<le> sz" "sz < 2 ^ 31" "sz < 2 ^ 32" using prog by (simp_all add: elf_program_def elf_sized_def)
  have ss: "ENKI_USER_PGM_STACK_SIZE = 16384" by (simp add: config_simps)
  have b4: "blocks_for 16384 = 4" by (simp add: blocks_for_def)
  have fit: "kfits s3 (blocks_for 16384 + 1027)" using d unfolding b4 by simp
  note 4 = kzalloc_drv [OF k(9) _ _ fit stk [unfolded ss], simplified, unfolded b4]
  have k4: "live_keep s3 s4" by (rule live_keep_drv [OF 4(1) _ k(9)]) simp_all
  note l4 = live_keep_fields [OF k4]
  have wf5: "kheap_wf s5" using l4(9) by (simp add: s5(1))
  have av5: "1027 \<le> kavail s5" using kfits_kavail [OF l4(9) 4(5)] by (simp add: s5(1))
  have "elf_state.more s4 = elf_state.more s3" by (rule kheap_elf_more [OF kzalloc_more [OF stk]])
  note m4 = elf_more_fields [OF this]
  have "elf_state.more s3 = elf_state.more (s\<lparr>procs := (procs s)(proc := zero_process\<lparr>file_type := PROCESS_FILE_TYPE_ELF, image := ef\<rparr>)\<rparr>)" using d by blast
  note m3 = elf_more_fields [OF this, simplified]
  have p5: "procs s5 proc = f (procs s3 proc)" "elf_files s5 = elf_files s3" "mem s5 = mem s4" "kallocs s5 = kallocs s4" "kregion s5 = kregion s"
    "task_state.more s5 = task_state.more s" "tasks s5 = tasks s" "task_head s5 = task_head s" "task_tail s5 = task_tail s" "task_current s5 = task_current s"
    using more_fields(3) [OF kzalloc_more [OF stk]] m4 m3 l4(8) k(8) by (simp_all add: s5(1))
  note t = task_new_effect [OF wf5 av5 new]
  have bk: "(b, ?B) \<in> kallocs s5" and sk: "(stk, 4) \<in> kallocs s5" using d subsetD [OF l4(10)] 4(2) p5(4) by auto
  have nd: "q \<notin> dir_pages (mem s6) ?dir" if "(q, k) \<in> kallocs s5" for q k using t(4) that by blast
  have b6: "mem s6 a = mem s3 a" if "(q, k) \<in> kallocs s3" "a \<in> extent q k" for q k a
    using t(6) [of q k a] subsetD [OF l4(10) that(1)] l4(13) [OF that] that p5(3,4) by simp
  have bs: "(b, ?B) \<in> kallocs s3" "image_at (mem s3) b sz fm" using d by simp_all
  have im6: "image_at (mem s6) b sz fm" by (rule image_at_cong [OF bs(2) _ sz(3)]) (use b6 [OF bs(1)] in simp)
  have "b \<in> extent b ?B" using subsetD [OF out_bytes_extent [OF sz(3), of b], of b] sz(1) by simp
  then have lb: "unat b < 2 ^ 31" using kz.allocs_region [OF wf5 bk] reg p5(5) by blast
  have s7: "tasks s7 = tasks s6" "mem s7 = mem s6" "kallocs s7 = kallocs s6" "kregion s7 = kregion s" "elf_files s7 = elf_files s3"
    "task_state.more s7 = task_state.more s" "task_head s7 = task_head s6" "task_tail s7 = task_tail s6" "task_current s7 = task_current s6"
    using t(8,9,10) p5 by (simp_all add: s7_def)
  show p7: "procs s7 proc = (f (procs s3 proc))\<lparr>proc_task := task\<rparr>" using t(7) p5(1) by (simp add: s7_def)
  have ctx: "map_ctx s7 ?dir (image (procs s7 proc)) b sz fm"
    unfolding map_ctx_def s7 p7 using t(2,3) bk nd [OF bk] im6 lb d s5(3) by (auto simp: s7_def)
  have old: "(q, l) \<in> kallocs s7 \<and> q \<notin> dir_pages (mem s7) ?dir \<and> (q, l) \<in> kallocs s3" if "(q, l) \<in> kallocs s" for q l
    using subsetD [OF k(10) that] subsetD [OF l4(10)] subsetD [OF t(3)] nd [of q l] unfolding s7 p5(4) by blast
  have keep: "mem s7 a = mem s a" if "(q, l) \<in> kallocs s" "a \<in> extent q l" for q l a
    using b6 [of q l a] old [OF that(1)] k(13) [OF that] that(2) unfolding s7 by simp
  have zero: "mem s7 (stk + off) = 0" if "off < 0x4000" for off
  proof -
    have "stk + off \<in> extent stk 4" using in_extent_blocks_for [of "stk + off" stk 16384] that by (simp add: b4)
    then show ?thesis using t(6) [OF sk] kzalloc_mem [OF stk, of "stk + off"] that 4(4) by (simp add: p5(3) ss s7)
  qed
  have entry: "ip (regs (tasks s7 task)) = e_entry fm 0"
    using t(13) image_header [OF im6 sz(1,2)] s5(2,3) p5(1,2) d by (simp add: s7)
  show "proc_built s s7 proc task stk b fm sz"
    unfolding proc_built_def Let_def using ctx p7 s5(2,4) t(1,3,5,11,12) sk nd [OF sk] 4(4) old keep zero entry
    by (auto simp: s7)
  have "task_list s5 ts" using ts(1) by (simp add: task_list_def task_chain_def p5)
  moreover have "\<forall>u\<in>set ts. (u, 1) \<in> kallocs s5" using ts(2) subsetD [OF k(10)] subsetD [OF l4(10)] unfolding p5(4) by blast
  ultimately have a: "task \<notin> set ts" "task_list s6 (ts @ [task])" "task_current s6 = (if ts = [] then task else task_current s)" "task_process (tasks s6 task) = proc"
    "\<forall>u. u \<noteq> task \<longrightarrow> tasks s6 u = (if ts \<noteq> [] \<and> u = last ts then (tasks s u)\<lparr>task_next := task\<rparr> else tasks s u)"
    using task_new_appends_list [OF wf5 av5 _ _ new] p5(7,10) by simp_all
  have "task_list s7 (ts @ [task])" using a(2) unfolding task_list_def task_chain_def s7 .
  then show "task_added s s7 ts task proc" using a unfolding task_added_def s7 by blast
qed

lemma process_map_built:
  assumes bt: "proc_built s s7 proc task stk b fm sz" and prog: "elf_program fm sz" and lay: "elf_layout fm sz" and reg: "\<forall>a\<in>kregion s. unat a < 2 ^ 31"
  shows "\<exists>m. process_map_memory s7 proc = Some (0, s7\<lparr>mem := m\<rparr>) \<and> image_at m b sz fm \<and> (\<forall>off<0x4000. m (stk + off) = 0) \<and>
    (\<forall>q l a. (q, l) \<in> kallocs s \<and> a \<in> extent q l \<longrightarrow> m a = mem s a) \<and> 4096 dvd unat b \<and> 4096 dvd unat stk \<and>
    (\<forall>w. 4096 dvd unat w \<longrightarrow> paging_get m (dir_entries m (page_dir (tasks s7 task))) w = with_stack stk (\<lambda>w. seg_view fm b (phdrs_of fm) w (w OR 5)) w)"
proof -
  note d = bt [unfolded proc_built_def Let_def]
  let ?dir = "page_dir (tasks s7 task)"
  have ctx: "map_ctx s7 ?dir (image (procs s7 proc)) b sz fm" and dir: "proc_dir s7 proc = ?dir" and ft: "file_type (procs s7 proc) = PROCESS_FILE_TYPE_ELF"
    and st: "(proc_stack (procs s7 proc), 4) \<in> kallocs s7" "\<forall>a\<in>kregion s7. unat a < 2 ^ 31" and stk: "proc_stack (procs s7 proc) = stk" "(stk, 4) \<in> kallocs s7"
    "stk \<notin> dir_pages (mem s7) ?dir"
    using d reg by simp_all
  have sz: "elf_sized fm sz" "e_phoff fm 0 \<noteq> 0" "sz < 2 ^ 32"
    using prog validate_phoff [of fm 0] by (simp_all add: elf_program_def elf_sized_def)
  have sm: "seg_small fm (phdr fm j)" if "j < unat (e_phnum fm 0)" for j using lay that by (simp add: elf_layout_def)
  obtain m where m: "process_map_memory s7 proc = Some (0, s7\<lparr>mem := m\<rparr>)"
    "mapped s7 ?dir m (with_stack stk (\<lambda>w. seg_view fm b (phdrs_of fm) w (paging_get (mem s7) (dir_entries (mem s7) ?dir) w)))"
    using process_map_memory_elf [OF ctx sz(1,2) sm dir ft st] unfolding stk(1) by blast
  have c: "kheap_wf s7" "(b, blocks_for (of_nat sz)) \<in> kallocs s7" using ctx by (simp_all add: map_ctx_def dir_owned_def)
  have al: "4096 dvd unat b" "4096 dvd unat stk" using kz.allocs_addr [OF c] kz.allocs_addr [OF c(1) stk(2)] by simp_all
  have im: "image_at m b sz fm" using map_ctx_mapped [OF ctx m(2) sz(3)] by (simp add: map_ctx_def)
  have zero: "m (stk + off) = 0" if "off < 0x4000" for off
  proof -
    have "stk + off \<in> extent stk 4" using in_extent_blocks_for [of "stk + off" stk 16384] that by (simp add: blocks_for_def)
    then show ?thesis using mapped_live [OF m(2) stk(2,3)] d that by simp
  qed
  have keep: "m a = mem s a" if "(q, l) \<in> kallocs s" "a \<in> extent q l" for q l a
  proof -
    have "(q, l) \<in> kallocs s7" "q \<notin> dir_pages (mem s7) ?dir" "mem s7 a = mem s a" using d that by blast+
    then show ?thesis using mapped_live [OF m(2) _ _ that(2)] by simp
  qed
  have get: "paging_get m (dir_entries m ?dir) w = with_stack stk (\<lambda>w. seg_view fm b (phdrs_of fm) w (w OR 5)) w" if w: "4096 dvd unat w" for w
    using m(2) w d by (simp add: mapped_def with_stack_def)
  show ?thesis using m(1) im zero keep al get by blast
qed

text \<open>What the task sees of its program, and its stack.\<close>

definition runs_image :: "'a task_state_scheme \<Rightarrow> u32 \<Rightarrow> memory \<Rightarrow> bool" where
  "runs_image s task fm \<longleftrightarrow> ip (regs (tasks s task)) = e_entry fm 0 \<and> esp (regs (tasks s task)) = ENKI_PGM_VIRT_STACK_ADDR_START \<and>
     ss (regs (tasks s task)) = ucast USER_DATA_SEG \<and>
     (\<forall>p\<in>set (load_phdrs fm 0). \<forall>off<p_filesz fm p. mem s (task_virt_to_phys_addr s task (p_vaddr fm p + off)) = fm (p_offset fm p + off)) \<and>
     (\<forall>off<ENKI_USER_PGM_STACK_SIZE. mem s (task_virt_to_phys_addr s task (ENKI_PGM_VIRT_STACK_ADDR_END + off)) = 0)"

lemma process_map_runs:
  assumes bt: "proc_built s s7 proc task stk b fm sz" and prog: "elf_program fm sz" and lay: "elf_layout fm sz" and reg: "\<forall>a\<in>kregion s. unat a < 2 ^ 31"
  shows "\<exists>m. process_map_memory s7 proc = Some (0, s7\<lparr>mem := m\<rparr>) \<and> runs_image (s7\<lparr>mem := m\<rparr>) task fm \<and>
    (\<forall>q l a. (q, l) \<in> kallocs s \<and> a \<in> extent q l \<longrightarrow> m a = mem s a)"
proof -
  obtain m where m: "process_map_memory s7 proc = Some (0, s7\<lparr>mem := m\<rparr>)" "image_at m b sz fm" "\<forall>off<0x4000. m (stk + off) = 0"
    "\<forall>q l a. (q, l) \<in> kallocs s \<and> a \<in> extent q l \<longrightarrow> m a = mem s a" "4096 dvd unat b" "4096 dvd unat stk"
    "\<forall>w. 4096 dvd unat w \<longrightarrow> paging_get m (dir_entries m (page_dir (tasks s7 task))) w = with_stack stk (\<lambda>w. seg_view fm b (phdrs_of fm) w (w OR 5)) w"
    using process_map_built [OF assms] by blast
  let ?s = "s7\<lparr>mem := m\<rparr>"
  note get = m(7) [rule_format]
  have seg: "mem ?s (task_virt_to_phys_addr ?s task (p_vaddr fm p + off)) = fm (p_offset fm p + off)"
    if "p \<in> set (load_phdrs fm 0)" "off < p_filesz fm p" for p off
    using program_byte [OF lay that m(5) get] m(2) by (simp add: task_virt_to_phys_addr_def image_at_def)
  have st: "mem ?s (task_virt_to_phys_addr ?s task (ENKI_PGM_VIRT_STACK_ADDR_END + off)) = 0" if "off < ENKI_USER_PGM_STACK_SIZE" for off
  proof -
    have off: "off < 0x4000" "ENKI_PGM_VIRT_STACK_ADDR_END = 0x3FB000" using that by (simp_all add: config_simps)
    have "paging_get_phys_addr m (dir_entries m (page_dir (tasks s7 task))) (0x3FB000 + off) = stk + off"
      by (rule range_translate [OF _ m(6) off(1), where flags = 7]) (simp add: dvd_def, simp, use get in \<open>simp add: with_stack_def\<close>)
    then show ?thesis using m(3) off by (simp add: task_virt_to_phys_addr_def)
  qed
  have "runs_image ?s task fm" using bt seg st by (simp add: runs_image_def proc_built_def Let_def)
  then show ?thesis using m(1,4) by blast
qed

lemma process_load_effect:
  fixes s :: "'a proc_state_scheme"
  assumes load: "can_load s img n k path w i j cl sz" and fit: "kfits s (blocks_for (of_nat sz) + 1042)"
    and prog: "elf_program (file_mem (volume_of s img n) cl) sz" "elf_layout (file_mem (volume_of s img n) cl) sz"
    and slot: "first_null (processes s) = Some slot" "length (processes s) = ENKI_MAX_PROCESSES" and reg: "\<forall>a\<in>kregion s. unat a < 2 ^ 31"
    and ts: "task_list s ts" "\<forall>u\<in>set ts. (u, 1) \<in> kallocs s"
  shows "\<exists>proc task s'. process_load term s path = Some (0, proc, s') \<and> proc \<noteq> 0 \<and> task \<noteq> 0 \<and>
    proc_state.more s' = proc_state.more s \<and> processes s' = (processes s)[slot := proc] \<and> shell_path s' = shell_path s \<and>
    proc_id (procs s' proc) = of_nat slot \<and> proc_task (procs s' proc) = task \<and> task_added s s' ts task proc \<and>
    runs_image s' task (file_mem (volume_of s img n) cl) \<and> (\<forall>q l a. (q, l) \<in> kallocs s \<and> a \<in> extent q l \<longrightarrow> mem s' a = mem s a)"
proof -
  let ?fm = "file_mem (volume_of s img n) cl"
  have sl: "slot < 12" "processes s ! slot = 0" "length (processes s) = 12" using first_null_Some [OF slot(1)] slot(2) by (simp_all add: config_simps)
  obtain proc s1 where al: "kzalloc s 9360 = (proc, s1)" by force
  obtain ef b s3 where s3: "process_load_data (process_init s1 proc) path proc = Some (0, s3)" "data_loaded s s3 proc ef b ?fm sz"
    using process_load_data_elf [OF load fit prog(1) al] by blast
  have p0: "proc \<noteq> 0"
  proof -
    have "fs_ready s img n k" using load by (simp add: can_load_def Let_def)
    from kzalloc_drv(4) [OF fs_ready_wf [OF this] _ _ _ al, of 0] kz.fits_mono [OF fit, of 3] show ?thesis by (simp add: blocks_for_def)
  qed
  obtain stk s4 where stk: "kzalloc s3 ENKI_USER_PGM_STACK_SIZE = (stk, s4)" by force
  let ?f = "\<lambda>p. p\<lparr>proc_stack := stk, proc_file_name := bounded_string (mem s4) 107 path, proc_id := word_of_int (int slot)\<rparr>"
  obtain task s6 where new: "task_new (upd_proc s4 proc ?f) proc = (task, s6)" by force
  let ?s7 = "upd_proc s6 proc (\<lambda>p. p\<lparr>proc_task := task\<rparr>)"
  have "elf_state.more s3 = elf_state.more (s\<lparr>procs := (procs s)(proc := zero_process\<lparr>file_type := PROCESS_FILE_TYPE_ELF, image := ef\<rparr>)\<rparr>)"
    using s3(2) by (simp only: data_loaded_def)
  note m3 = elf_more_fields [OF this, simplified]
  have ft: "file_type (?f (procs s3 proc)) = PROCESS_FILE_TYPE_ELF" "image (?f (procs s3 proc)) = ef" "proc_stack (?f (procs s3 proc)) = stk"
    using m3(2) by simp_all
  note bt = process_build [OF s3(2) prog(1) reg stk refl ft new ts]
  obtain m where m: "process_map_memory ?s7 proc = Some (0, ?s7\<lparr>mem := m\<rparr>)" "runs_image (?s7\<lparr>mem := m\<rparr>) task ?fm"
    "\<forall>q l a. (q, l) \<in> kallocs s \<and> a \<in> extent q l \<longrightarrow> m a = mem s a"
    using process_map_runs [OF bt(1) prog reg] by blast
  have nz: "stk \<noteq> 0" "task \<noteq> 0" and more: "task_state.more ?s7 = task_state.more s" using bt(1) by (simp_all add: proc_built_def Let_def)
  note pr = task_more_fields [OF more]
  let ?s' = "?s7\<lparr>mem := m, processes := (processes ?s7)[slot := proc]\<rparr>"
  have run: "process_load term s path = Some (0, proc, ?s')"
    using slot(1) sl al p0 s3(1) stk m(1) new nz
    by (simp add: process_load_def process_get_free_slot_def process_load_slot_def process_get_def config_simps)
  have "task_added s ?s' ts task proc" using bt(2) by (simp add: task_added_def task_list_def task_chain_def)
  moreover have "runs_image ?s' task ?fm" using m(2) by (simp add: runs_image_def task_virt_to_phys_addr_def)
  moreover have "proc_id (procs ?s' proc) = of_nat slot" "proc_task (procs ?s' proc) = task" using bt(3) by simp_all
  ultimately show ?thesis using run p0 nz pr m(3) by (intro exI [of _ proc] exI [of _ task] exI [of _ ?s']) simp
qed

text \<open>
  C3: \<^verbatim>\<open>process_load\<close> of a program on a ready file system returns 0 and a process in the first free slot. Its task is appended
  to the list of tasks and starts at the entry point of the program; through the page directory of the task every
  byte of a segment to load is seen at its virtual address, and the stack is there and zero. The other tasks and
  live memory are unchanged.
\<close>

theorem process_load_runs_program:
  fixes s :: "'a proc_state_scheme"
  assumes "can_load s img n k path w i j cl sz" "kfits s (blocks_for (of_nat sz) + 1042)"
    and "elf_program (file_mem (volume_of s img n) cl) sz" "elf_layout (file_mem (volume_of s img n) cl) sz"
    and "first_null (processes s) = Some slot" "length (processes s) = ENKI_MAX_PROCESSES" "\<forall>a\<in>kregion s. unat a < 2 ^ 31"
    and "task_list s ts" "\<forall>u\<in>set ts. (u, 1) \<in> kallocs s"
  shows "\<exists>proc task s'. process_load term s path = Some (0, proc, s') \<and> proc \<noteq> 0 \<and> processes s' = (processes s)[slot := proc] \<and>
    proc_id (procs s' proc) = of_nat slot \<and> proc_task (procs s' proc) = task \<and> task_added s s' ts task proc \<and>
    runs_image s' task (file_mem (volume_of s img n) cl) \<and> (\<forall>q l a. (q, l) \<in> kallocs s \<and> a \<in> extent q l \<longrightarrow> mem s' a = mem s a)"
  using process_load_effect [OF assms, of "term"] by blast

section \<open>A program on a disk\<close>

lemma demo_program_layout:
  assumes "\<And>a. unat a < 88 \<Longrightarrow> fm a = demo_program ! unat a"
  shows "elf_layout fm 88"
proof -
  note h = demo_program_header [OF assms]
  have "seg_len fm 52 = 4096" by (simp add: seg_len_def h paging_align_address_def paging_align_to_lower_def config_simps)
  then have "seg_top fm 52 = 0x401000" by (simp add: seg_top_def h paging_align_to_lower_def config_simps)
  then show ?thesis by (simp add: elf_layout_def seg_small_def seg_ok_def h)
qed

definition demo_loader :: proc_state where
  "demo_loader = task_state.extend (elf_state.extend ((demo_elf_boot demo_program)\<lparr>kernel_heap := demo_heap 2048\<rparr>)
     (task_state.fields (\<lambda>_. zero_task) (\<lambda>_. zero_process) 0 0 0 0x01002000 0x46)) (proc_state.fields 0 (replicate 12 0) 0x9400)"

lemma processes_more: "file_state.more s' = file_state.more s \<Longrightarrow> processes s' = processes s" for s :: "'a proc_state_scheme"
  by (cases s; cases s') simp

lemma more_task_fields:
  "file_state.more s' = file_state.more s \<Longrightarrow> task_head s' = task_head s \<and> task_tail s' = task_tail s \<and> task_current s' = task_current s"
  for s :: "'a proc_state_scheme"
  by (cases s; cases s') simp

lemma demo_loader_machine: "demo_machine demo_loader demo_program 2048" "processes demo_loader = replicate 12 0"
  and demo_loader_tasks: "task_head demo_loader = 0" "task_tail demo_loader = 0" "task_current demo_loader = 0"
  by (simp_all add: demo_machine_def demo_loader_def demo_elf_boot_def Fat16_Mount.demo_boot_def demo_opened_defs file_state.extend_def elf_state.fields_def
      elf_state.extend_def task_state.extend_def task_state.fields_def proc_state.fields_def)

lemma demo_loader_region: "\<forall>a\<in>kregion demo_loader. unat a < 2 ^ 31"
proof
  fix a assume "a \<in> kregion demo_loader"
  then have "uint a < 0x1800000"
    using demo_loader_machine(1) by (simp add: demo_machine_def kregion_def heap_region_def demo_heap_def config_simps)
  then have "int (unat a) < int 0x1800000" by (simp only: uint_nat of_nat_numeral)
  then have "unat a < 0x1800000" by (simp only: of_nat_less_iff)
  then show "unat a < 2 ^ 31" by simp
qed

theorem process_load_runs_program_witness:
  "\<exists>s proc s'. Option.bind (fs_init demo_loader) disk_search_and_init = Some s \<and> process_load (\<lambda>s _. Some (0, s)) s 0x2000 = Some (0, proc, s') \<and>
    process_get s' 0 = proc \<and> ip (regs (tasks s' (proc_task (procs s' proc)))) = 0x400054 \<and>
    mem s' (task_virt_to_phys_addr s' (proc_task (procs s' proc)) 0x400054) = 0xCD"
proof -
  obtain s where s: "Option.bind (fs_init demo_loader) disk_search_and_init = Some s"
    "can_load s (boot_img demo_program) (2 ^ 22 - 1) 2 0x2000 hi_txt 0 0 [2] 88" "kfits s 2042" "kregion s = kregion demo_loader"
    "file_state.more s = file_state.more demo_loader"
    using demo_can_load [OF demo_loader_machine(1)] by (auto simp: demo_program_length)
  let ?fm = "file_mem (volume_of s (boot_img demo_program) (2 ^ 22 - 1)) [2]"
  have fm: "?fm a = demo_program ! unat a" if "unat a < 88" for a using demo_file_mem [of a demo_program] that by (simp add: demo_program_length)
  note h = demo_program_header [OF fm] and ph = demo_program_phdrs [OF fm] and lay = demo_program_layout [OF fm]
  have fit: "kfits s (blocks_for (of_nat 88) + 1042)" by (rule kz.fits_mono [OF s(3)]) (simp add: blocks_for_def)
  have pr: "processes s = replicate 12 0" using processes_more [OF s(5)] demo_loader_machine(2) by simp
  have slot: "first_null (processes s) = Some 0" "length (processes s) = ENKI_MAX_PROCESSES" by (simp_all add: pr numeral_eq_Suc config_simps)
  have reg: "\<forall>a\<in>kregion s. unat a < 2 ^ 31" using s(4) demo_loader_region by simp
  have ts: "task_list s []" "\<forall>u\<in>set []. (u, 1) \<in> kallocs s"
    using more_task_fields [OF s(5)] by (simp_all add: task_list_def task_chain_def demo_loader_tasks)
  obtain proc s' where r: "process_load (\<lambda>s _. Some (0, s)) s 0x2000 = Some (0, proc, s')" "processes s' = (processes s)[0 := proc]"
    "runs_image s' (proc_task (procs s' proc)) ?fm"
    using process_load_runs_program [OF s(2) fit ph(2) lay slot reg ts, of "\<lambda>s _. Some (0, s)"] by blast
  note ri = r(3) [unfolded runs_image_def]
  have "\<forall>off<p_filesz ?fm 52. mem s' (task_virt_to_phys_addr s' (proc_task (procs s' proc)) (p_vaddr ?fm 52 + off)) = ?fm (p_offset ?fm 52 + off)"
    using ri ph(1) by simp
  then have seg: "mem s' (task_virt_to_phys_addr s' (proc_task (procs s' proc)) (0x400000 + off)) = ?fm (0 + off)" if "off < 88" for off
    using that h(6-8) by simp
  have "mem s' (task_virt_to_phys_addr s' (proc_task (procs s' proc)) (0x400000 + 0x54)) = ?fm (0 + 0x54)"
    using seg [of "0x54"] by simp
  moreover have "?fm (0 + 0x54) = 0xCD" using fm [of "0x54"] by (simp add: demo_program_def)
  moreover have "process_get s' 0 = proc" using r(2) pr by (simp add: process_get_def config_simps numeral_eq_Suc)
  ultimately show ?thesis using s(1) r(1) ri h(3) by (intro exI [of _ s] exI [of _ proc] exI [of _ s']) simp
qed

end
