(* ===== verification/Kernel_Proofs.thy ===== *)
theory Kernel_Proofs
  imports Sched_Proofs
begin

unbundle bit_operations_syntax

text \<open>
  The kernel as a state machine. A step is an interrupt, a system call or a write to memory of the running program; the
  invariant says in which state the kernel hands the processor back to user mode, and every task gets its turn.
\<close>

section \<open>What the scheduler sees\<close>

text \<open>The tables that decide what runs next: the tasks, the callbacks of the interrupts and the system calls.\<close>

definition sched_view :: "'a kernel_state_scheme \<Rightarrow> (u32 \<Rightarrow> task) \<times> u32 \<times> u32 \<times> int_callback option list \<times> syscall_fn option list" where
  "sched_view s = (tasks s, task_head s, task_current s, int_callbacks s, syscalls s)"

lemma sched_view_more: "tty_state.more s' = tty_state.more s \<Longrightarrow> sched_view s' = sched_view (s :: 'a kernel_state_scheme)"
  by (cases s; cases s'; simp add: sched_view_def)

lemma sched_view_kheap: "kheap_state.more s' = kheap_state.more s \<Longrightarrow> sched_view s' = sched_view (s :: 'a kernel_state_scheme)"
  by (cases s; cases s'; simp add: sched_view_def)

lemma sched_view_upd [simp]:
  "sched_view (s\<lparr>mem := m\<rparr>) = sched_view s" "sched_view (s\<lparr>data_seg := d\<rparr>) = sched_view s" "sched_view (s\<lparr>procs := ps\<rparr>) = sched_view s"
  "sched_view (paging_switch s dir) = sched_view s" "sched_view (kfree s p) = sched_view s" "sched_view (kernel_page s) = sched_view s"
  "sched_view (task_page s) = sched_view s" "sched_view (task_page_to s t) = sched_view s" "sched_view (outb s pt v) = sched_view s"
  "sched_view (s\<lparr>flags_reg := fl\<rparr>) = sched_view s" "sched_view (s\<lparr>keyboards := k\<rparr>) = sched_view s" "sched_view (s\<lparr>io_trace := tr\<rparr>) = sched_view s"
  by (simp_all add: sched_view_def paging_switch_def kfree_def kernel_page_def kernel_registers_def task_page_def task_page_to_def
      task_switch_def user_registers_def outb_def)

lemma sched_view_kzalloc [simp]: "sched_view (snd (kzalloc s sz)) = sched_view s"
  by (rule sched_view_kheap) simp

lemma tty_emit_more: "tty_state.more (tty_emit s c col) = tty_state.more s"
  by (simp add: tty_emit_def tty_putchar_def Let_def)

lemma tty_writechar_more: "tty_state.more (tty_writechar s c col) = tty_state.more s"
  by (simp add: tty_writechar_def tty_newline_def tty_tab_def tty_backspace_def tty_emit_more Let_def eval_nat_numeral)

lemma tty_writestr_loop_more: "tty_writestr_loop s p i = Some s' \<Longrightarrow> tty_state.more s' = tty_state.more s"
proof (rule tty_writestr_loop.raw_induct [where P = "\<lambda>s p i s'. tty_state.more s' = tty_state.more s"])
  fix f s p i s'
  assume IH: "\<And>s p i s'. f s p i = Some s' \<Longrightarrow> tty_state.more s' = tty_state.more s"
    and "Option.bind (strlen (mem s) p) (\<lambda>len. if i < len then f (tty_writechar s (mem s (p + i)) (color_code VGA_COLOR_WHITE)) p (i + 1) else Some s) = Some s'"
  then show "tty_state.more s' = tty_state.more s" using IH by (auto simp: bind_eq_Some_conv tty_writechar_more split: if_splits)
qed

lemma sched_view_tty [simp]: "sched_view (tty_writechar s c col) = sched_view s"
  by (rule sched_view_more) (rule tty_writechar_more)

lemma sched_view_stack_item [simp]: "sched_view (snd (task_get_stack_item s t i)) = sched_view s"
  by (simp add: task_get_stack_item_def Let_def)

lemma sched_view_copy_str [simp]: "sched_view (snd (copy_str_from_task s t va pa n)) = sched_view s"
  by (simp add: copy_str_from_task_def Let_def split_beta)

lemma sched_view_process_malloc [simp]: "sched_view (snd (process_malloc s proc sz)) = sched_view s"
  by (simp add: process_malloc_def Let_def split_beta)

lemma sched_view_process_free [simp]: "sched_view (process_free s proc p) = sched_view s"
  by (simp add: process_free_def Let_def split_beta split: option.splits)

lemma sched_view_keyboard_pop [simp]: "sched_view (snd (keyboard_pop s)) = sched_view s"
  by (simp add: keyboard_pop_def Let_def split_beta)

text \<open>The system calls that start or end no process.\<close>

definition process_call :: "syscall_fn \<Rightarrow> bool" where
  "process_call fn \<longleftrightarrow> fn \<in> {Syscall_6_proc_start, Syscall_7_system, Syscall_9_exit}"

lemma run_syscall_view:
  assumes "run_syscall term fn s = Some (out, s')" "\<not> process_call fn"
  shows "(\<exists>v. out = Returned v) \<and> sched_view s' = sched_view s"
proof (cases fn)
  case Syscall_1_print
  then obtain s2 where "tty_writestr s2 (stk_print s2) = Some s'" "sched_view s2 = sched_view s" "out = Returned 0"
    using assms(1) by (simp add: syscall_1_print_def Let_def split_beta bind_eq_Some_conv) (metis sched_view_copy_str sched_view_stack_item)
  then show ?thesis using sched_view_more tty_writestr_loop_more unfolding tty_writestr_def by metis
qed (use assms in \<open>auto simp: process_call_def syscall_2_getkey_def syscall_3_putchar_def syscall_4_malloc_def syscall_5_free_def
    syscall_8_pgm_args_def Let_def split_beta\<close>)

lemma sched_view_keyboard_push [simp]: "sched_view (keyboard_push s c) = sched_view s"
  by (simp add: keyboard_push_def Let_def)

lemma ps2_handle_interrupt_view:
  assumes "ps2_handle_interrupt s = Some s'"
  shows "sched_view s' = sched_view s"
  using assms by (auto simp: ps2_handle_interrupt_def Let_def split_beta inpb_def keyboard_set_capslock_def split: if_splits)

section \<open>Steps of the machine\<close>

datatype event = Interrupt int registers | Syscall int registers | User_write u32 u8

text \<open>
  What the processor lets a program write: both the entry of the loaded directory and the entry of the page table have the
  flags present, writable and user.
\<close>

definition user_writable :: "memory \<Rightarrow> u32 \<Rightarrow> u32 \<Rightarrow> bool" where
  "user_writable m dir a \<longleftrightarrow> load32 m (dir + 4 * (a div 0x400000)) AND 7 = 7 \<and> paging_get m dir (paging_align_to_lower a) AND 7 = 7"

text \<open>
  A step: the program in user mode writes a byte of its memory, or it is interrupted, the handler runs to its end and user
  mode continues. What the flags of the processor are when the kernel is entered is left open.
\<close>

inductive kernel_step :: "'a terminator \<Rightarrow> 'a kernel_state_scheme \<Rightarrow> event \<Rightarrow> 'a kernel_state_scheme \<Rightarrow> bool" for "term" where
  step_interrupt: "interrupt_handler term (s\<lparr>flags_reg := fl\<rparr>) n frame = Some (out, s') \<Longrightarrow> kernel_step term s (Interrupt n frame) s'"
| step_syscall: "syscall_handler term (s\<lparr>flags_reg := fl\<rparr>) idx frame = Some (out, s') \<Longrightarrow> kernel_step term s (Syscall idx frame) s'"
| step_write: "user_writable (mem s) (page_reg s) a \<Longrightarrow>
    kernel_step term s (User_write a v) (s\<lparr>mem := (mem s)(paging_get_phys_addr (mem s) (page_reg s) a := v)\<rparr>)"

inductive_cases step_interruptE: "kernel_step term s (Interrupt n frame) s'"
inductive_cases step_syscallE: "kernel_step term s (Syscall idx frame) s'"
inductive_cases step_writeE: "kernel_step term s (User_write a v) s'"

text \<open>
  Tasks, processes, the block table of the heap and the variables of the kernel are in memory too. The model keeps them as
  values of their own, so a write to their bytes would not show in them. \<open>K\<close> is the set of these bytes: a step is contained
  when, whatever these bytes hold, it does not write them, and does not change the bytes \<open>D\<close> that hold the page directories
  that the kernel relies on. Runs consist of contained steps. A step that is not contained can destroy the kernel: so can
  the system call for the arguments of a program, which writes to any address that the program passes.
\<close>

definition contained :: "'a terminator \<Rightarrow> u32 set \<Rightarrow> u32 set \<Rightarrow> 'a kernel_state_scheme \<Rightarrow> event \<Rightarrow> bool" where
  "contained term K D s e \<longleftrightarrow> (\<forall>c s'. kernel_step term (s\<lparr>mem := override_on (mem s) c K\<rparr>) e s' \<longrightarrow>
     (\<forall>a\<in>K \<union> D. mem s' a = override_on (mem s) c K a))"

inductive kernel_run :: "'a terminator \<Rightarrow> u32 set \<Rightarrow> u32 set \<Rightarrow> 'a kernel_state_scheme \<Rightarrow> event list \<Rightarrow> 'a kernel_state_scheme \<Rightarrow> bool"
  for "term" and K and D and s where
  run_start: "kernel_run term K D s [] s"
| run_step: "kernel_run term K D s es s1 \<Longrightarrow> contained term K D s1 e \<Longrightarrow> kernel_step term s1 e s2 \<Longrightarrow> kernel_run term K D s (es @ [e]) s2"

text \<open>
  The bytes of the structures of the tasks \<open>ts\<close>: each task and its process, and the block table; and the bytes of the
  directories: the pointer to the entries for each task, and the whole directory of the kernel, its tables included.
\<close>

definition structure_bytes :: "u32 list \<Rightarrow> (u32 \<Rightarrow> u32 \<times> u32) \<Rightarrow> u32 set" where
  "structure_bytes ts owner = heap_table_bytes \<union> (\<Union>t\<in>set ts. {a. a - t < 64} \<union> {a. a - snd (owner t) < 9360})"

definition directory_bytes :: "u32 list \<Rightarrow> (u32 \<Rightarrow> u32 \<times> u32) \<Rightarrow> 'a kernel_state_scheme \<Rightarrow> u32 set" where
  "directory_bytes ts owner s = (\<Union>t\<in>set ts. {a. a - fst (owner t) < 4}) \<union> (\<Union>p\<in>dir_pages (mem s) (kernel_page_dir s). extent p 1)"

lemma contained_keeps:
  assumes "contained term K D s e" "kernel_step term s e s'" "a \<in> K \<union> D"
  shows "mem s' a = mem s a"
proof -
  have id: "override_on (mem s) (mem s) K = mem s" by (simp add: override_on_def)
  have "mem s' a = override_on (mem s) (mem s) K a"
    using assms unfolding contained_def by (elim allE [of _ "mem s"] allE [of _ s'] impE) (simp_all add: id)
  then show ?thesis by (simp only: id)
qed

lemma dir_entries_kept:
  assumes "{a. a - p < 4} \<subseteq> D" "\<And>a. a \<in> D \<Longrightarrow> m' a = m a"
  shows "dir_entries m' p = dir_entries m p"
proof -
  have "m' (p + k) = m (p + k)" if "k < 4" for k using assms that by (simp add: subset_iff)
  from this [of 0] this [of 1] this [of 2] this [of 3] show ?thesis by (simp add: dir_entries_def load32_def)
qed

text \<open>
  The tables of a kernel with the tasks \<open>ts\<close>: the list is linked in this order, the current task is one of it, each task has
  the page directory and the process that \<open>owner\<close> gives, the saved data segments are those of user mode, interrupts
  from 32 on lead to the clock or the keyboard driver, and a system call is registered under its number only.
\<close>

definition sched_ok :: "u32 list \<Rightarrow> (u32 \<Rightarrow> u32 \<times> u32) \<Rightarrow> 'a kernel_state_scheme \<Rightarrow> bool" where
  "sched_ok ts owner s \<longleftrightarrow> task_chain s ts \<and> task_current s \<in> set ts \<and>
     (\<forall>t\<in>set ts. (page_dir (tasks s t), task_process (tasks s t)) = owner t \<and> ss (regs (tasks s t)) = 0x23) \<and>
     (\<forall>n\<ge>32. n < 512 \<longrightarrow> int_callbacks s ! n \<noteq> Some Idt_handle_exception) \<and>
     (\<forall>i<256. \<forall>fn. syscalls s ! i = Some fn \<longrightarrow> syscall_number fn = int i)"

text \<open>The state in which the kernel leaves user mode running: also the directory of the task is loaded.\<close>

definition user_ready :: "u32 list \<Rightarrow> (u32 \<Rightarrow> u32 \<times> u32) \<Rightarrow> 'a kernel_state_scheme \<Rightarrow> bool" where
  "user_ready ts owner s \<longleftrightarrow> sched_ok ts owner s \<and> data_seg s = 0x23 \<and>
     page_reg s = dir_entries (mem s) (page_dir (tasks s (task_current s)))"

lemma sched_ok_view: "sched_view s' = sched_view s \<Longrightarrow> sched_ok ts owner s' = sched_ok ts owner s"
  by (simp add: sched_view_def sched_ok_def task_chain_def)

lemma sched_view_fields:
  assumes "sched_view s' = sched_view s"
  shows "int_callbacks s' = int_callbacks s" "task_current s' = task_current s" "task_get_next s' = task_get_next s"
  using assms by (simp_all add: sched_view_def task_get_next_def)

text \<open>No exception, and no system call that starts or ends a process; the frame comes from user mode.\<close>

fun quiet_event :: "event \<Rightarrow> bool" where
  "quiet_event (Interrupt n frame) \<longleftrightarrow> ss frame = 0x23 \<and> 32 \<le> n"
| "quiet_event (Syscall idx frame) \<longleftrightarrow> ss frame = 0x23 \<and> idx \<notin> {6, 7, 9}"
| "quiet_event (User_write a v) \<longleftrightarrow> True"

fun clock_event :: "event \<Rightarrow> bool" where
  "clock_event (Interrupt n frame) \<longleftrightarrow> n = 0x20"
| "clock_event _ \<longleftrightarrow> False"

text \<open>Going back to the current task loads its directory and the user segments.\<close>

lemma task_page_ready: "sched_ok ts owner s \<Longrightarrow> user_ready ts owner (task_page s)"
  using sched_ok_view [of "task_page s" s] sched_view_upd(7) [of s]
  by (simp add: user_ready_def) (simp add: task_page_def task_switch_def paging_switch_def user_registers_def)

lemma user_ready_outb: "user_ready ts owner (outb s pt v) = user_ready ts owner s"
  using sched_ok_view [of "outb s pt v" s] by (simp add: user_ready_def) (simp add: outb_def)

lemma user_ready_flags: "user_ready ts owner (s\<lparr>flags_reg := fl\<rparr>) = user_ready ts owner s"
  using sched_ok_view [of "s\<lparr>flags_reg := fl\<rparr>" s] by (simp add: user_ready_def)

lemma save_state_fields:
  assumes "task_current_save_state s frame = Some s'"
  shows "tasks s' = (tasks s)(task_current s := (tasks s (task_current s))\<lparr>regs := frame\<rparr>)" "task_head s' = task_head s"
    "task_current s' = task_current s" "int_callbacks s' = int_callbacks s" "syscalls s' = syscalls s" "task_get_next s' = task_get_next s"
  using assms by (auto simp: task_current_save_state_def task_save_state_def save_all_registers task_get_next_def split: if_splits)

lemma save_state_ok:
  assumes "sched_ok ts owner s" "ss frame = 0x23" "task_current_save_state s frame = Some s'"
  shows "sched_ok ts owner s'"
proof -
  note s' = save_state_fields [OF assms(3)]
  have "task_chain s' ts = task_chain s ts" by (rule task_chain_cong) (simp_all add: s')
  then show ?thesis using assms(1,2) by (auto simp: sched_ok_def s')
qed

lemma next_task_listed:
  assumes "task_chain s ts" "task_current s \<in> set ts"
  shows "task_get_next s \<in> set ts"
proof -
  obtain i where i: "i < length ts" "task_current s = ts ! i" using assms(2) by (metis in_set_conv_nth)
  then have "Suc i mod length ts < length ts" by (intro mod_less_divisor) linarith
  then show ?thesis using task_get_next_robin [OF assms(1) i] by simp
qed

lemma switch_next_ready:
  assumes "sched_ok ts owner s" "task_switch_next s = Some (out, s')"
  shows "user_ready ts owner s' \<and> task_current s' = task_get_next s \<and> int_callbacks s' = int_callbacks s"
proof -
  define t where "t = task_get_next s"
  have t: "t \<in> set ts" unfolding t_def by (rule next_task_listed) (use assms(1) in \<open>simp_all add: sched_ok_def\<close>)
  then have ss: "ss (regs (tasks s t)) = 0x23" using assms(1) by (simp add: sched_ok_def)
  have s': "s' = (task_switch s t)\<lparr>data_seg := 0x23\<rparr>"
    using assms(2) ss by (auto simp: task_switch_next_def t_def [symmetric] task_return_def task_switch_def paging_switch_def Let_def split: if_splits)
  have "task_chain s' ts = task_chain s ts" by (rule task_chain_cong) (simp_all add: s' task_switch_def paging_switch_def)
  then show ?thesis using assms(1) t by (simp add: user_ready_def sched_ok_def s' task_switch_def paging_switch_def t_def)
qed

lemma run_callback_ready:
  assumes "sched_ok ts owner s" "run_callback term cb s = Some (out, s')" "cb \<noteq> Idt_handle_exception"
  shows "(case out of Returned _ \<Rightarrow> sched_ok ts owner s' | User_mode _ \<Rightarrow> user_ready ts owner s') \<and> int_callbacks s' = int_callbacks s \<and>
    task_current s' = (if cb = Idt_clock then task_get_next s else task_current s)"
proof (cases cb)
  case Idt_clock
  then have sw: "task_switch_next (outb s 0x20 0x20) = Some (out, s')" using assms(2) by (simp add: idt_clock_def)
  have "sched_ok ts owner (outb s 0x20 0x20)" using assms(1) sched_ok_view [of "outb s 0x20 0x20" s] by simp
  from switch_next_ready [OF this sw] show ?thesis
    using Idt_clock sched_view_fields [of "outb s 0x20 0x20" s] by (auto simp: user_ready_def split: outcome.splits)
next
  case Ps2_handle_interrupt
  then have ps: "ps2_handle_interrupt s = Some s'" "out = Returned ()" using assms(2) by auto
  then show ?thesis using assms(1) sched_ok_view [OF ps2_handle_interrupt_view [OF ps(1)]] Ps2_handle_interrupt
      sched_view_fields [OF ps2_handle_interrupt_view [OF ps(1)]] by simp
qed (use assms(3) in simp)

lemma interrupt_ready:
  assumes "user_ready ts owner s" "ss frame = 0x23" "32 \<le> n" "interrupt_handler term s n frame = Some (out, s')"
  shows "user_ready ts owner s' \<and> nat n < 512 \<and> int_callbacks s' = int_callbacks s \<and>
    task_current s' = (if int_callbacks s ! nat n = Some Idt_clock then task_get_next s else task_current s)"
proof -
  have ok: "sched_ok ts owner (kernel_page s)" using assms(1) sched_ok_view [of "kernel_page s" s] by (simp add: user_ready_def)
  have n: "nat n < 512" "32 \<le> nat n" using assms(3,4) by (auto simp: interrupt_handler_def config_simps split: if_splits)
  have n': "\<not> (n < 0 \<or> n \<ge> int ENKI_TOTAL_INTERRUPTS)" using n by (simp add: config_simps) linarith
  note k = sched_view_fields [of "kernel_page s" s, OF sched_view_upd(6)]
  have bk: "int_callbacks (outb (task_page u) 0x20 0x20) = int_callbacks u" "task_current (outb (task_page u) 0x20 0x20) = task_current u"
    for u :: "'a kernel_state_scheme" using sched_view_fields [of "outb (task_page u) 0x20 0x20" u] by simp_all
  show ?thesis
  proof (cases "int_callbacks s ! nat n")
    case None
    then have "s' = outb (task_page (kernel_page s)) 0x20 0x20" using assms(4) n' k(1) by (simp add: interrupt_handler_def Let_def)
    then show ?thesis using task_page_ready [OF ok] None n(1) k by (simp add: user_ready_outb bk)
  next
    case (Some cb)
    then have cb: "cb \<noteq> Idt_handle_exception" using ok n k(1) by (auto simp: sched_ok_def)
    obtain s2 o' s3 where s2: "task_current_save_state (kernel_page s) frame = Some s2" and s3: "run_callback term cb s2 = Some (o', s3)"
      and res: "(case o' of Returned _ \<Rightarrow> (Returned (), outb (task_page s3) 0x20 0x20) | User_mode r \<Rightarrow> (User_mode r, s3)) = (out, s')"
      using assms(4) n' Some k(1) by (auto simp: interrupt_handler_def Let_def bind_eq_Some_conv)
    have "sched_ok ts owner s2" by (rule save_state_ok [OF ok assms(2) s2])
    from run_callback_ready [OF this s3 cb] show ?thesis
      using res n(1) Some k save_state_fields [OF s2] by (cases o') (auto simp: user_ready_outb task_page_ready bk)
  qed
qed

lemma syscall_ready:
  assumes "user_ready ts owner s" "ss frame = 0x23" "idx \<notin> {6, 7, 9}" "syscall_handler term s idx frame = Some (out, s')"
  shows "user_ready ts owner s' \<and> int_callbacks s' = int_callbacks s \<and> task_current s' = task_current s"
proof -
  have ok: "sched_ok ts owner (kernel_page s)" using assms(1) sched_ok_view [of "kernel_page s" s] by (simp add: user_ready_def)
  note k = sched_view_fields [of "kernel_page s" s, OF sched_view_upd(6)]
  obtain s1 o' s2 where s1: "task_current_save_state (kernel_page s) frame = Some s1" and s2: "syscall_invoke term s1 idx = Some (o', s2)"
    and res: "(case o' of Returned v \<Rightarrow> (Returned v, task_page s2) | User_mode r \<Rightarrow> (User_mode r, s2)) = (out, s')"
    using assms(4) by (auto simp: syscall_handler_def bind_eq_Some_conv)
  have ok1: "sched_ok ts owner s1" by (rule save_state_ok [OF ok assms(2) s1])
  have "(\<exists>v. o' = Returned v) \<and> sched_view s2 = sched_view s1"
  proof (cases "0 \<le> idx \<and> idx < 256 \<and> syscalls s1 ! nat idx \<noteq> None")
    case True
    then obtain fn where fn: "syscalls s1 ! nat idx = Some fn" by auto
    have "nat idx < 256" using True by linarith
    then have "syscall_number fn = int (nat idx)" using ok1 fn unfolding sched_ok_def by blast
    then have "syscall_number fn = idx" using True by simp
    then have "\<not> process_call fn" using assms(3) by (auto simp: process_call_def)
    moreover have "run_syscall term fn s1 = Some (o', s2)" using s2 fn True by (simp add: syscall_invoke_def config_simps)
    ultimately show ?thesis using run_syscall_view by blast
  next
    case False
    then show ?thesis using s2 by (auto simp: syscall_invoke_def config_simps split: if_splits)
  qed
  then show ?thesis using ok1 sched_ok_view [of s2 s1] task_page_ready [of ts owner s2] res sched_view_fields [of s2 s1]
      sched_view_fields [of "task_page s2" s2] save_state_fields [OF s1] k by auto
qed

lemma write_ready:
  assumes "user_ready ts owner s" "\<And>t. t \<in> set ts \<Longrightarrow> {a. a - fst (owner t) < 4} \<subseteq> D" "\<And>a. a \<in> D \<Longrightarrow> m a = mem s a"
  shows "user_ready ts owner (s\<lparr>mem := m\<rparr>)"
proof -
  let ?t = "task_current s"
  have t: "?t \<in> set ts" "page_dir (tasks s ?t) = fst (owner ?t)"
    using assms(1) by (auto simp: user_ready_def sched_ok_def) (metis fst_conv)
  have "dir_entries m (page_dir (tasks s ?t)) = dir_entries (mem s) (page_dir (tasks s ?t))"
    unfolding t(2) by (rule dir_entries_kept [OF assms(2) [OF t(1)] assms(3)])
  then show ?thesis using assms(1) sched_ok_view [of "s\<lparr>mem := m\<rparr>" s] by (simp add: user_ready_def)
qed

text \<open>One step: the invariant stays, and the clock alone moves the current task on.\<close>

definition clock_alone :: "'a kernel_state_scheme \<Rightarrow> bool" where
  "clock_alone s \<longleftrightarrow> int_callbacks s ! 0x20 = Some Idt_clock \<and> (\<forall>n>0x20. n < 512 \<longrightarrow> int_callbacks s ! n \<noteq> Some Idt_clock)"

lemma kernel_step_ready:
  assumes "user_ready ts owner s" "directory_bytes ts owner s0 \<subseteq> D" "quiet_event e" "contained term K D s e" "kernel_step term s e s'"
  shows "user_ready ts owner s'" "int_callbacks s' = int_callbacks s"
    "clock_alone s \<Longrightarrow> task_current s' = (if clock_event e then task_get_next s else task_current s)"
proof -
  have "user_ready ts owner s' \<and> int_callbacks s' = int_callbacks s \<and>
    (clock_alone s \<longrightarrow> task_current s' = (if clock_event e then task_get_next s else task_current s))"
    using assms(5)
  proof cases
    case (step_interrupt fl n frame out)
    have "user_ready ts owner (s\<lparr>flags_reg := fl\<rparr>)" using assms(1) by (simp add: user_ready_flags)
    from interrupt_ready [OF this _ _ step_interrupt(2)] show ?thesis
      using assms(3) step_interrupt(1) sched_view_fields [of "s\<lparr>flags_reg := fl\<rparr>" s] by (auto simp: clock_alone_def nat_less_iff)
  next
    case (step_syscall fl idx frame out)
    have "user_ready ts owner (s\<lparr>flags_reg := fl\<rparr>)" using assms(1) by (simp add: user_ready_flags)
    from syscall_ready [OF this _ _ step_syscall(2)] show ?thesis using assms(3) step_syscall(1) by simp
  next
    case (step_write a v)
    have "\<And>t. t \<in> set ts \<Longrightarrow> {a. a - fst (owner t) < 4} \<subseteq> D" using assms(2) by (auto simp: directory_bytes_def)
    moreover have "\<And>b. b \<in> D \<Longrightarrow> ((mem s)(paging_get_phys_addr (mem s) (page_reg s) a := v)) b = mem s b"
      using contained_keeps [OF assms(4,5)] step_write(2) by simp
    ultimately have "user_ready ts owner s'" unfolding step_write(2) by (rule write_ready [OF assms(1)])
    then show ?thesis using step_write by simp
  qed
  then show "user_ready ts owner s'" "int_callbacks s' = int_callbacks s"
    "clock_alone s \<Longrightarrow> task_current s' = (if clock_event e then task_get_next s else task_current s)" by blast+
qed

lemma kernel_run_ready:
  assumes "kernel_run term K D s es s'" "user_ready ts owner s" "directory_bytes ts owner s \<subseteq> D" "\<forall>e\<in>set es. quiet_event e"
  shows "user_ready ts owner s' \<and> int_callbacks s' = int_callbacks s"
  using assms
proof (induction rule: kernel_run.induct)
  case (run_step es s1 e s2)
  then have "user_ready ts owner s1" "int_callbacks s1 = int_callbacks s" "quiet_event e" by simp_all
  then show ?case using kernel_step_ready(1,2) [OF _ run_step.prems(2) _ run_step.hyps(2,3)] by simp
qed simp

lemma kernel_run_current:
  assumes "kernel_run term K D s es s'" "user_ready ts owner s" "directory_bytes ts owner s \<subseteq> D" "\<forall>e\<in>set es. quiet_event e"
    and "clock_alone s" "i < length ts" "task_current s = ts ! i"
  shows "task_current s' = ts ! ((i + length (filter clock_event es)) mod length ts)"
  using assms
proof (induction rule: kernel_run.induct)
  case (run_step es s1 e s2)
  let ?j = "(i + length (filter clock_event es)) mod length ts"
  have q: "\<forall>e\<in>set es. quiet_event e" "quiet_event e" using run_step.prems by simp_all
  have r1: "user_ready ts owner s1" "int_callbacks s1 = int_callbacks s"
    using kernel_run_ready [OF run_step.hyps(1) run_step.prems(1,2) q(1)] by simp_all
  have c1: "task_current s1 = ts ! ?j" using run_step.IH [OF run_step.prems(1,2) q(1) run_step.prems(4-6)] .
  have j: "?j < length ts" using run_step.prems(5) by (intro mod_less_divisor) linarith
  have "task_get_next s1 = ts ! (Suc ?j mod length ts)"
    using task_get_next_robin [OF _ j c1] r1(1) by (simp add: user_ready_def sched_ok_def)
  moreover have "clock_alone s1" using run_step.prems(4) r1(2) by (simp add: clock_alone_def)
  ultimately show ?case
    using kernel_step_ready(3) [OF r1(1) run_step.prems(2) q(2) run_step.hyps(2,3)] c1 by (simp add: mod_Suc_eq)
qed simp

section \<open>Steps that are contained\<close>

text \<open>A write of the program is contained when it does not reach \<open>K\<close> and \<open>D\<close>.\<close>

lemma write_contained:
  assumes "\<And>c. paging_get_phys_addr (override_on (mem s) c K) (page_reg s) a \<notin> K \<union> D"
  shows "contained term K D s (User_write a v)"
  unfolding contained_def using assms by (auto elim!: step_writeE)

lemma unwritten_contained:
  assumes "\<And>m s'. kernel_step term (s\<lparr>mem := m\<rparr>) e s' \<Longrightarrow> mem s' = m"
  shows "contained term K D s e"
  unfolding contained_def using assms by auto

text \<open>Every interrupt from 32 on is: the handlers of the clock and the keyboard do not write to the byte memory.\<close>

lemma switch_keeps_mem [simp]:
  "mem (kernel_page s) = mem s" "mem (task_page s) = mem s" "mem (task_switch s t) = mem s"
  by (simp_all add: kernel_page_def kernel_registers_def paging_switch_def task_page_def task_switch_def user_registers_def)

lemma save_state_mem: "task_current_save_state s frame = Some s' \<Longrightarrow> mem s' = mem s"
  by (auto simp: task_current_save_state_def task_save_state_def split: if_splits)

lemma keyboard_push_mem [simp]: "mem (keyboard_push s c) = mem s"
  by (simp add: keyboard_push_def Let_def)

lemma ps2_keeps_mem: "ps2_handle_interrupt s = Some s' \<Longrightarrow> mem s' = mem s"
  by (auto simp: ps2_handle_interrupt_def Let_def split_beta inpb_def keyboard_set_capslock_def split: if_splits)

lemma callback_keeps_mem: "run_callback term cb s = Some (out, s') \<Longrightarrow> cb \<noteq> Idt_handle_exception \<Longrightarrow> mem s' = mem s"
  by (cases cb) (auto simp: idt_clock_def task_switch_next_def task_return_def Let_def dest: ps2_keeps_mem split: if_splits)

lemma interrupt_keeps_mem:
  assumes "interrupt_handler term s n frame = Some (out, s')" "int_callbacks s ! nat n \<noteq> Some Idt_handle_exception"
  shows "mem s' = mem s"
proof (cases "int_callbacks s ! nat n")
  case None
  moreover have "int_callbacks (kernel_page s) = int_callbacks s" by (simp add: kernel_page_def kernel_registers_def paging_switch_def)
  ultimately show ?thesis using assms(1) by (auto simp: interrupt_handler_def Let_def split: if_splits)
next
  case (Some cb)
  moreover have "int_callbacks (kernel_page s) = int_callbacks s" by (simp add: kernel_page_def kernel_registers_def paging_switch_def)
  ultimately obtain s2 o' s3 where r: "task_current_save_state (kernel_page s) frame = Some s2" "run_callback term cb s2 = Some (o', s3)"
    "(case o' of Returned _ \<Rightarrow> (Returned (), outb (task_page s3) 0x20 0x20) | User_mode r \<Rightarrow> (User_mode r, s3)) = (out, s')"
    using assms(1) by (auto simp: interrupt_handler_def Let_def bind_eq_Some_conv split: if_splits)
  have "mem s3 = mem s" using save_state_mem [OF r(1)] callback_keeps_mem [OF r(2)] assms(2) Some by simp
  then show ?thesis using r(3) by (cases o') auto
qed

lemma interrupt_contained:
  assumes "user_ready ts owner s" "32 \<le> n"
  shows "contained term K D s (Interrupt n frame)"
proof (rule unwritten_contained)
  fix m s'
  assume "kernel_step term (s\<lparr>mem := m\<rparr>) (Interrupt n frame) s'"
  then obtain fl out where h: "interrupt_handler term (s\<lparr>mem := m, flags_reg := fl\<rparr>) n frame = Some (out, s')" by (auto elim: step_interruptE)
  then have "nat n < 512" "32 \<le> nat n" using assms(2) by (auto simp: interrupt_handler_def config_simps split: if_splits)
  then have "int_callbacks s ! nat n \<noteq> Some Idt_handle_exception" using assms(1) by (simp add: user_ready_def sched_ok_def)
  then show "mem s' = m" using interrupt_keeps_mem [OF h] by simp
qed

text \<open>
  Reading a key and a call without a function are contained too. The call for the arguments of a program writes eight bytes at the
  address that the program has chosen, so whether it is contained is for the program to see to.
\<close>

lemma syscall_step_mem:
  assumes "kernel_step term s (Syscall idx frame) s'"
    and "\<And>s1 out s2. syscall_invoke term s1 idx = Some (out, s2) \<Longrightarrow> syscalls s1 = syscalls s \<Longrightarrow> mem s2 = mem s1"
  shows "mem s' = mem s"
proof -
  obtain fl out where h: "syscall_handler term (s\<lparr>flags_reg := fl\<rparr>) idx frame = Some (out, s')" using assms(1) by (auto elim: step_syscallE)
  then obtain s1 o' s2 where s1: "task_current_save_state (kernel_page (s\<lparr>flags_reg := fl\<rparr>)) frame = Some s1" and s2: "syscall_invoke term s1 idx = Some (o', s2)"
    and s': "(case o' of Returned v \<Rightarrow> (Returned v, task_page s2) | User_mode r \<Rightarrow> (User_mode r, s2)) = (out, s')"
    by (auto simp: syscall_handler_def bind_eq_Some_conv)
  have "syscalls (kernel_page (s\<lparr>flags_reg := fl\<rparr>)) = syscalls s" by (simp add: kernel_page_def kernel_registers_def paging_switch_def)
  then have "mem s2 = mem s1" using assms(2) [OF s2] save_state_fields(5) [OF s1] by simp
  then show ?thesis using s' save_state_mem [OF s1] by (cases o') auto
qed

lemma getkey_contained:
  assumes "syscalls s ! 2 = Some Syscall_2_getkey"
  shows "contained term K D s (Syscall 2 frame)"
proof (rule unwritten_contained)
  fix m s'
  assume "kernel_step term (s\<lparr>mem := m\<rparr>) (Syscall 2 frame) s'"
  then have "mem s' = mem (s\<lparr>mem := m\<rparr>)"
    using assms by (rule_tac syscall_step_mem) (auto simp: syscall_invoke_def syscall_2_getkey_def keyboard_pop_def Let_def split_beta config_simps split: if_splits)
  then show "mem s' = m" by simp
qed

lemma unused_call_contained:
  assumes "\<not> (0 \<le> idx \<and> idx < 256)"
  shows "contained term K D s (Syscall idx frame)"
proof (rule unwritten_contained)
  fix m s'
  assume "kernel_step term (s\<lparr>mem := m\<rparr>) (Syscall idx frame) s'"
  then have "mem s' = mem (s\<lparr>mem := m\<rparr>)"
    using assms by (rule_tac syscall_step_mem) (auto simp: syscall_invoke_def config_simps split: if_splits)
  then show "mem s' = m" by simp
qed

lemma args_call_writes:
  assumes "syscall_8_pgm_args s = Some (out, s')"
  defines "p \<equiv> task_virt_to_phys_addr (snd (task_get_stack_item s (task_current s) 0)) (task_current s) (fst (task_get_stack_item s (task_current s) 0))"
  shows "a \<notin> {p, p + 1, p + 2, p + 3, p + 4, p + 5, p + 6, p + 7} \<Longrightarrow> mem s' a = mem s a"
proof -
  assume a: "a \<notin> {p, p + 1, p + 2, p + 3, p + 4, p + 5, p + 6, p + 7}"
  obtain v w where s': "mem s' = store32 (store32 (mem (snd (task_get_stack_item s (task_current s) 0))) p v) (p + 4) w"
    using assms(1) by (auto simp: syscall_8_pgm_args_def p_def task_get_current_def Let_def split_beta)
  have "a \<notin> {p + 4, p + 4 + 1, p + 4 + 2, p + 4 + 3}" using a by (simp add: add.assoc)
  then have "mem s' a = mem (snd (task_get_stack_item s (task_current s) 0)) a" using a unfolding s' by (simp add: store32_frame)
  then show "mem s' a = mem s a" by (simp add: task_get_stack_item_def Let_def task_page_to_def user_registers_def paging_switch_def)
qed

section \<open>Properties of runs\<close>

text \<open>
  C4: the kernel hands the processor back in good order: after any sequence of writes of the programs to their memory,
  interrupts and system calls, short of exceptions and of starting or ending a process, in which no step writes over the
  structures of the kernel (\<open>contained\<close>), the list of tasks is linked as it was, every task still has its own page
  directory and process, the current task is one of the list, and the directory of the current task and the user
  segments are loaded. Interrupts are always contained (\<open>interrupt_contained\<close>). For system calls the kernel does not make sure of it
  itself: the arguments of a program and text below the last row of the screen are written without a check.
\<close>

theorem kernel_returns_in_order:
  assumes "kernel_run term K D s es s'" "user_ready ts owner s" "\<forall>e\<in>set es. quiet_event e"
    and "structure_bytes ts owner \<subseteq> K" "directory_bytes ts owner s \<subseteq> D"
  shows "user_ready ts owner s'"
  using kernel_run_ready [OF assms(1,2,5,3)] by simp

text \<open>
  Three tasks; the first can write the page at \<open>0x2000\<close>, which is the frame at \<open>0x5000\<close>, through the directory at \<open>0x01011000\<close> and the
  table at \<open>0x01012000\<close>.
\<close>

definition demo_tables :: memory where
  "demo_tables = store32 (store32 (store32 (\<lambda>_. 0) 0x01010000 0x01011000) 0x01011000 0x01012007) 0x01012008 0x5007"

definition demo_user :: kernel_state where
  "demo_user = demo_kernel\<lparr>mem := demo_tables, data_seg := 0x23, page_reg := 0x01011000, kernel_page_dir := 0x01008000,
     tasks := (\<lambda>t. (tasks demo_kernel t)\<lparr>regs := zero_registers\<lparr>ss := 0x23\<rparr>, task_process := 4 * t - 0x02000000\<rparr>)\<rparr>"

definition demo_owner_of :: "u32 \<Rightarrow> u32 \<times> u32" where
  "demo_owner_of t = (page_dir (tasks demo_kernel t), 4 * t - 0x02000000)"

abbreviation demo_K :: "u32 set" where
  "demo_K \<equiv> structure_bytes demo_ts demo_owner_of"

abbreviation demo_D :: "u32 set" where
  "demo_D \<equiv> directory_bytes demo_ts demo_owner_of demo_user"

lemma demo_user_ready: "user_ready demo_ts demo_owner_of demo_user" "clock_alone demo_user" "task_current demo_user = 0x01000000"
proof -
  have "task_chain demo_user demo_ts = task_chain demo_kernel demo_ts" by (rule task_chain_cong) (simp_all add: demo_user_def)
  then have "task_chain demo_user demo_ts" using demo_kernel_tasks(1) by (simp add: task_list_def)
  moreover have "task_current demo_user \<in> set demo_ts" using demo_kernel_tasks(3) by (simp add: demo_user_def)
  moreover have "int_callbacks demo_user ! n \<noteq> Some Idt_handle_exception" if "n < 512" for n
    using that by (simp add: demo_user_def demo_kernel_def nth_list_update)
  moreover have "syscalls demo_user ! i = None" if "i < 256" for i
    using that by (simp add: demo_user_def demo_kernel_def kbd_state.extend_def kernel_state.fields_def)
  moreover have "page_dir (tasks demo_kernel 0x01000000) = 0x01010000" by (simp add: demo_kernel_def)
  moreover have "dir_entries demo_tables 0x01010000 = 0x01011000" by (simp add: demo_tables_def dir_entries_def mem_simps)
  ultimately show "user_ready demo_ts demo_owner_of demo_user"
    using demo_kernel_tasks(3) by (simp add: user_ready_def sched_ok_def demo_owner_of_def demo_user_def)
  show "clock_alone demo_user" by (auto simp: clock_alone_def demo_user_def demo_kernel_def nth_list_update)
  show "task_current demo_user = 0x01000000" using demo_kernel_tasks(3) by (simp add: demo_user_def)
qed

text \<open>The byte at \<open>0x2000\<close> of the program is at \<open>0x5000\<close>, whatever the structures of the kernel hold.\<close>

lemma demo_outside: "x \<in> {0x01011000, 0x01012008} \<Longrightarrow> i \<in> {0, 1, 2, 3} \<Longrightarrow> x + i \<notin> demo_K"
  by (auto simp: structure_bytes_def heap_table_bytes_def config_simps demo_owner_of_def)

lemma demo_table_words:
  "load32 (override_on demo_tables c demo_K) 0x01011000 = 0x01012007" "load32 (override_on demo_tables c demo_K) 0x01012008 = 0x5007"
proof -
  have "load32 (override_on demo_tables c demo_K) x = load32 demo_tables x" if "x \<in> {0x01011000, 0x01012008}" for x
    by (rule load32_cong) (use demo_outside [OF that] in \<open>simp add: override_on_def\<close>)
  moreover have "load32 demo_tables 0x01011000 = 0x01012007" "load32 demo_tables 0x01012008 = 0x5007"
    by (simp_all add: demo_tables_def mem_simps)
  ultimately show "load32 (override_on demo_tables c demo_K) 0x01011000 = 0x01012007" "load32 (override_on demo_tables c demo_K) 0x01012008 = 0x5007"
    by simp_all
qed

lemma demo_write:
  "kernel_step term demo_user (User_write 0x2000 v) (demo_user\<lparr>mem := demo_tables(0x5000 := v)\<rparr>)"
  "contained term demo_K demo_D demo_user (User_write 0x2000 v)"
proof -
  have get: "paging_get (override_on demo_tables c demo_K) 0x01011000 0x2000 = 0x5007" for c
    by (simp add: paging_get_def paging_get_indices_def paging_is_aligned_def config_simps demo_table_words)
  have phys: "paging_get_phys_addr (override_on demo_tables c demo_K) 0x01011000 0x2000 = 0x5000" for c
    by (simp add: paging_get_phys_addr_def paging_align_to_lower_def config_simps get)
  have id: "override_on demo_tables demo_tables demo_K = demo_tables" by (simp add: override_on_def)
  have "user_writable demo_tables 0x01011000 0x2000"
    using get [of demo_tables] demo_table_words(1) [of demo_tables] by (simp add: user_writable_def paging_align_to_lower_def config_simps id)
  then show "kernel_step term demo_user (User_write 0x2000 v) (demo_user\<lparr>mem := demo_tables(0x5000 := v)\<rparr>)"
    using step_write [of demo_user "0x2000" "term" v] phys [of demo_tables] by (simp add: demo_user_def id)
  have words: "pd_table demo_tables 0 i = 0" if "i < 1024" for i
  proof -
    define y :: u32 where "y = of_nat (4 * i)"
    have y: "unat y = 4 * i" using that unfolding y_def by (intro unat_of_nat_u32) simp
    then have "y \<noteq> 0x01010000" "y \<noteq> 0x01011000" "y \<noteq> 0x01012008" using that by auto
    then have "load32 demo_tables y = 0" using y by (simp add: demo_tables_def mem_simps load32_def [of "\<lambda>_. 0"])
    then show ?thesis by (simp add: pd_table_def y_def)
  qed
  have "dir_entries demo_tables 0x01008000 = 0" by (simp add: dir_entries_def demo_tables_def mem_simps load32_def [of "\<lambda>_. 0"])
  moreover have "page_dir (tasks demo_kernel 0x01000000) = 0x01010000" "page_dir (tasks demo_kernel 0x01001000) = 0x01020000"
    "page_dir (tasks demo_kernel 0x01002000) = 0x01030000" by (simp_all add: demo_kernel_def)
  ultimately have "0x5000 \<notin> demo_D"
    by (auto simp: directory_bytes_def demo_owner_of_def dir_pages_def demo_user_def words extent_def)
  moreover have "0x5000 \<notin> demo_K" by (auto simp: structure_bytes_def heap_table_bytes_def config_simps demo_owner_of_def)
  ultimately have "0x5000 \<notin> demo_K \<union> demo_D" by simp
  then show "contained term demo_K demo_D demo_user (User_write 0x2000 v)"
    by (intro write_contained) (simp add: demo_user_def phys)
qed

lemma flags_reg_same [simp]: "s\<lparr>flags_reg := flags_reg s\<rparr> = (s :: 'a kernel_state_scheme)"
  by (cases s) simp

lemma demo_steps:
  assumes "user_ready demo_ts demo_owner_of s" "clock_alone s"
  shows "\<exists>s'. kernel_step term s (Interrupt 0x20 frame) s'" "contained term K D s (Interrupt 0x20 frame)"
    "\<exists>s'. kernel_step term s (Syscall 300 frame) s'" "contained term K D s (Syscall 300 frame)"
proof -
  have ok: "clock_ready s demo_ts" "task_current s \<in> set demo_ts"
    using assms by (simp_all add: clock_ready_def clock_alone_def user_ready_def sched_ok_def)
  then obtain i where i: "i < length demo_ts" "task_current s = demo_ts ! i" by (metis in_set_conv_nth)
  show "\<exists>s'. kernel_step term s (Interrupt 0x20 frame) s'"
    using clock_tick [OF ok(1) i, of "term" frame] step_interrupt [where s = s and fl = "flags_reg s"] by fastforce
  show "contained term K D s (Interrupt 0x20 frame)" by (rule interrupt_contained [OF assms(1)]) simp
  have "\<exists>out s'. syscall_handler term s 300 frame = Some (out, s')"
    using ok(2) by (auto simp: syscall_handler_def syscall_invoke_def task_current_save_state_def kernel_page_def kernel_registers_def
        paging_switch_def config_simps)
  then show "\<exists>s'. kernel_step term s (Syscall 300 frame) s'" using step_syscall [where s = s and fl = "flags_reg s"] by fastforce
  show "contained term K D s (Syscall 300 frame)" by (rule unused_call_contained) simp
qed

theorem kernel_returns_in_order_witness:
  "\<exists>s'. kernel_run (process_terminate 1) demo_K demo_D demo_user
       [User_write 0x2000 7, Interrupt 0x20 (zero_registers\<lparr>ss := 0x23\<rparr>), Syscall 300 (zero_registers\<lparr>ss := 0x23\<rparr>)] s' \<and>
     user_ready demo_ts demo_owner_of s'"
proof -
  let ?f = "zero_registers\<lparr>ss := 0x23\<rparr>" and ?t = "process_terminate 1" and ?s1 = "demo_user\<lparr>mem := demo_tables(0x5000 := 7)\<rparr>"
  have r1: "kernel_run ?t demo_K demo_D demo_user [User_write 0x2000 7] ?s1" using run_step [OF run_start demo_write(2,1)] by simp
  have ok1: "user_ready demo_ts demo_owner_of ?s1" "clock_alone ?s1"
    using kernel_run_ready [OF r1 demo_user_ready(1)] demo_user_ready(2) by (simp_all add: clock_alone_def)
  obtain s2 where s2: "kernel_step ?t ?s1 (Interrupt 0x20 ?f) s2" using demo_steps(1) [OF ok1] by blast
  have r2: "kernel_run ?t demo_K demo_D demo_user [User_write 0x2000 7, Interrupt 0x20 ?f] s2"
    using run_step [OF r1 demo_steps(2) [OF ok1] s2] by simp
  have ok2: "user_ready demo_ts demo_owner_of s2" "clock_alone s2"
    using kernel_run_ready [OF r2 demo_user_ready(1)] demo_user_ready(2) by (simp_all add: clock_alone_def)
  obtain s3 where s3: "kernel_step ?t s2 (Syscall 300 ?f) s3" using demo_steps(3) [OF ok2] by blast
  have r3: "kernel_run ?t demo_K demo_D demo_user [User_write 0x2000 7, Interrupt 0x20 ?f, Syscall 300 ?f] s3"
    using run_step [OF r2 demo_steps(4) [OF ok2] s3] by simp
  then show ?thesis using kernel_returns_in_order [OF r3 demo_user_ready(1)] by auto
qed

text \<open>
  C16: as long as no process is started or ended, no task starves: for every task of the list there is a number \<open>k\<close>, at most the
  number of tasks, such that the \<open>k\<close>-th clock interrupt from now makes it the running task, whatever the tasks write to
  their memory and whatever other interrupts and system calls come in between, with no step writing over the structures of
  the kernel. A call that starts a process makes the new task the running one, and the order of turns starts anew there.
\<close>

theorem clock_serves_every_task:
  assumes "user_ready ts owner s" "clock_alone s" "t \<in> set ts" "structure_bytes ts owner \<subseteq> K" "directory_bytes ts owner s \<subseteq> D"
  shows "\<exists>k\<ge>1. k \<le> length ts \<and> (\<forall>es s1 frame. kernel_run term K D s es s1 \<and> (\<forall>e\<in>set es. quiet_event e) \<and>
      length (filter clock_event es) = k - 1 \<and> ss frame = 0x23 \<longrightarrow>
    (\<exists>r s2. interrupt_handler term s1 0x20 frame = Some (User_mode r, s2) \<and> task_current s2 = t \<and> user_ready ts owner s2))"
proof -
  obtain i where i: "i < length ts" "task_current s = ts ! i" using assms(1) by (metis user_ready_def sched_ok_def in_set_conv_nth)
  obtain j where j: "j < length ts" "t = ts ! j" using assms(3) by (metis in_set_conv_nth)
  define k where "k = (if i < j then j - i else j + length ts - i)"
  have k: "Suc (i + (k - 1)) mod length ts = j" "1 \<le> k" "k \<le> length ts" using i j by (auto simp: k_def mod_if)
  have "\<exists>r s2. interrupt_handler term s1 0x20 frame = Some (User_mode r, s2) \<and> task_current s2 = t \<and> user_ready ts owner s2"
    if h: "kernel_run term K D s es s1" "\<forall>e\<in>set es. quiet_event e" "length (filter clock_event es) = k - 1" "ss frame = 0x23" for es s1 frame
  proof -
    have r: "user_ready ts owner s1" "int_callbacks s1 = int_callbacks s" using kernel_run_ready [OF h(1) assms(1,5) h(2)] by simp_all
    let ?i = "(i + (k - 1)) mod length ts"
    have c: "task_current s1 = ts ! ?i" using kernel_run_current [OF h(1) assms(1,5) h(2) assms(2) i] h(3) by simp
    have lt: "?i < length ts" using i(1) by (intro mod_less_divisor) linarith
    have "clock_ready s1 ts" using r assms(2) by (simp add: clock_ready_def clock_alone_def user_ready_def sched_ok_def)
    from clock_tick [OF this lt c, of "term" frame] obtain rg s2 where s2: "interrupt_handler term s1 0x20 frame = Some (User_mode rg, s2)"
      "task_current s2 = ts ! (Suc ?i mod length ts)" by blast
    moreover have "user_ready ts owner s2" using interrupt_ready [OF r(1) h(4) _ s2(1)] by simp
    ultimately show ?thesis using k(1) j(2) by (auto simp: mod_Suc_eq)
  qed
  then show ?thesis using k(2,3) by (intro exI [of _ k] conjI allI impI) auto
qed

theorem clock_serves_every_task_witness:
  "\<exists>k\<ge>1. k \<le> 3 \<and> (\<forall>es s1 frame. kernel_run (process_terminate 1) demo_K demo_D demo_user es s1 \<and> (\<forall>e\<in>set es. quiet_event e) \<and>
      length (filter clock_event es) = k - 1 \<and> ss frame = 0x23 \<longrightarrow>
    (\<exists>r s2. interrupt_handler (process_terminate 1) s1 0x20 frame = Some (User_mode r, s2) \<and> task_current s2 = 0x01002000 \<and>
       user_ready demo_ts demo_owner_of s2))"
  using clock_serves_every_task [OF demo_user_ready(1,2), of "0x01002000" demo_K demo_D "process_terminate 1"] by (simp add: numeral_3_eq_3)

section \<open>The table of system calls\<close>

definition registered_calls :: "syscall_fn option list" where
  "registered_calls = None # map Some [Syscall_1_print, Syscall_2_getkey, Syscall_3_putchar, Syscall_4_malloc, Syscall_5_free,
     Syscall_6_proc_start, Syscall_7_system, Syscall_8_pgm_args, Syscall_9_exit] @ replicate 246 None"

lemma register_all_calls:
  assumes "syscalls s = replicate 256 None"
  shows "syscall_register_all s = Some (s\<lparr>syscalls := registered_calls\<rparr>)"
proof -
  have "(256 :: nat) = Suc (Suc (Suc (Suc (Suc (Suc (Suc (Suc (Suc (Suc 246)))))))))" by simp
  then have s: "syscalls s = None # None # None # None # None # None # None # None # None # None # replicate 246 None"
    using assms by (simp only: replicate_Suc)
  show ?thesis
    unfolding syscall_register_all_def registered_calls_def
    by (simp add: syscall_register_def config_simps s)
qed

text \<open>
  C26: on an empty table \<^verbatim>\<open>syscall_register_all\<close> succeeds; then \<^verbatim>\<open>syscall_invoke\<close> runs each of the nine system calls under its
  number and returns 0 for every other number, negative ones and those behind the table included. Registering
  a second time panics.
\<close>

theorem syscall_dispatch:
  assumes "syscalls s = replicate 256 None"
  shows "\<exists>s'. syscall_register_all s = Some s' \<and>
    (\<forall>fn. syscall_invoke term s' (syscall_number fn) = run_syscall term fn s') \<and>
    (\<forall>idx. idx < 1 \<or> 9 < idx \<longrightarrow> syscall_invoke term s' idx = Some (Returned 0, s')) \<and> syscall_register_all s' = None"
proof (intro exI conjI allI impI)
  let ?s = "s\<lparr>syscalls := registered_calls\<rparr>"
  show "syscall_register_all s = Some ?s" by (rule register_all_calls [OF assms])
  show "syscall_invoke term ?s (syscall_number fn) = run_syscall term fn ?s" for fn
    by (cases fn) (simp_all add: syscall_invoke_def registered_calls_def config_simps)
  show "syscall_invoke term ?s idx = Some (Returned 0, ?s)" if "idx < 1 \<or> 9 < idx" for idx
  proof (cases "0 < idx \<and> idx < 256")
    case True
    define k where "k = nat idx - 10"
    have k: "nat idx = 10 + k" "k < 246" using True that unfolding k_def by linarith+
    then show ?thesis using True by (simp add: syscall_invoke_def registered_calls_def config_simps nth_append)
  next
    case False
    then show ?thesis using that by (auto simp: syscall_invoke_def registered_calls_def config_simps)
  qed
  show "syscall_register_all ?s = None"
    by (simp add: syscall_register_all_def syscall_register_def registered_calls_def config_simps)
qed

theorem syscall_dispatch_witness:
  "\<exists>s'. syscall_register_all demo_user = Some s' \<and> syscall_invoke (process_terminate 1) s' 300 = Some (Returned 0, s') \<and>
    syscall_invoke (process_terminate 1) s' 2 = syscall_2_getkey s'"
proof -
  have "syscalls demo_user = replicate 256 None"
    by (simp add: demo_user_def demo_kernel_def kbd_state.extend_def kernel_state.fields_def)
  from syscall_dispatch [OF this, of "process_terminate 1"] obtain s' where s': "syscall_register_all demo_user = Some s'"
    "\<forall>fn. syscall_invoke (process_terminate 1) s' (syscall_number fn) = run_syscall (process_terminate 1) fn s'"
    "\<forall>idx. idx < 1 \<or> 9 < idx \<longrightarrow> syscall_invoke (process_terminate 1) s' idx = Some (Returned 0, s')" by blast
  then show ?thesis using spec [OF s'(2), of Syscall_2_getkey] by simp
qed

end
