(* ===== verification/Tty_Proofs.thy ===== *)
theory Tty_Proofs
  imports Tty_Model
begin

unbundle bit_operations_syntax

text \<open>Proofs about the terminal of \<open>Tty_Model\<close>.\<close>

section \<open>Screen cells\<close>

text \<open>The cursor as a linear position, and the address of a cell.\<close>

definition tty_pos :: "'a tty_state_scheme \<Rightarrow> nat" where
  "tty_pos s = unat (tty_row s) * 80 + unat (tty_col s)"

definition cell_addr :: "nat \<Rightarrow> u32" where
  "cell_addr k = 0xB8000 + 2 * of_nat k"

definition in_cells :: "nat \<Rightarrow> nat \<Rightarrow> u32 \<Rightarrow> bool" where
  "in_cells k n a \<longleftrightarrow> unat (a - cell_addr k) < 2 * n"

lemma bytes_of_word16: "ucast (ucast v :: u8) OR push_bit 8 (ucast (ucast (drop_bit 8 v) :: u8)) = (v :: u16)"
  (is "?l = _")
proof (rule bit_word_eqI)
  fix n assume n: "n < LENGTH(16)"
  show "bit ?l n = bit v n"
    using n by (cases "8 \<le> n") (auto simp: bit_simps)
qed

lemma load16_store16_same [mem_simps]: "load16 (store16 m a v) a = v"
  by (simp add: load16_def store16_def bytes_of_word16)

lemma store16_frame: "x \<noteq> a \<Longrightarrow> x \<noteq> a + 1 \<Longrightarrow> store16 m a v x = m x"
  by (simp add: store16_def)

lemma load16_cong: "m a = m' a \<Longrightarrow> m (a + 1) = m' (a + 1) \<Longrightarrow> load16 m a = load16 m' a"
  by (simp add: load16_def)

lemma cell_offset: "a = cell_addr k + of_nat j \<longleftrightarrow> unat (a - cell_addr k) = j" if "j < 2 ^ 32"
  using u32_offset_iff [OF that] by blast

lemma cell_addr_add: "cell_addr (k + i) = cell_addr k + of_nat (2 * i)"
  by (simp add: cell_addr_def algebra_simps)

lemma cell_write_frame: "\<not> in_cells k 1 a \<Longrightarrow> store16 m (cell_addr k) v a = m a"
  using cell_offset [of 0 a k] cell_offset [of 1 a k] by (intro store16_frame) (auto simp: in_cells_def)

lemma in_cells_split: "Suc n < 2 ^ 31 \<Longrightarrow> in_cells k (Suc n) a \<longleftrightarrow> in_cells k 1 a \<or> in_cells (Suc k) n a"
proof -
  assume n: "Suc n < 2 ^ 31"
  have c: "cell_addr (Suc k) = cell_addr k + 2" using cell_addr_add [of k 1] by simp
  then have d: "a - cell_addr k = (a - cell_addr (Suc k)) + 2" by simp
  show ?thesis
  proof (cases "unat (a - cell_addr k) < 2")
    case True
    then show ?thesis by (simp add: in_cells_def)
  next
    case False
    have "a - cell_addr (Suc k) = (a - cell_addr k) - 2" using c by simp
    then have "unat (a - cell_addr (Suc k)) = unat (a - cell_addr k) - 2"
      using False by (simp only: unat_sub word_le_nat_alt) (simp add: unat_sub word_le_nat_alt)
    then show ?thesis using False by (auto simp: in_cells_def)
  qed
qed

lemma cells_disjoint: "Suc n < 2 ^ 31 \<Longrightarrow> in_cells (Suc k) n a \<Longrightarrow> \<not> in_cells k 1 a"
proof
  assume n: "Suc n < 2 ^ 31" and 1: "in_cells (Suc k) n a" "in_cells k 1 a"
  have "cell_addr (Suc k) = cell_addr k + 2" using cell_addr_add [of k 1] by simp
  then have "a - cell_addr k = (a - cell_addr (Suc k)) + 2" by simp
  then have "unat (a - cell_addr k) = unat ((a - cell_addr (Suc k)) + 2)" by (rule arg_cong)
  also have "\<dots> = unat (a - cell_addr (Suc k)) + 2" using 1(1) n by (simp only: unat_word_ariths) (simp add: in_cells_def)
  finally have "unat (a - cell_addr k) = unat (a - cell_addr (Suc k)) + 2" .
  then show False using 1 by (simp add: in_cells_def)
qed

section \<open>One character\<close>

lemma tty_emit_effect:
  assumes "unat (tty_col s) < 80" "tty_pos s < 5242879"
  shows "mem (tty_emit s c color) = store16 (mem s) (cell_addr (tty_pos s)) (vga_entry c color)"
    "tty_pos (tty_emit s c color) = Suc (tty_pos s)" "unat (tty_col (tty_emit s c color)) < 80"
proof -
  have "uint (tty_row s) * 80 + uint (tty_col s) = int (tty_pos s)" by (simp add: tty_pos_def)
  then have "word_of_int (uint (tty_row s) * 80 + uint (tty_col s)) = (of_nat (tty_pos s) :: u32)" by (simp only: of_int_of_nat_eq)
  then show "mem (tty_emit s c color) = store16 (mem s) (cell_addr (tty_pos s)) (vga_entry c color)"
    by (simp add: tty_emit_def tty_putchar_def cell_addr_def config_simps Let_def)
  have col: "unat (tty_col s + 1) = Suc (unat (tty_col s))" using assms(1) by (simp add: unat_word_ariths)
  then have wrap: "uint (tty_col s + 1) \<ge> 80 \<longleftrightarrow> unat (tty_col s) = 79"
    using assms(1) unfolding uint_nat [of "tty_col s + 1"] by (simp del: of_nat_unat) linarith
  have row: "unat (tty_row s + 1) = Suc (unat (tty_row s))" if "unat (tty_col s) = 79"
  proof -
    have "unat (tty_row s) < 65535" using assms(2) that by (simp add: tty_pos_def)
    then show ?thesis by (simp add: unat_word_ariths)
  qed
  show "tty_pos (tty_emit s c color) = Suc (tty_pos s)" "unat (tty_col (tty_emit s c color)) < 80"
    using col row wrap assms(1) by (auto simp: tty_emit_def tty_putchar_def config_simps Let_def tty_pos_def)
qed

section \<open>Text\<close>

abbreviation tty_text :: "'a tty_state_scheme \<Rightarrow> u8 list \<Rightarrow> 'a tty_state_scheme" where
  "tty_text \<equiv> foldl (\<lambda>s c. tty_writechar s c 15)"

definition printable :: "u8 \<Rightarrow> bool" where
  "printable c \<longleftrightarrow> c \<noteq> 8 \<and> c \<noteq> 9 \<and> c \<noteq> 10"

lemma tty_writechar_printable: "printable c \<Longrightarrow> tty_writechar s c color = tty_emit s c color"
  by (simp add: tty_writechar_def printable_def config_simps)

lemma tty_text_effect:
  assumes "unat (tty_col s) < 80" "tty_pos s + length xs < 5242880" "\<forall>x\<in>set xs. printable x"
  shows "tty_pos (tty_text s xs) = tty_pos s + length xs \<and> unat (tty_col (tty_text s xs)) < 80 \<and>
    (\<forall>i<length xs. load16 (mem (tty_text s xs)) (cell_addr (tty_pos s + i)) = vga_entry (xs ! i) 15) \<and>
    (\<forall>a. \<not> in_cells (tty_pos s) (length xs) a \<longrightarrow> mem (tty_text s xs) a = mem s a)"
  using assms
proof (induction xs arbitrary: s)
  case Nil
  then show ?case by simp
next
  case (Cons x xs)
  let ?s = "tty_emit s x 15"
  have eff: "mem ?s = store16 (mem s) (cell_addr (tty_pos s)) (vga_entry x 15)"
    "tty_pos ?s = Suc (tty_pos s)" "unat (tty_col ?s) < 80"
    using tty_emit_effect [of s x 15] Cons.prems by simp_all
  have IH: "tty_pos (tty_text ?s xs) = Suc (tty_pos s) + length xs" "unat (tty_col (tty_text ?s xs)) < 80"
    "\<And>i. i < length xs \<Longrightarrow> load16 (mem (tty_text ?s xs)) (cell_addr (Suc (tty_pos s) + i)) = vga_entry (xs ! i) 15"
    "\<And>a. \<not> in_cells (Suc (tty_pos s)) (length xs) a \<Longrightarrow> mem (tty_text ?s xs) a = mem ?s a"
    using Cons.IH [of ?s] Cons.prems eff(2,3) by simp_all
  have step: "tty_text s (x # xs) = tty_text ?s xs" using Cons.prems(3) by (simp add: tty_writechar_printable)
  have small: "Suc (length xs) < 2 ^ 31" using Cons.prems(2) by simp
  have own: "in_cells (tty_pos s) 1 (cell_addr (tty_pos s))" "in_cells (tty_pos s) 1 (cell_addr (tty_pos s) + 1)"
    by (simp_all add: in_cells_def)
  then have "\<not> in_cells (Suc (tty_pos s)) (length xs) (cell_addr (tty_pos s))"
    "\<not> in_cells (Suc (tty_pos s)) (length xs) (cell_addr (tty_pos s) + 1)"
    using cells_disjoint [OF small] by blast+
  then have first: "load16 (mem (tty_text ?s xs)) (cell_addr (tty_pos s)) = vga_entry x 15"
    using load16_cong [of "mem (tty_text ?s xs)" "cell_addr (tty_pos s)" "mem ?s"] IH(4) eff(1) by (simp add: mem_simps)
  have cells: "load16 (mem (tty_text ?s xs)) (cell_addr (tty_pos s + i)) = vga_entry ((x # xs) ! i) 15"
    if "i < length (x # xs)" for i
    using first IH(3) that by (cases i) simp_all
  have "mem (tty_text ?s xs) a = mem s a" if "\<not> in_cells (tty_pos s) (Suc (length xs)) a" for a
    using that IH(4) [of a] in_cells_split [OF small] cell_write_frame [of "tty_pos s" a] by (simp add: eff(1))
  then show ?case unfolding step using IH(1,2) cells by simp
qed

lemma cstring_nth: "cstring m p xs \<Longrightarrow> i < length xs \<Longrightarrow> m (p + of_nat i) = xs ! i"
proof (induction xs arbitrary: p i)
  case (Cons x xs)
  then show ?case
  proof (cases i)
    case (Suc j)
    with Cons.prems have "m ((p + 1) + of_nat j) = xs ! j" by (intro Cons.IH) simp_all
    then show ?thesis using Suc by (simp add: algebra_simps)
  qed simp
qed simp

lemma tty_writestr_loop_text:
  assumes "length zs < 2 ^ 32" "\<forall>i\<le>length zs. cstring (mem (tty_text s (take i zs))) str zs" "k \<le> length zs"
  shows "tty_writestr_loop (tty_text s (take k zs)) str (of_nat k) = Some (tty_text s zs)"
  using assms(3)
proof (induction "length zs - k" arbitrary: k)
  case 0
  then have k: "k = length zs" by simp
  have "cstring (mem (tty_text s zs)) str zs" using assms(2) by (metis order_refl take_all)
  then show ?case unfolding k by (subst tty_writestr_loop.simps) (simp add: strlen_cstring)
next
  case (Suc n)
  then have k: "k < length zs" by simp
  let ?s = "tty_text s (take k zs)"
  have str: "cstring (mem ?s) str zs" using assms(2) k by simp
  have lt: "(of_nat k :: u32) < of_nat (length zs)" using k assms(1) by (simp add: word_less_nat_alt)
  have "tty_writechar ?s (mem ?s (str + of_nat k)) 15 = tty_text s (take (Suc k) zs)"
    using k cstring_nth [OF str k] by (simp add: take_Suc_conv_app_nth)
  moreover have "tty_writestr_loop (tty_text s (take (Suc k) zs)) str (of_nat (Suc k)) = Some (tty_text s zs)"
    using Suc k by (intro Suc.hyps(1)) simp_all
  ultimately show ?case using lt
    by (subst tty_writestr_loop.simps) (simp add: strlen_cstring [OF str] algebra_simps)
qed

section \<open>Properties\<close>

text \<open>
  \<^verbatim>\<open>tty_writestr\<close> of a string of printable characters returns, puts the characters in white into
  consecutive cells from the cursor on (across line ends), advances the cursor by as many cells,
  keeps the column below the width and changes nothing else. The string must not lie in the cells
  that are written.
\<close>

theorem tty_writestr_fills_cells:
  assumes "cstring (mem s) str xs" "\<forall>x\<in>set xs. printable x" "unat (tty_col s) < 80"
    and "tty_pos s + length xs < 5242880"
    and "\<forall>k\<le>length xs. \<not> in_cells (tty_pos s) (length xs) (str + of_nat k)"
  shows "\<exists>s'. tty_writestr s str = Some s' \<and> tty_pos s' = tty_pos s + length xs \<and> unat (tty_col s') < 80 \<and>
    (\<forall>i<length xs. load16 (mem s') (cell_addr (tty_pos s + i)) = vga_entry (xs ! i) 15) \<and>
    (\<forall>a. \<not> in_cells (tty_pos s) (length xs) a \<longrightarrow> mem s' a = mem s a)"
proof -
  have "cstring (mem (tty_text s (take i xs))) str xs" if "i \<le> length xs" for i
  proof -
    have "\<forall>a. \<not> in_cells (tty_pos s) i a \<longrightarrow> mem (tty_text s (take i xs)) a = mem s a"
      using tty_text_effect [of s "take i xs"] assms that by (auto dest: in_set_takeD)
    moreover have "\<not> in_cells (tty_pos s) i (str + of_nat k)" if "k \<le> length xs" for k
      using assms(5) that \<open>i \<le> length xs\<close> by (force simp: in_cells_def)
    ultimately show ?thesis using assms(1) cstring_cong [of xs "mem (tty_text s (take i xs))" str "mem s"] by simp
  qed
  then have "tty_writestr s str = Some (tty_text s xs)"
    using tty_writestr_loop_text [of xs s str 0] assms(4) by (simp add: tty_writestr_def)
  then show ?thesis using tty_text_effect [OF assms(3,4,2)] by simp
qed

definition demo_tty :: "memory \<Rightarrow> u16 \<Rightarrow> u16 \<Rightarrow> tty_state" where
  "demo_tty m r c = \<lparr>mem = m, io_trace = [], bus = (\<lambda>_ _. 0), data_seg = 0x10, tty_row = r, tty_col = c\<rparr>"

theorem tty_writestr_fills_cells_witness:
  "\<exists>s'. tty_writestr (demo_tty ((\<lambda>_. 0)(0x2000 := 72, 0x2001 := 105)) 0 79) 0x2000 = Some s' \<and>
    tty_pos s' = 81 \<and> load16 (mem s') (cell_addr 80) = vga_entry 105 15"
proof -
  let ?s = "demo_tty ((\<lambda>_. 0)(0x2000 := 72, 0x2001 := 105)) 0 79"
  have "\<forall>k\<le>Suc (Suc 0). \<not> in_cells 79 (Suc (Suc 0)) (0x2000 + of_nat k)"
    by (simp add: le_Suc_eq in_cells_def cell_addr_def)
  then have "\<exists>s'. tty_writestr ?s 0x2000 = Some s' \<and> tty_pos s' = tty_pos ?s + length [72, 105 :: u8] \<and> unat (tty_col s') < 80 \<and>
    (\<forall>i<length [72, 105 :: u8]. load16 (mem s') (cell_addr (tty_pos ?s + i)) = vga_entry ([72, 105] ! i) 15) \<and>
    (\<forall>a. \<not> in_cells (tty_pos ?s) (length [72, 105 :: u8]) a \<longrightarrow> mem s' a = mem ?s a)"
    by (intro tty_writestr_fills_cells) (simp_all add: demo_tty_def printable_def tty_pos_def)
  then obtain s' where "tty_writestr ?s 0x2000 = Some s'" "tty_pos s' = tty_pos ?s + 2"
    "\<And>i. i < 2 \<Longrightarrow> load16 (mem s') (cell_addr (tty_pos ?s + i)) = vga_entry ([72, 105] ! i) 15" by auto
  from this(1,2) this(3) [of 1] show ?thesis by (simp add: tty_pos_def demo_tty_def)
qed

text \<open>
  backspace inside a line removes the character before the cursor: the cursor moves back
  by one cell, that cell becomes blank and nothing else changes.
\<close>

theorem tty_backspace_erases:
  assumes "0 < unat (tty_col s)" "unat (tty_col s) < 80"
  shows "tty_pos (tty_writechar s 8 color) = tty_pos s - 1 \<and> tty_row (tty_writechar s 8 color) = tty_row s \<and>
    unat (tty_col (tty_writechar s 8 color)) < 80 \<and>
    mem (tty_writechar s 8 color) = store16 (mem s) (cell_addr (tty_pos s - 1)) (vga_entry 32 15)"
proof -
  let ?s2 = "s\<lparr>tty_col := tty_col s - 1\<rparr>"
  have nz: "tty_col s \<noteq> 0" using assms(1) by auto
  have col: "unat (tty_col s - 1) = unat (tty_col s) - 1" using assms(1) by (simp add: unat_sub word_le_nat_alt)
  then have pos: "tty_pos ?s2 = tty_pos s - 1" using assms(1) by (simp add: tty_pos_def)
  have "unat (tty_row s) < 65536" using unsigned_less [of "tty_row s", where ?'a = nat] by simp
  then have "tty_pos ?s2 < 5242879" using pos assms by (simp add: tty_pos_def)
  then have mem: "mem (tty_emit ?s2 32 15) = store16 (mem s) (cell_addr (tty_pos s - 1)) (vga_entry 32 15)"
    using tty_emit_effect [of ?s2 32 15] pos col assms by simp
  have "\<not> 80 \<le> uint (tty_col s)" using assms(2) unfolding uint_nat by (simp del: of_nat_unat)
  then have cur: "tty_col (tty_emit ?s2 32 15) = tty_col s" "tty_row (tty_emit ?s2 32 15) = tty_row s"
    by (simp_all add: tty_emit_def tty_putchar_def config_simps Let_def)
  have "tty_writechar s 8 color = (tty_emit ?s2 32 15)\<lparr>tty_col := tty_col (tty_emit ?s2 32 15) - 1\<rparr>"
    using nz by (simp add: tty_writechar_def tty_backspace_def config_simps Let_def)
  then show ?thesis using mem cur col pos assms by (simp add: tty_pos_def)
qed

theorem tty_backspace_erases_witness:
  "tty_pos (tty_writechar (demo_tty (\<lambda>_. 0) 2 5) 8 15) = 164 \<and>
   mem (tty_writechar (demo_tty (\<lambda>_. 0) 2 5) 8 15) = store16 (\<lambda>_. 0) (cell_addr 164) (vga_entry 32 15)"
proof -
  have "tty_pos (demo_tty (\<lambda>_. 0) 2 5) = 165" by (simp add: demo_tty_def tty_pos_def)
  then show ?thesis using tty_backspace_erases [of "demo_tty (\<lambda>_. 0) 2 5" 15] by (simp add: demo_tty_def)
qed

text \<open>
  backspace at the start of a line below the first does not step back into the line above. The
  blank that is written into the last cell of that line moves the cursor down again, and the final
  decrement of the 16-bit column wraps: the cursor is left in the old row at column 65535.
\<close>

theorem tty_backspace_column_wraps:
  assumes "tty_col s = 0" "tty_row s \<noteq> 0"
  shows "tty_col (tty_writechar s 8 color) = 0xFFFF \<and> tty_row (tty_writechar s 8 color) = tty_row s \<and>
    mem (tty_writechar s 8 color) = store16 (mem s) (cell_addr (tty_pos s - 1)) (vga_entry 32 15)"
proof -
  let ?s2 = "s\<lparr>tty_row := tty_row s - 1, tty_col := 79\<rparr>"
  have r: "unat (tty_row s - 1) = unat (tty_row s) - 1" "0 < unat (tty_row s)" "unat (tty_row s) < 65536"
    using assms(2) unsigned_less [of "tty_row s", where ?'a = nat] unat_gt_0 [of "tty_row s"]
    by (simp_all add: unat_sub word_le_nat_alt Suc_le_eq)
  then have pos: "tty_pos ?s2 = tty_pos s - 1" "tty_pos ?s2 < 5242879" using assms(1)
    by (cases "unat (tty_row s)"; simp add: tty_pos_def)+
  have mem: "mem (tty_emit ?s2 32 15) = store16 (mem s) (cell_addr (tty_pos s - 1)) (vga_entry 32 15)"
    using tty_emit_effect(1) [of ?s2 32 15] pos by simp
  have cur: "tty_col (tty_emit ?s2 32 15) = 0" "tty_row (tty_emit ?s2 32 15) = tty_row s"
    by (simp_all add: tty_emit_def tty_putchar_def config_simps Let_def)
  have "tty_writechar s 8 color = (tty_emit ?s2 32 15)\<lparr>tty_col := tty_col (tty_emit ?s2 32 15) - 1\<rparr>"
    using assms by (simp add: tty_writechar_def tty_backspace_def config_simps Let_def)
  then show ?thesis using mem cur by simp
qed

theorem tty_backspace_column_wraps_witness:
  "tty_col (tty_writechar (demo_tty (\<lambda>_. 0) 1 0) 8 15) = 0xFFFF"
  using tty_backspace_column_wraps [of "demo_tty (\<lambda>_. 0) 1 0" 15] by (simp add: demo_tty_def)

text \<open>
  There is no scrolling. A printable character is written into the 4000 bytes of screen memory
  exactly while the cursor row is below 25; after that it is written behind the screen.
\<close>

theorem tty_no_scroll:
  assumes "printable c" "unat (tty_col s) < 80" "tty_pos s < 5242879"
  shows "mem (tty_writechar s c color) = store16 (mem s) (cell_addr (tty_pos s)) (vga_entry c color) \<and>
    (unat (cell_addr (tty_pos s) - VGA_MEMORY_START) + 1 < 4000 \<longleftrightarrow> unat (tty_row s) < 25)"
proof -
  have "cell_addr (tty_pos s) - VGA_MEMORY_START = of_nat (2 * tty_pos s)" by (simp add: cell_addr_def config_simps)
  then have "unat (cell_addr (tty_pos s) - VGA_MEMORY_START) = 2 * tty_pos s"
    using assms(3) unat_of_nat_u32 [of "2 * tty_pos s"] by simp
  moreover have "tty_pos s < 2000 \<longleftrightarrow> unat (tty_row s) < 25" using assms(2) by (auto simp: tty_pos_def)
  ultimately show ?thesis using tty_emit_effect(1) [OF assms(2,3)] assms(1) by (auto simp: tty_writechar_printable)
qed

theorem tty_no_scroll_witness:
  "\<not> unat (cell_addr (tty_pos (demo_tty (\<lambda>_. 0) 25 0)) - VGA_MEMORY_START) + 1 < 4000"
  using tty_no_scroll [of 65 "demo_tty (\<lambda>_. 0) 25 0" 15] by (simp add: demo_tty_def tty_pos_def printable_def)

end
