(* ===== verification/Boot_Proofs.thy ===== *)
theory Boot_Proofs
  imports Process_Load Kernel_Proofs Tty_Proofs
begin

unbundle bit_operations_syntax

text \<open>
  The start of the kernel: \<^verbatim>\<open>kernel_main\<close> from the state the boot loader leaves to the first instruction of the shell. Each
  step of \<^verbatim>\<open>kernel_main\<close> has a lemma that says what it changes; together they lead to a state in which the shell runs
  and the invariant of the kernel holds.
\<close>

section \<open>The screen\<close>

abbreviation on_screen :: "u32 \<Rightarrow> bool" where
  "on_screen \<equiv> in_cells 0 2000"

lemma cell_on_screen:
  assumes "k < 2000" "in_cells k 1 a"
  shows "on_screen a"
proof -
  have "a - cell_addr 0 = (a - cell_addr k) + of_nat (2 * k)" by (simp add: cell_addr_def)
  then have "unat (a - cell_addr 0) = unat ((a - cell_addr k) + of_nat (2 * k))" by (rule arg_cong)
  also have "\<dots> = unat (a - cell_addr k) + 2 * k"
    using assms unat_of_nat_u32 [of "2 * k"] by (simp only: unat_word_ariths) (simp add: in_cells_def)
  finally show ?thesis using assms by (simp add: in_cells_def)
qed

lemma cell_store_frame: "k < 2000 \<Longrightarrow> \<not> on_screen a \<Longrightarrow> store16 m (cell_addr k) v a = m a"
  using cell_on_screen [of k a] cell_write_frame [of k a m v] by blast

lemma tty_putchar_frame:
  assumes "0 \<le> x" "x < 80" "0 \<le> y" "y < 25" "\<not> on_screen a"
  shows "mem (tty_putchar s x y c col) a = mem s a"
proof -
  have "VGA_MEMORY_START + 2 * word_of_int (y * VGA_WIDTH + x) = cell_addr (nat (y * 80 + x))"
    using assms(1,3) by (simp add: cell_addr_def config_simps of_nat_nat)
  moreover have "nat (y * 80 + x) < 2000" using assms(1-4) by simp
  ultimately show ?thesis using cell_store_frame [OF _ assms(5)] by (simp add: tty_putchar_def)
qed

lemma tty_fill_frame:
  assumes "\<forall>(y, x)\<in>set ps. 0 \<le> x \<and> x < 80 \<and> 0 \<le> y \<and> y < 25"
  shows "\<exists>m. foldl (\<lambda>s (y, x). tty_putchar s x y c col) s ps = s\<lparr>mem := m\<rparr> \<and> (\<forall>a. \<not> on_screen a \<longrightarrow> m a = mem s a)"
  using assms
proof (induction ps arbitrary: s)
  case Nil
  then show ?case by (intro exI [of _ "mem s"]) simp
next
  case (Cons p ps)
  obtain y x where p: "p = (y, x)" by force
  let ?s = "tty_putchar s x y c col"
  obtain m where m: "foldl (\<lambda>s (y, x). tty_putchar s x y c col) ?s ps = ?s\<lparr>mem := m\<rparr>" "\<forall>a. \<not> on_screen a \<longrightarrow> m a = mem ?s a"
    using Cons.IH [of ?s] Cons.prems by auto
  have "mem ?s a = mem s a" if "\<not> on_screen a" for a using Cons.prems p by (intro tty_putchar_frame that) simp_all
  then show ?case using m p by (intro exI [of _ m]) (simp add: tty_putchar_def)
qed

lemma tty_init_frame: "\<exists>m. tty_init s = s\<lparr>mem := m, tty_row := 0, tty_col := 0\<rparr> \<and> (\<forall>a. \<not> on_screen a \<longrightarrow> m a = mem s a)"
proof -
  have "\<forall>(y, x)\<in>set (List.product [0..VGA_HEIGHT - 1] [0..VGA_WIDTH - 1]). 0 \<le> x \<and> x < 80 \<and> 0 \<le> y \<and> y < 25"
    by (auto simp: config_simps)
  from tty_fill_frame [OF this, of 32 0 "s\<lparr>tty_row := 0, tty_col := 0\<rparr>"] obtain m where
    "tty_init s = s\<lparr>tty_row := 0, tty_col := 0, mem := m\<rparr>" "\<forall>a. \<not> on_screen a \<longrightarrow> m a = mem s a" by (auto simp: tty_init_def)
  then show ?thesis by (intro exI [of _ m]) simp
qed

text \<open>A character moves the cursor by at most one line.\<close>

lemma tty_writechar_step:
  assumes "unat (tty_col s) < 80" "tty_pos s + 80 < 2000" "printable c \<or> c = 10" and s'_def: "s' = tty_writechar s c col"
  shows "unat (tty_col s') < 80" "tty_pos s' \<le> tty_pos s + 80" "\<not> on_screen a \<Longrightarrow> mem s' a = mem s a"
    "\<exists>m r c. s' = s\<lparr>mem := m, tty_row := r, tty_col := c\<rparr>"
proof -
  note e = tty_emit_effect [OF assms(1), of c col]
  have row: "unat (tty_row s + 1) = unat (tty_row s) + 1"
    using assms(2) by (simp add: tty_pos_def unat_word_ariths)
  have nl: "s' = s\<lparr>tty_row := tty_row s + 1, tty_col := 0\<rparr>" if "c = 10" using that by (simp add: s'_def tty_writechar_def tty_newline_def)
  have em: "s' = tty_emit s c col" if "c \<noteq> 10" using that assms(3) by (simp add: s'_def tty_writechar_printable)
  show "unat (tty_col s') < 80" by (cases "c = 10") (use e(3) assms(2) in \<open>simp_all add: nl em\<close>)
  show "tty_pos s' \<le> tty_pos s + 80" by (cases "c = 10") (use e(2) assms(2) row in \<open>simp_all add: nl em, simp add: tty_pos_def\<close>)
  show "mem s' a = mem s a" if "\<not> on_screen a"
    by (cases "c = 10") (use e(1) assms(2) cell_store_frame [OF _ that] in \<open>simp_all add: nl em\<close>)
  have "\<exists>m r c'. tty_emit s c col = s\<lparr>mem := m, tty_row := r, tty_col := c'\<rparr>"
  proof -
    let ?m = "mem (tty_putchar s (uint (tty_col s)) (uint (tty_row s)) c col)"
    have "tty_emit s c col = s\<lparr>mem := ?m, tty_row := tty_row (tty_emit s c col), tty_col := tty_col (tty_emit s c col)\<rparr>"
      by (simp add: tty_emit_def tty_putchar_def Let_def)
    then show ?thesis by blast
  qed
  moreover have "\<exists>m r c. s\<lparr>tty_row := tty_row s + 1, tty_col := 0\<rparr> = s\<lparr>mem := m, tty_row := r, tty_col := c\<rparr>"
    by (intro exI [of _ "mem s"] exI [of _ "tty_row s + 1"] exI [of _ 0]) simp
  ultimately show "\<exists>m r c. s' = s\<lparr>mem := m, tty_row := r, tty_col := c\<rparr>" by (cases "c = 10") (simp_all add: nl em)
qed

lemma tty_text_frame:
  assumes "unat (tty_col s) < 80" "tty_pos s + 80 * length xs < 2000" "\<forall>x\<in>set xs. printable x \<or> x = 10"
  shows "\<exists>m r c. tty_text s xs = s\<lparr>mem := m, tty_row := r, tty_col := c\<rparr> \<and> (\<forall>a. \<not> on_screen a \<longrightarrow> m a = mem s a)"
  using assms
proof (induction xs arbitrary: s)
  case Nil
  then show ?case by (intro exI [of _ "mem s"] exI [of _ "tty_row s"] exI [of _ "tty_col s"]) simp
next
  case (Cons x xs)
  let ?s = "tty_writechar s x 15"
  have p: "tty_pos s + 80 < 2000" "printable x \<or> x = 10" using Cons.prems by simp_all
  note w = tty_writechar_step [OF Cons.prems(1) p refl, where col = 15]
  obtain m r c where m: "tty_text ?s xs = ?s\<lparr>mem := m, tty_row := r, tty_col := c\<rparr>" "\<forall>a. \<not> on_screen a \<longrightarrow> m a = mem ?s a"
    using Cons.IH [OF w(1)] w(2) Cons.prems by auto
  obtain m1 r1 c1 where 1: "?s = s\<lparr>mem := m1, tty_row := r1, tty_col := c1\<rparr>" using w(4) by blast
  have "tty_text s (x # xs) = s\<lparr>mem := m, tty_row := r, tty_col := c\<rparr>" using m(1) by (simp add: 1)
  then show ?case using m(2) w(3) by auto
qed

lemma tty_writestr_frame:
  assumes "cstring (mem s) p xs" "\<forall>l\<le>length xs. \<not> on_screen (p + of_nat l)"
    and "tty_row s = 0" "tty_col s = 0" "length xs < 25" "\<forall>x\<in>set xs. printable x \<or> x = 10"
  shows "\<exists>m r c. tty_writestr s p = Some (s\<lparr>mem := m, tty_row := r, tty_col := c\<rparr>) \<and> (\<forall>a. \<not> on_screen a \<longrightarrow> m a = mem s a)"
proof -
  have z: "unat (tty_col s) < 80" "tty_pos s = 0" using assms(3,4) by (simp_all add: tty_pos_def)
  have "cstring (mem (tty_text s (take i xs))) p xs" if "i \<le> length xs" for i
  proof -
    have "\<forall>x\<in>set (take i xs). printable x \<or> x = 10" using assms(6) set_take_subset [of i xs] by blast
    moreover have "tty_pos s + 80 * length (take i xs) < 2000" using z(2) assms(5) by simp
    ultimately obtain m r c where m: "tty_text s (take i xs) = s\<lparr>mem := m, tty_row := r, tty_col := c\<rparr>" "\<forall>a. \<not> on_screen a \<longrightarrow> m a = mem s a"
      using tty_text_frame [OF z(1)] by blast
    have "cstring m p xs" using assms(1,2) m(2) by (intro iffD2 [OF cstring_cong [of xs m p "mem s"]]) auto
    then show ?thesis by (simp add: m(1))
  qed
  then have "tty_writestr_loop (tty_text s (take 0 xs)) p (of_nat 0) = Some (tty_text s xs)"
    using assms(5) by (intro tty_writestr_loop_text) simp_all
  moreover have "tty_pos s + 80 * length xs < 2000" using z(2) assms(5) by simp
  then obtain m r c where "tty_text s xs = s\<lparr>mem := m, tty_row := r, tty_col := c\<rparr>" "\<forall>a. \<not> on_screen a \<longrightarrow> m a = mem s a"
    using tty_text_frame [OF z(1)] assms(6) by blast
  ultimately show ?thesis by (auto simp: tty_writestr_def)
qed

section \<open>A page directory\<close>

lemma path_frame_mem: "path_frame s0 s \<Longrightarrow> (\<And>a. kprot s0 a \<Longrightarrow> m a = mem s a) \<Longrightarrow> path_frame s0 (s\<lparr>mem := m\<rparr>)"
  by (simp add: path_frame_def kspent_def path_rest_def)

lemma path_frame_refl: "kheap_wf s \<Longrightarrow> path_frame s s"
  by (simp add: path_frame_def kspent_same)

lemma dir_step_frame:
  assumes fr: "path_frame s0 s" and av: "0 < kavail s" and i: "i < 1024" and ents: "\<And>a. kprot s0 a \<Longrightarrow> a \<notin> extent ents 1"
  shows "path_frame s0 (dir_step i ents flags s)" "kavail (dir_step i ents flags s) + 1 = kavail s"
proof -
  obtain t s1 where al: "kzalloc s 4096 = (t, s1)" by fastforce
  have wf: "kheap_wf s" using fr by (simp add: path_frame_def)
  note p = kzalloc_page [OF wf av _ _ al, simplified]
  have f1: "path_frame s0 s1" by (rule path_frame_trans [OF fr path_frame_kzalloc [OF wf av _ _ al]]) simp_all
  have d: "dir_step i ents flags s = s1\<lparr>mem := store32 (paging_new_table 0 t (of_nat i * 4194304) flags (mem s1))
      (ents + 4 * of_nat i) (t OR ucast flags OR PAGING_IS_WRITEABLE)\<rparr>" by (simp add: dir_step_def al)
  show "kavail (dir_step i ents flags s) + 1 = kavail s" using p(5) by (simp add: d)
  have t: "a \<notin> extent t 1" if "kprot s0 a" for a using p(10) [OF path_frame_prot [OF fr that]] by simp
  show "path_frame s0 (dir_step i ents flags s)" unfolding d
    by (rule path_frame_mem [OF f1]) (use i ents t in \<open>simp add: store32_page_frame paging_new_table_frame\<close>)
qed

lemma paging_new_dir_frame:
  assumes "path_frame s0 s" "i \<le> 1024" "1024 - i \<le> kavail s" "\<And>a. kprot s0 a \<Longrightarrow> a \<notin> extent ents 1"
  shows "path_frame s0 (paging_new_dir i ents (of_nat i * 4194304) flags s) \<and>
    kavail (paging_new_dir i ents (of_nat i * 4194304) flags s) + (1024 - i) = kavail s"
  using assms
proof (induction "1024 - i" arbitrary: i s)
  case 0
  then have "i = 1024" by simp
  then show ?case using 0 by (subst (1 2) paging_new_dir.simps) (simp add: config_simps)
next
  case (Suc n)
  then have i: "i < 1024" and av: "0 < kavail s" by simp_all
  note st = dir_step_frame [OF Suc.prems(1) av i Suc.prems(4), where flags = flags]
  have "path_frame s0 (paging_new_dir (i + 1) ents (of_nat (i + 1) * 4194304) flags (dir_step i ents flags s)) \<and>
    kavail (paging_new_dir (i + 1) ents (of_nat (i + 1) * 4194304) flags (dir_step i ents flags s)) + (1024 - (i + 1)) = kavail (dir_step i ents flags s)"
    using Suc.hyps(2) Suc.prems(3) st(2) i by (intro Suc.hyps(1) st(1) Suc.prems(4)) simp_all
  then show ?case unfolding paging_new_dir_step [OF i] using st(2) i by (elim conjE, intro conjI) (assumption, linarith)
qed

lemma paging_new_frame:
  assumes "kheap_wf s" "1026 \<le> kavail s" "paging_new s flags = (dir, s')"
  shows "path_frame s s'" "kavail s' + 1026 = kavail s"
proof -
  obtain ents s1 where al1: "kzalloc s 4096 = (ents, s1)" by fastforce
  define s2 where "s2 = paging_new_dir 0 ents (of_nat 0 * 4194304) flags s1"
  obtain s3 where al3: "kzalloc s2 4 = (dir, s3)" and s': "s' = s3\<lparr>mem := store32 (mem s3) dir ents\<rparr>"
    using assms(3) al1 by (auto simp: paging_new_def config_simps s2_def Let_def split: prod.splits)
  have av: "0 < kavail s" using assms(2) by simp
  note p1 = kzalloc_page [OF assms(1) av _ _ al1, simplified]
  have f1: "path_frame s s1" by (rule path_frame_kzalloc [OF assms(1) av _ _ al1]) simp_all
  have f2: "path_frame s s2" "kavail s2 + 1024 = kavail s1"
    using paging_new_dir_frame [OF f1, of 0 ents flags] p1(5,10) assms(2) unfolding s2_def by (simp_all add: add.commute)
  have wf2: "kheap_wf s2" and av2: "0 < kavail s2" using f2 p1(5) assms(2) by (simp_all add: path_frame_def)
  note p3 = kzalloc_page [OF wf2 av2 _ _ al3, simplified]
  have f3: "path_frame s s3" by (rule path_frame_trans [OF f2(1) path_frame_kzalloc [OF wf2 av2 _ _ al3]]) simp_all
  have "a \<notin> extent dir 1" if "kprot s a" for a using p3(10) [OF path_frame_prot [OF f2(1) that]] by simp
  then show "path_frame s s'" unfolding s' using store32_page_frame [of 0 _ dir] by (intro path_frame_mem [OF f3]) simp
  show "kavail s' + 1026 = kavail s" using p1(5) f2(2) p3(5) by (simp add: s')
qed

section \<open>The steps of \<^verbatim>\<open>kernel_main\<close>\<close>

definition boot_text :: "u8 list" where
  "boot_text = [0x45, 0x6E, 0x6B, 0x69, 0x20, 0x4F, 0x53, 10, 10]"

lemma console_start:
  assumes "cstring (mem s) (boot_msg s) boot_text" "\<forall>l\<le>9. \<not> on_screen (boot_msg s + of_nat l)"
  shows "\<exists>m r c tr. tty_writestr (cursor_disable (tty_init s)) (boot_msg s) = Some (s\<lparr>mem := m, tty_row := r, tty_col := c, io_trace := tr\<rparr>) \<and>
    (\<forall>a. \<not> on_screen a \<longrightarrow> m a = mem s a)"
proof -
  obtain m where m: "tty_init s = s\<lparr>mem := m, tty_row := 0, tty_col := 0\<rparr>" "\<forall>a. \<not> on_screen a \<longrightarrow> m a = mem s a"
    using tty_init_frame [of s] by blast
  obtain tr where c: "cursor_disable (tty_init s) = s\<lparr>mem := m, tty_row := 0, tty_col := 0, io_trace := tr\<rparr>"
    by (simp add: cursor_disable_def outb_def m(1))
  let ?s = "cursor_disable (tty_init s)"
  have len: "length boot_text = 9" "\<forall>x\<in>set boot_text. printable x \<or> x = 10" by (simp_all add: boot_text_def printable_def)
  have "cstring (mem ?s) (boot_msg s) boot_text"
    using assms m(2) len(1) by (intro iffD2 [OF cstring_cong [of _ "mem ?s" _ "mem s"]]) (auto simp: c)
  then obtain m' r' c' where w: "tty_writestr ?s (boot_msg s) = Some (?s\<lparr>mem := m', tty_row := r', tty_col := c'\<rparr>)" "\<forall>a. \<not> on_screen a \<longrightarrow> m' a = mem ?s a"
    using tty_writestr_frame [of ?s "boot_msg s" boot_text] assms(2) len by (auto simp: c)
  have "?s\<lparr>mem := m', tty_row := r', tty_col := c'\<rparr> = s\<lparr>mem := m', tty_row := r', tty_col := c', io_trace := tr\<rparr>" by (simp add: c)
  then show ?thesis using w m(2) by (intro exI [of _ m'] exI [of _ r'] exI [of _ c'] exI [of _ tr]) (simp add: c)
qed

lemma gdt_start:
  "\<exists>m'. gdt_unstructure (memset g 0 48 m) g (kernel_gdt t) = Some m' \<and> (\<forall>a. a \<notin> out_bytes g 48 \<longrightarrow> m' a = m a)"
proof -
  obtain m' where m': "gdt_unstructure (memset g 0 48 m) g (kernel_gdt t) = Some m'" "\<forall>b. b - g < 48 \<or> m' b = memset g 0 48 m b"
    using kernel_gdt_loads [of "memset g 0 48 m" g t] by blast
  have "m' a = m a" if "a \<notin> out_bytes g 48" for a
    using m'(2) that memset_apply [of g 0 48 m a] by (auto simp: word_less_nat_alt)
  then show ?thesis using m'(1) by blast
qed

text \<open>The console, the segment descriptors and the kernel heap.\<close>

definition kernel_early :: "'a kernel_state_scheme \<Rightarrow> 'a kernel_state_scheme option" where
  "kernel_early s = Option.bind (tty_writestr (cursor_disable (tty_init s)) (boot_msg s)) (\<lambda>s1.
     Option.bind (gdt_unstructure (memset (gdt_real s1) 0x00 48 (mem s1)) (gdt_real s1) (kernel_gdt (tss_addr s1)))
       (\<lambda>m2. kheap_init (gdt_load (s1\<lparr>mem := m2\<rparr>) (gdt_real s1) 48)))"

abbreviation heap_area :: "u32 set" where
  "heap_area \<equiv> {a. 0x01000000 \<le> uint a \<and> uint a < 0x07400000}"

lemma kernel_early_run:
  assumes "cstring (mem s) (boot_msg s) boot_text" "\<forall>l\<le>9. \<not> on_screen (boot_msg s + of_nat l)"
  shows "\<exists>m r c tr h. kernel_early s = Some (s\<lparr>tty_row := r, tty_col := c, io_trace := tr, mem := m, gdt_register := (gdt_real s, 48), kernel_heap := h\<rparr>) \<and>
    (\<forall>a. \<not> on_screen a \<and> a \<notin> out_bytes (gdt_real s) 48 \<and> a \<notin> heap_table_bytes \<longrightarrow> m a = mem s a) \<and>
    heap_wf h \<and> (\<forall>n. heap_fits h n \<longleftrightarrow> n \<le> 25600) \<and> heap_region h = heap_area"
proof -
  obtain m r c tr where 1: "tty_writestr (cursor_disable (tty_init s)) (boot_msg s) = Some (s\<lparr>mem := m, tty_row := r, tty_col := c, io_trace := tr\<rparr>)"
    "\<forall>a. \<not> on_screen a \<longrightarrow> m a = mem s a" using console_start [OF assms] by blast
  obtain m2 where 2: "gdt_unstructure (memset (gdt_real s) 0 48 m) (gdt_real s) (kernel_gdt (tss_addr s)) = Some m2" "\<forall>a. a \<notin> out_bytes (gdt_real s) 48 \<longrightarrow> m2 a = m a"
    using gdt_start by blast
  let ?s2 = "s\<lparr>tty_row := r, tty_col := c, io_trace := tr, mem := m2, gdt_register := (gdt_real s, 48)\<rparr>"
  obtain m3 h where h: "kheap_init ?s2 = Some (?s2\<lparr>mem := m3, kernel_heap := h\<rparr>)" "\<forall>a. m3 a = (if a \<in> heap_table_bytes then 0 else m2 a)" "heap_wf h" "\<forall>n. heap_fits h n \<longleftrightarrow> n \<le> 25600" "heap_region h = heap_area"
    using kheap_init_run [of ?s2] by auto
  have "kernel_early s = Some (s\<lparr>tty_row := r, tty_col := c, io_trace := tr, mem := m3, gdt_register := (gdt_real s, 48), kernel_heap := h\<rparr>)"
    using h(1) by (simp add: kernel_early_def 1(1) 2(1) gdt_load_def)
  then show ?thesis using h 1(2) 2(2)
    by (intro exI [of _ m3] exI [of _ r] exI [of _ c] exI [of _ tr] exI [of _ h]) simp
qed

text \<open>The task state segment is outside the heap.\<close>

lemma kernel_init_tss_run:
  "\<exists>m. kernel_init_tss s = s\<lparr>mem := m, task_register := 0x28\<rparr> \<and> (\<forall>a. a \<notin> out_bytes (tss_addr s) 100 \<longrightarrow> m a = mem s a)"
proof -
  let ?t = "tss_addr s"
  have "store32 (store32 (memset ?t 0 100 (mem s)) (?t + 4) x) (?t + 8) y a = mem s a" if "a \<notin> out_bytes ?t 100" for x y a
    using that memset_apply [of ?t 0 100 "mem s" a] by (auto simp: store32_def word_less_nat_alt add.assoc)
  then show ?thesis by (auto simp: kernel_init_tss_def tss_load_def)
qed

lemma keyboard_init_run:
  assumes "kbd_init (keyboards s (ps2_keyboard s)) \<noteq> No_init"
  shows "\<exists>k h t tr. keyboard_init s = s\<lparr>keyboards := k, keyboard_head := h, keyboard_tail := t, io_trace := tr,
    int_callbacks := (int_callbacks s)[0x21 := Some Ps2_handle_interrupt]\<rparr>"
proof -
  define s1 where "s1 = (if keyboard_tail s \<noteq> 0 then (upd_kbd s (keyboard_tail s) (\<lambda>k. k\<lparr>kbd_next := ps2_keyboard s\<rparr>))\<lparr>keyboard_tail := ps2_keyboard s\<rparr>
     else s\<lparr>keyboard_head := ps2_keyboard s, keyboard_tail := ps2_keyboard s\<rparr>)"
  have 1: "s1 = s\<lparr>keyboards := keyboards s1, keyboard_head := keyboard_head s1, keyboard_tail := keyboard_tail s1\<rparr>" by (simp add: s1_def)
  have "keyboard_init s = snd (ps2_keyboard_init s1)"
    using assms by (simp add: keyboard_init_def keyboard_insert_def ps2_init_def s1_def Let_def)
  also have "\<dots> = s1\<lparr>keyboards := keyboards (snd (ps2_keyboard_init s1)), io_trace := io_trace (snd (ps2_keyboard_init s1)),
      int_callbacks := (int_callbacks s1)[0x21 := Some Ps2_handle_interrupt]\<rparr>"
    by (simp add: ps2_keyboard_init_def idt_register_int_callback_def config_simps keyboard_set_capslock_def outb_def)
  also have "\<dots> = s\<lparr>keyboards := keyboards (snd (ps2_keyboard_init s1)), keyboard_head := keyboard_head s1, keyboard_tail := keyboard_tail s1,
      io_trace := io_trace (snd (ps2_keyboard_init s1)), int_callbacks := (int_callbacks s)[0x21 := Some Ps2_handle_interrupt]\<rparr>"
    by (subst 1) (simp add: s1_def)
  finally show ?thesis by blast
qed

text \<open>What the later steps need of the tables that are not touched before them.\<close>

definition start_view :: "'a kernel_state_scheme \<Rightarrow> u32 list \<times> (u32 \<Rightarrow> task) \<times> u32 \<times> u32 \<times> u32 \<times> u32 list \<times> u32" where
  "start_view s = (file_descriptors s, tasks s, task_head s, task_tail s, task_current s, processes s, shell_path s)"

text \<open>The tables as \<^verbatim>\<open>kernel_main\<close> leaves them: the clock, the keyboard and the system calls lead to their handlers.\<close>

definition tables_ready :: "'a kernel_state_scheme \<Rightarrow> bool" where
  "tables_ready s \<longleftrightarrow> (\<forall>n\<ge>32. n < 512 \<longrightarrow> int_callbacks s ! n \<noteq> Some Idt_handle_exception) \<and> clock_alone s \<and>
     int_callbacks s ! 0x21 = Some Ps2_handle_interrupt \<and> syscalls s = registered_calls \<and> paging_enabled s"

lemma kernel_more_fields:
  fixes s :: "'a kernel_state_scheme"
  assumes "kheap_state.more s' = kheap_state.more s"
  shows "start_view s' = start_view s" "int_callbacks s' = int_callbacks s" "syscalls s' = syscalls s" "keyboards s' = keyboards s"
    "ps2_keyboard s' = ps2_keyboard s" "tss_addr s' = tss_addr s"
  using assms by (cases s; cases s'; simp add: start_view_def)+

lemma start_view_upd [simp]:
  "start_view (s\<lparr>mem := m\<rparr>) = start_view s" "start_view (s\<lparr>task_register := r\<rparr>) = start_view s" "start_view (s\<lparr>syscalls := x\<rparr>) = start_view s"
  by (simp_all add: start_view_def)

lemma live_same_trans:
  assumes "live_same s s1" "live_same s1 s2"
  shows "live_same s s2"
  using assms unfolding live_same_def by (elim conjE, intro conjI) (auto 0 3)

lemma idt_tss_run:
  assumes wf: "kheap_wf s" and tss: "out_bytes (tss_addr s) 100 \<inter> kregion s = {}" and cb: "int_callbacks s = replicate 512 None"
  defines "s' \<equiv> kernel_init_tss (idt_init s)"
  shows "live_same s s'" "kernel_heap s' = kernel_heap s" "\<And>a. a \<notin> out_bytes (tss_addr s) 100 \<Longrightarrow> mem s' a = mem s a" "start_view s' = start_view s"
    "\<And>i. i < 512 \<Longrightarrow> int_callbacks s' ! i = (if i < 0x20 then Some Idt_handle_exception else if i = 0x20 then Some Idt_clock else None)"
    "length (int_callbacks s') = 512" "syscalls s' = syscalls s" "keyboards s' = keyboards s" "ps2_keyboard s' = ps2_keyboard s"
proof -
  obtain e c x y where i: "idt_init s = s\<lparr>idt_entries := e, int_callbacks := c, idtr := x, idt_register := y\<rparr>"
    using idt_init_like [of s] by (auto simp: idt_like_def)
  obtain m where m: "s' = (idt_init s)\<lparr>mem := m, task_register := 0x28\<rparr>" "\<forall>a. a \<notin> out_bytes (tss_addr s) 100 \<longrightarrow> m a = mem s a"
    using kernel_init_tss_run [of "idt_init s"] by (auto simp: s'_def i)
  show h: "kernel_heap s' = kernel_heap s" and sv: "start_view s' = start_view s" "syscalls s' = syscalls s" "keyboards s' = keyboards s"
    "ps2_keyboard s' = ps2_keyboard s"
    by (simp_all add: m(1) i start_view_def)
  show mem: "mem s' a = mem s a" if "a \<notin> out_bytes (tss_addr s) 100" for a using m that by simp
  have "length (int_callbacks s) = 512" using cb by simp
  note t = idt_init_table [OF this]
  show "int_callbacks s' ! i = (if i < 0x20 then Some Idt_handle_exception else if i = 0x20 then Some Idt_clock else None)" if "i < 512" for i
    using t that cb by (simp add: m(1))
  have "length (int_callbacks (idt_init s)) = 512" using cb idt_init_length [of s] by simp
  then show "length (int_callbacks s') = 512" by (simp add: m(1))
  have "mem s' a = mem s a" if "(p, k) \<in> kallocs s" "a \<in> extent p k" for p k a
    using mem [of a] kz.allocs_region [OF wf that(1)] that(2) tss by blast
  then have "\<forall>p k a. (p, k) \<in> kallocs s \<and> a \<in> extent p k \<longrightarrow> mem s' a = mem s a" by blast
  then show "live_same s s'" using wf h
    by (simp add: live_same_def kheap_view_defs) (simp add: m(1) i)
qed

lemma init_paging_run:
  assumes wf: "kheap_wf s" and fit: "kfits s (N + 1026)"
  shows "\<exists>pd d e s1. kernel_init_paging s = s1\<lparr>kernel_page_dir := pd, page_reg := d, current_directory := e, paging_enabled := True\<rparr> \<and>
    path_frame s s1 \<and> kfits s1 N \<and> kheap_state.more s1 = kheap_state.more s"
proof -
  have fl: "(ucast (PAGING_IS_WRITEABLE OR PAGING_IS_PRESENT OR PAGING_ACCESS_FROM_ALL) :: u8) = 7" by (simp add: config_simps)
  obtain pd s1 where new: "paging_new s 7 = (pd, s1)" by force
  have "kfits s 1026" by (rule kz.fits_mono [OF fit]) simp
  then have av: "1026 \<le> kavail s" using kfits_kavail [OF wf] by simp
  note f = paging_new_frame [OF wf av new]
  have "kspent s s1" using f(1) by (simp add: path_frame_def)
  then have "kfits s1 N" using kspent_fits [OF _ f(2) fit] by blast
  moreover have "kheap_state.more s1 = kheap_state.more s" using paging_new_more [of s 7] new by simp
  moreover have "kernel_init_paging s = s1\<lparr>kernel_page_dir := pd, page_reg := dir_entries (mem s1) pd, current_directory := dir_entries (mem s1) pd, paging_enabled := True\<rparr>"
    by (simp add: kernel_init_paging_def fl new paging_switch_def enable_paging_def)
  ultimately show ?thesis using f(1) by blast
qed

lemma kernel_tables_run:
  assumes wf: "kheap_wf s" and fit: "kfits s (N + 1026)" and tss: "out_bytes (tss_addr s) 100 \<inter> kregion s = {}"
    and tabs: "int_callbacks s = replicate 512 None" "syscalls s = replicate 256 None" "kbd_init (keyboards s (ps2_keyboard s)) \<noteq> No_init"
  shows "\<exists>s7. syscall_register_all (kernel_init_paging (kernel_init_tss (idt_init s))) = Some s7 \<and> live_same s (keyboard_init s7) \<and>
    kfits (keyboard_init s7) N \<and> start_view (keyboard_init s7) = start_view s \<and> tables_ready (keyboard_init s7) \<and>
    (\<forall>a. kprot s a \<and> a \<notin> out_bytes (tss_addr s) 100 \<longrightarrow> kprot (keyboard_init s7) a \<and> mem (keyboard_init s7) a = mem s a)"
proof -
  let ?s1 = "kernel_init_tss (idt_init s)"
  note 1 = idt_tss_run [OF wf tss tabs(1)]
  have wf1: "kheap_wf ?s1" "kfits ?s1 (N + 1026)" and pr1: "\<And>a. kprot ?s1 a = kprot s a" using wf fit by (simp_all add: kheap_view_defs kprot_def 1(2))
  obtain pd d e s2 where 2: "kernel_init_paging ?s1 = s2\<lparr>kernel_page_dir := pd, page_reg := d, current_directory := e, paging_enabled := True\<rparr>"
    "path_frame ?s1 s2" "kfits s2 N" "kheap_state.more s2 = kheap_state.more ?s1" using init_paging_run [OF wf1] by blast
  note f2 = kernel_more_fields [OF 2(4)]
  let ?s3 = "kernel_init_paging ?s1"
  define s7 where "s7 = ?s3\<lparr>syscalls := registered_calls\<rparr>"
  have reg: "syscall_register_all ?s3 = Some s7" unfolding s7_def by (rule register_all_calls) (simp add: 2(1) f2 1(7) tabs(2))
  have kb: "kbd_init (keyboards s7 (ps2_keyboard s7)) \<noteq> No_init" using tabs(3) by (simp add: s7_def 2(1) f2 1(8,9))
  obtain k h t tr where k: "keyboard_init s7 = s7\<lparr>keyboards := k, keyboard_head := h, keyboard_tail := t, io_trace := tr,
    int_callbacks := (int_callbacks s7)[0x21 := Some Ps2_handle_interrupt]\<rparr>" using keyboard_init_run [OF kb] by blast
  let ?s8 = "keyboard_init s7"
  have s8: "mem ?s8 = mem s2" "kernel_heap ?s8 = kernel_heap s2" unfolding k by (simp_all add: s7_def 2(1))
  have "live_same ?s1 s2" by (rule live_keep_same [OF live_keep_path [OF 2(2)]])
  then have "live_same s s2" by (rule live_same_trans [OF 1(1)])
  then have "live_same s ?s8" unfolding k by (simp add: live_same_def kheap_view_defs) (simp add: s7_def 2(1))
  moreover have "kfits ?s8 N" using 2(3) by (simp add: kheap_view_defs s8)
  moreover have "start_view ?s8 = start_view s2" unfolding k by (simp add: s7_def 2(1) start_view_def)
  then have "start_view ?s8 = start_view s" using f2(1) 1(4) by simp
  moreover have "tables_ready ?s8" using 1(5,6) unfolding k by (auto simp: tables_ready_def clock_alone_def s7_def 2(1) f2(2) nth_list_update)
  moreover have "kprot ?s8 a \<and> mem ?s8 a = mem s a" if "kprot s a" "a \<notin> out_bytes (tss_addr s) 100" for a
  proof -
    have p: "kprot ?s1 a" using that(1) pr1 by simp
    have "mem s2 a = mem ?s1 a" using 2(2) p unfolding path_frame_def by blast
    moreover have "kprot ?s8 a = kprot s2 a" by (simp add: kprot_def kheap_view_defs s8)
    ultimately show ?thesis using path_frame_prot [OF 2(2) p] 1(3) [OF that(2)] s8(1) by simp
  qed
  ultimately show ?thesis using reg by (intro exI [of _ s7]) blast
qed

section \<open>From power-on to the shell\<close>

text \<open>The volume of the first disk, without the streams that the driver opens on it.\<close>

definition disk_volume :: "(nat \<Rightarrow> u8) \<Rightarrow> nat \<Rightarrow> volume" where
  "disk_volume img n = \<lparr>v_img = img, v_sectors = n, v_reserved = img16 img 14, v_spc = unat (img 13),
     v_data = root_start img + root_bytes img div 512, v_fat_read = 0, v_cluster_read = 0\<rparr>"

lemma disk_volume_same:
  "cluster_chain (volume_of s img n) cl = cluster_chain (disk_volume img n) cl" "file_mem (volume_of s img n) cl = file_mem (disk_volume img n) cl"
  by (simp_all add: cluster_chain_def fat_entry_def file_mem_def [abs_def] file_byte_def volume_of_def disk_volume_def)

text \<open>
  The machine when the boot loader has jumped to \<^verbatim>\<open>kernel_main\<close>: the static data of the kernel is zero or has its initial value and
  lies outside the screen, the heap and its block table, and \<open>w\<close> is the file name of the shell.
\<close>

definition power_on :: "'a kernel_state_scheme \<Rightarrow> u8 list \<Rightarrow> bool" where
  "power_on s w \<longleftrightarrow> cstring (mem s) (boot_msg s) boot_text \<and> (\<forall>l\<le>9. \<not> on_screen (boot_msg s + of_nat l)) \<and>
     cstring (mem s) (shell_path s) (0x30 # 0x3A # 0x2F # w) \<and>
     (\<forall>l\<le>length w + 3. \<not> on_screen (shell_path s + of_nat l) \<and>
        shell_path s + of_nat l \<notin> out_bytes (gdt_real s) 48 \<union> out_bytes (tss_addr s) 100 \<union> drv_locals s \<union> heap_area \<union> heap_table_bytes) \<and>
     (drv_locals s \<union> out_bytes (gdt_real s) 48 \<union> out_bytes (tss_addr s) 100) \<inter> (heap_area \<union> heap_table_bytes) = {} \<and> disk_addr s \<noteq> 0 \<and> fat16_fs s \<noteq> 0 \<and>
     int_callbacks s = replicate 512 None \<and> syscalls s = replicate 256 None \<and> processes s = replicate 12 0 \<and> task_head s = 0 \<and>
     kbd_init (keyboards s (ps2_keyboard s)) \<noteq> No_init"

text \<open>
  A disk image with a FAT16 volume of \<open>n\<close> sectors whose root directory has \<open>k\<close> entries; number \<open>i\<close> is the shell, a program of \<open>sz\<close> bytes
  in the clusters \<open>cl\<close>. The heap has to hold the root directory, the program, two page directories, the process and its stack.
\<close>

definition shell_disk :: "(nat \<Rightarrow> u8) \<Rightarrow> nat \<Rightarrow> nat \<Rightarrow> u8 list \<Rightarrow> nat \<Rightarrow> nat list \<Rightarrow> nat \<Rightarrow> bool" where
  "shell_disk img n k w i cl sz \<longleftrightarrow> (let e = 512 * root_start img + 32 * i; fm = file_mem (disk_volume img n) cl in
     root_dir_ok img n k \<and> img 38 = 0x29 \<and> img 13 \<noteq> 0 \<and> root_file img k i w \<and> w \<noteq> [] \<and> 0x2F \<notin> set w \<and> length w \<le> 105 \<and>
     cluster_chain (disk_volume img n) cl \<and> cl \<noteq> [] \<and> cl ! 0 = dir_cluster img e \<and> dir_size img e = of_nat sz \<and> 0 < sz \<and> sz < 2 ^ 31 \<and>
     sz \<le> 512 * unat (img 13) * length cl \<and> blocks_for (of_nat (root_bytes img)) + blocks_for (of_nat sz) + 2073 \<le> 25600 \<and>
     elf_program fm sz \<and> elf_layout fm sz)"

lemma file_more_kernel:
  fixes s :: "'a kernel_state_scheme"
  assumes "file_state.more s' = file_state.more s"
  shows "int_callbacks s' = int_callbacks s" "syscalls s' = syscalls s" "keyboards s' = keyboards s" "ps2_keyboard s' = ps2_keyboard s"
    "tss_addr s' = tss_addr s" "task_head s' = task_head s" "processes s' = processes s" "shell_path s' = shell_path s"
  using assms by (cases s; cases s'; simp)+

text \<open>The kernel with a mounted file system and all its tables, about to load the shell.\<close>

definition before_shell :: "'a kernel_state_scheme \<Rightarrow> u32 \<Rightarrow> (nat \<Rightarrow> u8) \<Rightarrow> nat \<Rightarrow> nat \<Rightarrow> u8 list \<Rightarrow> nat \<Rightarrow> nat list \<Rightarrow> nat \<Rightarrow> bool" where
  "before_shell s path img n k w i cl sz \<longleftrightarrow> can_load s img n k path w i 0 cl sz \<and> kfits s (blocks_for (of_nat sz) + 1042) \<and>
     shell_path s = path \<and> processes s = replicate 12 0 \<and> task_head s = 0 \<and> kregion s = heap_area \<and> tables_ready s"

lemma mount_and_tables:
  assumes on: "power_on s w" and disk: "ata_drive (bus s) img n" "shell_disk img n k w i cl sz"
    and s3: "s3 = s\<lparr>tty_row := r, tty_col := c, io_trace := tr, mem := m, gdt_register := g, kernel_heap := h\<rparr>"
    and m: "\<forall>a. \<not> on_screen a \<and> a \<notin> out_bytes (gdt_real s) 48 \<and> a \<notin> heap_table_bytes \<longrightarrow> m a = mem s a"
    and h: "heap_wf h" "\<forall>n. heap_fits h n \<longleftrightarrow> n \<le> 25600" "heap_region h = heap_area"
  shows "\<exists>s5 s7. Option.bind (fs_init s3) disk_search_and_init = Some s5 \<and>
    syscall_register_all (kernel_init_paging (kernel_init_tss (idt_init s5))) = Some s7 \<and>
    before_shell (keyboard_init s7) (shell_path s) img n k w i cl sz"
proof -
  note p = on [unfolded power_on_def] and d = disk(2) [unfolded shell_disk_def Let_def]
  let ?N = "blocks_for (of_nat sz) + 1042" and ?R = "blocks_for (of_nat (root_bytes img))" and ?tss = "out_bytes (tss_addr s) 100"
  have v3: "kregion s3 = heap_area" "kheap_wf s3" "\<And>n. kfits s3 n \<longleftrightarrow> n \<le> 25600" "drv_locals s3 = drv_locals s"
    using h by (simp_all add: s3 kheap_view_defs drv_locals_def)
  have br: "boot_ready s3 img n (?R + (?N + 1026))"
    unfolding boot_ready_def using v3 disk(1) p d by (auto simp: s3 drv_locals_def)
  obtain s5 where s5: "Option.bind (fs_init s3) disk_search_and_init = Some s5" "fs_ready s5 img n k" "file_descriptors s5 = replicate 512 0"
    "kfits s5 (?N + 1026)" "kregion s5 = kregion s3" "stk_entry s5 = stk_entry s3 \<and> stk_name s5 = stk_name s3 \<and> stk_item s5 = stk_item s3"
    "file_state.more s5 = file_state.more s3" "\<forall>a. kprot s3 a \<longrightarrow> kprot s5 a" "\<forall>a. kprot s3 a \<and> a \<notin> item_local s3 \<longrightarrow> mem s5 a = mem s3 a"
    using disk_search_effect [OF br, of k] d by blast
  have l5: "kregion s5 = heap_area" "drv_locals s5 = drv_locals s" using s5(5,6) v3(1,4) by (simp_all add: drv_locals_def)
  note f5 = file_more_kernel [OF s5(7)]
  have t5: "int_callbacks s5 = replicate 512 None" "syscalls s5 = replicate 256 None" "kbd_init (keyboards s5 (ps2_keyboard s5)) \<noteq> No_init"
    "tss_addr s5 = tss_addr s" "processes s5 = replicate 12 0" "task_head s5 = 0" "shell_path s5 = shell_path s"
    using p by (simp_all add: f5 s3)
  have tss: "out_bytes (tss_addr s5) 100 \<inter> kregion s5 = {}" using p by (simp add: t5(4) l5(1)) blast
  obtain s7 where s7: "syscall_register_all (kernel_init_paging (kernel_init_tss (idt_init s5))) = Some s7" "live_same s5 (keyboard_init s7)"
    "kfits (keyboard_init s7) ?N" "start_view (keyboard_init s7) = start_view s5" "tables_ready (keyboard_init s7)"
    "\<forall>a. kprot s5 a \<and> a \<notin> ?tss \<longrightarrow> kprot (keyboard_init s7) a \<and> mem (keyboard_init s7) a = mem s5 a"
    using kernel_tables_run [OF fs_ready_wf [OF s5(2)] s5(4) tss t5(1-3)] unfolding t5(4) by blast
  let ?s8 = "keyboard_init s7" and ?p = "shell_path s"
  have sv: "file_descriptors ?s8 = replicate 512 0" "task_head ?s8 = 0" "processes ?s8 = replicate 12 0" "shell_path ?s8 = ?p"
    using s7(4) s5(3) t5 by (simp_all add: start_view_def)
  have ls: "kregion ?s8 = heap_area" "drv_locals ?s8 = drv_locals s" using s7(2) l5 by (simp_all add: live_same_def drv_locals_def)
  have byte: "kprot ?s8 (?p + of_nat l) \<and> mem ?s8 (?p + of_nat l) = mem s (?p + of_nat l) \<and> ?p + of_nat l \<notin> drv_locals ?s8" if "l \<le> length w + 3" for l
  proof -
    let ?a = "?p + of_nat l"
    have a: "\<not> on_screen ?a" "?a \<notin> out_bytes (gdt_real s) 48" "?a \<notin> ?tss" "?a \<notin> drv_locals s" "?a \<notin> heap_area" "?a \<notin> heap_table_bytes"
      using p that by blast+
    have "kprot s3 ?a" using a(5) v3(1) by (simp add: kprot_def)
    moreover have "?a \<notin> item_local s3" using a(4) by (simp add: drv_locals_def s3)
    ultimately have "kprot s5 ?a" "mem s5 ?a = mem s3 ?a" using s5(8,9) by blast+
    moreover have "mem s3 ?a = mem s ?a" using m a(1,2,6) by (simp add: s3)
    ultimately show ?thesis using s7(6) a(3,4) ls(2) by simp
  qed
  have "cstring (mem ?s8) ?p (0x30 # 0x3A # 0x2F # w)"
    using p byte by (intro iffD2 [OF cstring_cong [of _ "mem ?s8" _ "mem s"]]) auto
  moreover have "7 \<le> kavail ?s8"
  proof -
    have "kheap_wf ?s8" using s7(2) by (simp add: live_same_def)
    moreover have "kfits ?s8 7" by (rule kz.fits_mono [OF s7(3)]) simp
    ultimately show ?thesis using kfits_kavail [of ?s8 7] by simp
  qed
  moreover have "32 * k \<le> root_bytes img" using d by (simp add: root_dir_ok_def)
  moreover have "first_null (file_descriptors ?s8) = Some 0" by (simp add: sv(1) numeral_eq_Suc)
  ultimately have "can_open ?s8 img k ?p w i 0" using d byte by (simp add: can_open_def sv(1))
  then have "can_load ?s8 img n k ?p w i 0 cl sz"
    using fs_ready_same [OF s7(2) s5(2)] d byte by (simp add: can_load_def disk_volume_same)
  then have "before_shell ?s8 ?p img n k w i cl sz" using s7(3,5) sv ls(1) by (simp add: before_shell_def)
  then show ?thesis using s5(1) s7(1) by blast
qed

lemma registered_number: "i < 256 \<Longrightarrow> registered_calls ! i = Some fn \<Longrightarrow> syscall_number fn = int i"
  by (auto simp: registered_calls_def nth_Cons' nth_append split: if_splits)

text \<open>Loading the shell and entering it.\<close>

lemma shell_start:
  assumes b: "before_shell s path img n k w i cl sz" and "elf_program (file_mem (disk_volume img n) cl) sz" "elf_layout (file_mem (disk_volume img n) cl) sz"
  shows "\<exists>task proc s1 s'. process_new_shell term s = Some (proc, s1) \<and> task_run_first s1 = Some (User_mode ((regs (tasks s' task))\<lparr>eflags := flags_reg s' OR 0x200\<rparr>), s') \<and>
    runs_image s' task (file_mem (disk_volume img n) cl) \<and> processes s' = (replicate 12 0)[0 := proc] \<and> process_current s' = proc \<and>
    proc_task (procs s' proc) = task \<and> user_ready [task] (\<lambda>_. (page_dir (tasks s' task), proc)) s' \<and> tables_ready s'"
proof -
  let ?fm = "file_mem (disk_volume img n) cl"
  note bs = b [unfolded before_shell_def]
  have slot: "first_null (processes s) = Some 0" "length (processes s) = ENKI_MAX_PROCESSES" using bs by (simp_all add: numeral_eq_Suc config_simps)
  have reg: "\<forall>a\<in>kregion s. unat a < 2 ^ 31"
  proof
    fix a assume "a \<in> kregion s"
    then have "int (unat a) < int 0x07400000" using bs by (simp only: uint_nat) simp
    then have "unat a < 0x07400000" by (simp only: of_nat_less_iff)
    then show "unat a < 2 ^ 31" by simp
  qed
  have ts: "task_list s []" "\<forall>u\<in>set []. (u, 1) \<in> kallocs s" using bs by (simp_all add: task_list_def task_chain_def)
  have ld: "can_load s img n k path w i 0 cl sz" "kfits s (blocks_for (of_nat sz) + 1042)" using bs by simp_all
  obtain proc task s1 where l: "process_load term s path = Some (0, proc, s1)" "proc \<noteq> 0" "task \<noteq> 0" "proc_state.more s1 = proc_state.more s"
    "processes s1 = (processes s)[0 := proc]" "proc_task (procs s1 proc) = task" "task_added s s1 [] task proc" "runs_image s1 task ?fm"
    using process_load_effect [OF ld assms(2,3) [folded disk_volume_same(2) [of s]] slot reg ts, of "term"] unfolding disk_volume_same by blast
  have ta: "task_chain s1 [task]" "task_current s1 = task" "task_process (tasks s1 task) = proc" "task_head s1 = task"
    using l(7) by (simp_all add: task_added_def task_list_def task_chain_def)
  let ?s2 = "process_switch s1 proc"
  let ?s3 = "(task_switch ?s2 task)\<lparr>data_seg := 0x23\<rparr>"
  have r: "ss (regs (tasks s1 task)) = 0x23" using l(8) by (simp add: runs_image_def config_simps)
  have "process_new_shell term s = Some (proc, ?s2)" using l(1) bs by (simp add: process_new_shell_def process_load_switch_def)
  moreover have "task_run_first ?s2 = Some (User_mode ((regs (tasks ?s3 task))\<lparr>eflags := flags_reg ?s3 OR 0x200\<rparr>), ?s3)"
    using ta l(3) r by (simp add: task_run_first_def process_switch_def task_switch_def task_return_def paging_switch_def)
  moreover have "tables_ready ?s3"
  proof -
    have "int_callbacks s1 = int_callbacks s" "syscalls s1 = syscalls s" "paging_enabled s1 = paging_enabled s" using l(4) by (cases s; cases s1; simp)+
    then show ?thesis using bs by (simp add: tables_ready_def clock_alone_def process_switch_def task_switch_def paging_switch_def)
  qed
  moreover have "runs_image ?s3 task ?fm"
    using l(8) by (simp add: runs_image_def task_virt_to_phys_addr_def process_switch_def task_switch_def paging_switch_def)
  moreover have "sched_ok [task] (\<lambda>_. (page_dir (tasks ?s3 task), proc)) ?s3"
    using \<open>tables_ready ?s3\<close> ta r registered_number
    by (auto simp: sched_ok_def tables_ready_def task_chain_def process_switch_def task_switch_def paging_switch_def)
  then have "user_ready [task] (\<lambda>_. (page_dir (tasks ?s3 task), proc)) ?s3"
    by (simp add: user_ready_def) (simp add: process_switch_def task_switch_def paging_switch_def)
  moreover have "processes ?s3 = (replicate 12 0)[0 := proc]" "process_current ?s3 = proc" "proc_task (procs ?s3 proc) = task"
    using l(5,6) bs by (simp_all add: process_switch_def task_switch_def paging_switch_def)
  ultimately show ?thesis by blast
qed

lemma kernel_main_boots:
  assumes "power_on s w" "ata_drive (bus s) img n" "shell_disk img n k w i cl sz"
  shows "\<exists>task proc s'. kernel_main term s = Some (User_mode ((regs (tasks s' task))\<lparr>eflags := flags_reg s' OR 0x200\<rparr>), s') \<and>
    runs_image s' task (file_mem (disk_volume img n) cl) \<and> processes s' = (replicate 12 0)[0 := proc] \<and> process_current s' = proc \<and>
    proc_task (procs s' proc) = task \<and> user_ready [task] (\<lambda>_. (page_dir (tasks s' task), proc)) s' \<and> tables_ready s'"
proof -
  have msg: "cstring (mem s) (boot_msg s) boot_text" "\<forall>l\<le>9. \<not> on_screen (boot_msg s + of_nat l)" using assms(1) by (simp_all add: power_on_def)
  have prog: "elf_program (file_mem (disk_volume img n) cl) sz" "elf_layout (file_mem (disk_volume img n) cl) sz"
    using assms(3) by (simp_all add: shell_disk_def Let_def)
  obtain s3 s5 s7 where st: "kernel_early s = Some s3" "Option.bind (fs_init s3) disk_search_and_init = Some s5"
    "syscall_register_all (kernel_init_paging (kernel_init_tss (idt_init s5))) = Some s7"
    "before_shell (keyboard_init s7) (shell_path s) img n k w i cl sz"
    using kernel_early_run [OF msg] mount_and_tables [OF assms refl] by blast
  obtain task proc s8 s' where sh: "process_new_shell term (keyboard_init s7) = Some (proc, s8)" "task_run_first s8 = Some (User_mode ((regs (tasks s' task))\<lparr>eflags := flags_reg s' OR 0x200\<rparr>), s')"
    "runs_image s' task (file_mem (disk_volume img n) cl)" "processes s' = (replicate 12 0)[0 := proc]" "process_current s' = proc"
    "proc_task (procs s' proc) = task" "user_ready [task] (\<lambda>_. (page_dir (tasks s' task), proc)) s'" "tables_ready s'"
    using shell_start [OF st(4) prog, of "term"] by blast
  have "kernel_main term s = Option.bind (kernel_early s) (\<lambda>s3. Option.bind (Option.bind (fs_init s3) disk_search_and_init) (\<lambda>s5.
      Option.bind (syscall_register_all (kernel_init_paging (kernel_init_tss (idt_init s5)))) (\<lambda>s7.
        Option.bind (process_new_shell term (keyboard_init s7)) (\<lambda>(_, s8). task_run_first s8))))"
    by (simp add: kernel_main_def kernel_early_def Let_def)
  moreover obtain s4 where "fs_init s3 = Some s4" "disk_search_and_init s4 = Some s5" using st(2) by (auto simp: bind_eq_Some_conv)
  ultimately have "kernel_main term s = Some (User_mode ((regs (tasks s' task))\<lparr>eflags := flags_reg s' OR 0x200\<rparr>), s')" using st(1,3) sh(1,2) by simp
  then show ?thesis using sh(3-8) by blast
qed

text \<open>
  C1: \<^verbatim>\<open>kernel_main\<close>, started on a machine whose first disk holds a FAT16 volume with the shell, does not return and does not panic: it
  enters user mode with the registers of the first task, the flags being those of the kernel with interrupts enabled. The task is at the entry point of the shell with its stack;
  its page directory is loaded, and through it every byte of the segments of the shell is seen at its virtual address.
  The shell is the only and the current process, the clock, the keyboard and the system calls lead to their
  handlers, and the invariant of the kernel holds.
\<close>

theorem kernel_main_enters_shell:
  assumes "power_on s w" "ata_drive (bus s) img n" "shell_disk img n k w i cl sz"
  shows "\<exists>task proc s'. kernel_main term s = Some (User_mode ((regs (tasks s' task))\<lparr>eflags := flags_reg s' OR 0x200\<rparr>), s') \<and>
    runs_image s' task (file_mem (disk_volume img n) cl) \<and> processes s' = (replicate 12 0)[0 := proc] \<and> process_current s' = proc \<and>
    proc_task (procs s' proc) = task \<and> user_ready [task] (\<lambda>_. (page_dir (tasks s' task), proc)) s' \<and> tables_ready s'"
  using kernel_main_boots [OF assms] .

section \<open>A machine that boots\<close>

definition demo_power_mem :: memory where
  "demo_power_mem = demo_boot_mem(0x3000 := 0x45, 0x3001 := 0x6E, 0x3002 := 0x6B, 0x3003 := 0x69, 0x3004 := 0x20, 0x3005 := 0x4F, 0x3006 := 0x53,
     0x3007 := 10, 0x3008 := 10)"

definition demo_power :: kernel_state where
  "demo_power = demo_kernel\<lparr>mem := demo_power_mem, bus := demo_bus (boot_img demo_program), disk_addr := 0x5000, stk_item := 0xF200, stk_entry := 0xF300,
     stk_name := 0xF400, fat16_fs := 0xF500, int_callbacks := replicate 512 None, syscalls := replicate 256 None, processes := replicate 12 0,
     task_head := 0, shell_path := 0x2000, boot_msg := 0x3000, gdt_real := 0xF000, tss_addr := 0xF100,
     keyboards := (\<lambda>k. (keyboards demo_kernel k)\<lparr>kbd_init := Ps2_keyboard_init\<rparr>)\<rparr>"

lemma low_not_heap:
  assumes "unat a < 0x10000"
  shows "a \<notin> heap_area"
proof -
  have "int (unat a) < int 0x10000" using assms by (simp only: of_nat_less_iff)
  then have "uint a < 0x10000" by (simp only: uint_nat of_nat_numeral)
  then show ?thesis by simp
qed

lemma demo_power_locals: "drv_locals demo_power = out_bytes 0xF200 32 \<union> {0xF300, 0xF301} \<union> out_bytes 0xF400 108"
  by (simp add: drv_locals_def demo_power_def)

lemma demo_low_address:
  fixes a :: u32
  assumes "unat a < 0x7000"
  shows "\<not> on_screen a" "a \<notin> out_bytes 0xF000 48" "a \<notin> out_bytes 0xF100 100" "a \<notin> heap_area" "a \<notin> drv_locals demo_power" "a \<notin> heap_table_bytes"
proof -
  show "\<not> on_screen a" "a \<notin> out_bytes 0xF000 48" "a \<notin> out_bytes 0xF100 100"
    using assms by (simp_all add: in_cells_def cell_addr_def unat_sub_if')
  show "a \<notin> heap_area" by (rule low_not_heap) (use assms in simp)
  show "a \<notin> heap_table_bytes" using assms by (simp add: heap_table_bytes_def config_simps word_less_nat_alt unat_sub_if')
  have "unat a \<noteq> unat (0xF300 :: u32)" "unat a \<noteq> unat (0xF301 :: u32)" using assms by simp_all
  then have "a \<noteq> 0xF300" "a \<noteq> 0xF301" by metis+
  then show "a \<notin> drv_locals demo_power" using assms by (simp add: demo_power_locals unat_sub_if')
qed

lemma demo_power_on: "power_on demo_power hi_txt"
proof -
  have low: "unat (p + of_nat l :: u32) < 0x7000" if "l \<le> 9" "p = 0x2000 \<or> p = 0x3000" for l p
    using that unat_of_nat_u32 [of "0x2000 + l"] unat_of_nat_u32 [of "0x3000 + l"] by auto
  have top: "0xF000 \<le> unat a \<and> unat a < 0x10000" if "a \<in> drv_locals demo_power \<union> out_bytes 0xF000 48 \<union> out_bytes 0xF100 100" for a
    using that by (auto simp: demo_power_locals unat_sub_if' split: if_splits)
  moreover have "a \<notin> heap_table_bytes" if "0xF000 \<le> unat a \<and> unat a < 0x10000" for a
    using that by (auto simp: heap_table_bytes_def config_simps word_less_nat_alt unat_sub_if')
  ultimately have "(drv_locals demo_power \<union> out_bytes 0xF000 48 \<union> out_bytes 0xF100 100) \<inter> (heap_area \<union> heap_table_bytes) = {}"
    using low_not_heap by blast
  moreover have "cstring demo_power_mem 0x3000 boot_text" by (simp add: boot_text_def demo_power_mem_def demo_boot_mem_def)
  moreover have "cstring demo_power_mem 0x2000 (0x30 # 0x3A # 0x2F # hi_txt)" by (simp add: demo_power_mem_def demo_boot_mem_def)
  moreover have "\<not> on_screen (0x3000 + of_nat l)" if "l \<le> 9" for l using demo_low_address(1) [OF low [OF that]] by blast
  moreover have "\<not> on_screen (0x2000 + of_nat l) \<and> 0x2000 + of_nat l \<notin> out_bytes 0xF000 48 \<union> out_bytes 0xF100 100 \<union> drv_locals demo_power \<union> heap_area \<union> heap_table_bytes"
    if "l \<le> 9" for l using demo_low_address [OF low [OF that, of "0x2000"]] by blast
  moreover have "boot_msg demo_power = 0x3000" "shell_path demo_power = 0x2000" "gdt_real demo_power = 0xF000" "tss_addr demo_power = 0xF100" "mem demo_power = demo_power_mem"
    "disk_addr demo_power \<noteq> 0" "fat16_fs demo_power \<noteq> 0" "int_callbacks demo_power = replicate 512 None" "syscalls demo_power = replicate 256 None"
    "processes demo_power = replicate 12 0" "task_head demo_power = 0" "kbd_init (keyboards demo_power (ps2_keyboard demo_power)) \<noteq> No_init"
    by (simp_all add: demo_power_def)
  moreover have "length hi_txt + 3 = 9" by simp
  ultimately show ?thesis unfolding power_on_def by simp
qed

lemma demo_shell_disk: "shell_disk (boot_img demo_program) (2 ^ 22 - 1) 2 hi_txt 0 [2] 88"
proof -
  obtain s :: proc_state where c: "can_load s (boot_img demo_program) (2 ^ 22 - 1) 2 0x2000 hi_txt 0 0 [2] 88"
    using demo_can_load [OF demo_loader_machine(1)] by (auto simp: demo_program_length)
  note l = c [unfolded can_load_def can_open_def Let_def]
  let ?v = "volume_of s (boot_img demo_program) (2 ^ 22 - 1)"
  have fm: "file_mem (disk_volume (boot_img demo_program) (2 ^ 22 - 1)) [2] a = demo_program ! unat a" if "unat a < 88" for a
    using demo_file_mem [of a demo_program s "2 ^ 22 - 1"] that by (simp add: demo_program_length disk_volume_same)
  have "boot_img demo_program 38 = 0x29" "boot_img demo_program 13 \<noteq> 0" by (simp_all add: boot_img_def)
  moreover have "blocks_for (of_nat (root_bytes (boot_img demo_program))) + blocks_for (of_nat 88) + 2073 \<le> 25600"
    by (simp add: boot_img_geometry blocks_for_def)
  ultimately show ?thesis
    unfolding shell_disk_def Let_def using l boot_img_root [of demo_program] demo_program_phdrs(2) [OF fm] demo_program_layout [OF fm]
    by (simp add: disk_volume_same)
qed

lemma demo_power_drive: "ata_drive (bus demo_power) (boot_img demo_program) (2 ^ 22 - 1)"
  using demo_drive [of "boot_img demo_program"] by (simp add: demo_power_def)

theorem kernel_main_enters_shell_witness:
  "\<exists>task s'. kernel_main (process_terminate 1) demo_power = Some (User_mode ((regs (tasks s' task))\<lparr>eflags := flags_reg s' OR 0x200\<rparr>), s') \<and> ip (regs (tasks s' task)) = 0x400054 \<and>
    mem s' (task_virt_to_phys_addr s' task 0x400054) = 0xCD"
proof -
  let ?fm = "file_mem (disk_volume (boot_img demo_program) (2 ^ 22 - 1)) [2]"
  have fm: "?fm a = demo_program ! unat a" if "unat a < 88" for a
    using demo_file_mem [of a demo_program demo_power "2 ^ 22 - 1"] that by (simp add: demo_program_length disk_volume_same)
  note h = demo_program_header [OF fm] and ph = demo_program_phdrs [OF fm]
  from kernel_main_enters_shell [OF demo_power_on demo_power_drive demo_shell_disk, of "process_terminate 1"] obtain task s' where
    r: "kernel_main (process_terminate 1) demo_power = Some (User_mode ((regs (tasks s' task))\<lparr>eflags := flags_reg s' OR 0x200\<rparr>), s')" "runs_image s' task ?fm" by blast
  note ri = r(2) [unfolded runs_image_def]
  have "\<forall>off<p_filesz ?fm 52. mem s' (task_virt_to_phys_addr s' task (p_vaddr ?fm 52 + off)) = ?fm (p_offset ?fm 52 + off)"
    using ri ph(1) by simp
  then have seg: "mem s' (task_virt_to_phys_addr s' task (0x400000 + off)) = ?fm (0 + off)" if "off < 88" for off
    using that h(6-8) by simp
  have "mem s' (task_virt_to_phys_addr s' task 0x400054) = 0xCD"
    using seg [of "0x54"] fm [of "0x54"] by (simp add: demo_program_def)
  then show ?thesis using r(1) ri h(3) by (intro exI [of _ task] exI [of _ s']) simp
qed

end
