(* ===== verification/User_Copy.thy ===== *)
theory User_Copy
  imports Boot_Proofs
begin

unbundle bit_operations_syntax

text \<open>
  Strings that come from user space: \<^verbatim>\<open>copy_str_from_task\<close> reads a string through the page directory of a task and puts it
  into a buffer of the kernel, and the print system call shows it. A string of a task (\<open>user_string\<close>) is what the task sees
  through its directory; its pages must be \<open>apart\<close> from what the call changes: free blocks of the heap, where the
  temporary buffer will be, and the tables of the directory, where it is entered.
\<close>

section \<open>Pages and their addresses\<close>

lemma identity_page:
  assumes "4096 dvd unat p" "flags < 4096" "paging_get m d p = p OR flags" "off < 4096"
  shows "paging_get_phys_addr m d (p + off) = p + off"
proof -
  have m: "off mod 4096 = off" using assms(4) by (simp add: word_less_nat_alt word_unat_eq_iff unat_mod)
  have low: "paging_align_to_lower (p + off) = p"
    using mod_page_add [OF assms(1), of off] m by (simp add: paging_align_to_lower_def config_simps)
  then show ?thesis using page_mask_or [OF assms(1,2)] assms(3) by (simp add: paging_get_phys_addr_def)
qed

section \<open>The copy through a loaded directory\<close>

text \<open>
  While the directory is loaded only the page of the temporary buffer changes, and the directory does not lie in it:
  every address keeps its translation \<open>T\<close>.
\<close>

lemma vstrncpy_loop_copies:
  assumes tr: "\<And>m a. \<forall>b. b \<notin> X \<longrightarrow> m b = m0 b \<Longrightarrow> paging_get_phys_addr m dir a = T a"
    and dst: "\<And>k. int k < n \<Longrightarrow> T (dst + of_nat k) = dst + of_nat k \<and> dst + of_nat k \<in> X"
    and src: "\<And>j. j \<le> l \<Longrightarrow> T (src + of_nat j) \<notin> X" and n: "n < 2 ^ 31"
  shows "\<forall>b. b \<notin> X \<longrightarrow> m b = m0 b \<Longrightarrow> int i < n \<Longrightarrow> cstring (\<lambda>a. m0 (T a)) (src + of_nat i) xs \<Longrightarrow> i + length xs \<le> l \<Longrightarrow>
    cstring (vstrncpy_loop dir dst src n i m) (dst + of_nat i) (take (nat n - 1 - i) xs) \<and>
    (\<forall>b. b \<notin> X \<or> unat (b - dst) < i \<longrightarrow> vstrncpy_loop dir dst src n i m b = m b)"
proof (induction xs arbitrary: i m)
  case Nil
  have "m (T (src + of_nat i)) = 0" using Nil src [of i] by simp
  moreover have "b \<noteq> dst + of_nat i" if "b \<notin> X \<or> unat (b - dst) < i" for b
    using that dst [OF Nil(2)] u32_offset_iff [of i b dst] Nil(2) n by auto
  ultimately show ?case using dst [OF Nil(2)] by (simp add: vstrncpy_loop.simps [of dir dst src n i m] tr [OF Nil(1)])
next
  case (Cons x xs)
  let ?m = "m(dst + of_nat i := x)"
  have x: "x \<noteq> 0" "m (T (src + of_nat i)) = x" and tl: "cstring (\<lambda>a. m0 (T a)) (src + of_nat (i + 1)) xs"
    using Cons.prems src [of i] by (simp_all add: algebra_simps)
  have ne: "b \<noteq> dst + of_nat i" if "b \<notin> X \<or> unat (b - dst) < i" for b
    using that dst [OF Cons.prems(2)] u32_offset_iff [of i b dst] Cons.prems(2) n by auto
  show ?case
  proof (cases "int i < n - 1")
    case True
    have m: "\<forall>b. b \<notin> X \<longrightarrow> ?m b = m0 b" using ne Cons.prems(1) by simp
    have run: "vstrncpy_loop dir dst src n i m = vstrncpy_loop dir dst src n (i + 1) ?m"
      using True x dst [OF Cons.prems(2)] by (simp add: vstrncpy_loop.simps [of dir dst src n i m] tr [OF Cons.prems(1)])
    have IH: "cstring (vstrncpy_loop dir dst src n (i + 1) ?m) (dst + of_nat (i + 1)) (take (nat n - 1 - (i + 1)) xs) \<and>
      (\<forall>b. b \<notin> X \<or> unat (b - dst) < i + 1 \<longrightarrow> vstrncpy_loop dir dst src n (i + 1) ?m b = ?m b)"
      by (rule Cons.IH [OF m _ tl]) (use True Cons.prems(4) in simp_all)
    have "unat (dst + of_nat i - dst) = i" using True n by (simp add: unat_of_nat_u32)
    then have "vstrncpy_loop dir dst src n (i + 1) ?m (dst + of_nat i) = x" using IH by simp
    moreover have "nat n - 1 - i = Suc (nat n - 1 - (i + 1))" using True by linarith
    moreover have "vstrncpy_loop dir dst src n (i + 1) ?m b = m b" if "b \<notin> X \<or> unat (b - dst) < i" for b
      using IH ne [OF that] that by auto
    ultimately show ?thesis unfolding run using IH x by (simp add: algebra_simps)
  next
    case False
    then have "nat n - 1 - i = 0" by linarith
    then show ?thesis using False dst [OF Cons.prems(2)] ne by (simp add: vstrncpy_loop.simps [of dir dst src n i m] tr [OF Cons.prems(1)])
  qed
qed

section \<open>Reading a string of a task\<close>

text \<open>The string of a task as the task sees it.\<close>

definition user_string :: "'a task_state_scheme \<Rightarrow> u32 \<Rightarrow> u32 \<Rightarrow> u8 list \<Rightarrow> bool" where
  "user_string s task va xs \<longleftrightarrow> cstring (\<lambda>a. mem s (task_virt_to_phys_addr s task a)) va xs \<and>
     (\<forall>j\<le>length xs. kprot s (va + of_nat j) \<and> apart s (page_dir (tasks s task)) (task_virt_to_phys_addr s task (va + of_nat j)))"

lemma tmp_mapped:
  assumes own: "dir_owned s dir" and av: "0 < kavail s" and sz: "0 < unat sz" "unat sz \<le> 4096" and al: "kzalloc s sz = (tmp, s1)"
    and map: "paging_map dir tmp tmp 7 (mem s1) = (r, m2)"
  shows "dir_owned s1 dir" "page_dir_wf m2 dir" "dir_pages m2 dir = dir_pages (mem s) dir" "dir_entries m2 dir = dir_entries (mem s) dir"
    "dir_entries (mem s1) dir = dir_entries (mem s) dir"
    "\<And>w. 4096 dvd unat w \<Longrightarrow> paging_get m2 (dir_entries (mem s) dir) w = (if w = tmp then tmp OR 7 else paging_get (mem s) (dir_entries (mem s) dir) w)"
    "paging_get (mem s1) (dir_entries (mem s) dir) tmp = paging_get (mem s) (dir_entries (mem s) dir) tmp"
    "\<And>a. apart s dir a \<Longrightarrow> m2 a = mem s a" "\<And>q a. q \<in> dir_pages (mem s) dir \<Longrightarrow> a \<in> extent q 1 \<Longrightarrow> a \<notin> extent tmp 1"
proof -
  let ?e = "dir_entries (mem s) dir"
  have wf: "kheap_wf s" and pd: "page_dir_wf (mem s) dir" and live: "\<And>q. q \<in> dir_pages (mem s) dir \<Longrightarrow> (q, 1) \<in> kallocs s"
    using own by (simp_all add: dir_owned_def)
  note page = kzalloc_page [OF wf av sz al]
  show out: "a \<notin> extent tmp 1" if "q \<in> dir_pages (mem s) dir" "a \<in> extent q 1" for q a
    using page(6) [OF live [OF that(1)]] that(2) by blast
  have same: "\<forall>q\<in>dir_pages (mem s) dir. \<forall>a\<in>extent q 1. mem s1 a = mem s a" using page(8) out by blast
  note ds = dir_same [OF pd same]
  show e1: "dir_entries (mem s1) dir = ?e" by (rule ds(1))
  show "dir_owned s1 dir" using own page(1,2) ds(1,4,5) by (simp add: dir_owned_def)
  show "paging_get (mem s1) ?e tmp = paging_get (mem s) ?e tmp" by (rule ds(3) [OF page(4)])
  note eff = paging_map_effect [OF ds(4) page(4,4) map, unfolded e1]
  show "page_dir_wf m2 dir" "dir_entries m2 dir = ?e" using eff(2,3) by simp_all
  then show "dir_pages m2 dir = dir_pages (mem s) dir" using eff(4) ds(2) by (auto simp: dir_pages_def)
  show "paging_get m2 ?e w = (if w = tmp then tmp OR 7 else paging_get (mem s) ?e w)" if "4096 dvd unat w" for w
    using eff(5) [OF that] ds(3) [OF that] by simp
  show "m2 a = mem s a" if "apart s dir a" for a
  proof -
    have "m2 a = mem s1 a" using that ds(2) by (intro eff(6)) (auto simp: apart_def dir_pages_def)
    then show ?thesis using page(8,10) that by (simp add: apart_def)
  qed
qed

text \<open>The string of the task is in the temporary buffer when the directory of the kernel is loaded again.\<close>

lemma user_copy_in:
  assumes own: "dir_owned s (page_dir (tasks s task))" and av: "0 < kavail s" and sz: "0 < unat sz" "unat sz \<le> 4096"
    and al: "kzalloc s sz = (tmp, s1)" and map: "paging_map (page_dir (tasks s task)) tmp tmp 7 (mem s1) = (r, m2)"
    and str: "user_string s task va xs" and n: "0 < n" "n \<le> 4096"
  defines "m4 \<equiv> vstrncpy_loop (dir_entries (mem s) (page_dir (tasks s task))) tmp va n 0 m2"
  shows "cstring m4 tmp (take (nat n - 1) xs)" "\<forall>b. b \<notin> extent tmp 1 \<longrightarrow> m4 b = m2 b"
proof -
  let ?dir = "page_dir (tasks s task)"
  let ?e = "dir_entries (mem s) ?dir"
  let ?X = "extent tmp 1" and ?T = "paging_get_phys_addr m2 ?e"
  have wf: "kheap_wf s" using own by (simp add: dir_owned_def)
  note page = kzalloc_page [OF wf av sz al] and tm = tmp_mapped [OF own av sz al map]
  have tr: "paging_get_phys_addr m ?e a = ?T a" if "\<forall>b. b \<notin> ?X \<longrightarrow> m b = m2 b" for m a
  proof -
    have "\<forall>q\<in>dir_pages m2 ?dir. \<forall>a\<in>extent q 1. m a = m2 a" using that tm(3,9) by blast
    from dir_same(3) [OF tm(2) this lower_aligned, unfolded tm(4)] show ?thesis by (rule phys_addr_cong)
  qed
  have dst: "?T (tmp + of_nat k) = tmp + of_nat k \<and> tmp + of_nat k \<in> ?X" if "int k < n" for k
  proof -
    have "k < 4096" using that n by simp
    then have "unat (of_nat k :: u32) < 4096" by (simp add: unat_of_nat_u32)
    then show ?thesis using identity_page [OF page(4), of 7 m2 ?e "of_nat k"] tm(6) [OF page(4)]
      by (simp add: extent_def word_less_nat_alt)
  qed
  have src: "?T (va + of_nat j) = task_virt_to_phys_addr s task (va + of_nat j)"
    "m2 (?T (va + of_nat j)) = mem s (task_virt_to_phys_addr s task (va + of_nat j))" "?T (va + of_nat j) \<notin> ?X" if "j \<le> length xs" for j
  proof -
    have u: "kprot s (va + of_nat j)" "apart s ?dir (task_virt_to_phys_addr s task (va + of_nat j))"
      using str that by (simp_all add: user_string_def)
    have "paging_align_to_lower (va + of_nat j) \<noteq> tmp" using page(10) [OF u(1)] by (intro lower_other_page) simp
    then show t: "?T (va + of_nat j) = task_virt_to_phys_addr s task (va + of_nat j)"
      unfolding task_virt_to_phys_addr_def using tm(6) [OF lower_aligned] by (intro phys_addr_cong) simp
    show "m2 (?T (va + of_nat j)) = mem s (task_virt_to_phys_addr s task (va + of_nat j))" unfolding t by (rule tm(8) [OF u(2)])
    show "?T (va + of_nat j) \<notin> ?X" unfolding t using u(2) page(10) by (simp add: apart_def)
  qed
  have "cstring (\<lambda>a. m2 (?T a)) va xs"
    using str src(2) cstring_cong [of xs "\<lambda>a. m2 (?T a)" va "\<lambda>a. mem s (task_virt_to_phys_addr s task a)"] by (simp add: user_string_def)
  then have "cstring m4 (tmp + of_nat 0) (take (nat n - 1 - 0) xs) \<and> (\<forall>b. b \<notin> ?X \<or> unat (b - tmp) < 0 \<longrightarrow> m4 b = m2 b)"
    unfolding m4_def using n src(3) by (intro vstrncpy_loop_copies [where l = "length xs" and T = ?T and ?m0.0 = m2 and X = ?X, OF tr dst]) simp_all
  then show "cstring m4 tmp (take (nat n - 1) xs)" "\<forall>b. b \<notin> ?X \<longrightarrow> m4 b = m2 b" by simp_all
qed

text \<open>The entry of the temporary buffer is put back, and the string is copied on to its destination.\<close>

lemma user_copy_out:
  assumes own: "dir_owned s dir" and av: "0 < kavail s" and sz: "0 < unat sz" "unat sz \<le> 4096" and al: "kzalloc s sz = (tmp, s1)"
    and map: "paging_map dir tmp tmp 7 (mem s1) = (r, m2)" and m4: "\<forall>b. b \<notin> extent tmp 1 \<longrightarrow> m4 b = m2 b"
    and set: "paging_set (dir_entries (mem s) dir) tmp (paging_get (mem s) (dir_entries (mem s) dir) tmp) m4 = (r', m6)"
  shows "r' = 0" "page_dir_wf m6 dir" "dir_entries m6 dir = dir_entries (mem s) dir" "dir_pages m6 dir = dir_pages (mem s) dir"
    "\<And>w. 4096 dvd unat w \<Longrightarrow> paging_get m6 (dir_entries (mem s) dir) w = paging_get (mem s) (dir_entries (mem s) dir) w"
    "\<And>a. apart s dir a \<Longrightarrow> m4 a = mem s a \<and> m6 a = mem s a" "\<And>b. b \<in> extent tmp 1 \<Longrightarrow> m6 b = m4 b"
proof -
  let ?e = "dir_entries (mem s) dir"
  have wf: "kheap_wf s" using own by (simp add: dir_owned_def)
  note page = kzalloc_page [OF wf av sz al] and tm = tmp_mapped [OF own av sz al map]
  have same: "\<forall>q\<in>dir_pages m2 dir. \<forall>a\<in>extent q 1. m4 a = m2 a" using m4 tm(3,9) by blast
  note ds = dir_same [OF tm(2) same, unfolded tm(3,4)]
  have pd: "pd_wf m4 ?e" using ds(1,4) by (simp add: page_dir_wf_def)
  note eff = paging_set_effect [OF pd page(4) set]
  let ?t = "pd_table m4 ?e (pde tmp)"
  have t: "?t \<in> dir_pages (mem s) dir" using pde_bound unfolding ds(5) [symmetric] by (auto simp: dir_pages_def ds(1))
  have "?t \<noteq> dir" "4096 dvd unat dir" using ds(1,4) pde_bound by (auto simp: page_dir_wf_def)
  then show e6: "dir_entries m6 dir = ?e" using eff(5) ds(1) dir_entries_frame [of dir ?t m6 m4] by simp
  show "r' = 0" by (rule eff(1))
  show "page_dir_wf m6 dir" using ds(1,4) eff(2,3) e6 by (simp add: page_dir_wf_def)
  show "dir_pages m6 dir = dir_pages (mem s) dir" unfolding ds(5) [symmetric] using eff(2) by (auto simp: dir_pages_def ds(1) e6)
  show "paging_get m6 ?e w = paging_get (mem s) ?e w" if "4096 dvd unat w" for w
    using eff(4) [OF that] ds(3) [OF that] tm(6) [OF that] by simp
  show "m6 b = m4 b" if "b \<in> extent tmp 1" for b using tm(9) [OF t] that by (intro eff(5)) blast
  show "m4 a = mem s a \<and> m6 a = mem s a" if "apart s dir a" for a
  proof -
    have "a \<notin> extent tmp 1" "a \<notin> extent ?t 1" using that page(10) t by (auto simp: apart_def)
    then show ?thesis using eff(5) m4 tm(8) [OF that] by simp
  qed
qed

lemma kzalloc_shape: "kzalloc s sz = (p, s1) \<Longrightarrow> s1 = s\<lparr>mem := mem s1, kernel_heap := kernel_heap s1\<rparr>"
  by (auto simp: kzalloc_def kmalloc_def Let_def split: prod.splits if_splits)

text \<open>Copying from a buffer in the page at \<open>tmp\<close> to bytes apart from the directory.\<close>

lemma strncpy_from_page:
  assumes n: "0 < n" "n < 4096" and str: "cstring m tmp (take (nat n - 1) xs)" and pd: "page_dir_wf m dir"
    and dst: "\<forall>k. int k < n \<longrightarrow> dst + of_nat k \<notin> extent tmp 1 \<and> (\<forall>q\<in>dir_pages m dir. dst + of_nat k \<notin> extent q 1)"
  shows "cstring (strncpy dst tmp n m) dst (take (nat n - 1) xs)" "\<And>a. n \<le> int (unat (a - dst)) \<Longrightarrow> strncpy dst tmp n m a = m a"
    "\<forall>q\<in>dir_pages m dir. \<forall>a\<in>extent q 1. strncpy dst tmp n m a = m a"
proof -
  let ?xs = "take (nat n - 1) xs"
  have far: "dst + of_nat k \<noteq> tmp + of_nat j" if "int k < n" "j < 4096" for k j
  proof -
    have "tmp + of_nat j \<in> extent tmp 1" using that(2) by (simp add: extent_def unat_of_nat_u32)
    then show ?thesis using dst that(1) by metis
  qed
  have "length ?xs < 4096" using n by simp
  then have "\<forall>k j. 0 \<le> k \<and> int k < n \<and> j \<le> 0 + length ?xs \<longrightarrow> dst + of_nat k \<noteq> tmp + of_nat j" using far by force
  then have "cstring (strncpy dst tmp n m) dst (take (nat n - 1) ?xs)"
    using strncpy_loop_cstring [of n 0 m tmp ?xs dst] n str by (simp add: strncpy_def)
  then show "cstring (strncpy dst tmp n m) dst ?xs" by simp
  show keep: "strncpy dst tmp n m a = m a" if "n \<le> int (unat (a - dst))" for a
    using strncpy_loop_outside [of n 0 a dst tmp m] that n by (simp add: strncpy_def)
  have "strncpy dst tmp n m a = m a" if "q \<in> dir_pages m dir" "a \<in> extent q 1" for q a
  proof (rule keep, rule ccontr)
    assume "\<not> n \<le> int (unat (a - dst))"
    then have "dst + of_nat (unat (a - dst)) \<notin> extent q 1" using dst that(1) by (meson not_le)
    then show False using that(2) by simp
  qed
  then show "\<forall>q\<in>dir_pages m dir. \<forall>a\<in>extent q 1. strncpy dst tmp n m a = m a" by blast
qed

text \<open>The run of \<^verbatim>\<open>copy_str_from_task\<close> on such a string: the memory before and after the directory is restored, and the final state.\<close>

lemma copy_str_run:
  assumes own: "dir_owned s (page_dir (tasks s task))" and av: "0 < kavail s" and str: "user_string s task va xs" and n: "0 < n" "n < 4096"
    and run: "copy_str_from_task s task va dst n = (r, s')"
  defines "dir \<equiv> page_dir (tasks s task)"
  obtains tmp h m4 m6 where "r = 0"
    "s' = s\<lparr>mem := strncpy dst tmp n m6, data_seg := 0x10, kernel_heap := h, current_directory := dir_entries m4 (kernel_page_dir s),
       page_reg := dir_entries m4 (kernel_page_dir s)\<rparr>"
    "kheap_wf s'" "kallocs s' = insert (tmp, 1) (kallocs s)" "kavail s' + 1 = kavail s" "\<forall>k. (tmp, k) \<notin> kallocs s"
    "cstring m6 tmp (take (nat n - 1) xs)" "page_dir_wf m6 dir" "dir_entries m6 dir = dir_entries (mem s) dir" "dir_pages m6 dir = dir_pages (mem s) dir"
    "\<forall>w. 4096 dvd unat w \<longrightarrow> paging_get m6 (dir_entries (mem s) dir) w = paging_get (mem s) (dir_entries (mem s) dir) w"
    "\<forall>a. apart s dir a \<longrightarrow> a \<notin> extent tmp 1 \<and> m4 a = mem s a \<and> m6 a = mem s a"
proof -
  let ?e = "dir_entries (mem s) dir"
  define sz :: u32 where "sz = word_of_int n"
  have "sz = of_nat (nat n)" using n(1) by (simp add: sz_def)
  then have "unat sz = nat n" using n by (simp add: unat_of_nat_u32 del: of_nat_nat)
  then have sz: "0 < unat sz" "unat sz \<le> 4096" using n by simp_all
  obtain tmp s1 where al: "kzalloc s sz = (tmp, s1)" by force
  obtain r1 m2 where map: "paging_map dir tmp tmp 7 (mem s1) = (r1, m2)" by force
  have wf: "kheap_wf s" using own by (simp add: dir_owned_def)
  note page = kzalloc_page [OF wf av sz al] and tm = tmp_mapped [OF own av sz al map [unfolded dir_def], folded dir_def]
  define m4 where "m4 = vstrncpy_loop ?e tmp va n 0 m2"
  note cin = user_copy_in [OF own av sz al map [unfolded dir_def] str n(1) less_imp_le [OF n(2)], folded dir_def, folded m4_def]
  obtain r2 m6 where set: "paging_set ?e tmp (paging_get (mem s) ?e tmp) m4 = (r2, m6)" by force
  note out = user_copy_out [OF own [folded dir_def] av sz al map cin(2) set]
  have s1: "s1 = s\<lparr>mem := mem s1, kernel_heap := kernel_heap s1\<rparr>" by (rule kzalloc_shape [OF al])
  have f: "page_dir (tasks s1 task) = dir" "kernel_page_dir s1 = kernel_page_dir s" by (subst s1, simp add: dir_def)+
  let ?k = "dir_entries m4 (kernel_page_dir s)"
  have res: "r = 0" "s' = s1\<lparr>mem := strncpy dst tmp n m6, data_seg := 0x10, current_directory := ?k, page_reg := ?k\<rparr>"
    using run n al page(3) map set out(1) tm(4,5,7)
    by (auto simp: copy_str_from_task_def config_simps sz_def [symmetric] f paging_switch_def kernel_page_def kernel_registers_def m4_def [symmetric] Let_def)
  show thesis
  proof (rule that [where tmp = tmp and h = "kernel_heap s1" and ?m6.0 = m6 and ?m4.0 = m4])
    show "r = 0" by (rule res(1))
    show "s' = s\<lparr>mem := strncpy dst tmp n m6, data_seg := 0x10, kernel_heap := kernel_heap s1, current_directory := ?k, page_reg := ?k\<rparr>"
      unfolding res(2) by (subst s1) simp
    show "kheap_wf s'" "kallocs s' = insert (tmp, 1) (kallocs s)" "kavail s' + 1 = kavail s" using page(1,2,5) by (simp_all add: res(2) kheap_view_defs)
    show "\<forall>k. (tmp, k) \<notin> kallocs s" using page(7) by blast
    have "m6 (tmp + of_nat i) = m4 (tmp + of_nat i)" if "i \<le> length (take (nat n - 1) xs)" for i
    proof -
      have "i < 4096" using that n by auto
      then have "tmp + of_nat i \<in> extent tmp 1" by (simp add: extent_def unat_of_nat_u32)
      then show ?thesis by (rule out(7))
    qed
    then show "cstring m6 tmp (take (nat n - 1) xs)" using cin(1) cstring_cong [of "take (nat n - 1) xs" m6 tmp m4] by blast
    show "\<forall>a. apart s dir a \<longrightarrow> a \<notin> extent tmp 1 \<and> m4 a = mem s a \<and> m6 a = mem s a" using out(6) page(10) by (simp add: apart_def)
  qed (use out(2-5) in simp_all)
qed

lemma copy_str_effect:
  assumes own: "dir_owned s (page_dir (tasks s task))" and av: "0 < kavail s" and str: "user_string s task va xs" and n: "0 < n" "n < 4096"
    and dst: "\<forall>k. int k < n \<longrightarrow> apart s (page_dir (tasks s task)) (dst + of_nat k)"
    and run: "copy_str_from_task s task va dst n = (r, s')"
  defines "dir \<equiv> page_dir (tasks s task)"
  shows "r = 0" "cstring (mem s') dst (take (nat n - 1) xs)" "dir_owned s' dir"
    "\<And>w. 4096 dvd unat w \<Longrightarrow> paging_get (mem s') (dir_entries (mem s') dir) w = paging_get (mem s) (dir_entries (mem s) dir) w"
    "\<And>a. apart s dir a \<Longrightarrow> n \<le> int (unat (a - dst)) \<Longrightarrow> mem s' a = mem s a"
    "\<exists>tmp. (\<forall>k. (tmp, k) \<notin> kallocs s) \<and> kallocs s' = insert (tmp, 1) (kallocs s)" "kavail s' + 1 = kavail s"
    "\<forall>i\<in>{0, 1, 2, 3}. apart s dir (kernel_page_dir s + i) \<Longrightarrow> page_reg s' = dir_entries (mem s) (kernel_page_dir s)"
    "\<exists>h m e. s' = s\<lparr>mem := m, data_seg := 0x10, kernel_heap := h, current_directory := e, page_reg := e\<rparr>"
proof -
  let ?e = "dir_entries (mem s) dir"
  from copy_str_run [OF own av str n run, folded dir_def] obtain tmp h m4 m6 where c: "r = 0"
    "s' = s\<lparr>mem := strncpy dst tmp n m6, data_seg := 0x10, kernel_heap := h, current_directory := dir_entries m4 (kernel_page_dir s),
       page_reg := dir_entries m4 (kernel_page_dir s)\<rparr>"
    and h: "kheap_wf s'" "kallocs s' = insert (tmp, 1) (kallocs s)" "kavail s' + 1 = kavail s" "\<forall>k. (tmp, k) \<notin> kallocs s"
    and m6: "cstring m6 tmp (take (nat n - 1) xs)" "page_dir_wf m6 dir" "dir_entries m6 dir = ?e" "dir_pages m6 dir = dir_pages (mem s) dir"
    "\<forall>w. 4096 dvd unat w \<longrightarrow> paging_get m6 ?e w = paging_get (mem s) ?e w"
    and keep: "\<forall>a. apart s dir a \<longrightarrow> a \<notin> extent tmp 1 \<and> m4 a = mem s a \<and> m6 a = mem s a" by metis
  have m: "mem s' = strncpy dst tmp n m6" by (simp add: c(2))
  have far: "\<forall>k. int k < n \<longrightarrow> dst + of_nat k \<notin> extent tmp 1 \<and> (\<forall>q\<in>dir_pages m6 dir. dst + of_nat k \<notin> extent q 1)"
    using dst keep unfolding m6(4) dir_def [symmetric] by (metis apart_def)
  note sc = strncpy_from_page [OF n m6(1,2) far, folded m]
  note ds = dir_same [OF m6(2) sc(3), unfolded m6(3)]
  show "r = 0" by (rule c(1))
  show "cstring (mem s') dst (take (nat n - 1) xs)" by (rule sc(1))
  show "kavail s' + 1 = kavail s" by (rule h(3))
  show "\<exists>tmp. (\<forall>k. (tmp, k) \<notin> kallocs s) \<and> kallocs s' = insert (tmp, 1) (kallocs s)" using h(2,4) by blast
  show "dir_owned s' dir" using own h(1,2) ds(1,4,5) m6(4) by (simp add: dir_owned_def dir_def [symmetric])
  show "paging_get (mem s') (dir_entries (mem s') dir) w = paging_get (mem s) ?e w" if "4096 dvd unat w" for w
    using ds(1) ds(3) [OF that] m6(5) that by simp
  show "mem s' a = mem s a" if "apart s dir a" "n \<le> int (unat (a - dst))" for a using sc(2) [OF that(2)] keep that(1) by simp
  show "page_reg s' = dir_entries (mem s) (kernel_page_dir s)" if "\<forall>i\<in>{0, 1, 2, 3}. apart s dir (kernel_page_dir s + i)"
  proof -
    have "load32 m4 (kernel_page_dir s) = load32 (mem s) (kernel_page_dir s)" by (rule load32_cong) (use that keep in blast)
    then show ?thesis by (simp add: c(2) dir_entries_def)
  qed
  show "\<exists>h m e. s' = s\<lparr>mem := m, data_seg := 0x10, kernel_heap := h, current_directory := e, page_reg := e\<rparr>" using c(2) by blast
qed

text \<open>
  C15: \<^verbatim>\<open>copy_str_from_task\<close> with a bound \<^verbatim>\<open>max\<close> below the size of a page reads a string of a task through the page directory of
  the task and leaves its first \<^verbatim>\<open>max - 1\<close> characters, terminated, in the buffer of the kernel. The page directory of the
  task translates every page as before, the directory of the kernel is loaded again, and nothing else changes in
  live memory. One block of the heap is used up: the temporary buffer is not freed.
\<close>

theorem copy_str_from_task_copies:
  assumes "dir_owned s (page_dir (tasks s task))" "0 < kavail s" "user_string s task va xs" "0 < max_len" "max_len < 4096"
    and "\<forall>k. int k < max_len \<longrightarrow> apart s (page_dir (tasks s task)) (dst + of_nat k)"
    and "\<forall>i\<in>{0, 1, 2, 3}. apart s (page_dir (tasks s task)) (kernel_page_dir s + i)"
    and "copy_str_from_task s task va dst max_len = (r, s')"
  shows "r = 0 \<and> cstring (mem s') dst (take (nat max_len - 1) xs) \<and> page_reg s' = dir_entries (mem s) (kernel_page_dir s) \<and>
    dir_owned s' (page_dir (tasks s task)) \<and>
    (\<forall>w. paging_is_aligned w \<longrightarrow> paging_get (mem s') (dir_entries (mem s') (page_dir (tasks s task))) w =
       paging_get (mem s) (dir_entries (mem s) (page_dir (tasks s task))) w) \<and>
    (\<forall>a. apart s (page_dir (tasks s task)) a \<and> max_len \<le> int (unat (a - dst)) \<longrightarrow> mem s' a = mem s a) \<and>
    (\<exists>tmp. (\<forall>k. (tmp, k) \<notin> kallocs s) \<and> kallocs s' = insert (tmp, 1) (kallocs s)) \<and> kavail s' + 1 = kavail s"
proof -
  note eff = copy_str_effect [OF assms(1-6,8)]
  show ?thesis unfolding aligned_iff using eff(1-7) eff(8) [OF assms(7)] by blast
qed

section \<open>Printing a string of a task\<close>

text \<open>Reading the argument of a system call changes only the segments and the loaded directory, and leaves that of the kernel.\<close>

lemma stack_item_shape:
  "task_get_stack_item s task i = (va, s1) \<Longrightarrow> \<exists>e. s1 = s\<lparr>data_seg := 0x10, page_reg := e, current_directory := e\<rparr>"
  by (auto simp: task_get_stack_item_def task_page_to_def kernel_page_def kernel_registers_def user_registers_def paging_switch_def Let_def)

lemma view_page_reg [simp]:
  "dir_owned (s\<lparr>data_seg := g, page_reg := e, current_directory := e'\<rparr>) d = dir_owned s d"
  "apart (s\<lparr>data_seg := g, page_reg := e, current_directory := e'\<rparr>) d a = apart s d a"
  "kavail (s\<lparr>data_seg := g, page_reg := e, current_directory := e'\<rparr>) = kavail s"
  "kallocs (s\<lparr>data_seg := g, page_reg := e, current_directory := e'\<rparr>) = kallocs s"
  by (simp_all add: dir_owned_def apart_def kprot_def kheap_view_defs)

lemma user_string_page_reg [simp]:
  "user_string (s\<lparr>data_seg := g, page_reg := e, current_directory := e'\<rparr>) task va xs = user_string s task va xs"
  by (simp add: user_string_def task_virt_to_phys_addr_def kprot_def kheap_view_defs)

text \<open>
  C5: the print system call shows the string that the running task passes on its stack, if its first 1023 characters are
  printable (no newline, tab or backspace) and fit on the rest of the screen of 2000 cells: these characters appear
  in white in consecutive cells of the screen from the cursor on, the cursor moves behind them, and apart from the cells
  and the buffer of the call live memory is unchanged.
\<close>

theorem syscall_1_print_shows:
  assumes own: "dir_owned s (page_dir (tasks s (task_current s)))" and av: "0 < kavail s"
    and arg: "user_string s (task_current s) (fst (task_get_stack_item s (task_current s) 0)) xs"
    and buf: "\<forall>k<1024. apart s (page_dir (tasks s (task_current s))) (stk_print s + of_nat k) \<and> \<not> in_cells (tty_pos s) (length ys) (stk_print s + of_nat k)"
    and chars: "ys = take 1023 xs" "\<forall>x\<in>set ys. printable x" "unat (tty_col s) < 80" "tty_pos s + length ys \<le> 2000"
  shows "\<exists>s'. syscall_1_print s = Some (Returned 0, s') \<and> tty_pos s' = tty_pos s + length ys \<and> unat (tty_col s') < 80 \<and>
    (\<forall>i<length ys. load16 (mem s') (cell_addr (tty_pos s + i)) = vga_entry (ys ! i) 15) \<and>
    (\<forall>a. apart s (page_dir (tasks s (task_current s))) a \<and> 1024 \<le> unat (a - stk_print s) \<and> \<not> in_cells (tty_pos s) (length ys) a \<longrightarrow>
       mem s' a = mem s a)"
proof -
  obtain va s1 where it: "task_get_stack_item s (task_current s) 0 = (va, s1)" by force
  obtain e where s1: "s1 = s\<lparr>data_seg := 0x10, page_reg := e, current_directory := e\<rparr>" using stack_item_shape [OF it] by blast
  obtain r s2 where cp: "copy_str_from_task s1 (task_current s) va (stk_print s) 1024 = (r, s2)" by force
  have pre: "dir_owned s1 (page_dir (tasks s1 (task_current s)))" "0 < kavail s1" "user_string s1 (task_current s) va xs"
    "\<forall>k. int k < 1024 \<longrightarrow> apart s1 (page_dir (tasks s1 (task_current s))) (stk_print s + of_nat k)"
    using own av arg buf it by (simp_all add: s1)
  note eff = copy_str_effect [OF pre(1-3) _ _ pre(4) cp]
  obtain h m e' where s2: "s2 = s1\<lparr>mem := m, data_seg := 0x10, kernel_heap := h, current_directory := e', page_reg := e'\<rparr>"
    using eff(9) by auto
  have t2: "stk_print s2 = stk_print s" "tty_pos s2 = tty_pos s" "tty_col s2 = tty_col s" by (simp_all add: s2 s1 tty_pos_def)
  have str: "cstring (mem s2) (stk_print s) ys" using eff(2) chars(1) by simp
  have "length ys < 1024" by (simp add: chars(1))
  then have "\<forall>k\<le>length ys. \<not> in_cells (tty_pos s2) (length ys) (stk_print s + of_nat k)" using buf t2 by simp
  from tty_writestr_fills_cells [OF str chars(2) _ _ this] chars(3,4) t2 obtain s' where
    w: "tty_writestr s2 (stk_print s2) = Some s'" "tty_pos s' = tty_pos s + length ys" "unat (tty_col s') < 80"
    "\<forall>i<length ys. load16 (mem s') (cell_addr (tty_pos s + i)) = vga_entry (ys ! i) 15"
    "\<forall>a. \<not> in_cells (tty_pos s) (length ys) a \<longrightarrow> mem s' a = mem s2 a" by auto
  have "syscall_1_print s = Some (Returned 0, s')"
    using it cp w(1) by (simp add: syscall_1_print_def task_get_current_def s1)
  moreover have "\<forall>a. apart s (page_dir (tasks s (task_current s))) a \<and> 1024 \<le> unat (a - stk_print s) \<longrightarrow> mem s2 a = mem s a"
  proof (intro allI impI)
    fix a assume a: "apart s (page_dir (tasks s (task_current s))) a \<and> 1024 \<le> unat (a - stk_print s)"
    then have "int 1024 \<le> int (unat (a - stk_print s))" by (simp only: of_nat_le_iff)
    then show "mem s2 a = mem s a" using eff(5) [of a] a by (simp only: of_nat_numeral) (simp add: s1)
  qed
  ultimately show ?thesis using w(2-5) by auto
qed

section \<open>A task with a string\<close>

definition demo_user_mem :: memory where
  "demo_user_mem = (\<lambda>_. 0)(0x2000 := 72, 0x2001 := 105, 0x4001 := 0x20)"

definition demo_printer :: kernel_state where
  "demo_printer = (let (dir, s1) = paging_new (demo_kernel\<lparr>mem := demo_user_mem, kernel_heap := demo_heap 2048\<rparr>) 7
     in s1\<lparr>tty_row := 0, tty_col := 0, tasks := (\<lambda>_. zero_task\<lparr>page_dir := dir, regs := zero_registers\<lparr>esp := 0x4000\<rparr>\<rparr>),
       task_current := 0x8000, kernel_page_dir := 0x6000, stk_print := 0x5000\<rparr>)"

abbreviation demo_printer_dir :: u32 where
  "demo_printer_dir \<equiv> page_dir (tasks demo_printer 0x8000)"

lemma demo_printer_ok:
  "dir_owned demo_printer demo_printer_dir" "kavail demo_printer = 1022"
  "\<And>a. unat a < 0x10000 \<Longrightarrow> apart demo_printer demo_printer_dir a \<and> mem demo_printer a = demo_user_mem a"
  "\<And>w. 4096 dvd unat w \<Longrightarrow> paging_get (mem demo_printer) (dir_entries (mem demo_printer) demo_printer_dir) w = w OR 7"
proof -
  let ?s = "demo_kernel\<lparr>mem := demo_user_mem, kernel_heap := demo_heap 2048\<rparr>"
  obtain dir s1 where new: "paging_new ?s 7 = (dir, s1)" by force
  have "free_blocks (demo_heap 2048) = {0 ..< 2048}" by (auto simp: demo_heap_def heap_get_entry_type_def config_simps)
  then have ready: "kheap_wf ?s" "kavail ?s = 2048" by (simp_all add: kheap_view_defs heap_avail_def demo_heap_wf)
  then have eff: "dir_owned s1 dir" "kavail s1 + 1026 = kavail ?s" and fr: "path_frame ?s s1"
    and id: "\<And>w. 4096 dvd unat w \<Longrightarrow> paging_get (mem s1) (dir_entries (mem s1) dir) w = w OR 7"
    using paging_new_effect [OF _ _ new] paging_new_frame [OF _ _ new] by simp_all
  have s: "demo_printer = s1\<lparr>tty_row := 0, tty_col := 0, tasks := (\<lambda>_. zero_task\<lparr>page_dir := dir, regs := zero_registers\<lparr>esp := 0x4000\<rparr>\<rparr>),
      task_current := 0x8000, kernel_page_dir := 0x6000, stk_print := 0x5000\<rparr>" by (simp add: demo_printer_def new)
  have d: "demo_printer_dir = dir" by (simp add: s)
  have v: "kallocs demo_printer = kallocs s1" "kregion demo_printer = kregion s1" "mem demo_printer = mem s1" by (simp_all add: s kheap_view_defs)
  show own: "dir_owned demo_printer demo_printer_dir" using eff(1) unfolding d by (simp add: s dir_owned_def kheap_view_defs)
  show "kavail demo_printer = 1022" using eff(2) ready(2) by (simp add: s kheap_view_defs)
  show "paging_get (mem demo_printer) (dir_entries (mem demo_printer) demo_printer_dir) w = w OR 7" if "4096 dvd unat w" for w
    using id [OF that] unfolding d v(3) .
  fix a :: u32 assume "unat a < 0x10000"
  then have "int (unat a) < int 0x10000" by (simp only: of_nat_less_iff)
  then have out: "a \<notin> kregion ?s" by (simp add: kheap_view_defs heap_region_def demo_heap_def config_simps)
  have reg: "kregion demo_printer = kregion ?s" using fr v(2) by (simp add: path_frame_def)
  have "a \<notin> extent q 1" if "q \<in> dir_pages (mem demo_printer) demo_printer_dir" for q
  proof -
    have "(q, 1) \<in> kallocs demo_printer" "kheap_wf demo_printer" using own that by (simp_all add: dir_owned_def)
    then show ?thesis using kz.allocs_region [of demo_printer q 1] out reg by blast
  qed
  then have "apart demo_printer demo_printer_dir a" using out reg by (simp add: apart_def kprot_def)
  moreover have "mem s1 a = mem ?s a" using fr out unfolding path_frame_def kprot_def by blast
  ultimately show "apart demo_printer demo_printer_dir a \<and> mem demo_printer a = demo_user_mem a" using v(3) by simp
qed

lemma demo_printer_translate:
  "paging_get_phys_addr (mem demo_printer) (dir_entries (mem demo_printer) demo_printer_dir) a = a"
proof -
  let ?l = "paging_align_to_lower a"
  have "paging_get (mem demo_printer) (dir_entries (mem demo_printer) demo_printer_dir) ?l AND 0xFFFFF000 = ?l"
    unfolding demo_printer_ok(4) [OF lower_aligned] by (rule page_mask_or [OF lower_aligned]) simp
  then show ?thesis by (simp add: paging_get_phys_addr_def)
qed

lemma demo_printer_fields:
  "task_current demo_printer = 0x8000" "stk_print demo_printer = 0x5000" "kernel_page_dir demo_printer = 0x6000" "tty_pos demo_printer = 0"
  "tty_col demo_printer = 0" "esp (regs (tasks demo_printer 0x8000)) = 0x4000"
  by (simp_all add: demo_printer_def tty_pos_def Let_def split_beta)

lemma demo_printer_byte: "n < 16 \<Longrightarrow> unat p < 0xF000 \<Longrightarrow> unat (p + of_nat n :: u32) < 0x10000"
  by (simp add: unat_word_ariths unat_of_nat_u32)

lemma demo_printer_string: "user_string demo_printer 0x8000 0x2000 [72, 105]"
proof -
  have t: "task_virt_to_phys_addr demo_printer 0x8000 a = a" for a by (simp add: task_virt_to_phys_addr_def demo_printer_translate)
  have "kprot demo_printer (0x2000 + of_nat j) \<and> apart demo_printer demo_printer_dir (0x2000 + of_nat j)" if "j \<le> 2" for j
    using demo_printer_ok(3) [OF demo_printer_byte [of j "0x2000"]] that by (simp add: apart_def)
  moreover have "cstring (mem demo_printer) 0x2000 [72, 105]" by (simp add: demo_printer_ok(3) demo_user_mem_def)
  ultimately show ?thesis by (simp add: user_string_def t)
qed

lemma demo_printer_argument: "fst (task_get_stack_item demo_printer 0x8000 0) = 0x2000"
proof -
  have "fst (task_get_stack_item demo_printer 0x8000 0) = load32 (\<lambda>i. mem demo_printer (0x4000 + i)) 0"
    by (simp add: task_get_stack_item_def vload32_def task_page_to_def user_registers_def paging_switch_def demo_printer_translate demo_printer_fields Let_def)
  then show ?thesis by (simp add: load32_def demo_printer_ok(3) demo_user_mem_def)
qed

theorem copy_str_from_task_copies_witness:
  "\<exists>s'. copy_str_from_task demo_printer 0x8000 0x2000 0x5000 2 = (0, s') \<and> cstring (mem s') 0x5000 [72] \<and> kavail s' = 1021"
proof -
  obtain r s' where run: "copy_str_from_task demo_printer 0x8000 0x2000 0x5000 2 = (r, s')" by force
  have "apart demo_printer demo_printer_dir (0x5000 + of_nat k)" if "int k < 2" for k
    using demo_printer_ok(3) [OF demo_printer_byte [of k "0x5000"]] that by simp
  then show ?thesis
    using copy_str_from_task_copies [OF demo_printer_ok(1) _ demo_printer_string _ _ _ _ run] run demo_printer_ok(2,3) by (simp add: demo_printer_fields)
qed

theorem syscall_1_print_shows_witness:
  "\<exists>s'. syscall_1_print demo_printer = Some (Returned 0, s') \<and> tty_pos s' = 2 \<and> load16 (mem s') (cell_addr 1) = vga_entry 105 15"
proof -
  have b: "apart demo_printer demo_printer_dir (0x5000 + of_nat k) \<and> \<not> in_cells 0 (Suc (Suc 0)) (0x5000 + of_nat k)" if "k < 1024" for k
  proof -
    have "unat (0x5000 + of_nat k :: u32) = 0x5000 + k" using that by (simp add: unat_word_ariths unat_of_nat_u32)
    then show ?thesis using demo_printer_ok(3) [of "0x5000 + of_nat k"] that by (simp add: in_cells_def cell_addr_def unat_sub_if')
  qed
  have "\<exists>s'. syscall_1_print demo_printer = Some (Returned 0, s') \<and> tty_pos s' = tty_pos demo_printer + length [72, 105 :: u8] \<and> unat (tty_col s') < 80 \<and>
    (\<forall>i<length [72, 105 :: u8]. load16 (mem s') (cell_addr (tty_pos demo_printer + i)) = vga_entry ([72, 105] ! i) 15) \<and>
    (\<forall>a. apart demo_printer (page_dir (tasks demo_printer (task_current demo_printer))) a \<and> 1024 \<le> unat (a - stk_print demo_printer) \<and>
       \<not> in_cells (tty_pos demo_printer) (length [72, 105 :: u8]) a \<longrightarrow> mem s' a = mem demo_printer a)"
    using demo_printer_ok(1,2) demo_printer_string demo_printer_argument b
    by (intro syscall_1_print_shows [where xs = "[72, 105]"]) (simp_all add: demo_printer_fields printable_def)
  then obtain s' where "syscall_1_print demo_printer = Some (Returned 0, s')" "tty_pos s' = 2"
    "\<forall>i<2. load16 (mem s') (cell_addr i) = vga_entry ([72, 105] ! i) 15" by (auto simp: demo_printer_fields numeral_2_eq_2)
  then show ?thesis by force
qed

end
