(* ===== verification/Process_Args.thy ===== *)
theory Process_Args
  imports Process_Proofs
begin

unbundle bit_operations_syntax

text \<open>
  The arguments of a program: \<^verbatim>\<open>process_inject_args\<close> copies a chain of arguments into the memory of a process, where the program
  finds them as \<^verbatim>\<open>argc\<close> and \<^verbatim>\<open>argv\<close>.
\<close>

section \<open>Free entries of the allocation table\<close>

definition free_slots :: "process_allocation list \<Rightarrow> nat" where
  "free_slots as = length (filter (\<lambda>a. alloc_ptr a = 0) as)"

lemma free_slots_find: "0 < free_slots as \<Longrightarrow> \<exists>i. find_alloc as 0 = Some i"
  by (induction as) (auto simp: free_slots_def split: if_splits)

lemma free_slots_take: "find_alloc as 0 = Some i \<Longrightarrow> alloc_ptr x \<noteq> 0 \<Longrightarrow> free_slots (as[i := x]) + 1 = free_slots as"
  by (induction as arbitrary: i) (auto simp: free_slots_def split: if_splits)

section \<open>What a process sees\<close>

abbreviation proc_phys :: "'a proc_state_scheme \<Rightarrow> u32 \<Rightarrow> u32 \<Rightarrow> u32" where
  "proc_phys s proc a \<equiv> paging_get_phys_addr (mem s) (dir_entries (mem s) (proc_dir s proc)) a"

text \<open>The process sees \<open>n\<close> bytes at their own addresses.\<close>

definition sees :: "'a proc_state_scheme \<Rightarrow> u32 \<Rightarrow> u32 \<Rightarrow> nat \<Rightarrow> bool" where
  "sees s proc p n \<longleftrightarrow> (\<forall>a. unat (a - p) < n \<longrightarrow> proc_phys s proc a = a)"

text \<open>Writing outside the directory keeps the heap of the process consistent.\<close>

lemma proc_heap_ok_write:
  assumes ok: "proc_heap_ok s proc" and same: "\<forall>q\<in>dir_pages (mem s) (proc_dir s proc). \<forall>a\<in>extent q 1. m a = mem s a"
  shows "proc_heap_ok (s\<lparr>mem := m\<rparr>) proc" "dir_pages m (proc_dir s proc) = dir_pages (mem s) (proc_dir s proc)"
    "\<And>a. paging_get_phys_addr m (dir_entries m (proc_dir s proc)) a = paging_get_phys_addr (mem s) (dir_entries (mem s) (proc_dir s proc)) a"
proof -
  have pd: "page_dir_wf (mem s) (proc_dir s proc)" using ok by (simp add: proc_heap_ok_def dir_owned_def)
  note ds = dir_same [OF pd same]
  show "dir_pages m (proc_dir s proc) = dir_pages (mem s) (proc_dir s proc)" by (rule ds(5))
  then show "proc_heap_ok (s\<lparr>mem := m\<rparr>) proc" using ok ds(1,4) by (simp add: proc_heap_ok_def dir_owned_def kheap_view_defs)
  show "paging_get_phys_addr m (dir_entries m (proc_dir s proc)) a = paging_get_phys_addr (mem s) (dir_entries (mem s) (proc_dir s proc)) a" for a
    unfolding ds(1) by (rule phys_addr_cong [OF ds(3) [OF lower_aligned]])
qed

lemma lower_outside:
  assumes "4096 dvd unat p" "a \<notin> extent p 1"
  shows "paging_align_to_lower a \<notin> extent p 1"
proof -
  have "paging_align_to_lower a \<noteq> p" using assms(2) by (rule lower_other_page)
  then have "unat (paging_align_to_lower a - (p + 4096)) + 4096 = unat (paging_align_to_lower a - p)"
    using page_offset_step [OF assms(1) lower_aligned, of a] by metis
  then show ?thesis by (simp add: extent_def)
qed

text \<open>A block of at most one page for a process.\<close>

lemma process_malloc_page:
  assumes ok: "proc_heap_ok s proc" and slot: "0 < free_slots (allocations (procs s proc))" and av: "0 < kavail s"
    and sz: "0 < unat sz" "unat sz \<le> 4096" and run: "process_malloc s proc sz = (p, s1)"
  shows "p \<noteq> 0" "4096 dvd unat p" "proc_heap_ok s1 proc" "proc_dir s1 proc = proc_dir s proc" "kallocs s1 = insert (p, 1) (kallocs s)"
    "dir_pages (mem s1) (proc_dir s proc) = dir_pages (mem s) (proc_dir s proc)" "p \<notin> dir_pages (mem s) (proc_dir s proc)" "kavail s1 + 1 = kavail s"
    "free_slots (allocations (procs s1 proc)) + 1 = free_slots (allocations (procs s proc))" "sees s1 proc p (unat sz)"
    "\<And>a. a \<notin> extent p 1 \<Longrightarrow> proc_phys s1 proc a = proc_phys s proc a"
    "\<And>a. apart s (proc_dir s proc) a \<Longrightarrow> mem s1 a = mem s a \<and> a \<notin> extent p 1 \<and> apart s1 (proc_dir s proc) a"
proof -
  obtain i where i: "find_alloc (allocations (procs s proc)) 0 = Some i" using free_slots_find [OF slot] by blast
  have wf: "kheap_wf s" using ok by (simp add: proc_heap_ok_def dir_owned_def)
  have one: "blocks_for sz = 1" by (rule blocks_for_page [OF sz])
  have fit: "kfits s (blocks_for sz)" using kz.avail_fits [OF wf av] one by simp
  have lt: "0 < sz" "unat sz \<le> 2 ^ 32 - 4096" using sz by (simp_all add: word_less_nat_alt)
  note e = process_malloc_effect [OF ok i lt fit run, unfolded one]
  show p: "p \<noteq> 0" "proc_heap_ok s1 proc" "proc_dir s1 proc = proc_dir s proc" "kallocs s1 = insert (p, 1) (kallocs s)" "kavail s1 + 1 = kavail s"
    "dir_pages (mem s1) (proc_dir s proc) = dir_pages (mem s) (proc_dir s proc)" "p \<notin> dir_pages (mem s) (proc_dir s proc)" using e by simp_all
  have "kheap_wf s1" using p(2) by (simp add: proc_heap_ok_def dir_owned_def)
  then show al: "4096 dvd unat p" using kz.allocs_addr [of s1 p 1] p(4) by simp
  show "free_slots (allocations (procs s1 proc)) + 1 = free_slots (allocations (procs s proc))"
    using e free_slots_take [OF i, of "\<lparr>alloc_ptr = p, alloc_size = sz\<rparr>"] p(1) by simp
  show "sees s1 proc p (unat sz)" unfolding sees_def word_less_nat_alt [symmetric] using e by blast
  show "mem s1 a = mem s a \<and> a \<notin> extent p 1 \<and> apart s1 (proc_dir s proc) a" if "apart s (proc_dir s proc) a" for a using e that by blast
  show "proc_phys s1 proc a = proc_phys s proc a" if "a \<notin> extent p 1" for a
  proof -
    have "paging_get (mem s1) (dir_entries (mem s1) (proc_dir s proc)) (paging_align_to_lower a) =
        paging_get (mem s) (dir_entries (mem s) (proc_dir s proc)) (paging_align_to_lower a)"
      using e lower_outside [OF al that] lower_aligned [of a] aligned_iff by blast
    then show ?thesis unfolding p(3) by (simp add: paging_get_phys_addr_def)
  qed
qed

section \<open>One argument\<close>

text \<open>The argument in the word at \<open>slot\<close>: a pointer to the text, which the process sees.\<close>

definition delivered :: "'a proc_state_scheme \<Rightarrow> u32 \<Rightarrow> u32 \<Rightarrow> u8 list \<Rightarrow> bool" where
  "delivered s proc slot xs \<longleftrightarrow> load32 (mem s) slot \<noteq> 0 \<and> cstring (mem s) (load32 (mem s) slot) xs \<and> sees s proc (load32 (mem s) slot) 512"

text \<open>Writing an argument: its text into the new block \<open>p\<close>, its address into the array at \<open>av\<close>. Nothing else changes.\<close>

lemma argument_written:
  assumes al: "4096 dvd unat av" and i: "i < 1024" and str: "cstring m c xs" "length xs \<le> 511"
    and src: "\<forall>j<516. c + of_nat j \<notin> extent p 1" and dis: "extent p 1 \<inter> extent av 1 = {}"
  defines "m2 \<equiv> store32 (strncpy p c 512 m) (av + 4 * of_nat i) p"
  shows "load32 m2 (av + 4 * of_nat i) = p" "cstring m2 p xs" "\<And>a. a \<notin> extent p 1 \<Longrightarrow> a \<notin> extent av 1 \<Longrightarrow> m2 a = m a"
    "\<And>a. a \<notin> extent p 1 \<Longrightarrow> unat (a - av) < 4 * i \<or> 4 * i + 4 \<le> unat (a - av) \<Longrightarrow> m2 a = m a"
proof -
  let ?m = "strncpy p c 512 m"
  have in_p: "p + of_nat k \<in> extent p 1" if "k < 4096" for k using that by (simp add: extent_def unat_of_nat_u32)
  have "\<forall>k j. 0 \<le> k \<and> int k < 512 \<and> j \<le> 0 + length xs \<longrightarrow> p + of_nat k \<noteq> c + of_nat j"
  proof (intro allI impI)
    fix k j assume "0 \<le> k \<and> int k < 512 \<and> j \<le> 0 + length xs"
    then have "p + of_nat k \<in> extent p 1" "c + of_nat j \<notin> extent p 1" using in_p [of k] src str(2) by simp_all
    then show "p + of_nat k \<noteq> c + of_nat j" by metis
  qed
  then have "cstring ?m p (take 511 xs)" using strncpy_loop_cstring [of 512 0 m c xs p] str(1) by (simp add: strncpy_def)
  then have "cstring ?m p xs" using str(2) by simp
  have keep: "?m a = m a" if "a \<notin> extent p 1" for a
  proof -
    have "512 \<le> unat (a - p)" using that by (simp add: extent_def)
    then have "int 512 \<le> int (unat (a - p))" by (simp only: of_nat_le_iff)
    then show ?thesis unfolding strncpy_def by (intro strncpy_loop_outside) (simp, simp, rule disjI2, simp only: of_nat_numeral)
  qed
  have word: "m2 a = ?m a" if "a \<notin> extent av 1" for a unfolding m2_def by (rule store32_page_frame [OF i that])
  have "m2 (p + of_nat j) = ?m (p + of_nat j)" if "j \<le> length xs" for j using word in_p [of j] that str(2) dis by auto
  then show "cstring m2 p xs" using \<open>cstring ?m p xs\<close> cstring_cong [of xs m2 p ?m] by simp
  show "load32 m2 (av + 4 * of_nat i) = p" by (simp add: m2_def mem_simps)
  show "m2 a = m a" if "a \<notin> extent p 1" "a \<notin> extent av 1" for a using word keep that by simp
  show "m2 a = m a" if "a \<notin> extent p 1" "unat (a - av) < 4 * i \<or> 4 * i + 4 \<le> unat (a - av)" for a
  proof -
    have "a \<noteq> av + 4 * of_nat i + of_nat b" if "b < 4" for b
    proof
      assume "a = av + 4 * of_nat i + of_nat b"
      then have "a - av = of_nat (4 * i + b)" by simp
      moreover have "unat (of_nat (4 * i + b) :: u32) = 4 * i + b" using i that by (intro unat_of_nat_u32) simp
      ultimately show False using \<open>unat (a - av) < 4 * i \<or> 4 * i + 4 \<le> unat (a - av)\<close> that by (simp del: of_nat_add of_nat_mult)
    qed
    from this [of 0] this [of 1] this [of 2] this [of 3] have "m2 a = ?m a" unfolding m2_def by (intro store32_frame) simp
    then show ?thesis using keep that(1) by simp
  qed
qed

lemma inject_one:
  assumes ok: "proc_heap_ok s proc" and slot: "0 < free_slots (allocations (procs s proc))" and kav: "0 < kavail s"
    and run: "process_malloc s proc 512 = (p, s1)" and av: "4096 dvd unat av" "\<forall>b\<in>extent av 1. apart s (proc_dir s proc) b" and i: "i < 1024"
    and str: "cstring (mem s) c xs" "length xs \<le> 511" "\<forall>j<516. apart s (proc_dir s proc) (c + of_nat j)"
  defines "s2 \<equiv> s1\<lparr>mem := store32 (strncpy p c 512 (mem s1)) (av + 4 * of_nat i) p\<rparr>"
  shows "p \<noteq> 0" "proc_heap_ok s2 proc" "proc_dir s2 proc = proc_dir s proc" "kavail s2 + 1 = kavail s"
    "free_slots (allocations (procs s2 proc)) + 1 = free_slots (allocations (procs s proc))"
    "load32 (mem s2) (av + 4 * of_nat i) = p" "cstring (mem s2) p xs" "sees s2 proc p 512"
    "\<And>a. apart s (proc_dir s proc) a \<Longrightarrow> apart s2 (proc_dir s proc) a \<and> proc_phys s2 proc a = proc_phys s proc a"
    "\<And>a. apart s (proc_dir s proc) a \<Longrightarrow> unat (a - av) < 4 * i \<or> 4 * i + 4 \<le> unat (a - av) \<Longrightarrow> mem s2 a = mem s a"
    "\<And>b. b \<in> extent p 1 \<Longrightarrow> apart s2 (proc_dir s proc) b \<and> b \<notin> extent av 1"
proof -
  let ?d = "proc_dir s proc"
  note pm = process_malloc_page [OF ok slot kav _ _ run, simplified]
  have dis: "extent p 1 \<inter> extent av 1 = {}" using av(2) pm(12) by auto
  have str1: "cstring (mem s1) c xs"
    using str pm(12) by (intro iffD2 [OF cstring_cong [of xs "mem s1" c "mem s"]]) auto
  have src: "\<forall>j<516. c + of_nat j \<notin> extent p 1" using str(3) pm(12) by auto
  note aw = argument_written [OF av(1) i str1 str(2) src dis]
  have m2: "mem s2 = store32 (strncpy p c 512 (mem s1)) (av + 4 * of_nat i) p" by (simp add: s2_def)
  have own1: "dir_owned s1 ?d" using pm(3,4) by (simp add: proc_heap_ok_def)
  have ap1: "apart s1 ?d b" if "b \<in> extent p 1" for b
    using live_apart [OF own1, of p 1 b] pm(5,6,7) that by simp
  have "\<forall>q\<in>dir_pages (mem s1) (proc_dir s1 proc). \<forall>a\<in>extent q 1. mem s2 a = mem s1 a"
  proof (intro ballI)
    fix q a assume q: "q \<in> dir_pages (mem s1) (proc_dir s1 proc)" "a \<in> extent q 1"
    have "a \<notin> extent p 1" using ap1 [of a] q pm(4) by (auto simp: apart_def)
    moreover have "a \<notin> extent av 1" using av(2) q pm(4,6) by (auto simp: apart_def)
    ultimately show "mem s2 a = mem s1 a" unfolding m2 by (rule aw(3))
  qed
  note w = proc_heap_ok_write [OF pm(3) this]
  show "p \<noteq> 0" by (rule pm(1))
  have s2: "s2 = s1\<lparr>mem := mem s2\<rparr>" by (simp add: s2_def)
  show "proc_heap_ok s2 proc" by (subst s2) (rule w(1))
  show d2: "proc_dir s2 proc = ?d" by (simp add: s2_def pm(4))
  show "kavail s2 + 1 = kavail s" "free_slots (allocations (procs s2 proc)) + 1 = free_slots (allocations (procs s proc))"
    using pm(8,9) by (simp_all add: s2_def)
  show "load32 (mem s2) (av + 4 * of_nat i) = p" "cstring (mem s2) p xs" unfolding m2 by (fact aw(1), fact aw(2))
  have phys: "proc_phys s2 proc a = proc_phys s1 proc a" for a using w(3) [of a] by (simp add: d2 pm(4))
  show "sees s2 proc p 512" using pm(10) by (simp add: sees_def phys)
  have ap2: "apart s2 ?d a = apart s1 ?d a" for a using w(2) by (simp add: apart_def pm(4) s2_def)
  show "apart s2 ?d a \<and> proc_phys s2 proc a = proc_phys s proc a" if "apart s ?d a" for a
    using pm(11,12) that by (simp add: ap2 phys)
  show "mem s2 a = mem s a" if "apart s ?d a" "unat (a - av) < 4 * i \<or> 4 * i + 4 \<le> unat (a - av)" for a
    using aw(4) [of a] pm(12) [OF that(1)] that(2) by (simp add: m2)
  show "apart s2 ?d b \<and> b \<notin> extent av 1" if "b \<in> extent p 1" for b using ap1 ap2 dis that by blast
qed

section \<open>The chain of arguments\<close>

text \<open>A chain of arguments with the texts \<open>xss\<close>, every byte of which satisfies \<open>P\<close>.\<close>

primrec arg_chain :: "(u32 \<Rightarrow> bool) \<Rightarrow> memory \<Rightarrow> u32 \<Rightarrow> u8 list list \<Rightarrow> bool" where
  "arg_chain P m p [] \<longleftrightarrow> p = 0"
| "arg_chain P m p (xs # xss) \<longleftrightarrow> p \<noteq> 0 \<and> cstring m p xs \<and> length xs \<le> 511 \<and> (\<forall>j<516. P (p + of_nat j)) \<and> arg_chain P m (cmd_arg_next m p) xss"

lemma node_next:
  assumes "\<forall>j<516. m' (p + of_nat j) = m (p + of_nat j)"
  shows "cmd_arg_next m' p = cmd_arg_next m p"
  unfolding cmd_arg_next_def
proof (rule load32_cong)
  fix i :: u32 assume "i \<in> {0, 1, 2, 3}"
  then have "512 + i = of_nat (512 + unat i)" "512 + unat i < 516" by auto
  then show "m' (p + 512 + i) = m (p + 512 + i)" using assms by (metis add.assoc)
qed

lemma arg_chain_cong:
  assumes "arg_chain P m p xss" "\<forall>a. P a \<longrightarrow> Q a \<and> m' a = m a"
  shows "arg_chain Q m' p xss"
  using assms(1)
proof (induction xss arbitrary: p)
  case (Cons xs xss)
  have same: "\<forall>j<516. m' (p + of_nat j) = m (p + of_nat j)" using Cons.prems assms(2) by simp
  have "cstring m' p xs" using Cons.prems same by (intro iffD2 [OF cstring_cong [of xs m' p m]]) auto
  then show ?case using Cons node_next [OF same] assms(2) by simp
qed simp

lemma count_chain: "arg_chain P m p xss \<Longrightarrow> count_cmd_args m p n = Some (n + int (length xss))"
  by (induction xss arbitrary: p n) (simp_all add: count_cmd_args.simps)

text \<open>What has been delivered stays delivered.\<close>

lemma delivered_kept:
  assumes d: "load32 (mem s2) (av + 4 * of_nat i) = p" "p \<noteq> 0" "cstring (mem s2) p xs" "sees s2 proc p 512" "length xs \<le> 511" "i < 1024"
    and word: "\<forall>b<4. mem s' (av + 4 * of_nat i + of_nat b) = mem s2 (av + 4 * of_nat i + of_nat b)"
    and blk: "\<forall>b\<in>extent p 1. mem s' b = mem s2 b \<and> proc_phys s' proc b = proc_phys s2 proc b"
  shows "delivered s' proc (av + 4 * of_nat i) xs"
proof -
  have in_p: "p + of_nat k \<in> extent p 1" if "k < 4096" for k using that by (simp add: extent_def unat_of_nat_u32)
  have "load32 (mem s') (av + 4 * of_nat i) = load32 (mem s2) (av + 4 * of_nat i)"
  proof (rule load32_cong)
    fix b :: u32 assume "b \<in> {0, 1, 2, 3}"
    then have "b = of_nat (unat b)" "unat b < 4" by auto
    then show "mem s' (av + 4 * of_nat i + b) = mem s2 (av + 4 * of_nat i + b)" using word by metis
  qed
  moreover have "cstring (mem s') p xs"
    using d(3,5) blk in_p by (intro iffD2 [OF cstring_cong [of xs "mem s'" p "mem s2"]]) auto
  moreover have "sees s' proc p 512" unfolding sees_def
  proof (intro allI impI)
    fix a assume a: "unat (a - p) < 512"
    then have "a \<in> extent p 1" by (simp add: extent_def)
    then show "proc_phys s' proc a = a" using blk d(4) a by (simp add: sees_def)
  qed
  ultimately show ?thesis using d(1,2) by (simp add: delivered_def)
qed

lemma word_offset: "i < 1024 \<Longrightarrow> b < 4 \<Longrightarrow> unat (av + 4 * of_nat i + of_nat b - av :: u32) = 4 * i + b"
proof -
  assume "i < 1024" "b < 4"
  moreover have "av + 4 * of_nat i + of_nat b - av = of_nat (4 * i + b)" by simp
  moreover have "unat (of_nat (4 * i + b) :: u32) = 4 * i + b" using calculation(1,2) by (intro unat_of_nat_u32) simp
  ultimately show ?thesis by metis
qed

text \<open>The rest of the chain is ready for the next round.\<close>

lemma inject_rest:
  assumes ok: "proc_heap_ok s proc" and room: "length (xs # xss) \<le> free_slots (allocations (procs s proc))" "length (xs # xss) \<le> kavail s"
    and run: "process_malloc s proc 512 = (p, s1)" and av: "4096 dvd unat av" "\<forall>b\<in>extent av 1. apart s (proc_dir s proc) b" and i: "i < 1024"
    and chain: "arg_chain (\<lambda>a. apart s (proc_dir s proc) a \<and> a \<notin> extent av 1) (mem s) c (xs # xss)"
  defines "s2 \<equiv> s1\<lparr>mem := store32 (strncpy p c 512 (mem s1)) (av + 4 * of_nat i) p\<rparr>"
  shows "length xss \<le> free_slots (allocations (procs s2 proc))" "length xss \<le> kavail s2" "\<forall>b\<in>extent av 1. apart s2 (proc_dir s2 proc) b"
    "arg_chain (\<lambda>a. apart s2 (proc_dir s2 proc) a \<and> a \<notin> extent av 1) (mem s2) (cmd_arg_next (mem s2) c) xss"
proof -
  let ?d = "proc_dir s proc"
  have hd: "cstring (mem s) c xs" "length xs \<le> 511" "\<forall>j<516. apart s ?d (c + of_nat j) \<and> c + of_nat j \<notin> extent av 1"
    "arg_chain (\<lambda>a. apart s ?d a \<and> a \<notin> extent av 1) (mem s) (cmd_arg_next (mem s) c) xss" using chain by simp_all
  have pos: "0 < free_slots (allocations (procs s proc))" "0 < kavail s" and src: "\<forall>j<516. apart s ?d (c + of_nat j)" using room hd(3) by simp_all
  note one = inject_one [OF ok pos run av i hd(1,2) src, folded s2_def]
  show "length xss \<le> free_slots (allocations (procs s2 proc))" "length xss \<le> kavail s2" using room one(4,5) by simp_all
  show "\<forall>b\<in>extent av 1. apart s2 (proc_dir s2 proc) b" unfolding one(3) using av(2) one(9) by blast
  have same: "mem s2 a = mem s a" if "apart s ?d a" "a \<notin> extent av 1" for a
    using one(10) [OF that(1)] that(2) i by (simp add: extent_def)
  have next_arg: "cmd_arg_next (mem s2) c = cmd_arg_next (mem s) c" using hd(3) same by (intro node_next) blast
  show "arg_chain (\<lambda>a. apart s2 (proc_dir s2 proc) a \<and> a \<notin> extent av 1) (mem s2) (cmd_arg_next (mem s2) c) xss"
    unfolding next_arg one(3) by (rule arg_chain_cong [OF hd(4)]) (use one(9) same in blast)
qed

lemma inject_loop_delivers:
  assumes "proc_heap_ok s proc" "length xss \<le> free_slots (allocations (procs s proc))" "length xss \<le> kavail s" "4096 dvd unat av"
    and "\<forall>b\<in>extent av 1. apart s (proc_dir s proc) b" "i + length xss \<le> 1024"
    and "arg_chain (\<lambda>a. apart s (proc_dir s proc) a \<and> a \<notin> extent av 1) (mem s) c xss"
  shows "\<exists>s'. inject_loop s proc c av (of_nat i) = Some (0, s') \<and> proc_heap_ok s' proc \<and> proc_dir s' proc = proc_dir s proc \<and>
    kavail s' + length xss = kavail s \<and>
    (\<forall>a. apart s (proc_dir s proc) a \<longrightarrow> apart s' (proc_dir s proc) a \<and> proc_phys s' proc a = proc_phys s proc a) \<and>
    (\<forall>a. apart s (proc_dir s proc) a \<and> (unat (a - av) < 4 * i \<or> 4 * (i + length xss) \<le> unat (a - av)) \<longrightarrow> mem s' a = mem s a) \<and>
    (\<forall>j<length xss. delivered s' proc (av + 4 * of_nat (i + j)) (xss ! j))"
  using assms
proof (induction xss arbitrary: s c i)
  case Nil
  then show ?case by (simp add: inject_loop.simps)
next
  case (Cons xs xss)
  let ?d = "proc_dir s proc"
  obtain p s1 where run: "process_malloc s proc 512 = (p, s1)" by force
  define s2 where "s2 = s1\<lparr>mem := store32 (strncpy p c 512 (mem s1)) (av + 4 * of_nat i) p\<rparr>"
  have hd: "c \<noteq> 0" "cstring (mem s) c xs" "length xs \<le> 511" "\<forall>j<516. apart s ?d (c + of_nat j)" using Cons.prems(7) by simp_all
  have i: "i < 1024" "0 < free_slots (allocations (procs s proc))" "0 < kavail s" "i + 1 + length xss \<le> 1024" using Cons.prems(2,3,6) by simp_all
  note one = inject_one [OF Cons.prems(1) i(2,3) run Cons.prems(4,5) i(1) hd(2-4), folded s2_def]
  note rest = inject_rest [OF Cons.prems(1-3) run Cons.prems(4,5) i(1) Cons.prems(7), folded s2_def]
  from Cons.IH [OF one(2) rest(1,2) Cons.prems(4) rest(3) i(4) rest(4)] obtain s' where
    s': "inject_loop s2 proc (cmd_arg_next (mem s2) c) av (of_nat (i + 1)) = Some (0, s')" "proc_heap_ok s' proc" "proc_dir s' proc = proc_dir s2 proc"
    "kavail s' + length xss = kavail s2"
    and fr2: "\<forall>a. apart s2 (proc_dir s2 proc) a \<longrightarrow> apart s' (proc_dir s2 proc) a \<and> proc_phys s' proc a = proc_phys s2 proc a"
    and keep2: "\<forall>a. apart s2 (proc_dir s2 proc) a \<and> (unat (a - av) < 4 * (i + 1) \<or> 4 * (i + 1 + length xss) \<le> unat (a - av)) \<longrightarrow> mem s' a = mem s2 a"
    and tl: "\<forall>j<length xss. delivered s' proc (av + 4 * of_nat (i + 1 + j)) (xss ! j)" by blast
  have keep: "\<forall>a. apart s2 ?d a \<and> (unat (a - av) < 4 * (i + 1) \<or> 4 * (i + 1 + length xss) \<le> unat (a - av)) \<longrightarrow> mem s' a = mem s2 a"
    using keep2 by (simp only: one(3))
  have go: "inject_loop s proc c av (of_nat i) = Some (0, s')"
    using s'(1) hd(1) run one(1) by (subst inject_loop.simps) (simp add: s2_def Let_def add.commute)
  have "delivered s' proc (av + 4 * of_nat i) xs"
  proof (rule delivered_kept [OF one(6,1,7,8) hd(3) i(1)])
    have "av + 4 * of_nat i + of_nat b \<in> extent av 1" if "b < 4" for b by (rule page_word_extent [OF i(1) that])
    then show "\<forall>b<4. mem s' (av + 4 * of_nat i + of_nat b) = mem s2 (av + 4 * of_nat i + of_nat b)"
      using keep2 rest(3) word_offset [OF i(1)] by simp
    show "\<forall>b\<in>extent p 1. mem s' b = mem s2 b \<and> proc_phys s' proc b = proc_phys s2 proc b"
    proof
      fix b assume "b \<in> extent p 1"
      then have "apart s2 (proc_dir s2 proc) b" "4096 \<le> unat (b - av)" using one(3,11) by (auto simp: extent_def not_less)
      then show "mem s' b = mem s2 b \<and> proc_phys s' proc b = proc_phys s2 proc b" using keep2 fr2 i(4) by simp
    qed
  qed
  then have all: "\<forall>j<length (xs # xss). delivered s' proc (av + 4 * of_nat (i + j)) ((xs # xss) ! j)"
    using tl by (simp add: nth_Cons ac_simps split: nat.split)
  have mem: "\<forall>a. apart s ?d a \<and> (unat (a - av) < 4 * i \<or> 4 * (i + length (xs # xss)) \<le> unat (a - av)) \<longrightarrow> mem s' a = mem s a"
    using keep one(9,10) by auto
  have fr: "\<forall>a. apart s ?d a \<longrightarrow> apart s' ?d a \<and> proc_phys s' proc a = proc_phys s proc a" using fr2 one(3,9) by metis
  have "proc_dir s' proc = ?d" "kavail s' + length (xs # xss) = kavail s" using s'(3,4) one(3,4) by simp_all
  then show ?case using go s'(2) fr mem all by blast
qed

section \<open>All arguments\<close>

text \<open>
  C14: \<^verbatim>\<open>process_inject_args\<close> gives a process its arguments. For a chain of arguments that fits the heap and the allocation table of the
  process it returns 0: \<^verbatim>\<open>argc\<close> is their number, \<^verbatim>\<open>argv\<close> an array that the process sees at its own address, and every
  entry points to the text of its argument, which the process sees as well. The heap of the process stays
  consistent, one block per argument and one for the array are used, and live memory is unchanged.
\<close>

theorem process_inject_args_delivers:
  assumes ok: "proc_heap_ok s proc" and chain: "arg_chain (apart s (proc_dir s proc)) (mem s) root xss" and len: "xss \<noteq> []" "length xss \<le> 1024"
    and room: "length xss < free_slots (allocations (procs s proc))" "length xss < kavail s"
  shows "\<exists>s'. process_inject_args s proc root = Some (0, s') \<and> proc_heap_ok s' proc \<and> argc (args (procs s' proc)) = int (length xss) \<and>
    sees s' proc (argv (args (procs s' proc))) (4 * length xss) \<and>
    (\<forall>j<length xss. delivered s' proc (argv (args (procs s' proc)) + 4 * of_nat j) (xss ! j)) \<and>
    kavail s' + length xss + 1 = kavail s \<and> (\<forall>a. apart s (proc_dir s proc) a \<longrightarrow> mem s' a = mem s a)"
proof -
  let ?d = "proc_dir s proc" and ?n = "length xss"
  define sz :: u32 where "sz = of_nat (4 * ?n)"
  have sz: "unat sz = 4 * ?n" using len(2) by (simp add: sz_def unat_of_nat_u32 del: of_nat_mult)
  then have szb: "0 < unat sz" "unat sz \<le> 4096" using len by simp_all
  have pos: "0 < free_slots (allocations (procs s proc))" "0 < kavail s" using room by simp_all
  obtain av s1 where run: "process_malloc s proc sz = (av, s1)" by force
  note pm = process_malloc_page [OF ok pos szb run]
  have own1: "dir_owned s1 ?d" using pm(3,4) by (simp add: proc_heap_ok_def)
  have avb: "\<forall>b\<in>extent av 1. apart s1 (proc_dir s1 proc) b" using live_apart [OF own1, of av 1] pm(4-7) by simp
  have chain1: "arg_chain (\<lambda>a. apart s1 (proc_dir s1 proc) a \<and> a \<notin> extent av 1) (mem s1) root xss"
    unfolding pm(4) by (rule arg_chain_cong [OF chain]) (use pm(12) in blast)
  have room1: "?n \<le> free_slots (allocations (procs s1 proc))" "?n \<le> kavail s1" "0 + ?n \<le> 1024" using room pm(8,9) len(2) by simp_all
  from inject_loop_delivers [OF pm(3) room1(1,2) pm(2) avb room1(3) chain1] obtain s2 where
    s2: "inject_loop s1 proc root av 0 = Some (0, s2)" "proc_heap_ok s2 proc" "proc_dir s2 proc = proc_dir s1 proc" "kavail s2 + ?n = kavail s1"
    "\<forall>a. apart s1 (proc_dir s1 proc) a \<longrightarrow> proc_phys s2 proc a = proc_phys s1 proc a"
    "\<forall>a. apart s1 (proc_dir s1 proc) a \<and> 4 * ?n \<le> unat (a - av) \<longrightarrow> mem s2 a = mem s1 a" "\<forall>j<?n. delivered s2 proc (av + 4 * of_nat j) (xss ! j)"
    by auto
  define s' where "s' = upd_proc s2 proc (\<lambda>p. p\<lparr>args := \<lparr>argc = int ?n, argv = av\<rparr>\<rparr>)"
  have "word_of_int (int ?n * 4) = sz" by (simp add: sz_def mult.commute)
  then have go: "process_inject_args s proc root = Some (0, s')"
    using count_chain [OF chain, of 0] len(1) run pm(1) s2(1) by (simp add: process_inject_args_def process_count_cmd_args_def s'_def)
  have f: "mem s' = mem s2" "proc_dir s' proc = proc_dir s2 proc" "kavail s' = kavail s2" "argc (args (procs s' proc)) = int ?n" "argv (args (procs s' proc)) = av"
    by (simp_all add: s'_def kheap_view_defs)
  have view: "sees s' proc p n = sees s2 proc p n" "delivered s' proc p xs = delivered s2 proc p xs" for p n xs by (simp_all add: sees_def delivered_def f(1,2))
  have "proc_heap_ok s' proc" using s2(2) by (simp add: s'_def proc_heap_ok_def dir_owned_def kheap_view_defs)
  moreover have "sees s2 proc av (4 * ?n)" unfolding sees_def
  proof (intro allI impI)
    fix a assume a: "unat (a - av) < 4 * ?n"
    then have "a \<in> extent av 1" using len(2) by (simp add: extent_def)
    then show "proc_phys s2 proc a = a" using s2(5) avb pm(10) a by (simp add: sees_def sz)
  qed
  moreover have "mem s2 a = mem s a" if "apart s ?d a" for a
    using s2(6) pm(4) pm(12) [OF that] len(2) by (simp add: extent_def)
  ultimately show ?thesis using go s2(4,7) pm(8) by (intro exI [of _ s']) (simp add: f view)
qed

definition demo_args :: proc_state where
  "demo_args = demo_owner\<lparr>mem := (\<lambda>a. if unat a < 0x10000 then (if a = 0x2000 then 65 else 0) else mem demo_owner a)\<rparr>"

lemma demo_args_ok:
  "proc_heap_ok demo_args 0x01001000" "arg_chain (apart demo_args (proc_dir demo_args 0x01001000)) (mem demo_args) 0x2000 [[65]]"
proof -
  let ?p = "0x01001000 :: u32"
  have own: "dir_owned demo_owner (proc_dir demo_owner ?p)" using demo_owner_ok(1) by (simp add: proc_heap_ok_def)
  have low: "a \<notin> kregion demo_owner" if "unat a < 0x10000" for a
  proof -
    have "int (unat a) < int 0x10000" using that by (simp only: of_nat_less_iff)
    then show ?thesis unfolding demo_owner_ok(5) by (simp add: heap_region_def demo_heap_def config_simps)
  qed
  have pages: "a \<notin> extent q 1" if "q \<in> dir_pages (mem demo_owner) (proc_dir demo_owner ?p)" "unat a < 0x10000" for q a
    using kz.allocs_region [of demo_owner q 1] own that low [OF that(2)] by (auto simp: dir_owned_def)
  have d: "proc_dir demo_args ?p = proc_dir demo_owner ?p" by (simp add: demo_args_def)
  have same: "\<forall>q\<in>dir_pages (mem demo_owner) (proc_dir demo_owner ?p). \<forall>a\<in>extent q 1. mem demo_args a = mem demo_owner a"
    using pages by (auto simp: demo_args_def)
  note w = proc_heap_ok_write [OF demo_owner_ok(1) same]
  have s: "demo_args = demo_owner\<lparr>mem := mem demo_args\<rparr>" by (simp add: demo_args_def)
  show "proc_heap_ok demo_args ?p" by (subst s) (rule w(1))
  have ap: "apart demo_args (proc_dir demo_args ?p) a" if "unat a < 0x10000" for a
    using low [OF that] pages [OF _ that] w(2) by (simp add: apart_def d kprot_def) (simp add: demo_args_def kheap_view_defs)
  have "unat (0x2000 + of_nat j :: u32) < 0x10000" if "j < 516" for j using that by (simp add: unat_word_ariths unat_of_nat_u32)
  moreover have "cstring (mem demo_args) 0x2000 [65]" "cmd_arg_next (mem demo_args) 0x2000 = 0"
    by (simp_all add: demo_args_def cmd_arg_next_def load32_def)
  ultimately show "arg_chain (apart demo_args (proc_dir demo_args ?p)) (mem demo_args) 0x2000 [[65]]" using ap by simp
qed

theorem process_inject_args_delivers_witness:
  "\<exists>s'. process_inject_args demo_args 0x01001000 0x2000 = Some (0, s') \<and> argc (args (procs s' 0x01001000)) = 1 \<and>
    delivered s' 0x01001000 (argv (args (procs s' 0x01001000))) [65]"
proof -
  have "allocations (procs demo_args 0x01001000) = replicate 1024 \<lparr>alloc_ptr = 0, alloc_size = 0\<rparr>" "kavail demo_args = 1022"
    using demo_owner_ok(3,4) by (simp_all add: demo_args_def kheap_view_defs)
  then show ?thesis using process_inject_args_delivers [OF demo_args_ok] by (auto simp: free_slots_def)
qed

end
