(* ===== verification/Kheap_Life.thy ===== *)
theory Kheap_Life
  imports Kheap_Model
begin

text \<open>
  The kernel heap over its whole life: every state that the heap can reach from \<^verbatim>\<open>kheap_init\<close> through allocations that
  fit and releases of live allocations is well formed, and no block is ever lost or handed out twice.
\<close>

section \<open>The balance of an allocator\<close>

text \<open>Every block is free or belongs to one live allocation; no address is allocated twice.\<close>

definition balanced :: "(u32 \<times> nat) set \<Rightarrow> nat \<Rightarrow> nat \<Rightarrow> bool" where
  "balanced al av tot \<longleftrightarrow> finite al \<and> inj_on fst al \<and> av + (\<Sum>x\<in>al. snd x) = tot"

lemma balanced_insert:
  assumes "balanced al av tot" "\<And>k. (p, k) \<notin> al" "av' + n = av"
  shows "balanced (insert (p, n) al) av' tot"
proof -
  have "p \<notin> fst ` al" using assms(2) by force
  then show ?thesis using assms by (auto simp: balanced_def inj_on_insert)
qed

lemma balanced_remove:
  assumes "balanced al av tot" "(p, k) \<in> al"
  shows "balanced (al - {(p, k)}) (av + k) tot"
  using assms by (auto simp: balanced_def sum_diff1_nat intro: inj_on_subset dest: member_le_sum [of _ _ snd])

context block_allocator
begin

lemma malloc_balanced:
  assumes "inv h" "0 < unat sz" "unat sz \<le> 2 ^ 32 - 4096" "fits h (blocks_for sz)" "malloc h sz = (p, h')" "balanced (allocs h) (avail h) tot"
  shows "balanced (allocs h') (avail h') tot"
  unfolding malloc_allocs [OF assms(1-5)]
  using balanced_insert [OF assms(6) malloc_new [OF assms(1-5)] malloc_avail [OF assms(1-5)]] .

lemma free_balanced:
  assumes "inv h" "(p, k) \<in> allocs h" "balanced (allocs h) (avail h) tot"
  shows "balanced (allocs (free h p)) (avail (free h p)) tot"
  unfolding free_allocs [OF assms(1,2)] free_avail [OF assms(1,2)] by (rule balanced_remove [OF assms(3,2)])

lemma balanced_disjoint:
  assumes "inv h" "balanced (allocs h) (avail h) tot" "x \<in> allocs h" "y \<in> allocs h" "x \<noteq> y"
  shows "extent (fst x) (snd x) \<inter> extent (fst y) (snd y) = {}"
proof -
  have "fst x \<noteq> fst y" using assms(2-5) by (auto simp: balanced_def dest: inj_onD)
  then show ?thesis using allocs_disjoint [OF assms(1), of "fst x" "snd x" "fst y" "snd y"] assms(3,4) by simp
qed

end

section \<open>Reachable heaps\<close>

text \<open>Between the calls of the allocator any bytes may be written but those of the block table, which is in memory too.\<close>

inductive kheap_reach :: "'a kheap_state_scheme \<Rightarrow> bool" where
  reach_init: "kheap_init s = Some s' \<Longrightarrow> kheap_reach s'"
| reach_kmalloc: "kheap_reach s \<Longrightarrow> 0 < unat sz \<Longrightarrow> unat sz \<le> 2 ^ 32 - 4096 \<Longrightarrow> kfits s (blocks_for sz) \<Longrightarrow> kmalloc s sz = (p, s') \<Longrightarrow> kheap_reach s'"
| reach_kzalloc: "kheap_reach s \<Longrightarrow> 0 < unat sz \<Longrightarrow> unat sz \<le> 2 ^ 32 - 4096 \<Longrightarrow> kfits s (blocks_for sz) \<Longrightarrow> kzalloc s sz = (p, s') \<Longrightarrow> kheap_reach s'"
| reach_kfree: "kheap_reach s \<Longrightarrow> (p, k) \<in> kallocs s \<Longrightarrow> kheap_reach (kfree s p)"
| reach_write: "kheap_reach s \<Longrightarrow> kheap_reach (s\<lparr>mem := override_on m (mem s) heap_table_bytes\<rparr>)"

lemma kheap_reach_inv: "kheap_reach s \<Longrightarrow> kheap_wf s \<and> balanced (kallocs s) (kavail s) 25600"
proof (induction rule: kheap_reach.induct)
  case (reach_init s s')
  then show ?case using kheap_init_run [of s] by (auto simp: kheap_view_defs balanced_def)
next
  case (reach_kmalloc s sz p s')
  then show ?case using km.malloc_inv km.malloc_balanced by blast
next
  case (reach_kzalloc s sz p s')
  then show ?case using kz.malloc_inv kz.malloc_balanced by blast
next
  case (reach_kfree s p k)
  then show ?case using km.free_inv km.free_balanced by blast
qed simp

text \<open>
  C12: whatever the kernel allocates and releases after \<^verbatim>\<open>kheap_init\<close>, and whatever it writes to the memory outside the block table
  at \<^verbatim>\<open>0x7E00\<close>, as long as requests fit and only live allocations are released: the block table stays well formed, live allocations never overlap, and the
  free blocks and the blocks of the live allocations always add up to the 25600 blocks of the heap.
\<close>

theorem kheap_life_wellformed:
  assumes "kheap_reach s"
  shows "kheap_wf s \<and> finite (kallocs s) \<and> kavail s + (\<Sum>x\<in>kallocs s. snd x) = 25600 \<and>
    (\<forall>x\<in>kallocs s. \<forall>y\<in>kallocs s. x \<noteq> y \<longrightarrow> extent (fst x) (snd x) \<inter> extent (fst y) (snd y) = {})"
  using kheap_reach_inv [OF assms] kz.balanced_disjoint [of s] unfolding balanced_def by blast

theorem kheap_life_wellformed_witness:
  "\<exists>s p s'. kheap_init (demo_kheap 4) = Some s \<and> kzalloc s 5000 = (p, s') \<and> kavail s' + 2 = 25600"
proof -
  obtain m h where h: "kheap_init (demo_kheap 4) = Some ((demo_kheap 4)\<lparr>mem := m, kernel_heap := h\<rparr>)" "heap_wf h" "heap_allocs h = {}" "\<forall>n. heap_fits h n \<longleftrightarrow> n \<le> 25600"
    using kheap_init_run [of "demo_kheap 4"] by blast
  let ?s = "(demo_kheap 4)\<lparr>mem := m, kernel_heap := h\<rparr>"
  obtain p s' where al: "kzalloc ?s 5000 = (p, s')" by force
  have b: "blocks_for 5000 = 2" by (simp add: blocks_for_def)
  have pre: "kheap_wf ?s" "0 < unat (5000 :: u32)" "unat (5000 :: u32) \<le> 2 ^ 32 - 4096" "kfits ?s (blocks_for 5000)"
    using h by (simp_all add: kheap_view_defs b)
  have "kheap_reach s'" by (rule reach_kzalloc [OF reach_init [OF h(1)] pre(2-4) al])
  moreover have "kallocs s' = {(p, 2)}" using kz.malloc_allocs [OF pre al] h(3) by (simp add: b kheap_view_defs)
  ultimately have "kavail s' + 2 = 25600" using kheap_life_wellformed [of s'] by simp
  then show ?thesis using h(1) al by blast
qed

end
