(* ===== verification/Userland_Model.thy ===== *)
theory Userland_Model
  imports Process_Model
begin

unbundle bit_operations_syntax

text \<open>
  The user side: \<^verbatim>\<open>libc/stdlib/stdlib.c\<close>, \<^verbatim>\<open>libc/stdio/stdio.c\<close>, \<^verbatim>\<open>libc/enki/enki.c\<close>, \<^verbatim>\<open>libc/start.c\<close> and the programs under \<^verbatim>\<open>programs/\<close>.

  A program runs on its own memory. What it asks of the kernel through \<^verbatim>\<open>int 0x80\<close> (the stubs of \<^verbatim>\<open>enki.asm\<close>) is
  a list of calls; the kernel's answer is the parameter \<open>kernel_env\<close>, a function of the calls made so far
  and of the program's memory, which gives the returned word and the memory after the call. A call to
  print carries the text the kernel reads: at most 1023 characters up to the terminator. What
  a program relies on of the kernel is a hypothesis about \<open>kernel_env\<close>.

  Static and local arrays and string literals lie at addresses that are fields of the state.
\<close>

section \<open>Definitions\<close>

datatype user_call = Enki_print u32 "u8 list" | Enki_getkey | Enki_putchar u8 | Enki_malloc u32 | Enki_free u32
  | Enki_process_start u32 | Enki_system u32 | Enki_process_args u32 | Enki_exit

record user =
  umem :: memory
  ucalls :: "user_call list"
  kernel_env :: "user_call list \<Rightarrow> memory \<Rightarrow> u32 \<times> memory"
  strtok_last :: u32
  itoa_buf :: u32
  stk_scmd :: u32
  stk_run :: u32
  stk_line :: u32
  stk_pargs :: u32
  lit_space :: u32
  lit_echo :: u32
  lit_echo_fmt :: u32
  lit_prompt :: u32
  lit_newline :: u32

definition int_80 :: "user \<Rightarrow> user_call \<Rightarrow> u32 \<times> user" where
  "int_80 s c =
     (let cs = c # ucalls s; (v, m) = kernel_env s cs (umem s)
      in (v, s\<lparr>umem := m, ucalls := cs\<rparr>))"

definition enki_print :: "user \<Rightarrow> u32 \<Rightarrow> user" where
  "enki_print s msg = snd (int_80 s (Enki_print msg (bounded_string (umem s) 1023 msg)))"

definition enki_getkey :: "user \<Rightarrow> int \<times> user" where
  "enki_getkey s = (let (v, s1) = int_80 s Enki_getkey in (sint v, s1))"

definition enki_putchar :: "user \<Rightarrow> u8 \<Rightarrow> user" where
  "enki_putchar s c = snd (int_80 s (Enki_putchar c))"

definition enki_malloc :: "user \<Rightarrow> u32 \<Rightarrow> u32 \<times> user" where
  "enki_malloc s sz = int_80 s (Enki_malloc sz)"

definition enki_free :: "user \<Rightarrow> u32 \<Rightarrow> user" where
  "enki_free s ptr = snd (int_80 s (Enki_free ptr))"

definition enki_process_start :: "user \<Rightarrow> u32 \<Rightarrow> user" where
  "enki_process_start s file_name = snd (int_80 s (Enki_process_start file_name))"

definition enki_system :: "user \<Rightarrow> u32 \<Rightarrow> int \<times> user" where
  "enki_system s a = (let (v, s1) = int_80 s (Enki_system a) in (sint v, s1))"

definition enki_process_args :: "user \<Rightarrow> u32 \<Rightarrow> user" where
  "enki_process_args s a = snd (int_80 s (Enki_process_args a))"

definition enki_exit :: "user \<Rightarrow> user" where
  "enki_exit s = snd (int_80 s Enki_exit)"

subsection \<open>The C library\<close>

definition u_malloc :: "user \<Rightarrow> u32 \<Rightarrow> u32 \<times> user" where
  "u_malloc s sz = enki_malloc s sz"

definition u_free :: "user \<Rightarrow> u32 \<Rightarrow> user" where
  "u_free s ptr = enki_free s ptr"

text \<open>
  The digit loop of \<^verbatim>\<open>itoa\<close> runs on a number that is not positive, so that \<^verbatim>\<open>INT_MIN\<close> needs no special case.
\<close>

function itoa_loop :: "u32 \<Rightarrow> int \<Rightarrow> int \<Rightarrow> memory \<Rightarrow> int \<times> memory" where
  "itoa_loop s i idx m =
     (if i \<noteq> 0 then itoa_loop s (c_div i 10) (idx - 1) (m(s + word_of_int (idx - 1) := 0x30 - word_of_int (c_mod i 10)))
      else (idx, m))"
  by pat_completeness auto
termination
  by (relation "measure (\<lambda>(s, i, idx, m). nat \<bar>i\<bar>)") (auto simp: c_div_def abs_mult abs_sgn_eq)

declare itoa_loop.simps [simp del]

definition itoa :: "u32 \<Rightarrow> int \<Rightarrow> memory \<Rightarrow> u32 \<times> memory" where
  "itoa s i m =
     (let m1 = m(s + 11 := 0);
          neg = (i < 0);
          i1 = (if i \<ge> 0 then - i else i);
          (idx, m2) = itoa_loop s i1 11 m1;
          (idx3, m3) = (if idx = 11 then (idx - 1, m2(s + word_of_int (idx - 1) := 0x30)) else (idx, m2));
          (idx4, m4) = (if neg then (idx3 - 1, m3(s + word_of_int (idx3 - 1) := 0x2D)) else (idx3, m3))
      in (s + word_of_int idx4, m4))"

definition putchar :: "user \<Rightarrow> int \<Rightarrow> int \<times> user" where
  "putchar s c = (0, enki_putchar s (word_of_int c))"

text \<open>The variable arguments are a list; taking one more than were passed has no defined result.\<close>

partial_function (option) printf_loop :: "user \<Rightarrow> u32 \<Rightarrow> u32 list \<Rightarrow> (int \<times> user) option" where
  "printf_loop s p ap =
     (if umem s p = 0 then Some (0, s)
      else if umem s p \<noteq> 0x25 then printf_loop (snd (putchar s (sint (umem s p)))) (p + 1) ap
      else
        (let q = p + 1; c = umem s q
         in if c = 0x64 \<or> c = 0x69 then
              (case ap of [] \<Rightarrow> None
               | v # rest \<Rightarrow>
                   let (str, m) = itoa (itoa_buf s) (sint v) (umem s)
                   in printf_loop (enki_print (s\<lparr>umem := m\<rparr>) str) (q + 1) rest)
            else if c = 0x73 then
              (case ap of [] \<Rightarrow> None | v # rest \<Rightarrow> printf_loop (enki_print s v) (q + 1) rest)
            else printf_loop (snd (putchar s (sint c))) (q + 1) ap))"

definition printf :: "user \<Rightarrow> u32 \<Rightarrow> u32 list \<Rightarrow> (int \<times> user) option" where
  "printf s fmt ap = printf_loop s fmt ap"

text \<open>\<^verbatim>\<open>strtok\<close> with the static variable of this program.\<close>

definition u_strtok :: "user \<Rightarrow> u32 \<Rightarrow> u32 \<Rightarrow> (u32 \<times> user) option" where
  "u_strtok s str delimiters =
     do {
       (tok, lst, m) \<leftarrow> strtok (strtok_last s) str delimiters (umem s);
       Some (tok, s\<lparr>umem := m, strtok_last := lst\<rparr>)
     }"

text \<open>A new \<^verbatim>\<open>struct cmd_arg\<close> (516 bytes) for a token: the text and a null link.\<close>

definition new_cmd_arg :: "user \<Rightarrow> u32 \<Rightarrow> u32 \<times> user" where
  "new_cmd_arg s tok =
     (let (p, s1) = enki_malloc s 516
      in if p = 0 then (0, s1)
         else (p, s1\<lparr>umem := store32 (strncpy p tok 512 (umem s1)) (p + 512) 0\<rparr>))"

partial_function (option) parse_cmd_loop :: "user \<Rightarrow> u32 \<Rightarrow> u32 \<Rightarrow> u32 \<Rightarrow> (u32 \<times> user) option" where
  "parse_cmd_loop s root_cmd curr_cmd tok =
     (if tok \<noteq> 0 then
        (let (new_cmd, s1) = new_cmd_arg s tok
         in if new_cmd = 0 then Some (root_cmd, s1)
            else
              Option.bind (u_strtok (s1\<lparr>umem := store32 (umem s1) (curr_cmd + 512) new_cmd\<rparr>) 0 (lit_space s1))
                (\<lambda>(tok', s2). parse_cmd_loop s2 root_cmd new_cmd tok'))
      else Some (root_cmd, s))"

definition enki_parse_cmd :: "user \<Rightarrow> u32 \<Rightarrow> int \<Rightarrow> (u32 \<times> user) option" where
  "enki_parse_cmd s cmd max_len =
     (if max_len \<ge> 1025 then Some (0, s)
      else do {
        let s1 = s\<lparr>umem := strncpy (stk_scmd s) cmd 1025 (umem s)\<rparr>;
        (tok, s2) \<leftarrow> u_strtok s1 (stk_scmd s1) (lit_space s1);
        if tok = 0 then Some (0, s2)
        else do {
          let (root_cmd, s3) = new_cmd_arg s2 tok;
          if root_cmd = 0 then Some (root_cmd, s3)
          else do {
            (tok', s4) \<leftarrow> u_strtok s3 0 (lit_space s3);
            parse_cmd_loop s4 root_cmd root_cmd tok'
          }
        }
      })"

partial_function (option) enki_getkey_block :: "user \<Rightarrow> (int \<times> user) option" where
  "enki_getkey_block s = (let (val, s1) = enki_getkey s in if val = 0 then enki_getkey_block s1 else Some (val, s1))"

partial_function (option) readline_loop :: "user \<Rightarrow> u32 \<Rightarrow> int \<Rightarrow> bool \<Rightarrow> int \<Rightarrow> user option" where
  "readline_loop s out max_len show_typing i =
     (if i < max_len - 1 then
        Option.bind (enki_getkey_block s) (\<lambda>(val, s1).
          let key = (word_of_int val :: u8)
          in if key = 0x0D then Some (s1\<lparr>umem := (umem s1)(out + word_of_int i := 0x00)\<rparr>)
             else
               let s2 = (if show_typing then enki_putchar s1 key else s1)
               in if key = 0x08 \<and> i \<ge> 1
                  then readline_loop (s2\<lparr>umem := (umem s2)(out + word_of_int (i - 1) := 0x00)\<rparr>) out max_len show_typing (i - 2 + 1)
                  else readline_loop (s2\<lparr>umem := (umem s2)(out + word_of_int i := key)\<rparr>) out max_len show_typing (i + 1))
      else Some (s\<lparr>umem := (umem s)(out + word_of_int i := 0x00)\<rparr>))"

definition enki_tty_readline :: "user \<Rightarrow> u32 \<Rightarrow> int \<Rightarrow> bool \<Rightarrow> user option" where
  "enki_tty_readline s out max_len show_typing = readline_loop s out max_len show_typing 0"

definition enki_system_run :: "user \<Rightarrow> u32 \<Rightarrow> (int \<times> user) option" where
  "enki_system_run s cmd =
     do {
       let s1 = s\<lparr>umem := strncpy (stk_run s) cmd 1024 (umem s)\<rparr>;
       (root_cmd, s2) \<leftarrow> enki_parse_cmd s1 (stk_run s1) 1024;
       if root_cmd = 0 then Some (-1, s2) else Some (enki_system s2 root_cmd)
     }"

text \<open>\<^verbatim>\<open>main\<close> is the program: an argument here, from its argument count and vector.\<close>

definition enki_start :: "(user \<Rightarrow> int \<Rightarrow> u32 \<Rightarrow> (int \<times> user) option) \<Rightarrow> user \<Rightarrow> user option" where
  "enki_start main s =
     do {
       let s1 = enki_process_args s (stk_pargs s);
       (_, s2) \<leftarrow> main s1 (sint (load32 (umem s1) (stk_pargs s1))) (load32 (umem s1) (stk_pargs s1 + 4));
       Some s2
     }"

subsection \<open>The programs\<close>

definition cmd_echo :: "user \<Rightarrow> u32 \<Rightarrow> (int \<times> user) option" where
  "cmd_echo s cmd =
     do {
       (_, s1) \<leftarrow> printf s (lit_echo_fmt s) [cmd + 5];
       Some (0, s1)
     }"

definition cmd_handler :: "user \<Rightarrow> u32 \<Rightarrow> user option" where
  "cmd_handler s inp =
     do {
       (_, s1) \<leftarrow> (if strncmp (umem s) (lit_echo s) inp 4 = 0 then cmd_echo s inp else enki_system_run s inp);
       Some s1
     }"

text \<open>One round of the endless loop of the shell; the loop itself never returns.\<close>

definition shell_round :: "user \<Rightarrow> user option" where
  "shell_round s =
     do {
       let s1 = enki_print s (lit_prompt s);
       s2 \<leftarrow> enki_tty_readline s1 (stk_line s1) 1024 True;
       let s3 = enki_print s2 (lit_newline s2);
       cmd_handler s3 (stk_line s3)
     }"

primrec shell_rounds :: "nat \<Rightarrow> user \<Rightarrow> user option" where
  "shell_rounds 0 s = Some s"
| "shell_rounds (Suc n) s = Option.bind (shell_round s) (shell_rounds n)"

definition repeat_round :: "user \<Rightarrow> u32 \<Rightarrow> user" where
  "repeat_round s av = enki_print s (load32 (umem s) av)"

primrec hello_args :: "nat \<Rightarrow> user \<Rightarrow> u32 \<Rightarrow> u32 \<Rightarrow> u32 \<Rightarrow> user option" where
  "hello_args 0 s fmt av i = Some s"
| "hello_args (Suc n) s fmt av i =
     do {
       (_, s1) \<leftarrow> printf s fmt [i, load32 (umem s) (av + 4 * i)];
       hello_args n s1 fmt av (i + 1)
     }"

text \<open>The three literals of \<^verbatim>\<open>hello.c\<close> are arguments.\<close>

definition hello_main :: "u32 \<Rightarrow> u32 \<Rightarrow> u32 \<Rightarrow> user \<Rightarrow> int \<Rightarrow> u32 \<Rightarrow> (int \<times> user) option" where
  "hello_main greeting passed fmt s ac av =
     do {
       (_, s1) \<leftarrow> printf s greeting [];
       (_, s2) \<leftarrow> printf s1 passed [word_of_int ac];
       s3 \<leftarrow> hello_args (nat ac) s2 fmt av 0;
       Some (0, s3)
     }"

end
