(* ===== verification/Userland_Proofs.thy ===== *)
theory Userland_Proofs
  imports Userland_Model
begin

unbundle bit_operations_syntax

text \<open>
  The user side: \<^verbatim>\<open>itoa\<close> prints every 32-bit number in decimal, and what a line read by
  \<^verbatim>\<open>enki_tty_readline\<close> holds.
\<close>

section \<open>Decimal numbers\<close>

function digits :: "nat \<Rightarrow> u8 list" where
  "digits n = (if n = 0 then [] else digits (n div 10) @ [0x30 + of_nat (n mod 10)])"
  by pat_completeness auto
termination
  by (relation "measure id") auto

declare digits.simps [simp del]

lemma digits_0 [simp]: "digits 0 = []"
  by (simp add: digits.simps)

definition decimal :: "int \<Rightarrow> u8 list" where
  "decimal i = (if i < 0 then [0x2D] else []) @ (if i = 0 then [0x30] else digits (nat \<bar>i\<bar>))"

lemma digits_length: "n < 10 ^ k \<Longrightarrow> length (digits n) \<le> k"
proof (induction k arbitrary: n)
  case (Suc k)
  then have "length (digits (n div 10)) \<le> k" by (intro Suc.IH) simp
  then show ?case by (simp add: digits.simps [of n])
qed (simp add: digits.simps)

lemma digit_nonzero: "d < 10 \<Longrightarrow> (0x30 + of_nat d :: u8) \<noteq> 0"
proof
  assume "d < 10" "(0x30 + of_nat d :: u8) = 0"
  then have "unat (of_nat (48 + d) :: u8) = 0" by simp
  then show False using \<open>d < 10\<close> by (simp add: unat_of_nat del: of_nat_add)
qed

lemma c_div_neg: "c_div (- int n) 10 = - int (n div 10)"
  by (cases "n = 0") (simp_all add: c_div_def sgn_if zdiv_int)

lemma c_mod_neg: "c_mod (- int n) 10 = - int (n mod 10)"
  unfolding c_mod_def c_div_neg by (simp add: zmod_int zdiv_int minus_mult_div_eq_mod [symmetric])

lemma digits_nonempty: "n \<noteq> 0 \<Longrightarrow> 0 < length (digits n)"
  by (simp add: digits.simps [of n])

lemma decimal_nonempty: "decimal i \<noteq> []"
  using digits_nonempty [of "nat \<bar>i\<bar>"] by (auto simp: decimal_def)

text \<open>Reading decimal text back.\<close>

definition digits_value :: "u8 list \<Rightarrow> nat" where
  "digits_value xs = foldl (\<lambda>v c. 10 * v + unat (c - 0x30)) 0 xs"

definition dec_value :: "u8 list \<Rightarrow> int" where
  "dec_value xs = (case xs of [] \<Rightarrow> 0 | c # cs' \<Rightarrow> if c = 0x2D then - int (digits_value cs') else int (digits_value xs))"

lemma digits_value_digits: "digits_value (digits n) = n"
proof (induction n rule: digits.induct)
  case (1 n)
  show ?case
  proof (cases "n = 0")
    case False
    have "unat (of_nat (n mod 10) :: u8) = n mod 10" by (simp add: unat_of_nat mod_less less_trans [of _ 10])
    then show ?thesis using 1 False by (simp add: digits.simps [of n] digits_value_def)
  qed (simp add: digits_value_def)
qed

lemma digits_no_sign: "n \<noteq> 0 \<Longrightarrow> hd (digits n) \<noteq> 0x2D"
proof (induction n rule: digits.induct)
  case (1 n)
  have "(0x30 + of_nat d :: u8) \<noteq> 0x2D" if "d < 10" for d
  proof
    assume "(0x30 + of_nat d :: u8) = 0x2D"
    then have "(of_nat (3 + d) :: u8) = 0" by (simp add: add_eq_0_iff2)
    then have "unat (of_nat (3 + d) :: u8) = 0" by simp
    then show False using that by (simp add: unat_of_nat del: of_nat_add)
  qed
  then show ?case using 1 by (cases "n div 10 = 0") (auto simp: digits.simps [of n] hd_append dest: digits_nonempty)
qed

lemma dec_value_decimal: "dec_value (decimal i) = i"
proof (cases "i \<le> 0")
  case True
  then show ?thesis using digits_value_digits [of "nat \<bar>i\<bar>"] by (auto simp: dec_value_def decimal_def digits_value_def)
next
  case False
  then have "digits (nat i) \<noteq> []" "hd (digits (nat i)) \<noteq> 0x2D" using digits_nonempty [of "nat i"] digits_no_sign [of "nat i"] by auto
  then show ?thesis
    using False digits_value_digits [of "nat i"] by (cases "digits (nat i)") (auto simp: dec_value_def decimal_def)
qed

text \<open>Putting one character in front of a string that ends at byte 11 of the buffer.\<close>

lemma cstring_extend:
  assumes "cstring m (s + of_nat (Suc k)) xs" "Suc k + length xs = 11" "c \<noteq> 0"
  shows "cstring (m(s + of_nat k := c)) (s + of_nat k) (c # xs)"
proof -
  have "s + of_nat k \<noteq> s + of_nat (Suc k) + of_nat i" if "i \<le> length xs" for i
  proof -
    have "k < 2 ^ 32" "Suc k + i < 2 ^ 32" using that assms(2) by simp_all
    then have "unat (of_nat k :: u32) \<noteq> unat (of_nat (Suc k + i) :: u32)" by (simp del: of_nat_add of_nat_Suc)
    then have "(of_nat k :: u32) \<noteq> of_nat (Suc k + i)" by metis
    then show ?thesis by (simp add: add.assoc)
  qed
  then have "cstring (m(s + of_nat k := c)) (s + of_nat (Suc k)) xs = cstring m (s + of_nat (Suc k)) xs"
    by (intro cstring_cong) simp
  then show ?thesis using assms by (simp add: ac_simps)
qed

lemma itoa_loop_digits:
  assumes "cstring m (s + of_nat k) xs" "k + length xs = 11" "length (digits n) \<le> k" "itoa_loop s (- int n) (int k) m = (idx, m')"
  shows "idx = int (k - length (digits n)) \<and> cstring m' (s + of_nat (k - length (digits n))) (digits n @ xs) \<and>
    (\<forall>a. 12 \<le> unat (a - s) \<longrightarrow> m' a = m a)"
  using assms
proof (induction n arbitrary: k m xs rule: less_induct)
  case (less n)
  show ?case
  proof (cases "n = 0")
    case True
    then show ?thesis using less.prems by (simp add: itoa_loop.simps digits.simps)
  next
    case False
    then obtain j where k: "k = Suc j" using less.prems(3) by (cases k) (simp_all add: digits.simps [of n])
    define c :: u8 where "c = 0x30 + of_nat (n mod 10)"
    define m1 where "m1 = m(s + of_nat j := c)"
    have len: "length (digits n) = Suc (length (digits (n div 10)))" using False by (simp add: digits.simps [of n])
    have run: "itoa_loop s (- int (n div 10)) (int j) m1 = (idx, m')"
      using less.prems(4) False by (simp add: itoa_loop.simps [of s "- int n"] c_div_neg c_mod_neg k m1_def c_def)
    have str: "cstring m1 (s + of_nat j) (c # xs)"
      unfolding m1_def using less.prems(1,2) k digit_nonzero [of "n mod 10"] by (intro cstring_extend) (simp_all add: c_def)
    have "idx = int (j - length (digits (n div 10))) \<and>
      cstring m' (s + of_nat (j - length (digits (n div 10)))) (digits (n div 10) @ c # xs) \<and> (\<forall>a. 12 \<le> unat (a - s) \<longrightarrow> m' a = m1 a)"
      using less.prems(2,3) k len by (intro less.IH [OF _ str _ _ run]) (use False in simp_all)
    moreover have "m1 a = m a" if "12 \<le> unat (a - s)" for a
      using that less.prems(2) k by (auto simp: m1_def)
    ultimately show ?thesis using k len False by (simp add: digits.simps [of n] c_def)
  qed
qed

lemma itoa_decimal:
  assumes "- (2 ^ 31) \<le> i" "i < 2 ^ 31" "itoa s i m = (p, m')"
  shows "cstring m' p (decimal i) \<and> unat (p - s) + length (decimal i) = 11 \<and> (\<forall>a. 12 \<le> unat (a - s) \<longrightarrow> m' a = m a)"
proof -
  define n where "n = nat \<bar>i\<bar>"
  have n: "n < 10 ^ 10" "(if i \<ge> 0 then - i else i) = - int n" using assms(1,2) by (auto simp: n_def)
  have ld: "length (digits n) \<le> 10" using digits_length [OF n(1)] by simp
  obtain idx m2 where run: "itoa_loop s (- int n) (int 11) (m(s + 11 := 0)) = (idx, m2)" by force
  have "cstring (m(s + 11 := 0)) (s + of_nat 11) []" by simp
  from itoa_loop_digits [OF this _ _ run] ld
  have loop: "idx = int (11 - length (digits n))" "cstring m2 (s + of_nat (11 - length (digits n))) (digits n)"
    "\<And>a. 12 \<le> unat (a - s) \<Longrightarrow> m2 a = m a"
    by auto
  define zs where "zs = (if i = 0 then [0x30] else digits n)"
  define m3 where "m3 = (if i = 0 then m2(s + of_nat 10 := 0x30) else m2)"
  have zs: "0 < length zs" "length zs \<le> 10" using ld digits_nonempty [of n] by (auto simp: zs_def n_def)
  have m3: "cstring m3 (s + of_nat (11 - length zs)) zs"
  proof (cases "i = 0")
    case True
    then have "cstring m2 (s + of_nat (Suc 10)) []" using loop(2) by (simp add: n_def)
    from cstring_extend [OF this, of "0x30"] show ?thesis using True by (simp add: m3_def zs_def)
  qed (use loop(2) in \<open>simp add: m3_def zs_def\<close>)
  define k where "k = 11 - length zs"
  have k: "k = Suc (k - 1)" "k + length zs = 11" using zs by (simp_all add: k_def)
  have "itoa s i m = (if i < 0 then (s + of_nat (k - 1), m3(s + of_nat (k - 1) := 0x2D)) else (s + of_nat k, m3))"
  proof -
    have "idx = 11 \<longleftrightarrow> i = 0" using loop(1) ld digits_nonempty [of n] by (cases "n = 0") (auto simp: n_def)
    moreover have "i = 0 \<Longrightarrow> k = 10" "i \<noteq> 0 \<Longrightarrow> idx = int k" "int k - 1 = int (k - 1)"
      using loop(1) k(1) by (auto simp: k_def zs_def)
    ultimately show ?thesis using run n(2) by (auto simp: itoa_def Let_def m3_def)
  qed
  moreover have "decimal i = (if i < 0 then 0x2D # zs else zs)" by (simp add: decimal_def zs_def n_def)
  moreover have "cstring (m3(s + of_nat (k - 1) := 0x2D)) (s + of_nat (k - 1)) (0x2D # zs)"
    using m3 k zs by (intro cstring_extend) (simp_all add: k_def)
  moreover have "m3 a = m a \<and> a \<noteq> s + of_nat (k - 1)" if "12 \<le> unat (a - s)" for a
    using that loop(3) [OF that] k(2) by (auto simp: m3_def)
  moreover have "unat (of_nat (k - 1) :: u32) + length zs = 10" "unat (of_nat k :: u32) + length zs = 11"
  proof -
    have b: "k - 1 < 2 ^ 32" "k < 2 ^ 32" using k(2) by simp_all
    show "unat (of_nat (k - 1) :: u32) + length zs = 10" "unat (of_nat k :: u32) + length zs = 11"
      unfolding unat_of_nat_u32 [OF b(1)] unat_of_nat_u32 [OF b(2)] using k by linarith+
  qed
  ultimately show ?thesis using assms(3) m3 [folded k_def] by (auto split: if_splits)
qed

section \<open>Reading a line\<close>

text \<open>
  A keyboard behind the kernel: the \<open>n\<close>-th call of \<^verbatim>\<open>enki_getkey\<close> is answered with \<open>f n\<close>, 0 when no key waits, and
  neither that call nor \<^verbatim>\<open>enki_putchar\<close> touches the memory of the program.
\<close>

definition getkeys :: "user_call list \<Rightarrow> nat" where
  "getkeys cs' = length (filter (\<lambda>c. c = Enki_getkey) cs')"

definition keyboard_env :: "(user_call list \<Rightarrow> memory \<Rightarrow> u32 \<times> memory) \<Rightarrow> (nat \<Rightarrow> u32) \<Rightarrow> bool" where
  "keyboard_env env f \<longleftrightarrow>
     (\<forall>h m. env (Enki_getkey # h) m = (f (getkeys h), m)) \<and> (\<forall>h c m. snd (env (Enki_putchar c # h) m) = m)"

text \<open>From call number \<open>n\<close> on, the keys \<open>ks\<close> are typed, with any number of empty answers before each.\<close>

inductive typed :: "(nat \<Rightarrow> u32) \<Rightarrow> nat \<Rightarrow> u32 list \<Rightarrow> bool" for f where
  typed_nil: "typed f n []"
| typed_wait: "f n = 0 \<Longrightarrow> typed f (Suc n) ks \<Longrightarrow> typed f n ks"
| typed_key: "f n \<noteq> 0 \<Longrightarrow> typed f (Suc n) ks \<Longrightarrow> typed f n (f n # ks)"

text \<open>
  What a line editor makes of the keys: a backspace removes the last character, and nothing when there is none; a
  carriage return or the bound ends the line.
\<close>

fun edit_line :: "nat \<Rightarrow> u8 list \<Rightarrow> u8 list \<Rightarrow> u8 list" where
  "edit_line mx line [] = line"
| "edit_line mx line (k # ks) =
     (if mx \<le> length line \<or> k = 0x0D then line
      else if k = 0x08 then edit_line mx (butlast line) ks
      else edit_line mx (line @ [k]) ks)"

text \<open>No backspace is typed on an empty line, when \<open>n\<close> characters are there: the code would store it as a character.\<close>

fun no_stray_backspace :: "nat \<Rightarrow> u8 list \<Rightarrow> bool" where
  "no_stray_backspace n [] \<longleftrightarrow> True"
| "no_stray_backspace n (k # ks) \<longleftrightarrow>
     (if k = 0x0D then True else if k = 0x08 then 0 < n \<and> no_stray_backspace (n - 1) ks else no_stray_backspace (n + 1) ks)"

lemma getkey_step:
  assumes "keyboard_env (kernel_env s) f"
  shows "enki_getkey s = (sint (f (getkeys (ucalls s))), s\<lparr>ucalls := Enki_getkey # ucalls s\<rparr>)"
  using assms by (simp add: enki_getkey_def int_80_def keyboard_env_def)

lemma getkey_block_typed:
  assumes "typed f n ks" "ks = k # ks'" "keyboard_env (kernel_env s) f" "n = getkeys (ucalls s)"
  shows "\<exists>h. enki_getkey_block s = Some (sint k, s\<lparr>ucalls := h\<rparr>) \<and> typed f (getkeys h) ks' \<and> k \<noteq> 0"
  using assms
proof (induction n ks arbitrary: s rule: typed.induct)
  case (typed_wait n ks)
  let ?s = "s\<lparr>ucalls := Enki_getkey # ucalls s\<rparr>"
  have "\<exists>h. enki_getkey_block ?s = Some (sint k, ?s\<lparr>ucalls := h\<rparr>) \<and> typed f (getkeys h) ks' \<and> k \<noteq> 0"
    using typed_wait.prems by (intro typed_wait.IH) (simp_all add: getkeys_def)
  then show ?case using typed_wait by (simp add: enki_getkey_block.simps [of s] getkey_step)
next
  case (typed_key n ks)
  then show ?case
    by (intro exI [of _ "Enki_getkey # ucalls s"]) (simp add: enki_getkey_block.simps [of s] getkey_step getkeys_def)
qed simp

lemma key_char: "ucast (k :: u32) = (word_of_int (sint k) :: u8)"
  by (rule bit_word_eqI) (simp add: bit_signed_iff bit_unsigned_iff)

text \<open>One key of the loop.\<close>

lemma readline_key:
  assumes "enki_getkey_block s = Some (v, s1)" "i < max_len - 1" "c = word_of_int v" "s2 = (if echo then enki_putchar s1 c else s1)"
  shows "readline_loop s out max_len echo i =
    (if c = 0x0D then Some (s1\<lparr>umem := (umem s1)(out + word_of_int i := 0)\<rparr>)
     else if c = 0x08 \<and> 1 \<le> i
     then readline_loop (s2\<lparr>umem := (umem s2)(out + word_of_int (i - 1) := 0)\<rparr>) out max_len echo (i - 1)
     else readline_loop (s2\<lparr>umem := (umem s2)(out + word_of_int i := c)\<rparr>) out max_len echo (i + 1))"
  unfolding assms(3,4) using assms(1,2) by (simp add: readline_loop.simps [of s] Let_def)

lemma line_byte:
  assumes "length line < 2 ^ 31"
  shows "\<forall>j<length line. m (out + of_nat j) = line ! j \<Longrightarrow> \<forall>x\<in>set line. x \<noteq> 0 \<Longrightarrow>
    cstring (m(out + of_nat (length line) := 0)) out line"
  using assms
proof (induction line arbitrary: out)
  case (Cons x line)
  have "\<forall>j<length line. m (out + 1 + of_nat j) = line ! j" using Cons.prems(1) by (auto simp: add.assoc)
  then have "cstring (m(out + 1 + of_nat (length line) := 0)) (out + 1) line" using Cons.prems by (intro Cons.IH) auto
  moreover have "m out = x" using Cons.prems(1) by (auto dest: spec [of _ 0])
  moreover have "(1 + of_nat (length line) :: u32) \<noteq> 0"
  proof
    assume "(1 + of_nat (length line) :: u32) = 0"
    then have "unat (of_nat (Suc (length line)) :: u32) = 0" by simp
    then show False using Cons.prems(3) unat_of_nat_u32 [of "Suc (length line)"] by simp
  qed
  ultimately show ?case using Cons.prems(2) by (simp add: add.assoc fun_upd_def)
qed simp

lemma of_nat_u32_neq: "j < n \<Longrightarrow> n < 2 ^ 31 \<Longrightarrow> (of_nat j :: u32) \<noteq> of_nat n"
proof
  assume "j < n" "n < 2 ^ 31" "(of_nat j :: u32) = of_nat n"
  then have "unat (of_nat j :: u32) = unat (of_nat n :: u32)" by simp
  moreover have "j < 2 ^ 32" "n < 2 ^ 32" using \<open>j < n\<close> \<open>n < 2 ^ 31\<close> by simp_all
  ultimately show False using \<open>j < n\<close> by (simp only: unat_of_nat_u32)
qed

lemma readline_edits:
  assumes "typed f (getkeys (ucalls s)) ks" "0x0D \<in> set (map ucast ks :: u8 list)" "\<forall>k\<in>set ks. (ucast k :: u8) \<noteq> 0"
    and "keyboard_env (kernel_env s) f" "length line \<le> mx" "mx < 2 ^ 31"
    and "\<forall>j<length line. umem s (out + of_nat j) = line ! j" "\<forall>x\<in>set line. x \<noteq> 0"
    and "no_stray_backspace (length line) (map ucast ks)"
  shows "\<exists>s'. readline_loop s out (int mx + 1) echo (int (length line)) = Some s' \<and>
    cstring (umem s') out (edit_line mx line (map ucast ks)) \<and> kernel_env s' = kernel_env s"
  using assms
proof (induction ks arbitrary: s line rule: list.induct)
  case (Cons k ks)
  let ?c = "ucast k :: u8"
  show ?case
  proof (cases "length line = mx")
    case True
    then show ?thesis
      using line_byte [OF _ Cons.prems(7,8)] Cons.prems(6) by (simp add: readline_loop.simps [of s])
  next
    case False
    then have lt: "length line < mx" using Cons.prems(5) by simp
    obtain h where key: "enki_getkey_block s = Some (sint k, s\<lparr>ucalls := h\<rparr>)" and rest: "typed f (getkeys h) ks"
      using getkey_block_typed [OF Cons.prems(1) refl Cons.prems(4) refl] by blast
    define s1 where "s1 = s\<lparr>ucalls := h\<rparr>"
    define s2 where "s2 = (if echo then enki_putchar s1 ?c else s1)"
    have env: "kernel_env s1 = kernel_env s" "kernel_env s2 = kernel_env s" "umem s2 = umem s" "umem s1 = umem s"
      "getkeys (ucalls s2) = getkeys h"
      using Cons.prems(4) by (auto simp: s1_def s2_def enki_putchar_def int_80_def keyboard_env_def getkeys_def split_beta Let_def)
    have run: "readline_loop s out (int mx + 1) echo (int (length line)) =
      (if ?c = 0x0D then Some (s1\<lparr>umem := (umem s)(out + of_nat (length line) := 0)\<rparr>)
       else if ?c = 0x08 \<and> line \<noteq> [] then
         readline_loop (s2\<lparr>umem := (umem s)(out + word_of_int (int (length line) - 1) := 0)\<rparr>) out (int mx + 1) echo (int (length line) - 1)
       else readline_loop (s2\<lparr>umem := (umem s)(out + of_nat (length line) := ?c)\<rparr>) out (int mx + 1) echo (int (length line) + 1))"
      using readline_key [OF key [folded s1_def] _ key_char s2_def] lt by (simp add: env Suc_le_eq)
    consider "?c = 0x0D" | "?c \<noteq> 0x0D" "?c = 0x08 \<and> line \<noteq> []" | "?c \<noteq> 0x0D" "\<not> (?c = 0x08 \<and> line \<noteq> [])" by blast
    then show ?thesis
    proof cases
      case 1
      then show ?thesis using run lt line_byte [OF _ Cons.prems(7,8)] Cons.prems(6) env by simp
    next
      case 2
      then have len: "int (length line) - 1 = int (length (butlast line))" by (cases line) simp_all
      have ne: "(of_nat j :: u32) \<noteq> of_nat (length line) - 1" if "j < length line - Suc 0" for j
        using of_nat_u32_neq [of j "length line - Suc 0"] that 2 lt Cons.prems(6) by (cases line) simp_all
      have "\<exists>s'. readline_loop (s2\<lparr>umem := (umem s)(out + of_nat (length (butlast line)) := 0)\<rparr>) out (int mx + 1) echo
          (int (length (butlast line))) = Some s' \<and> cstring (umem s') out (edit_line mx (butlast line) (map ucast ks)) \<and>
          kernel_env s' = kernel_env (s2\<lparr>umem := (umem s)(out + of_nat (length (butlast line)) := 0)\<rparr>)"
        using Cons.prems 2 lt rest env
        by (intro Cons.IH) (auto simp: nth_butlast dest: in_set_butlastD ne)
      then show ?thesis using run 2 lt env unfolding len by simp
    next
      case 3
      then have stray: "?c \<noteq> 0x08" "no_stray_backspace (length (line @ [?c])) (map ucast ks)"
        using Cons.prems(9) by (auto split: if_splits)
      have "\<exists>s'. readline_loop (s2\<lparr>umem := (umem s)(out + of_nat (length line) := ?c)\<rparr>) out (int mx + 1) echo
          (int (length (line @ [?c]))) = Some s' \<and> cstring (umem s') out (edit_line mx (line @ [?c]) (map ucast ks)) \<and>
          kernel_env s' = kernel_env (s2\<lparr>umem := (umem s)(out + of_nat (length line) := ?c)\<rparr>)"
        using Cons.prems(2-8) 3 lt rest env stray
        by (intro Cons.IH) (auto simp: nth_append less_Suc_eq dest: of_nat_u32_neq)
      moreover have "edit_line mx line (map ucast (k # ks)) = edit_line mx (line @ [?c]) (map ucast ks)"
        using 3 lt stray(1) by auto
      ultimately show ?thesis using run 3 env by (auto simp: add.commute)
    qed
  qed
qed simp

section \<open>Properties\<close>

text \<open>
  C25: \<^verbatim>\<open>itoa\<close> returns, for every value of an \<^verbatim>\<open>int\<close>, a pointer into its static buffer of 12 bytes to the
  decimal text of the number, \<^verbatim>\<open>INT_MIN\<close> and 0 included, and writes nowhere else.
\<close>

theorem itoa_correct:
  "case itoa s (sint v) m of (p, m') \<Rightarrow>
     cstring m' p (decimal (sint (v :: u32))) \<and> dec_value (decimal (sint v)) = sint v \<and> unat (p - s) \<le> 10 \<and>
     (\<forall>a. unat (a - s) < 12 \<or> m' a = m a)"
proof -
  obtain p m' where run: "itoa s (sint v) m = (p, m')" by force
  have "0 < length (decimal (sint v))" using decimal_nonempty [of "sint v"] by blast
  then have "x + length (decimal (sint v)) = 11 \<Longrightarrow> x \<le> 10" for x by linarith
  then show ?thesis
    using dec_value_decimal [of "sint v"] itoa_decimal [OF _ _ run] sint_greater_eq [of v] sint_less [of v] run
    by (auto simp: not_less [symmetric] Suc_le_eq)
qed

lemma readline_line:
  assumes "typed f (getkeys (ucalls s)) ks" "0x0D \<in> set (map ucast ks :: u8 list)" "\<forall>k\<in>set ks. (ucast k :: u8) \<noteq> 0"
    and "keyboard_env (kernel_env s) f" "0 < max_len" "max_len \<le> 2 ^ 31" "no_stray_backspace 0 (map ucast ks)"
  shows "\<exists>s'. enki_tty_readline s out max_len echo = Some s' \<and>
    cstring (umem s') out (edit_line (nat (max_len - 1)) [] (map ucast ks))"
  using readline_edits [OF assms(1-4), of "[]" "nat (max_len - 1)" out echo] assms(5-7)
  by (auto simp: enki_tty_readline_def nat_less_iff)

end
