(* ===== verification/Userland_Kernel.thy ===== *)
theory Userland_Kernel
  imports Userland_Proofs Sched_Proofs
begin

unbundle bit_operations_syntax

text \<open>
  The user side on the keyboard of the kernel: the calls \<^verbatim>\<open>enki_getkey\<close> of a program are answered by the system call of the kernel
  model, from the buffer that the keyboard driver fills, and the line that a program reads is the line that was typed.
\<close>

section \<open>The kernel behind the calls\<close>

text \<open>
  A call of the program: the characters \<open>xs\<close> that the keyboard has delivered since the last call of \<^verbatim>\<open>enki_getkey\<close> go to the process in focus,
  then the kernel handles the call. \<^verbatim>\<open>enki_putchar\<close> writes to the screen what \<^verbatim>\<open>syscall_3_putchar\<close> has taken from the stack of the
  program. Other calls are not of interest here. The frame of the call does not matter: no register of it is read.
\<close>

definition kernel_call :: "'a terminator \<Rightarrow> u8 list \<Rightarrow> user_call \<Rightarrow> 'a kernel_state_scheme \<Rightarrow> u32 \<times> 'a kernel_state_scheme" where
  "kernel_call term xs c k =
     (let k1 = fold (\<lambda>x s. keyboard_push s x) xs k
      in case c of
           Enki_getkey \<Rightarrow> (case syscall_handler term k1 2 zero_registers of Some (Returned v, k2) \<Rightarrow> (v, k2) | _ \<Rightarrow> (0, k1))
         | Enki_putchar x \<Rightarrow> (0, tty_writechar k1 x 15)
         | _ \<Rightarrow> (0, k1))"

text \<open>\<open>kin n\<close> is what is typed before the \<open>n\<close>-th call of \<^verbatim>\<open>enki_getkey\<close>.\<close>

definition keys_before :: "(nat \<Rightarrow> u8 list) \<Rightarrow> user_call \<Rightarrow> user_call list \<Rightarrow> u8 list" where
  "keys_before kin c h = (if c = Enki_getkey then kin (getkeys h) else [])"

primrec kernel_after :: "'a terminator \<Rightarrow> (nat \<Rightarrow> u8 list) \<Rightarrow> 'a kernel_state_scheme \<Rightarrow> user_call list \<Rightarrow> 'a kernel_state_scheme" where
  "kernel_after term kin k [] = k"
| "kernel_after term kin k (c # h) = snd (kernel_call term (keys_before kin c h) c (kernel_after term kin k h))"

definition kernel_answers :: "'a terminator \<Rightarrow> (nat \<Rightarrow> u8 list) \<Rightarrow> 'a kernel_state_scheme \<Rightarrow> user_call list \<Rightarrow> memory \<Rightarrow> u32 \<times> memory" where
  "kernel_answers term kin k h m =
     (case h of [] \<Rightarrow> (0, m) | c # h' \<Rightarrow> (fst (kernel_call term (keys_before kin c h') c (kernel_after term kin k h')), m))"

text \<open>The characters that wait in the buffer before those of the \<open>n\<close>-th call come in, and the answer to that call.\<close>

primrec waiting :: "(nat \<Rightarrow> u8 list) \<Rightarrow> nat \<Rightarrow> u8 list" where
  "waiting kin 0 = []"
| "waiting kin (Suc n) = tl (waiting kin n @ kin n)"

definition answer :: "(nat \<Rightarrow> u8 list) \<Rightarrow> nat \<Rightarrow> u32" where
  "answer kin n = (case waiting kin n @ kin n of [] \<Rightarrow> 0 | x # _ \<Rightarrow> scast x)"

section \<open>The answers of the kernel\<close>

lemma save_state_procs:
  assumes "task_current_save_state s frame = Some s'"
  shows "procs s' = procs s" "process_current s' = process_current s" "task_current s' = task_current s" "syscalls s' = syscalls s" "mem s' = mem s"
    "\<And>t. task_process (tasks s' t) = task_process (tasks s t)"
  using assms by (auto simp: task_current_save_state_def task_save_state_def split: if_splits)

lemma keyboard_pop_keeps:
  "syscalls (snd (keyboard_pop s)) = syscalls s" "mem (snd (keyboard_pop s)) = mem s"
  by (simp_all add: keyboard_pop_def Let_def split_beta)

text \<open>The system call pops the buffer of the process in focus and changes no memory.\<close>

lemma getkey_call:
  fixes k :: "'a kernel_state_scheme"
  assumes "has_focus k proc" "syscalls k ! 2 = Some Syscall_2_getkey"
  shows "\<exists>k2. syscall_handler term k 2 frame = Some (Returned (scast (fst (kbuf_pop (keys_of k proc)))), k2) \<and> has_focus k2 proc \<and>
    keys_of k2 proc = snd (kbuf_pop (keys_of k proc)) \<and> syscalls k2 = syscalls k \<and> mem k2 = mem k"
proof -
  have pg: "syscalls (kernel_page k) = syscalls k" by (simp add: kernel_page_def kernel_registers_def paging_switch_def)
  have "task_current k \<noteq> 0" using assms(1) by (simp add: has_focus_def)
  then obtain k1 where k1: "task_current_save_state (kernel_page k) frame = Some k1" by (simp add: task_current_save_state_def)
  note f = save_state_procs [OF k1]
  have foc: "has_focus k1 proc" "keys_of k1 proc = keys_of k proc" using assms(1) f by (simp_all add: has_focus_def)
  let ?k2 = "task_page (snd (keyboard_pop k1))"
  note pop = keyboard_pop_keys [OF foc(1)]
  have "syscall_handler term k 2 frame = Some (Returned (scast (fst (keyboard_pop k1))), ?k2)"
    using assms(2) k1 f(4) pg by (simp add: syscall_handler_def syscall_invoke_def syscall_2_getkey_def config_simps split_beta)
  moreover have "has_focus ?k2 proc" "procs ?k2 = procs (snd (keyboard_pop k1))" "syscalls ?k2 = syscalls (snd (keyboard_pop k1))"
      "mem ?k2 = mem (snd (keyboard_pop k1))"
    using pop(1) by (simp_all add: has_focus_def task_page_def task_switch_def paging_switch_def user_registers_def)
  ultimately show ?thesis using pop(2,3) foc(2) f pg keyboard_pop_keeps [of k1] by simp
qed

lemma tty_keeps_keys:
  fixes k :: "'a kernel_state_scheme"
  shows "has_focus (tty_writechar k c col) proc = has_focus k proc" "procs (tty_writechar k c col) = procs k" "syscalls (tty_writechar k c col) = syscalls k"
proof -
  have "tty_state.more (tty_writechar k c col) = tty_state.more k"
    by (simp add: tty_writechar_def tty_newline_def tty_tab_def tty_backspace_def tty_emit_def tty_putchar_def Let_def eval_nat_numeral)
  then show "has_focus (tty_writechar k c col) proc = has_focus k proc" "procs (tty_writechar k c col) = procs k" "syscalls (tty_writechar k c col) = syscalls k"
    by (cases k; cases "tty_writechar k c col"; simp add: has_focus_def)+
qed

lemma push_keeps_calls: "syscalls (fold (\<lambda>x s. keyboard_push s x) xs k) = syscalls (k :: 'a kernel_state_scheme)"
  by (induction xs arbitrary: k) (simp_all add: keyboard_push_def Let_def)

text \<open>What holds of the kernel between the calls.\<close>

definition keys_ready :: "'a kernel_state_scheme \<Rightarrow> u32 \<Rightarrow> u8 list \<Rightarrow> bool" where
  "keys_ready k proc xs \<longleftrightarrow> has_focus k proc \<and> syscalls k ! 2 = Some Syscall_2_getkey \<and> kbuf_ok (keys_of k proc) \<and> kbuf_queue (keys_of k proc) = xs"

lemma kernel_call_getkey:
  assumes "keys_ready k proc ws" "\<forall>x\<in>set xs. x \<noteq> 0" "length (ws @ xs) \<le> 1024"
  shows "fst (kernel_call term xs Enki_getkey k) = (case ws @ xs of [] \<Rightarrow> 0 | x # _ \<Rightarrow> scast x)"
    "keys_ready (snd (kernel_call term xs Enki_getkey k)) proc (tl (ws @ xs))"
proof -
  let ?k1 = "fold (\<lambda>x s. keyboard_push s x) xs k"
  note r = assms(1) [unfolded keys_ready_def]
  have nz: "list_all (\<lambda>c. c \<noteq> 0) xs" using assms(2) by (simp add: list_all_iff)
  have k1: "has_focus ?k1 proc" "keys_of ?k1 proc = fold kbuf_push xs (keys_of k proc)" using push_keys [OF _ nz, of k proc] r by blast+
  have ok: "kbuf_ok (keys_of ?k1 proc)" "kbuf_queue (keys_of ?k1 proc) = ws @ xs" using kq.push_all [OF _ nz] r k1(2) assms(3) by simp_all
  obtain k2 where k2: "syscall_handler term ?k1 2 zero_registers = Some (Returned (scast (fst (kbuf_pop (keys_of ?k1 proc)))), k2)"
    "has_focus k2 proc" "keys_of k2 proc = snd (kbuf_pop (keys_of ?k1 proc))" "syscalls k2 = syscalls ?k1"
    using getkey_call [OF k1(1)] r by (auto simp: push_keeps_calls)
  have call: "kernel_call term xs Enki_getkey k = (scast (fst (kbuf_pop (keys_of ?k1 proc))), k2)" by (simp add: kernel_call_def k2(1))
  have pop: "fst (kbuf_pop (keys_of ?k1 proc)) = (case ws @ xs of [] \<Rightarrow> 0 | x # _ \<Rightarrow> x) \<and>
      kbuf_ok (keys_of k2 proc) \<and> kbuf_queue (keys_of k2 proc) = tl (ws @ xs)"
    using kbuf_pop_nil [OF ok(1)] kbuf_pop_cons [OF ok(1)] ok k2(3) by (cases "ws @ xs") auto
  then show "fst (kernel_call term xs Enki_getkey k) = (case ws @ xs of [] \<Rightarrow> 0 | x # _ \<Rightarrow> scast x)"
    by (simp add: call split: list.split)
  show "keys_ready (snd (kernel_call term xs Enki_getkey k)) proc (tl (ws @ xs))"
    using pop k2(2,4) r by (simp add: call keys_ready_def push_keeps_calls)
qed

lemma kernel_after_ready:
  assumes "keys_ready k proc []" "\<forall>n. \<forall>x\<in>set (kin n). x \<noteq> 0" "\<forall>n. length (waiting kin n @ kin n) \<le> 1024"
  shows "keys_ready (kernel_after term kin k h) proc (waiting kin (getkeys h))"
proof (induction h)
  case Nil
  then show ?case using assms(1) by (simp add: getkeys_def)
next
  case (Cons c h)
  show ?case
  proof (cases "c = Enki_getkey")
    case True
    then show ?thesis
      using kernel_call_getkey(2) [OF Cons.IH, of "kin (getkeys h)" "term"] assms(2,3) by (simp add: keys_before_def getkeys_def)
  next
    case False
    then have "keys_ready (kernel_after term kin k (c # h)) proc (waiting kin (getkeys h))"
      using Cons.IH by (cases c) (simp_all add: keys_before_def kernel_call_def keys_ready_def tty_keeps_keys)
    then show ?thesis using False by (simp add: getkeys_def)
  qed
qed

text \<open>The kernel is a keyboard for the program, as \<open>keyboard_env\<close> asks for.\<close>

lemma kernel_keyboard_env:
  assumes "keys_ready k proc []" "\<forall>n. \<forall>x\<in>set (kin n). x \<noteq> 0" "\<forall>n. length (waiting kin n @ kin n) \<le> 1024"
  shows "keyboard_env (kernel_answers term kin k) (answer kin)"
  using kernel_call_getkey(1) [OF kernel_after_ready [OF assms]] assms(2,3)
  by (simp add: keyboard_env_def kernel_answers_def keys_before_def answer_def)

lemma char_word: "(ucast (scast (x :: u8) :: u32) :: u8) = x"
  by (rule bit_word_eqI) (simp add: bit_unsigned_iff bit_signed_iff)

lemma char_word_zero: "(scast (x :: u8) :: u32) = 0 \<longleftrightarrow> x = 0"
  using char_word [of x] by auto

text \<open>All that is typed is delivered, in order.\<close>

abbreviation upcoming :: "(nat \<Rightarrow> u8 list) \<Rightarrow> nat \<Rightarrow> nat \<Rightarrow> u8 list" where
  "upcoming kin N n \<equiv> concat (map kin [n..<N])"

lemma typed_all:
  assumes "\<forall>n. \<forall>x\<in>set (kin n). x \<noteq> 0" "\<forall>n\<ge>N. kin n = []"
  shows "\<forall>x\<in>set (waiting kin n). x \<noteq> 0 \<Longrightarrow> typed (answer kin) n (map scast (waiting kin n @ upcoming kin N n))"
proof (induction "length (waiting kin n @ upcoming kin N n) + (N - n)" arbitrary: n rule: less_induct)
  case less
  let ?q = "waiting kin n @ kin n"
  have q: "waiting kin n @ upcoming kin N n = ?q @ upcoming kin N (Suc n)"
    using assms(2) by (cases "n < N") (simp_all add: upt_conv_Cons)
  have nz: "\<forall>x\<in>set ?q. x \<noteq> 0" using less.prems assms(1) by auto
  show ?case
  proof (cases ?q)
    case Nil
    then have w: "waiting kin (Suc n) = []" by (simp only: waiting.simps list.sel)
    show ?thesis
    proof (cases "n < N")
      case True
      then have "length (waiting kin (Suc n) @ upcoming kin N (Suc n)) + (N - Suc n) < length (waiting kin n @ upcoming kin N n) + (N - n)"
        unfolding q w Nil by simp
      from less.hyps [OF this] have "typed (answer kin) (Suc n) (map scast (upcoming kin N (Suc n)))" unfolding w by simp
      moreover have "answer kin n = 0" by (simp only: answer_def Nil list.case)
      ultimately show ?thesis unfolding q Nil append_Nil by (rule typed_wait [rotated])
    next
      case False
      then show ?thesis unfolding q Nil by (simp add: typed_nil)
    qed
  next
    case (Cons x xs)
    then have w: "waiting kin (Suc n) = xs" by (simp only: waiting.simps list.sel)
    have "length (waiting kin (Suc n) @ upcoming kin N (Suc n)) + (N - Suc n) < length (waiting kin n @ upcoming kin N n) + (N - n)"
      unfolding q w Cons by (simp only: append_Cons list.size length_append)
    from less.hyps [OF this] have "typed (answer kin) (Suc n) (map scast (xs @ upcoming kin N (Suc n)))" using nz unfolding w Cons by simp
    moreover have a: "answer kin n = scast x" by (simp only: answer_def Cons list.case)
    moreover have "answer kin n \<noteq> 0" using nz unfolding a char_word_zero Cons by simp
    ultimately show ?thesis unfolding q Cons using typed_key [of "answer kin" n] by simp
  qed
qed

section \<open>Properties\<close>

text \<open>
  C24: \<^verbatim>\<open>enki_tty_readline\<close> is a line editor: a program that has the keyboard reads what is typed, in whatever portions it arrives between
  the calls of \<^verbatim>\<open>enki_getkey\<close>. When a carriage return is typed, no more than 1024 characters wait in the buffer of the kernel at a
  time, and no backspace is typed on an empty line, it returns, and the buffer holds the terminated line that editing the
  keys gives, cut at \<^verbatim>\<open>max - 1\<close> characters, whether or not the keys are echoed. A backspace on an empty line is excluded
  because the code stores it as a character of the line.
\<close>

theorem readline_is_line_editor:
  assumes "kernel_env s = kernel_answers term kin k" "ucalls s = []" "keys_ready k proc []"
    and "\<forall>n. length (waiting kin n @ kin n) \<le> 1024" "\<forall>n\<ge>N. kin n = []" "keys = concat (map kin [0..<N])"
    and "0 \<notin> set keys" "0x0D \<in> set keys" "no_stray_backspace 0 keys" "0 < max_len" "max_len \<le> 2 ^ 31"
  shows "\<exists>s'. enki_tty_readline s out max_len echo = Some s' \<and> cstring (umem s') out (edit_line (nat (max_len - 1)) [] keys)"
proof -
  have nz: "\<forall>n. \<forall>x\<in>set (kin n). x \<noteq> 0"
  proof (intro allI ballI notI)
    fix n x assume x: "x \<in> set (kin n)" "x = 0"
    then have "n < N" using assms(5) by (metis empty_iff list.set(1) not_less)
    then show False using x assms(6,7) by auto
  qed
  let ?ks = "map scast keys :: u32 list"
  have uc: "map ucast ?ks = keys" by (simp add: o_def char_word)
  have "typed (answer kin) (getkeys (ucalls s)) ?ks"
    using typed_all [OF nz assms(5), of 0] assms(2,6) by (simp add: getkeys_def)
  moreover have "keyboard_env (kernel_env s) (answer kin)" unfolding assms(1) by (rule kernel_keyboard_env [OF assms(3) nz assms(4)])
  moreover have "\<forall>x\<in>set ?ks. (ucast x :: u8) \<noteq> 0" using assms(7) by (auto simp: char_word)
  ultimately show ?thesis using readline_line [of "answer kin" s ?ks max_len out echo] assms(8-11) unfolding uc by blast
qed

text \<open>The keys l, x, backspace, s and carriage return arrive in three portions, one of them late.\<close>

definition demo_typing :: "nat \<Rightarrow> u8 list" where
  "demo_typing n = (if n = 0 then [0x6C, 0x78] else if n = 4 then [0x08, 0x73] else if n = 7 then [0x0D] else [])"

definition demo_console :: kernel_state where
  "demo_console = demo_kernel\<lparr>syscalls := (replicate 256 None)[2 := Some Syscall_2_getkey], procs := (\<lambda>_. zero_process),
     tasks := (\<lambda>_. zero_task\<lparr>task_process := 0x01001000\<rparr>), process_current := 0x01001000\<rparr>"

definition demo_reader :: user where
  "demo_reader = \<lparr>umem = (\<lambda>_. 0), ucalls = [], kernel_env = kernel_answers (process_terminate 1) demo_typing demo_console, strtok_last = 0,
     itoa_buf = 0x8000, stk_scmd = 0x9000, stk_run = 0xA000, stk_line = 0xB000, stk_pargs = 0xC000, lit_space = 0xD000, lit_echo = 0xD010,
     lit_echo_fmt = 0xD020, lit_prompt = 0xD030, lit_newline = 0xD040\<rparr>"

lemma demo_waiting: "length (waiting demo_typing n) \<le> 5"
proof -
  have "n < 9 \<or> waiting demo_typing n = []"
  proof (induction n)
    case (Suc n)
    then show ?case by (cases "n = 8") (auto simp: demo_typing_def eval_nat_numeral)
  qed simp
  moreover have "length (waiting demo_typing n) \<le> 5" if "n < 9"
    using that by (auto simp: less_Suc_eq eval_nat_numeral demo_typing_def)
  ultimately show ?thesis by fastforce
qed

theorem readline_is_line_editor_witness:
  "\<exists>s'. enki_tty_readline demo_reader 0xB000 1024 True = Some s' \<and> cstring (umem s') 0xB000 [0x6C, 0x73]"
proof -
  have "keys_ready demo_console 0x01001000 []"
    using demo_kernel_tasks(3) zero_process_keys by (simp add: keys_ready_def has_focus_def demo_console_def)
  moreover have "length (waiting demo_typing n @ demo_typing n) \<le> 1024" for n
    using demo_waiting [of n] by (auto simp: demo_typing_def)
  moreover have "concat (map demo_typing [0..<8]) = [0x6C, 0x78, 0x08, 0x73, 0x0D]" by (simp add: demo_typing_def upt_rec)
  ultimately show ?thesis
    using readline_is_line_editor [of demo_reader "process_terminate 1" demo_typing demo_console "0x01001000" 8 "[0x6C, 0x78, 0x08, 0x73, 0x0D]" 1024 "0xB000" True]
    by (simp add: demo_reader_def demo_typing_def)
qed

end
