(* ===== verification/Spec2Isabelle.thy ===== *)
theory Spec2Isabelle
  imports User_Copy Process_Args Kheap_Life Userland_Kernel
begin

text \<open>
  A verification of the Enki kernel, its C library and its user programs.

  \<^bold>\<open>The program.\<close> Enki (\<^verbatim>\<open>src/\<close>) is a 32-bit x86 kernel with one address space per process. \<^verbatim>\<open>kernel_main\<close> sets up the
  terminal, the segment descriptors, the kernel heap, the file system on the first disk, the interrupt table and
  paging, registers the system calls and the keyboard, loads the shell from the disk and enters it. From then on
  the kernel runs only in interrupts: the clock switches to the next task of a list, the keyboard puts a
  character into the buffer of the process in focus, interrupt \<^verbatim>\<open>0x80\<close> is a system call. Programs are linked with
  a small C library whose calls end in those system calls.

  \<^bold>\<open>The model.\<close> Memory is one function from 32-bit addresses to bytes (\<open>memory\<close>); what the code keeps in
  structures that it only uses through typed pointers (paths, streams, file descriptors, tasks, processes) is a
  map from the address of the structure to a record. Each component extends the state record of the one below
  it, in the order in which they call each other: \<open>machine\<close> (memory, ports, segment registers), \<open>tty_state\<close>,
  \<open>kheap_state\<close>, \<open>paging_state\<close>, \<open>path_state\<close>, \<open>disk_state\<close>, \<open>fat_state\<close>, \<open>file_state\<close>, \<open>elf_state\<close>, \<open>task_state\<close>,
  \<open>proc_state\<close>, \<open>idt_state\<close>, \<open>kbd_state\<close> and \<open>kernel_state\<close>. An operation takes the state and returns it changed. Pointers
  and unsigned numbers are words of their width; a C \<^verbatim>\<open>int\<close> is an \<open>int\<close>, converted where the code converts it. A
  loop that need not end is a \<open>partial_function\<close> into \<open>option\<close>. \<open>None\<close> stands for not returning: an endless loop, a
  panic (which prints and then loops) or behaviour that C leaves undefined. Whether a handler returns or enters
  user mode through \<^verbatim>\<open>task_return\<close> is a value of the type \<open>outcome\<close>.

  \<^bold>\<open>Structures outside the byte memory.\<close> On the machine the records live in memory too, as do the variables of the kernel and the
  block table of the heap, which \<^verbatim>\<open>kheap_init\<close> clears at \<^verbatim>\<open>0x7E00\<close>. A write to their bytes does not show in the model, so a statement
  about arbitrary writes has to keep them out: \<open>heap_table_bytes\<close> in \<open>Kheap_Life\<close>, and in the runs of \<open>Kernel_Proofs\<close> the condition \<open>contained\<close>,
  which asks of every step, a user write or a handler, that it leaves these bytes alone whatever they hold. It is a real condition: the kernel
  does not check the pointer that a program passes with the system call for its arguments, and text below the last
  row of the screen is written behind it.

  \<^bold>\<open>Theories.\<close>
  \<^item> \<open>Enki_Prelude\<close>: words, bytes and little-endian access, status codes, shared lemmas and collections.
  \<^item> \<open>Alloc_Interface\<close>: the locales \<open>block_allocator\<close> and \<open>region_allocator\<close>, what a client may assume of an
    allocator. \<open>Fifo_Interface\<close>: the locale \<open>fifo_buffer\<close>, a bounded queue.
  \<^item> \<open>Heap_Model\<close>, \<open>Heap_Proofs\<close>: \<^verbatim>\<open>kernel/memory/heap.c\<close>. The block table refines a set of disjoint allocations;
    first fit, exhaustion, the overrun of the table and the wrap-around of sizes. Interprets the allocator locales.
  \<^item> \<open>Libc_String\<close>: \<^verbatim>\<open>libc/string/string.c\<close>, with the copying functions proved and the two functions that never advance.
  \<^item> \<open>Machine\<close>, \<open>Tty_Model\<close>, \<open>Tty_Proofs\<close>: ports, \<^verbatim>\<open>tty.c\<close>, \<^verbatim>\<open>vga.h\<close>, \<^verbatim>\<open>cursor.c\<close>, \<^verbatim>\<open>panic.c\<close>; where characters land on the screen.
  \<^item> \<open>Kheap_Model\<close>: \<^verbatim>\<open>kheap.c\<close>; interprets the allocator locales again for \<open>kmalloc\<close> and \<open>kzalloc\<close>. \<open>Kheap_Life\<close>: every heap that
    can be reached from \<^verbatim>\<open>kheap_init\<close> is well formed and balanced.
  \<^item> \<open>Paging_Model\<close>, \<open>Paging_Proofs\<close>, \<open>Paging_Life\<close>: \<^verbatim>\<open>paging.c\<close>; indices, lookup after update, mapped ranges and the
    translation through them, creation and release of a directory.
  \<^item> \<open>Path_Model\<close>, \<open>Path_Proofs\<close>: \<^verbatim>\<open>fs/path.c\<close>; parsing against a reference splitter, release, rejected paths.
  \<^item> \<open>Disk_Model\<close>, \<open>Disk_Proofs\<close>: \<^verbatim>\<open>disk/disk.c\<close> and \<^verbatim>\<open>disk_stream.c\<close>; a stream read delivers the bytes of the disk image. The
    image is given by what the data port returns, and the assumption on the ports is that the drive gets ready
    and returns the words of the sector that was asked for.
  \<^item> \<open>Fat16_Model\<close>, \<open>File_Model\<close>, \<open>Elf_Model\<close>: \<^verbatim>\<open>fs/fat16.c\<close>, \<^verbatim>\<open>fs/file.c\<close>, \<^verbatim>\<open>elf/\<close>. \<open>Fat16_Proofs\<close>: \<^verbatim>\<open>fread\<close> delivers the bytes of the
    cluster chain of a file. \<open>File_Proofs\<close>: short names and the table of file descriptors. \<open>Fat16_Mount\<close>: \<^verbatim>\<open>fs_init\<close> and
    \<^verbatim>\<open>disk_search_and_init\<close> mount a FAT16 volume, or leave the disk without a file system. \<open>Fat16_Open\<close>: \<^verbatim>\<open>fopen\<close> finds a file of the root
    directory by its path, with \<^verbatim>\<open>fread\<close> delivers its bytes, and \<^verbatim>\<open>fclose\<close> gives back what belongs to the open file; the witness
    boots a volume and reads a file from it. \<open>Elf_Proofs\<close>: \<^verbatim>\<open>elf_load\<close> of a program on the disk, and of a file that is none.
  \<^item> \<open>Task_Model\<close>, \<open>Process_Model\<close>: \<^verbatim>\<open>task/task.c\<close>, \<^verbatim>\<open>task/process.c\<close>. \<open>Process_Proofs\<close>: the memory of a process, where heap, page
    directory and allocation table agree. \<open>Process_Args\<close>: how the arguments of a program reach its memory. \<open>Process_Load\<close>:
    \<^verbatim>\<open>process_load\<close> from the path of a program to a task that sees the segments of its file at their virtual addresses.
  \<^item> \<open>Idt_Model\<close>, \<open>Gdt_Model\<close>, \<open>Keyboard_Model\<close>: \<^verbatim>\<open>idt.c\<close>, \<^verbatim>\<open>gdt.c\<close>, \<^verbatim>\<open>keyboard.c\<close> and \<^verbatim>\<open>ps2.c\<close> with their properties; the keyboard
    buffer interprets \<open>fifo_buffer\<close>.
  \<^item> \<open>Syscall_Model\<close>, \<open>Sched_Proofs\<close>: \<^verbatim>\<open>syscall.c\<close>, the dispatch of interrupts and \<^verbatim>\<open>kernel.c\<close>; the task list as a doubly linked
    list and the effect of a clock interrupt. \<open>Kernel_Proofs\<close>: the kernel and the writes of the programs as a state
    machine (\<open>kernel_step\<close>, \<open>contained\<close>, \<open>kernel_run\<close>) whose invariant says how user mode is resumed and in which every task gets
    its turn, and the dispatch of system calls.
  \<^item> \<open>Boot_Proofs\<close>: \<^verbatim>\<open>kernel_main\<close> step by step, from the state the boot loader leaves (\<open>power_on\<close>) and a disk image with the shell
    (\<open>shell_disk\<close>) to the first instruction of the shell. This theory adds that the invariant of the kernel holds from then on.
  \<^item> \<open>User_Copy\<close>: \<^verbatim>\<open>copy_str_from_task\<close>, which reads a string through the page directory of a task while a page of the kernel is
    mapped into it, and the print system call from the stack of the task to the cells of the screen.
  \<^item> \<open>Userland_Model\<close>, \<open>Userland_Proofs\<close>: \<^verbatim>\<open>libc/stdlib\<close>, \<^verbatim>\<open>libc/stdio\<close>, \<^verbatim>\<open>libc/enki\<close>, \<^verbatim>\<open>libc/start.c\<close> and \<^verbatim>\<open>programs/\<close>; decimal output and the
    line editor. The kernel is a parameter of the user side: the result of a system call is a function of the
    calls made before. \<open>Userland_Kernel\<close> puts the kernel model behind the calls: the keys that a program reads come through the
    system call from the buffer that the keyboard driver fills.

  \<^bold>\<open>Bounds and fuel.\<close> Loading and terminating a process call each other (\<^verbatim>\<open>process_terminate\<close> starts a shell when no
  process is left, and loading one may fail and terminate it), which carries a fuel argument; the depth needed
  is the number of failed loads in a row. \<open>shell_rounds\<close> runs a given number of rounds of the endless loop of the
  shell. All other loops are structural, have a measure, or are partial functions.

  \<^bold>\<open>Not modelled.\<close> The boot loader and the assembly stubs of interrupts and system calls (the frame they push is an
  argument of the handlers), the real-mode set-up in \<^verbatim>\<open>kernel.asm\<close>, the assembly test program and the build. Of
  the other assembly routines the effect on the modelled state is. Timing and interrupts that arrive inside the
  kernel are not modelled: the kernel runs with interrupts off until it returns to user mode. Local variables whose address is
  taken have an address in the state, but the stack itself and its overflow are not modelled, nor are page faults: an address is
  translated whatever the flags of its page, except in the writes of a program (\<open>user_writable\<close>). The flags of the processor are a field that the
  kernel only reads in \<^verbatim>\<open>task_return\<close>; what they are after an entry into the kernel is left open.
\<close>

section \<open>The system as a whole\<close>

text \<open>
  C2: from power-on to every later moment: \<^verbatim>\<open>kernel_main\<close> on a machine whose disk holds the shell enters user mode, and after any
  writes of the shell to its memory, interrupts and system calls that follow, short of exceptions and of starting or
  ending a process and as long as no step writes over the structures of the kernel (\<open>contained\<close>), the kernel has handed the
  processor back in good order: the shell is the current task, its own page directory and the user segments are
  loaded. The clock, and nothing else, reaches the scheduler.
\<close>

theorem booted_kernel_stays_in_order:
  assumes "power_on s w" "ata_drive (bus s) img n" "shell_disk img n k w i cl sz"
  shows "\<exists>task proc r s0. let owner = (\<lambda>_. (page_dir (tasks s0 task), proc)) in
    kernel_main term s = Some (User_mode r, s0) \<and> ip r = e_entry (file_mem (disk_volume img n) cl) 0 \<and> clock_alone s0 \<and>
    (\<forall>K D es s'. kernel_run term K D s0 es s' \<and> (\<forall>e\<in>set es. quiet_event e) \<and> structure_bytes [task] owner \<subseteq> K \<and>
       directory_bytes [task] owner s0 \<subseteq> D \<longrightarrow> task_current s' = task \<and> user_ready [task] owner s')"
proof -
  obtain task proc s0 where b: "kernel_main term s = Some (User_mode ((regs (tasks s0 task))\<lparr>eflags := flags_reg s0 OR 0x200\<rparr>), s0)"
    "runs_image s0 task (file_mem (disk_volume img n) cl)" "user_ready [task] (\<lambda>_. (page_dir (tasks s0 task), proc)) s0" "tables_ready s0"
    using kernel_main_boots [OF assms, of "term"] by blast
  let ?o = "\<lambda>_. (page_dir (tasks s0 task), proc)"
  have "task_current s' = task \<and> user_ready [task] ?o s'"
    if "kernel_run term K D s0 es s'" "\<forall>e\<in>set es. quiet_event e" "directory_bytes [task] ?o s0 \<subseteq> D" for K D es s'
  proof -
    have "user_ready [task] ?o s'" using kernel_run_ready [OF that(1) b(3) that(3,2)] by simp
    then show ?thesis by (simp add: user_ready_def sched_ok_def)
  qed
  moreover have "clock_alone s0" using b(4) by (simp add: tables_ready_def)
  ultimately show ?thesis using b(1,2) unfolding runs_image_def Let_def
    by (intro exI [of _ task] exI [of _ proc] exI [of _ "(regs (tasks s0 task))\<lparr>eflags := flags_reg s0 OR 0x200\<rparr>"] exI [of _ s0]) auto
qed

theorem booted_kernel_stays_in_order_witness:
  "\<exists>task proc r s0 K D s'. kernel_main (process_terminate 1) demo_power = Some (User_mode r, s0) \<and>
    structure_bytes [task] (\<lambda>_. (page_dir (tasks s0 task), proc)) \<subseteq> K \<and>
    kernel_run (process_terminate 1) K D s0 [Interrupt 0x20 (zero_registers\<lparr>ss := 0x23\<rparr>)] s' \<and> task_current s' = task \<and>
    user_ready [task] (\<lambda>_. (page_dir (tasks s0 task), proc)) s'"
proof -
  let ?t = "process_terminate 1 :: unit terminator" and ?f = "zero_registers\<lparr>ss := 0x23\<rparr>"
  obtain task proc r s0 where b: "kernel_main ?t demo_power = Some (User_mode r, s0)" "clock_alone s0"
    and inv: "\<And>K D es s'. kernel_run ?t K D s0 es s' \<Longrightarrow> \<forall>e\<in>set es. quiet_event e \<Longrightarrow>
       structure_bytes [task] (\<lambda>_. (page_dir (tasks s0 task), proc)) \<subseteq> K \<Longrightarrow>
       directory_bytes [task] (\<lambda>_. (page_dir (tasks s0 task), proc)) s0 \<subseteq> D \<Longrightarrow>
       task_current s' = task \<and> user_ready [task] (\<lambda>_. (page_dir (tasks s0 task), proc)) s'"
    using booted_kernel_stays_in_order [OF demo_power_on demo_power_drive demo_shell_disk, of ?t] unfolding Let_def by metis
  let ?o = "\<lambda>_ :: u32. (page_dir (tasks s0 task), proc)"
  let ?K = "structure_bytes [task] ?o" and ?D = "directory_bytes [task] ?o s0"
  have start: "task_current s0 = task" "user_ready [task] ?o s0" using inv [OF run_start, of ?K ?D] by simp_all
  then have clk: "clock_ready s0 [task]" "task_current s0 \<in> set [task]"
    using b(2) by (simp_all add: clock_ready_def clock_alone_def user_ready_def sched_ok_def)
  obtain out s' where "interrupt_handler ?t s0 0x20 ?f = Some (out, s')" using clock_tick [OF clk(1), of 0 ?t ?f] start(1) by auto
  then have "kernel_step ?t s0 (Interrupt 0x20 ?f) s'" using step_interrupt [where s = s0 and fl = "flags_reg s0"] by fastforce
  then have run: "kernel_run ?t ?K ?D s0 [Interrupt 0x20 ?f] s'" using run_step [OF run_start interrupt_contained [OF start(2)]] by fastforce
  show ?thesis using b(1) run inv [OF run] by (intro exI [of _ task] exI [of _ proc] exI [of _ r] exI [of _ s0] exI [of _ ?K] exI [of _ ?D] exI [of _ s']) simp
qed

end
